(* ===== verification/Prelude.thy ===== *)
theory Prelude
  imports Main "HOL-Library.Word"
begin

unbundle bit_operations_syntax

section \<open>Prelude: machine integers, byte strings and results\<close>

text \<open>
  Shared vocabulary of the development. Rust's unsigned integers are words of their width
  (\<open>u8\<close> .. \<open>u64\<close>); \<open>usize\<close> lengths and indices are natural numbers, since every one of them
  in the program is bounded by an array of at most 2048 bytes. A Rust \<open>Result\<close> is a sum with
  the error on the left and \<open>?\<close> is \<open>and_then\<close>. Arrays and slices are lists; an array of
  fixed size carries its length as a side condition where a theorem needs it.
  The collection \<open>wire\<close> gathers the facts that compute with bytes, \<open>arith_ops\<close> the ones
  that turn checked and saturating arithmetic into facts about natural numbers.
\<close>

named_theorems wire "bytes, little-endian integers and checksums"
named_theorems arith_ops "checked and saturating arithmetic read as natural numbers"

type_synonym u8 = "8 word"
type_synonym u16 = "16 word"
type_synonym u32 = "32 word"
type_synonym u64 = "64 word"
type_synonym bytes = "u8 list"

subsection \<open>Results\<close>

definition and_then :: "'e + 'a \<Rightarrow> ('a \<Rightarrow> 'e + 'b) \<Rightarrow> 'e + 'b" where
  "and_then r f = (case r of Inl e \<Rightarrow> Inl e | Inr x \<Rightarrow> f x)"

definition ok_or :: "'a option \<Rightarrow> 'e \<Rightarrow> 'e + 'a" where
  "ok_or v e = (case v of None \<Rightarrow> Inl e | Some x \<Rightarrow> Inr x)"

definition is_ok :: "'e + 'a \<Rightarrow> bool" where
  "is_ok r = (case r of Inl _ \<Rightarrow> False | Inr _ \<Rightarrow> True)"

definition ensure :: "bool \<Rightarrow> 'e \<Rightarrow> 'e + unit" where
  "ensure b e = (if b then Inr () else Inl e)"

lemma and_then_simps [simp]:
  "and_then (Inl e) f = Inl e"
  "and_then (Inr x) f = f x"
  by (simp_all add: and_then_def)

lemma and_then_eq_Inr [simp]:
  "and_then r f = Inr y \<longleftrightarrow> (\<exists>x. r = Inr x \<and> f x = Inr y)"
  by (cases r) auto

lemma and_then_eq_Inl:
  "and_then r f = Inl e \<longleftrightarrow> r = Inl e \<or> (\<exists>x. r = Inr x \<and> f x = Inl e)"
  by (cases r) auto

lemma ok_or_simps [simp]:
  "ok_or None e = Inl e"
  "ok_or (Some x) e = Inr x"
  by (simp_all add: ok_or_def)

lemma ok_or_eq_Inr [simp]: "ok_or v e = Inr x \<longleftrightarrow> v = Some x"
  by (cases v) auto

lemma ensure_eq_Inr [simp]: "ensure b e = Inr u \<longleftrightarrow> b"
  by (simp add: ensure_def)

lemma ensure_eq_Inl [simp]: "ensure b e = Inl e' \<longleftrightarrow> \<not> b \<and> e' = e"
  by (auto simp: ensure_def)

lemma ensure_True [simp]: "ensure True e = Inr ()"
  by (simp add: ensure_def)

lemma is_ok_simps [simp]: "is_ok (Inr x)" "\<not> is_ok (Inl e)"
  by (simp_all add: is_ok_def)

lemma is_ok_iff: "is_ok r \<longleftrightarrow> (\<exists>x. r = Inr x)"
  by (cases r) auto

subsection \<open>Checked, saturating and wrapping arithmetic\<close>

definition checked_add :: "'a::len word \<Rightarrow> 'a word \<Rightarrow> 'a word option" where
  "checked_add a b = (if unat a + unat b < 2 ^ LENGTH('a) then Some (a + b) else None)"

definition checked_sub :: "'a::len word \<Rightarrow> 'a word \<Rightarrow> 'a word option" where
  "checked_sub a b = (if b \<le> a then Some (a - b) else None)"

definition checked_mul :: "'a::len word \<Rightarrow> 'a word \<Rightarrow> 'a word option" where
  "checked_mul a b = (if unat a * unat b < 2 ^ LENGTH('a) then Some (a * b) else None)"

definition saturating_add :: "'a::len word \<Rightarrow> 'a word \<Rightarrow> 'a word" where
  "saturating_add a b = (if unat a + unat b < 2 ^ LENGTH('a) then a + b else - 1)"

definition saturating_sub :: "'a::len word \<Rightarrow> 'a word \<Rightarrow> 'a word" where
  "saturating_sub a b = (if b \<le> a then a - b else 0)"

lemma unat_add_no_overflow:
  fixes a b :: "'a::len word"
  shows "unat a + unat b < 2 ^ LENGTH('a) \<Longrightarrow> unat (a + b) = unat a + unat b"
  by (simp add: unat_word_ariths)

lemma unat_mult_no_overflow:
  fixes a b :: "'a::len word"
  shows "unat a * unat b < 2 ^ LENGTH('a) \<Longrightarrow> unat (a * b) = unat a * unat b"
  by (simp add: unat_word_ariths)

lemma unat_below [simp]: "unat (w :: 'a::len word) < 2 ^ LENGTH('a)"
  by (rule unsigned_less)

lemma checked_add_Some [arith_ops]:
  fixes a b :: "'a::len word"
  shows "checked_add a b = Some c \<longleftrightarrow> unat c = unat a + unat b"
  by (metis checked_add_def option.distinct(1) option.inject unat_add_no_overflow unat_below
      word_unat_eq_iff)

lemma checked_add_None [arith_ops]:
  fixes a b :: "'a::len word"
  shows "checked_add a b = None \<longleftrightarrow> 2 ^ LENGTH('a) \<le> unat a + unat b"
  by (simp add: checked_add_def not_less)

lemma checked_mul_Some [arith_ops]:
  fixes a b :: "'a::len word"
  shows "checked_mul a b = Some c \<longleftrightarrow> unat c = unat a * unat b"
  by (metis checked_mul_def option.distinct(1) option.inject unat_mult_no_overflow unat_below
      word_unat_eq_iff)

lemma checked_mul_None [arith_ops]:
  fixes a b :: "'a::len word"
  shows "checked_mul a b = None \<longleftrightarrow> 2 ^ LENGTH('a) \<le> unat a * unat b"
  by (simp add: checked_mul_def not_less)

lemma unat_diff_le:
  fixes a b :: "'a::len word"
  shows "b \<le> a \<Longrightarrow> unat (a - b) = unat a - unat b"
  by (simp add: unat_sub)

lemma checked_sub_Some [arith_ops]:
  fixes a b :: "'a::len word"
  shows "checked_sub a b = Some c \<longleftrightarrow> unat a = unat c + unat b"
proof
  assume "checked_sub a b = Some c"
  then have "b \<le> a" and "c = a - b" by (auto simp: checked_sub_def split: if_splits)
  then show "unat a = unat c + unat b" by (simp add: unat_sub word_le_nat_alt)
next
  assume *: "unat a = unat c + unat b"
  then have le: "b \<le> a" by (simp add: word_le_nat_alt)
  then have "unat (a - b) = unat c" using * by (simp add: unat_sub)
  with le show "checked_sub a b = Some c" by (simp add: checked_sub_def word_unat_eq_iff)
qed

lemma unat_saturating_add [arith_ops]:
  fixes a b :: "'a::len word"
  shows "unat (saturating_add a b) = min (unat a + unat b) (2 ^ LENGTH('a) - 1)"
  by (auto simp: saturating_add_def unat_add_no_overflow unsigned_minus_1_eq_mask
      mask_eq_exp_minus_1 not_less)

lemma unat_saturating_sub [arith_ops]:
  fixes a b :: "'a::len word"
  shows "unat (saturating_sub a b) = unat a - unat b"
  by (auto simp: saturating_sub_def unat_sub word_le_nat_alt)

text \<open>Equations that evaluate on binary numerals; \<open>unat\<close> of a large word would be unary.\<close>

lemma add_fits_iff: "unat a + unat b < 2 ^ LENGTH('a) \<longleftrightarrow> uint a + uint b < 2 ^ LENGTH('a)"
  for a b :: "'a::len word"
  unfolding uint_nat by (metis of_nat_add of_nat_less_iff of_nat_numeral of_nat_power)

lemma mult_fits_iff: "unat a * unat b < 2 ^ LENGTH('a) \<longleftrightarrow> uint a * uint b < 2 ^ LENGTH('a)"
  for a b :: "'a::len word"
  unfolding uint_nat by (metis of_nat_mult of_nat_less_iff of_nat_numeral of_nat_power)

lemma checked_arith_code [code]:
  fixes a b :: "'a::len word"
  shows "checked_add a b = (if uint a + uint b < 2 ^ LENGTH('a) then Some (a + b) else None)"
    "checked_mul a b = (if uint a * uint b < 2 ^ LENGTH('a) then Some (a * b) else None)"
    "saturating_add a b = (if uint a + uint b < 2 ^ LENGTH('a) then a + b else - 1)"
  by (simp_all add: checked_add_def checked_mul_def saturating_add_def add_fits_iff mult_fits_iff)

lemma saturating_add_le:
  fixes a b :: "'a::len word"
  shows "a \<le> saturating_add a b"
proof -
  have "unat a \<le> 2 ^ LENGTH('a) - 1" using unat_below [of a] by linarith
  then show ?thesis unfolding word_le_nat_alt unat_saturating_add by simp
qed

lemma unat_eqI: "unat a = unat b \<Longrightarrow> a = (b :: 'a::len word)"
  by (simp add: word_unat_eq_iff)

subsection \<open>Little-endian integers\<close>

definition u16_from_le :: "u8 \<Rightarrow> u8 \<Rightarrow> u16" where
  "u16_from_le b0 b1 = ucast b0 OR push_bit 8 (ucast b1)"

definition u32_from_le :: "u8 \<Rightarrow> u8 \<Rightarrow> u8 \<Rightarrow> u8 \<Rightarrow> u32" where
  "u32_from_le b0 b1 b2 b3 =
     ucast b0 OR push_bit 8 (ucast b1) OR push_bit 16 (ucast b2) OR push_bit 24 (ucast b3)"

definition u16_to_le :: "u16 \<Rightarrow> bytes" where
  "u16_to_le w = [ucast w, ucast (drop_bit 8 w)]"

definition u32_to_le :: "u32 \<Rightarrow> bytes" where
  "u32_to_le w = [ucast w, ucast (drop_bit 8 w), ucast (drop_bit 16 w), ucast (drop_bit 24 w)]"

lemma bit_u8_out: "\<not> bit (b :: u8) n" if "8 \<le> n"
  using that bit_imp_le_length [of b n] by auto

lemma bit_bounded: "unat (w :: 'a::len word) < 2 ^ k \<Longrightarrow> bit w n \<Longrightarrow> n < k"
proof (rule ccontr)
  assume w: "unat w < 2 ^ k" "bit w n" and n: "\<not> n < k"
  then have "unat w < 2 ^ n"
    by (meson le_less_trans less_le_trans not_less one_le_numeral power_increasing)
  then have "unat w div 2 ^ n = 0" by simp
  moreover have "bit (unat w) n" using w(2) by (simp add: bit_unsigned_iff)
  ultimately show False by (simp add: bit_iff_odd)
qed

lemma u16_from_le_bytes [wire]:
  "ucast (u16_from_le b0 b1) = b0"
  "ucast (drop_bit 8 (u16_from_le b0 b1)) = b1"
  by (rule bit_word_eqI, auto simp: u16_from_le_def bit_simps bit_u8_out)+

lemma u16_from_to_le [wire]:
  "u16_from_le (ucast w) (ucast (drop_bit 8 w)) = w"
  by (rule bit_word_eqI) (auto simp: u16_from_le_def bit_simps)

lemma u16_to_le_from_le [simp, wire]: "u16_to_le (u16_from_le b0 b1) = [b0, b1]"
  by (simp add: u16_to_le_def u16_from_le_bytes)

lemma u32_from_le_bytes [wire]:
  "ucast (u32_from_le b0 b1 b2 b3) = b0"
  "ucast (drop_bit 8 (u32_from_le b0 b1 b2 b3)) = b1"
  "ucast (drop_bit 16 (u32_from_le b0 b1 b2 b3)) = b2"
  "ucast (drop_bit 24 (u32_from_le b0 b1 b2 b3)) = b3"
  by (rule bit_word_eqI, auto simp: u32_from_le_def bit_simps bit_u8_out)+

lemma u32_from_to_le [wire]:
  "u32_from_le (ucast w) (ucast (drop_bit 8 w)) (ucast (drop_bit 16 w)) (ucast (drop_bit 24 w)) = w"
proof (rule bit_word_eqI)
  fix n assume "n < LENGTH(32)"
  moreover have "n < 8 \<or> 8 \<le> n \<and> n < 16 \<or> 16 \<le> n \<and> n < 24 \<or> 24 \<le> n" by arith
  ultimately show "bit (u32_from_le (ucast w) (ucast (drop_bit 8 w)) (ucast (drop_bit 16 w))
      (ucast (drop_bit 24 w))) n \<longleftrightarrow> bit w n"
    by (elim disjE) (auto simp: u32_from_le_def bit_simps)
qed

lemma u32_to_le_from_le [simp, wire]: "u32_to_le (u32_from_le b0 b1 b2 b3) = [b0, b1, b2, b3]"
  by (simp add: u32_to_le_def u32_from_le_bytes)

lemma length_u16_to_le [simp]: "length (u16_to_le w) = 2"
  by (simp add: u16_to_le_def)

lemma length_u32_to_le [simp]: "length (u32_to_le w) = 4"
  by (simp add: u32_to_le_def)

lemma u16_to_le_inject [simp]: "u16_to_le v = u16_to_le w \<longleftrightarrow> v = w"
proof
  assume "u16_to_le v = u16_to_le w"
  then have "u16_from_le (ucast v) (ucast (drop_bit 8 v)) = u16_from_le (ucast w) (ucast (drop_bit 8 w))"
    by (simp add: u16_to_le_def)
  then show "v = w" by (simp only: u16_from_to_le)
qed simp

lemma u32_to_le_inject [simp]: "u32_to_le v = u32_to_le w \<longleftrightarrow> v = w"
proof
  assume "u32_to_le v = u32_to_le w"
  then have "u32_from_le (ucast v) (ucast (drop_bit 8 v)) (ucast (drop_bit 16 v)) (ucast (drop_bit 24 v)) =
      u32_from_le (ucast w) (ucast (drop_bit 8 w)) (ucast (drop_bit 16 w)) (ucast (drop_bit 24 w))"
    by (simp add: u32_to_le_def)
  then show "v = w" by (simp only: u32_from_to_le)
qed simp

subsection \<open>Checksums\<close>

definition xor_checksum :: "bytes \<Rightarrow> u8" where
  "xor_checksum bs = foldl (\<lambda>checksum byte. checksum XOR byte) 0 bs"

lemma foldl_xor: "foldl (\<lambda>c b. c XOR b) x bs = x XOR foldl (\<lambda>c b. c XOR b) (0 :: u8) bs"
proof (induction bs arbitrary: x)
  case (Cons b bs)
  from Cons.IH [of "x XOR b"] Cons.IH [of b] show ?case
    by (simp add: xor.assoc)
qed simp

lemma xor_checksum_Nil [simp]: "xor_checksum [] = 0"
  by (simp add: xor_checksum_def)

lemma xor_checksum_Cons [simp, wire]: "xor_checksum (b # bs) = b XOR xor_checksum bs"
  using foldl_xor [of b bs] by (simp add: xor_checksum_def)

lemma xor_checksum_append [simp, wire]:
  "xor_checksum (xs @ ys) = xor_checksum xs XOR xor_checksum ys"
  by (induction xs) (auto simp: xor.assoc)

text \<open>A frame followed by its own checksum sums to zero, which is what a receiver tests.\<close>

lemma xor_checksum_closes [simp]: "xor_checksum (bs @ [xor_checksum bs]) = 0"
  by simp

lemma word_xor_eq_0 [simp]: "a XOR b = 0 \<longleftrightarrow> a = (b :: 'a::len word)"
proof
  assume "a XOR b = 0"
  then have "a XOR (b XOR b) = 0 XOR b" by (simp only: flip: xor.assoc)
  then show "a = b" by simp
qed simp

lemma xor_checksum_eq_last: "xor_checksum (bs @ [c]) = 0 \<longleftrightarrow> xor_checksum bs = c"
  by simp

subsection \<open>Lists\<close>

lemma length_Suc_conv_list: "length xs = Suc n \<longleftrightarrow> (\<exists>y ys. xs = y # ys \<and> length ys = n)"
  by (cases xs) auto

lemma take_append_exact: "length xs = n \<Longrightarrow> take n (xs @ ys) = xs"
  by simp

text \<open>
  \<open>copy_into dst off src\<close> is \<open>dst[off .. off + src.len()].copy_from_slice(src)\<close>; the callers
  stay within the array, where it keeps the length.
\<close>

definition copy_into :: "'a list \<Rightarrow> nat \<Rightarrow> 'a list \<Rightarrow> 'a list" where
  "copy_into dst off src = take off dst @ src @ drop (off + length src) dst"

lemma length_copy_into [simp]:
  "off + length src \<le> length dst \<Longrightarrow> length (copy_into dst off src) = length dst"
  by (simp add: copy_into_def)

lemma take_copy_into:
  "off + length src \<le> length dst \<Longrightarrow>
   take (off + length src) (copy_into dst off src) = take off dst @ src"
  by (simp add: copy_into_def)

text \<open>\<open>slice xs i j\<close> is \<open>xs[i..j]\<close>.\<close>

definition slice :: "'a list \<Rightarrow> nat \<Rightarrow> nat \<Rightarrow> 'a list" where
  "slice xs i j = take (j - i) (drop i xs)"

lemma length_slice [simp]: "i \<le> j \<Longrightarrow> j \<le> length xs \<Longrightarrow> length (slice xs i j) = j - i"
  by (simp add: slice_def)

definition bool_bit :: "bool \<Rightarrow> nat \<Rightarrow> 'a::len word" where
  "bool_bit b n = push_bit n (if b then 1 else 0)"

lemma bit_bool_bit [simp]: "bit (bool_bit b n :: 'a::len word) m \<longleftrightarrow> b \<and> m = n \<and> n < LENGTH('a)"
  by (auto simp: bool_bit_def bit_simps)

subsection \<open>Splitting at a separator\<close>

text \<open>\<open>slice::split\<close>: always at least one field.\<close>

fun split_on :: "'a \<Rightarrow> 'a list \<Rightarrow> 'a list list" where
  "split_on sep [] = [[]]"
| "split_on sep (x # xs) =
     (if x = sep then [] # split_on sep xs
      else case split_on sep xs of [] \<Rightarrow> [[x]] | f # fs \<Rightarrow> (x # f) # fs)"

lemma split_on_nonempty: "split_on sep xs \<noteq> []"
  by (induction xs) (auto split: list.splits)

lemma split_on_plain: "sep \<notin> set f \<Longrightarrow> split_on sep f = [f]"
  by (induction f) auto

lemma split_on_append: "sep \<notin> set f \<Longrightarrow> split_on sep (f @ sep # rest) = f # split_on sep rest"
  by (induction f) auto

lemma split_on_lines:
  "\<forall>f \<in> set fs. sep \<notin> set f \<Longrightarrow> split_on sep (concat (map (\<lambda>f. f @ [sep]) fs)) = fs @ [[]]"
  by (induction fs) (simp_all add: split_on_append)

lemma map_filter_append: "List.map_filter f (xs @ ys) = List.map_filter f xs @ List.map_filter f ys"
  by (simp add: List.map_filter_def)

subsection \<open>Searching arrays of slots\<close>

text \<open>
  \<open>position\<close> is \<open>Iterator::position\<close>; \<open>flatten\<close> drops the empty slots of an \<open>[Option<T>; N]\<close>.
\<close>

fun position :: "('a \<Rightarrow> bool) \<Rightarrow> 'a list \<Rightarrow> nat option" where
  "position P [] = None"
| "position P (x # xs) = (if P x then Some 0 else map_option Suc (position P xs))"

lemma position_None: "position P xs = None \<longleftrightarrow> (\<forall>x \<in> set xs. \<not> P x)"
  by (induction xs) auto

lemma position_Some:
  "position P xs = Some i \<Longrightarrow> i < length xs \<and> P (xs ! i) \<and> (\<forall>j < i. \<not> P (xs ! j))"
proof (induction xs arbitrary: i)
  case (Cons x xs)
  show ?case
  proof (cases "P x")
    case False
    with Cons.prems obtain k where "position P xs = Some k" "i = Suc k" by auto
    with Cons.IH [of k] False show ?thesis
      by (auto simp: nth_Cons split: nat.splits)
  qed (use Cons.prems in auto)
qed simp

lemma position_bound: "position P xs = Some i \<Longrightarrow> i < length xs"
  using position_Some by blast

definition flatten :: "'a option list \<Rightarrow> 'a list" where
  "flatten xs = List.map_filter (\<lambda>x. x) xs"

lemma flatten_simps [simp]:
  "flatten [] = []"
  "flatten (None # xs) = flatten xs"
  "flatten (Some x # xs) = x # flatten xs"
  by (simp_all add: flatten_def List.map_filter_simps)

lemma set_flatten [simp]: "x \<in> set (flatten xs) \<longleftrightarrow> Some x \<in> set xs"
  by (induction xs rule: list.induct) (simp, case_tac x1, auto)

text \<open>\<open>uniq_by key xs\<close>: no two occupied slots have the same key.\<close>

definition uniq_by :: "('a \<Rightarrow> 'k) \<Rightarrow> 'a option list \<Rightarrow> bool" where
  "uniq_by key xs \<longleftrightarrow> (\<forall>i j a b. i < length xs \<longrightarrow> j < length xs \<longrightarrow>
     xs ! i = Some a \<longrightarrow> xs ! j = Some b \<longrightarrow> key a = key b \<longrightarrow> i = j)"

lemma uniq_byD:
  "uniq_by key xs \<Longrightarrow> i < length xs \<Longrightarrow> j < length xs \<Longrightarrow> xs ! i = Some a \<Longrightarrow> xs ! j = Some b \<Longrightarrow>
   key a = key b \<Longrightarrow> i = j"
  unfolding uniq_by_def by blast

lemma uniq_by_slot: "uniq_by key xs \<Longrightarrow> Some a \<in> set xs \<Longrightarrow> Some b \<in> set xs \<Longrightarrow> key a = key b \<Longrightarrow> a = b"
  by (metis in_set_conv_nth option.inject uniq_byD)

lemma nth_update_here: "j < length xs \<Longrightarrow> xs[i := x] ! j = (if j = i then x else xs ! j)"
  by auto

lemma uniq_by_clear:
  assumes u: "uniq_by key xs"
  shows "uniq_by key (xs[i := None])"
  unfolding uniq_by_def using uniq_byD [OF u] by (auto simp: nth_update_here split: if_splits)

lemma uniq_by_store:
  assumes u: "uniq_by key xs" and new: "\<And>b. Some b \<in> set xs \<Longrightarrow> key b \<noteq> key a"
  shows "uniq_by key (xs[i := Some a])"
proof -
  have "key b \<noteq> key a" if "j < length xs" "xs ! j = Some b" for j b
    using new that by (metis nth_mem)
  then show ?thesis
    unfolding uniq_by_def using uniq_byD [OF u]
    by (auto simp: nth_update_here split: if_splits) metis+
qed

lemma uniq_by_replace:
  assumes u: "uniq_by key xs" and i: "i < length xs" "xs ! i = Some b" "key a = key b"
  shows "uniq_by key (xs[i := Some a])"
  unfolding uniq_by_def using uniq_byD [OF u _ i(1) _ i(2)] uniq_byD [OF u i(1) _ i(2)] uniq_byD [OF u] i
  by (auto simp: nth_update_here split: if_splits)

lemma find_flatten_Some: "find P (flatten xs) = Some x \<Longrightarrow> Some x \<in> set xs \<and> P x"
  by (auto simp: find_Some_iff) (metis nth_mem set_flatten)

lemma find_flatten_None: "find P (flatten xs) = None \<longleftrightarrow> (\<forall>x. Some x \<in> set xs \<longrightarrow> \<not> P x)"
  by (auto simp: find_None_iff)

lemma find_flatten_key:
  assumes u: "uniq_by key xs" and x: "Some x \<in> set xs"
  shows "find (\<lambda>e. key e = key x) (flatten xs) = Some x"
proof (cases "find (\<lambda>e. key e = key x) (flatten xs)")
  case None
  with x show ?thesis by (auto simp: find_flatten_None)
next
  case (Some y)
  then have "Some y \<in> set xs" "key y = key x" by (auto dest: find_flatten_Some)
  with u x have "y = x" by (blast intro: uniq_by_slot)
  with Some show ?thesis by simp
qed

text \<open>
  An array of slots with unique keys is a finite map: storing and clearing a slot update it at
  one key, the key that the slot held before being forgotten.
\<close>

definition lookup_by :: "('a \<Rightarrow> 'k) \<Rightarrow> 'a option list \<Rightarrow> 'k \<Rightarrow> 'a option" where
  "lookup_by key xs k = find (\<lambda>e. key e = k) (flatten xs)"

lemma lookup_by_Some:
  "uniq_by key xs \<Longrightarrow> lookup_by key xs k = Some x \<longleftrightarrow> Some x \<in> set xs \<and> key x = k"
  unfolding lookup_by_def using find_flatten_key [of key xs x] by (auto dest: find_flatten_Some)

lemma lookup_by_None: "lookup_by key xs k = None \<longleftrightarrow> (\<forall>x. Some x \<in> set xs \<longrightarrow> key x \<noteq> k)"
  by (simp add: lookup_by_def find_flatten_None)

lemma lookup_by_nth:
  "uniq_by key xs \<Longrightarrow> lookup_by key xs k = Some x \<longleftrightarrow> (\<exists>j < length xs. xs ! j = Some x \<and> key x = k)"
  by (auto simp: lookup_by_Some in_set_conv_nth)

lemma lookup_by_eqI:
  assumes "uniq_by key xs" "\<And>x. m = Some x \<longleftrightarrow> (\<exists>j < length xs. xs ! j = Some x \<and> key x = k)"
  shows "lookup_by key xs k = m"
  using assms lookup_by_nth [OF assms(1)] by (metis not_Some_eq)

lemma slots_update_ex:
  "i < length xs \<Longrightarrow> (\<exists>j < length xs. xs[i := y] ! j = Some x \<and> R) \<longleftrightarrow>
     (y = Some x \<and> R) \<or> (\<exists>j < length xs. j \<noteq> i \<and> xs ! j = Some x \<and> R)"
  by (metis nth_list_update_eq nth_list_update_neq)

lemma lookup_by_clear:
  assumes u: "uniq_by key xs" and i: "i < length xs" "xs ! i = Some a"
  shows "lookup_by key (xs[i := None]) = (lookup_by key xs)(key a := None)"
proof (rule ext, rule lookup_by_eqI [OF uniq_by_clear [OF u]])
  fix k x
  show "((lookup_by key xs)(key a := None)) k = Some x \<longleftrightarrow>
      (\<exists>j < length (xs[i := None]). xs[i := None] ! j = Some x \<and> key x = k)"
  proof (cases "k = key a")
    case True
    have "False" if "j < length xs" "j \<noteq> i" "xs ! j = Some x" "key x = key a" for j
      using uniq_byD [OF u that(1) i(1) that(3) i(2) that(4)] that(2) by simp
    with True show ?thesis unfolding length_list_update slots_update_ex [OF i(1)] by auto
  next
    case False
    then show ?thesis using i unfolding length_list_update slots_update_ex [OF i(1)] by (auto simp: lookup_by_nth [OF u])
  qed
qed

lemma lookup_by_store_free:
  assumes u: "uniq_by key xs" and i: "i < length xs" "xs ! i = None"
    and new: "lookup_by key xs (key a) = None"
  shows "uniq_by key (xs[i := Some a])"
    "lookup_by key (xs[i := Some a]) = (lookup_by key xs)(key a \<mapsto> a)"
proof -
  show u': "uniq_by key (xs[i := Some a])"
    using new by (intro uniq_by_store [OF u]) (simp add: lookup_by_None)
  show "lookup_by key (xs[i := Some a]) = (lookup_by key xs)(key a \<mapsto> a)"
  proof (rule ext, rule lookup_by_eqI [OF u'])
    fix k x
    have "key x \<noteq> key a" if "xs ! j = Some x" "j < length xs" for j x
      using new that by (metis lookup_by_None nth_mem)
    then show "((lookup_by key xs)(key a \<mapsto> a)) k = Some x \<longleftrightarrow>
        (\<exists>j < length (xs[i := Some a]). xs[i := Some a] ! j = Some x \<and> key x = k)"
      using i unfolding length_list_update slots_update_ex [OF i(1)] by (auto simp: lookup_by_nth [OF u])
  qed
qed

lemma lookup_by_store_same:
  assumes u: "uniq_by key xs" and i: "i < length xs" "xs ! i = Some b" "key b = key a"
  shows "uniq_by key (xs[i := Some a])"
    "lookup_by key (xs[i := Some a]) = (lookup_by key xs)(key a \<mapsto> a)"
proof -
  show u': "uniq_by key (xs[i := Some a])"
    by (rule uniq_by_replace [OF u i(1,2)]) (simp add: i(3))
  show "lookup_by key (xs[i := Some a]) = (lookup_by key xs)(key a \<mapsto> a)"
  proof (rule ext, rule lookup_by_eqI [OF u'])
    fix k x
    have "key x \<noteq> key a" if "xs ! j = Some x" "j < length xs" "j \<noteq> i" for j x
      using uniq_byD [OF u that(2) i(1) that(1) i(2)] that(3) i(3) by auto
    then show "((lookup_by key xs)(key a \<mapsto> a)) k = Some x \<longleftrightarrow>
        (\<exists>j < length (xs[i := Some a]). xs[i := Some a] ! j = Some x \<and> key x = k)"
      using i unfolding length_list_update slots_update_ex [OF i(1)] by (auto simp: lookup_by_nth [OF u])
  qed
qed

text \<open>Overwriting a slot is clearing it and storing into the empty slot.\<close>

lemma lookup_by_store_other:
  assumes u: "uniq_by key xs" and i: "i < length xs" and new: "lookup_by key xs (key a) = None"
  shows "uniq_by key (xs[i := Some a])"
    "lookup_by key (xs[i := Some a]) =
       (case xs ! i of None \<Rightarrow> lookup_by key xs | Some b \<Rightarrow> (lookup_by key xs)(key b := None))(key a \<mapsto> a)"
proof -
  let ?ys = "xs[i := None]"
  have u': "uniq_by key ?ys" by (rule uniq_by_clear [OF u])
  have cleared: "lookup_by key ?ys =
      (case xs ! i of None \<Rightarrow> lookup_by key xs | Some b \<Rightarrow> (lookup_by key xs)(key b := None))"
    using lookup_by_clear [OF u i] by (cases "xs ! i") (metis list_update_id option.simps(4), simp)
  then have "lookup_by key ?ys (key a) = None" using new by (simp split: option.splits)
  from lookup_by_store_free [OF u' _ _ this, of i] i cleared
  show "uniq_by key (xs[i := Some a])"
    "lookup_by key (xs[i := Some a]) =
       (case xs ! i of None \<Rightarrow> lookup_by key xs | Some b \<Rightarrow> (lookup_by key xs)(key b := None))(key a \<mapsto> a)"
    by simp_all
qed

lemma position_cong:
  "(\<And>x. x \<in> set xs \<Longrightarrow> P x = Q x) \<Longrightarrow> position P xs = position Q xs"
  by (induction xs) auto

end
