(* ===== verification/Protocol.thy ===== *)
theory Protocol
  imports Prelude
begin

section \<open>The CAN codec (src/can/protocol.rs)\<close>

text \<open>
  The 11-bit standard CAN messages between the Mission board and this board: the enums and
  structs of the messages, \<open>CanTxMessage\<close> with its payload encoder and
  \<open>CanRxMessage::decode_standard\<close>. The wire layout that the Mission board writes is stated
  separately as \<open>wire_rx\<close>; the decoder is shown to invert it exactly.
\<close>

subsection \<open>Identifiers\<close>

definition CAN_ID_ACTUATOR_EMERGENCY_STOP :: u16 where [simp]: "CAN_ID_ACTUATOR_EMERGENCY_STOP = 0x001"
definition CAN_ID_LIFTOFF_EMERGENCY_STOP :: u16 where [simp]: "CAN_ID_LIFTOFF_EMERGENCY_STOP = 0x002"
definition CAN_ID_RECOVERY_CONTROL :: u16 where [simp]: "CAN_ID_RECOVERY_CONTROL = 0x008"
definition CAN_ID_GENERIC_COMMAND_REQUEST :: u16 where [simp]: "CAN_ID_GENERIC_COMMAND_REQUEST = 0x010"
definition CAN_ID_COMMAND_RESULT :: u16 where [simp]: "CAN_ID_COMMAND_RESULT = 0x011"
definition CAN_ID_TIME_REQUEST :: u16 where [simp]: "CAN_ID_TIME_REQUEST = 0x012"
definition CAN_ID_TIME_RESPONSE :: u16 where [simp]: "CAN_ID_TIME_RESPONSE = 0x013"
definition CAN_ID_MISSION_EVENT :: u16 where [simp]: "CAN_ID_MISSION_EVENT = 0x020"
definition CAN_ID_KINEMATICS :: u16 where [simp]: "CAN_ID_KINEMATICS = 0x100"
definition CAN_ID_CONTROL :: u16 where [simp]: "CAN_ID_CONTROL = 0x101"
definition CAN_ID_MISSION_STATUS :: u16 where [simp]: "CAN_ID_MISSION_STATUS = 0x102"
definition CAN_ID_POWER_TIME :: u16 where [simp]: "CAN_ID_POWER_TIME = 0x103"
definition CAN_ID_DESCENT_CORE :: u16 where [simp]: "CAN_ID_DESCENT_CORE = 0x104"
definition CAN_ID_RECOVERY_STATUS :: u16 where [simp]: "CAN_ID_RECOVERY_STATUS = 0x105"
definition CAN_ID_RECOVERY_LOG_DATA :: u16 where [simp]: "CAN_ID_RECOVERY_LOG_DATA = 0x106"
definition CAN_ID_ATTITUDE_TILT :: u16 where [simp]: "CAN_ID_ATTITUDE_TILT = 0x107"
definition CAN_ID_LPS :: u16 where [simp]: "CAN_ID_LPS = 0x108"
definition CAN_ID_AIRSPEED :: u16 where [simp]: "CAN_ID_AIRSPEED = 0x109"
definition CAN_ID_CONTROL_ROLL_V2 :: u16 where [simp]: "CAN_ID_CONTROL_ROLL_V2 = 0x10a"
definition CONTROL_ROLL_SCHEMA_VERSION :: u8 where [simp]: "CONTROL_ROLL_SCHEMA_VERSION = 2"
definition CONTROL_ROLL_OUT_OF_RANGE_RAW :: u16 where [simp]: "CONTROL_ROLL_OUT_OF_RANGE_RAW = 0x800a"

definition ACTUATOR_EMERGENCY_RESULT :: u8 where [simp]: "ACTUATOR_EMERGENCY_RESULT = 0xF0"
definition LIFTOFF_EMERGENCY_RESULT :: u8 where [simp]: "LIFTOFF_EMERGENCY_RESULT = 0xF1"

definition is_emergency_result_command :: "u8 \<Rightarrow> bool" where
  "is_emergency_result_command command \<longleftrightarrow>
     command = ACTUATOR_EMERGENCY_RESULT \<or> command = LIFTOFF_EMERGENCY_RESULT"

definition prioritize_untracked_emergency_result :: "bool \<Rightarrow> u8 \<Rightarrow> bool" where
  "prioritize_untracked_emergency_result matched command \<longleftrightarrow>
     \<not> matched \<and> is_emergency_result_command command"

subsection \<open>Wire enums\<close>

text \<open>Each enum has its discriminant (Rust's \<open>as u8\<close>) and its partial decoder.\<close>

datatype mission_state =
  CommandReceive | LiftoffDetection | EngineBurn | MsControl | MsDescent | MsUnknown

fun mission_state_code :: "mission_state \<Rightarrow> u8" where
  "mission_state_code CommandReceive = 0"
| "mission_state_code LiftoffDetection = 1"
| "mission_state_code EngineBurn = 2"
| "mission_state_code MsControl = 3"
| "mission_state_code MsDescent = 4"
| "mission_state_code MsUnknown = 0xff"

definition mission_state_decode :: "u8 \<Rightarrow> mission_state option" where
  "mission_state_decode raw =
     (if raw = 0 then Some CommandReceive
      else if raw = 1 then Some LiftoffDetection
      else if raw = 2 then Some EngineBurn
      else if raw = 3 then Some MsControl
      else if raw = 4 then Some MsDescent
      else if raw = 0xff then Some MsUnknown
      else None)"

datatype command_phase = Accepted | Completed | Rejected | Failed

fun command_phase_code :: "command_phase \<Rightarrow> u8" where
  "command_phase_code Accepted = 0"
| "command_phase_code Completed = 1"
| "command_phase_code Rejected = 2"
| "command_phase_code Failed = 3"

definition command_phase_decode :: "u8 \<Rightarrow> command_phase option" where
  "command_phase_decode raw =
     (if raw = 0 then Some Accepted
      else if raw = 1 then Some Completed
      else if raw = 2 then Some Rejected
      else if raw = 3 then Some Failed
      else None)"

definition is_final :: "command_phase \<Rightarrow> bool" where
  "is_final phase \<longleftrightarrow> phase \<noteq> Accepted"

datatype command_reason =
  NoReason | ReasonBusy | InvalidState | InvalidArgument | NotConfigured | DeviceUnavailable
| Timeout | Stall | ProtocolErrorReason | InterruptedByEmergency | PersistenceError
| InternalError | NotSupported | SafetyInterlock | AlreadySatisfied

fun command_reason_code :: "command_reason \<Rightarrow> u8" where
  "command_reason_code NoReason = 0"
| "command_reason_code ReasonBusy = 1"
| "command_reason_code InvalidState = 2"
| "command_reason_code InvalidArgument = 3"
| "command_reason_code NotConfigured = 4"
| "command_reason_code DeviceUnavailable = 5"
| "command_reason_code Timeout = 6"
| "command_reason_code Stall = 7"
| "command_reason_code ProtocolErrorReason = 8"
| "command_reason_code InterruptedByEmergency = 9"
| "command_reason_code PersistenceError = 10"
| "command_reason_code InternalError = 11"
| "command_reason_code NotSupported = 12"
| "command_reason_code SafetyInterlock = 13"
| "command_reason_code AlreadySatisfied = 14"

definition command_reason_decode :: "u8 \<Rightarrow> command_reason option" where
  "command_reason_decode raw =
     (if raw = 0 then Some NoReason
      else if raw = 1 then Some ReasonBusy
      else if raw = 2 then Some InvalidState
      else if raw = 3 then Some InvalidArgument
      else if raw = 4 then Some NotConfigured
      else if raw = 5 then Some DeviceUnavailable
      else if raw = 6 then Some Timeout
      else if raw = 7 then Some Stall
      else if raw = 8 then Some ProtocolErrorReason
      else if raw = 9 then Some InterruptedByEmergency
      else if raw = 10 then Some PersistenceError
      else if raw = 11 then Some InternalError
      else if raw = 12 then Some NotSupported
      else if raw = 13 then Some SafetyInterlock
      else if raw = 14 then Some AlreadySatisfied
      else None)"

text \<open>The enums that the source declares with its \<open>wire_enum!\<close> macro.\<close>

datatype fin_mode =
  FinFree | FinBrake | PositionHold | ZeroHold | FinRelativeMove | RollControl | FinUnknown

fun fin_mode_code :: "fin_mode \<Rightarrow> u8" where
  "fin_mode_code FinFree = 0"
| "fin_mode_code FinBrake = 1"
| "fin_mode_code PositionHold = 2"
| "fin_mode_code ZeroHold = 3"
| "fin_mode_code FinRelativeMove = 4"
| "fin_mode_code RollControl = 5"
| "fin_mode_code FinUnknown = 15"

definition fin_mode_decode :: "u8 \<Rightarrow> fin_mode option" where
  "fin_mode_decode raw =
     (if raw = 0 then Some FinFree
      else if raw = 1 then Some FinBrake
      else if raw = 2 then Some PositionHold
      else if raw = 3 then Some ZeroHold
      else if raw = 4 then Some FinRelativeMove
      else if raw = 5 then Some RollControl
      else if raw = 15 then Some FinUnknown
      else None)"

datatype para_mode =
  ParaFree | ParaHold | ParaRelativeMove | OpeningOrRetrying | Closing | PoweredOff | ParaUnknown

fun para_mode_code :: "para_mode \<Rightarrow> u8" where
  "para_mode_code ParaFree = 0"
| "para_mode_code ParaHold = 1"
| "para_mode_code ParaRelativeMove = 2"
| "para_mode_code OpeningOrRetrying = 3"
| "para_mode_code Closing = 4"
| "para_mode_code PoweredOff = 5"
| "para_mode_code ParaUnknown = 15"

definition para_mode_decode :: "u8 \<Rightarrow> para_mode option" where
  "para_mode_decode raw =
     (if raw = 0 then Some ParaFree
      else if raw = 1 then Some ParaHold
      else if raw = 2 then Some ParaRelativeMove
      else if raw = 3 then Some OpeningOrRetrying
      else if raw = 4 then Some Closing
      else if raw = 5 then Some PoweredOff
      else if raw = 15 then Some ParaUnknown
      else None)"

datatype time_source = TimeInvalid | TimeGnss | TimeGround

fun time_source_code :: "time_source \<Rightarrow> u8" where
  "time_source_code TimeInvalid = 0"
| "time_source_code TimeGnss = 1"
| "time_source_code TimeGround = 2"

definition time_source_decode :: "u8 \<Rightarrow> time_source option" where
  "time_source_decode raw =
     (if raw = 0 then Some TimeInvalid
      else if raw = 1 then Some TimeGnss
      else if raw = 2 then Some TimeGround
      else None)"

datatype recovery_opcode = OpWake | OpStartLogDump | OpStopLogDump | OpExitRecovery

fun recovery_opcode_code :: "recovery_opcode \<Rightarrow> u8" where
  "recovery_opcode_code OpWake = 1"
| "recovery_opcode_code OpStartLogDump = 2"
| "recovery_opcode_code OpStopLogDump = 3"
| "recovery_opcode_code OpExitRecovery = 4"

definition recovery_opcode_decode :: "u8 \<Rightarrow> recovery_opcode option" where
  "recovery_opcode_decode raw =
     (if raw = 1 then Some OpWake
      else if raw = 2 then Some OpStartLogDump
      else if raw = 3 then Some OpStopLogDump
      else if raw = 4 then Some OpExitRecovery
      else None)"

datatype recovery_source = InternalFlash | MissionSdLatestFlight

fun recovery_source_code :: "recovery_source \<Rightarrow> u8" where
  "recovery_source_code InternalFlash = 0"
| "recovery_source_code MissionSdLatestFlight = 1"

definition recovery_source_decode :: "u8 \<Rightarrow> recovery_source option" where
  "recovery_source_decode raw =
     (if raw = 0 then Some InternalFlash
      else if raw = 1 then Some MissionSdLatestFlight
      else None)"

datatype recovery_status_code =
  RsReady | RsDumping | RsComplete | RsBusy | RsInvalidState | RsInvalidArgument
| RsSourceUnavailable | RsIoError | RsAborted | RsInternalError

fun recovery_status_code_code :: "recovery_status_code \<Rightarrow> u8" where
  "recovery_status_code_code RsReady = 0"
| "recovery_status_code_code RsDumping = 1"
| "recovery_status_code_code RsComplete = 2"
| "recovery_status_code_code RsBusy = 3"
| "recovery_status_code_code RsInvalidState = 4"
| "recovery_status_code_code RsInvalidArgument = 5"
| "recovery_status_code_code RsSourceUnavailable = 6"
| "recovery_status_code_code RsIoError = 7"
| "recovery_status_code_code RsAborted = 8"
| "recovery_status_code_code RsInternalError = 9"

definition recovery_status_code_decode :: "u8 \<Rightarrow> recovery_status_code option" where
  "recovery_status_code_decode raw =
     (if raw = 0 then Some RsReady
      else if raw = 1 then Some RsDumping
      else if raw = 2 then Some RsComplete
      else if raw = 3 then Some RsBusy
      else if raw = 4 then Some RsInvalidState
      else if raw = 5 then Some RsInvalidArgument
      else if raw = 6 then Some RsSourceUnavailable
      else if raw = 7 then Some RsIoError
      else if raw = 8 then Some RsAborted
      else if raw = 9 then Some RsInternalError
      else None)"

subsection \<open>The codec contract of a wire enum\<close>

text \<open>
  The macro and the three hand-written enums promise the same: decoding inverts the
  discriminant and accepts nothing else. The locale states it once; every enum interprets it.
\<close>

locale wire_enum =
  fixes code :: "'a \<Rightarrow> u8"
    and decode :: "u8 \<Rightarrow> 'a option"
  assumes decode_code: "decode (code x) = Some x"
    and code_decode: "decode raw = Some x \<Longrightarrow> code x = raw"
begin

lemma decode_iff: "decode raw = Some x \<longleftrightarrow> raw = code x"
  using decode_code code_decode by auto

lemma code_inject: "code x = code y \<longleftrightarrow> x = y"
  by (metis decode_code option.inject)

lemma decode_None_iff: "decode raw = None \<longleftrightarrow> raw \<notin> range code"
  by (metis decode_iff not_None_eq rangeE rangeI)

end

interpretation mission_state: wire_enum mission_state_code mission_state_decode
proof
  show "mission_state_decode (mission_state_code x) = Some x" for x
    by (cases x) (simp_all add: mission_state_decode_def)
  show "mission_state_decode raw = Some x \<Longrightarrow> mission_state_code x = raw" for raw x
    by (auto simp: mission_state_decode_def split: if_splits)
qed

interpretation command_phase: wire_enum command_phase_code command_phase_decode
proof
  show "command_phase_decode (command_phase_code x) = Some x" for x
    by (cases x) (simp_all add: command_phase_decode_def)
  show "command_phase_decode raw = Some x \<Longrightarrow> command_phase_code x = raw" for raw x
    by (auto simp: command_phase_decode_def split: if_splits)
qed

interpretation command_reason: wire_enum command_reason_code command_reason_decode
proof
  show "command_reason_decode (command_reason_code x) = Some x" for x
    by (cases x) (simp_all add: command_reason_decode_def)
  show "command_reason_decode raw = Some x \<Longrightarrow> command_reason_code x = raw" for raw x
    by (auto simp: command_reason_decode_def split: if_splits)
qed

interpretation fin_mode: wire_enum fin_mode_code fin_mode_decode
proof
  show "fin_mode_decode (fin_mode_code x) = Some x" for x
    by (cases x) (simp_all add: fin_mode_decode_def)
  show "fin_mode_decode raw = Some x \<Longrightarrow> fin_mode_code x = raw" for raw x
    by (auto simp: fin_mode_decode_def split: if_splits)
qed

interpretation para_mode: wire_enum para_mode_code para_mode_decode
proof
  show "para_mode_decode (para_mode_code x) = Some x" for x
    by (cases x) (simp_all add: para_mode_decode_def)
  show "para_mode_decode raw = Some x \<Longrightarrow> para_mode_code x = raw" for raw x
    by (auto simp: para_mode_decode_def split: if_splits)
qed

interpretation time_source: wire_enum time_source_code time_source_decode
proof
  show "time_source_decode (time_source_code x) = Some x" for x
    by (cases x) (simp_all add: time_source_decode_def)
  show "time_source_decode raw = Some x \<Longrightarrow> time_source_code x = raw" for raw x
    by (auto simp: time_source_decode_def split: if_splits)
qed

interpretation recovery_opcode: wire_enum recovery_opcode_code recovery_opcode_decode
proof
  show "recovery_opcode_decode (recovery_opcode_code x) = Some x" for x
    by (cases x) (simp_all add: recovery_opcode_decode_def)
  show "recovery_opcode_decode raw = Some x \<Longrightarrow> recovery_opcode_code x = raw" for raw x
    by (auto simp: recovery_opcode_decode_def split: if_splits)
qed

interpretation recovery_source: wire_enum recovery_source_code recovery_source_decode
proof
  show "recovery_source_decode (recovery_source_code x) = Some x" for x
    by (cases x) (simp_all add: recovery_source_decode_def)
  show "recovery_source_decode raw = Some x \<Longrightarrow> recovery_source_code x = raw" for raw x
    by (auto simp: recovery_source_decode_def split: if_splits)
qed

interpretation recovery_status_code: wire_enum recovery_status_code_code recovery_status_code_decode
proof
  show "recovery_status_code_decode (recovery_status_code_code x) = Some x" for x
    by (cases x) (simp_all add: recovery_status_code_decode_def)
  show "recovery_status_code_decode raw = Some x \<Longrightarrow> recovery_status_code_code x = raw" for raw x
    by (auto simp: recovery_status_code_decode_def split: if_splits)
qed

lemmas wire_enum_decode_iff =
  mission_state.decode_iff command_phase.decode_iff command_reason.decode_iff
  fin_mode.decode_iff para_mode.decode_iff time_source.decode_iff
  recovery_opcode.decode_iff recovery_source.decode_iff recovery_status_code.decode_iff

lemmas wire_enum_code_inject [simp] =
  mission_state.code_inject command_phase.code_inject command_reason.code_inject
  fin_mode.code_inject para_mode.code_inject time_source.code_inject
  recovery_opcode.code_inject recovery_source.code_inject recovery_status_code.code_inject

subsection \<open>Messages\<close>

record generic_command_request =
  req_transaction_id :: u8
  req_command :: u8
  req_args :: bytes

record recovery_control =
  rctl_opcode :: recovery_opcode
  rctl_source :: recovery_source
  rctl_transfer_id :: u8
  rctl_offset :: u32
  rctl_length :: u32

datatype can_tx_message =
  ActuatorEmergencyStop u8
| LiftoffEmergencyStop u8
| TxRecoveryControl recovery_control
| TxGenericCommandRequest generic_command_request
| TxTimeResponse u8 time_source u32 u16

record command_result =
  cr_transaction_id :: u8
  cr_command :: u8
  cr_phase :: command_phase
  cr_reason :: command_reason
  cr_detail :: u32

definition emergency_failure_result :: "can_tx_message \<Rightarrow> command_result option" where
  "emergency_failure_result message =
     (let failure = (\<lambda>transaction_id command.
        Some \<lparr>cr_transaction_id = transaction_id, cr_command = command, cr_phase = Failed,
              cr_reason = Timeout, cr_detail = 0\<rparr>)
      in case message of
        ActuatorEmergencyStop transaction_id \<Rightarrow> failure transaction_id ACTUATOR_EMERGENCY_RESULT
      | LiftoffEmergencyStop transaction_id \<Rightarrow> failure transaction_id LIFTOFF_EMERGENCY_RESULT
      | _ \<Rightarrow> None)"

record mission_event =
  me_sequence :: u8
  me_flags :: u16
  me_state :: mission_state
  me_elapsed :: u16
  me_detail :: u16

record kinematics_telemetry =
  kin_sequence :: u8
  kin_roll :: u16
  kin_roll_rate :: u16
  kin_fin_angle :: u8
  kin_fin_rate :: u16

record control_telemetry =
  ctl_sequence :: u8
  ctl_requested_torque :: u16
  ctl_elapsed :: u8

record mission_status_telemetry =
  ms_sequence :: u8
  ms_state :: mission_state
  ms_status :: u16
  ms_config :: u8
  ms_fin_mode :: fin_mode
  ms_para_mode :: para_mode
  ms_para_angle :: u8

record power_time_telemetry =
  pt_sequence :: u8
  pt_logic_voltage :: u8
  pt_motor_voltage :: u8
  pt_descent_elapsed :: u16
  pt_recovery_elapsed :: u16
  pt_flags :: u8

record descent_core_telemetry =
  dc_sequence :: u8
  dc_status :: u16
  dc_para_angle :: u8

record recovery_status =
  rs_opcode :: recovery_opcode
  rs_transfer_id :: u8
  rs_status :: recovery_status_code
  rs_source :: recovery_source
  rs_total_size :: u32

record recovery_log_data =
  rl_transfer_id :: u8
  rl_sequence :: u8
  rl_data :: bytes

record attitude_tilt_telemetry =
  tilt_sequence :: u8
  tilt_magnitude :: u8
  tilt_direction :: u16

record lps_telemetry =
  lps_sequence :: u8
  lps_pressure :: u16
  lps_temperature :: u8

record airspeed_telemetry =
  air_sequence :: u8
  air_airspeed :: u8

record control_roll_telemetry_v2 =
  roll_sequence :: u8
  roll_reference_raw :: u16
  roll_deviation_raw :: u16
  roll_flags :: u8
  roll_capture_event_sequence :: u8

definition REFERENCE_VALID :: u8 where [simp]: "REFERENCE_VALID = 0x01"
definition REFERENCE_CAPTURED_SINCE_PREVIOUS_FRAME :: u8 where
  [simp]: "REFERENCE_CAPTURED_SINCE_PREVIOUS_FRAME = 0x02"
definition CONTROL_ACTIVE :: u8 where [simp]: "CONTROL_ACTIVE = 0x04"
definition REFERENCE_OUT_OF_RANGE :: u8 where [simp]: "REFERENCE_OUT_OF_RANGE = 0x08"
definition DEVIATION_OUT_OF_RANGE :: u8 where [simp]: "DEVIATION_OUT_OF_RANGE = 0x10"

text \<open>Rust's \<open>raw as i16\<close> is the two's complement reading \<open>sint\<close>.\<close>

definition decode_control_roll_count :: "u16 \<Rightarrow> int option" where
  "decode_control_roll_count raw =
     (if 0x8000 \<le> raw \<and> raw \<le> 0x800f then None else Some (sint raw))"

definition control_roll_quality_code :: "u16 \<Rightarrow> u8" where
  "control_roll_quality_code raw =
     (if 0x8000 \<le> raw \<and> raw \<le> 0x800f then ucast (raw AND 0x000f) + 1 else 0)"

definition reference_count :: "control_roll_telemetry_v2 \<Rightarrow> int option" where
  "reference_count t = decode_control_roll_count (roll_reference_raw t)"

definition deviation_count :: "control_roll_telemetry_v2 \<Rightarrow> int option" where
  "deviation_count t = decode_control_roll_count (roll_deviation_raw t)"

definition status_signature :: "control_roll_telemetry_v2 \<Rightarrow> u32" where
  "status_signature t =
     (let status_flags = roll_flags t AND
        (REFERENCE_VALID OR CONTROL_ACTIVE OR REFERENCE_OUT_OF_RANGE OR DEVIATION_OUT_OF_RANGE)
      in ucast status_flags
         OR push_bit 8 (ucast (control_roll_quality_code (roll_reference_raw t)))
         OR push_bit 13 (ucast (control_roll_quality_code (roll_deviation_raw t))))"

datatype can_rx_message =
  RxCommandResult command_result
| RxTimeRequest u8
| RxMissionEvent mission_event
| RxKinematics kinematics_telemetry
| RxControl control_telemetry
| RxMissionStatus mission_status_telemetry
| RxPowerTime power_time_telemetry
| RxDescentCore descent_core_telemetry
| RxRecoveryStatus recovery_status
| RxRecoveryLogData recovery_log_data
| RxAttitudeTilt attitude_tilt_telemetry
| RxLps lps_telemetry
| RxAirspeed airspeed_telemetry
| RxControlRollV2 control_roll_telemetry_v2

datatype can_decode_error =
  UnknownId u16
| InvalidDlc u16 nat nat
| InvalidField u16 nat u8

datatype can_encode_error = EncReservedTransactionId | EncOutOfRange

subsection \<open>Encoding a transmitted message\<close>

fun can_tx_id :: "can_tx_message \<Rightarrow> u16" where
  "can_tx_id (ActuatorEmergencyStop _) = CAN_ID_ACTUATOR_EMERGENCY_STOP"
| "can_tx_id (LiftoffEmergencyStop _) = CAN_ID_LIFTOFF_EMERGENCY_STOP"
| "can_tx_id (TxRecoveryControl _) = CAN_ID_RECOVERY_CONTROL"
| "can_tx_id (TxGenericCommandRequest _) = CAN_ID_GENERIC_COMMAND_REQUEST"
| "can_tx_id (TxTimeResponse _ _ _ _) = CAN_ID_TIME_RESPONSE"

fun dlc :: "can_tx_message \<Rightarrow> nat" where
  "dlc (ActuatorEmergencyStop _) = 1"
| "dlc (LiftoffEmergencyStop _) = 1"
| "dlc (TxRecoveryControl _) = 8"
| "dlc (TxGenericCommandRequest _) = 8"
| "dlc (TxTimeResponse _ _ _ _) = 8"

definition require_transaction_id :: "u8 \<Rightarrow> can_encode_error + unit" where
  "require_transaction_id transaction_id =
     (if transaction_id = 0 then Inl EncReservedTransactionId else Inr ())"

definition put_u24_le :: "bytes \<Rightarrow> nat \<Rightarrow> u32 \<Rightarrow> bytes" where
  "put_u24_le out off value = copy_into out off (take 3 (u32_to_le value))"

text \<open>
  \<open>encode_payload\<close> fills the caller's 8-byte buffer and returns the DLC; the model returns
  the filled buffer with it. On an error the caller never looks at the buffer.
\<close>

definition encode_payload :: "can_tx_message \<Rightarrow> can_encode_error + bytes \<times> nat" where
  "encode_payload message =
     (let out = replicate 8 (0 :: u8) in
      and_then
        (case message of
          ActuatorEmergencyStop transaction_id \<Rightarrow>
            and_then (require_transaction_id transaction_id) (\<lambda>_. Inr (out[0 := transaction_id]))
        | LiftoffEmergencyStop transaction_id \<Rightarrow>
            and_then (require_transaction_id transaction_id) (\<lambda>_. Inr (out[0 := transaction_id]))
        | TxRecoveryControl control \<Rightarrow>
            if rctl_offset control > 0x00ffffff \<or> rctl_length control > 0x00ffffff
            then Inl EncOutOfRange
            else
              (let out = out[0 := recovery_opcode_code (rctl_opcode control) OR
                                  push_bit 4 (recovery_source_code (rctl_source control)),
                             1 := rctl_transfer_id control];
                   out = put_u24_le out 2 (rctl_offset control)
               in Inr (put_u24_le out 5 (rctl_length control)))
        | TxGenericCommandRequest request \<Rightarrow>
            and_then (require_transaction_id (req_transaction_id request)) (\<lambda>_.
              Inr (copy_into (out[0 := req_transaction_id request, 1 := req_command request])
                     2 (req_args request)))
        | TxTimeResponse request_id source unix_seconds milliseconds \<Rightarrow>
            if milliseconds > 999 then Inl EncOutOfRange
            else Inr (copy_into (copy_into (out[0 := request_id, 1 := time_source_code source])
                        2 (u32_to_le unix_seconds)) 6 (u16_to_le milliseconds)))
        (\<lambda>out. Inr (out, dlc message)))"

subsection \<open>Decoding a received message\<close>

definition require_received_transaction_id :: "u16 \<Rightarrow> nat \<Rightarrow> u8 \<Rightarrow> can_decode_error + unit" where
  "require_received_transaction_id ident index transaction_id =
     (if transaction_id = 0 then Inl (InvalidField ident index transaction_id) else Inr ())"

definition decode_field ::
  "u16 \<Rightarrow> nat \<Rightarrow> u8 \<Rightarrow> (u8 \<Rightarrow> 'a option) \<Rightarrow> can_decode_error + 'a" where
  "decode_field ident index raw decode = ok_or (decode raw) (InvalidField ident index raw)"

definition require_reserved_zero :: "u16 \<Rightarrow> nat \<Rightarrow> u8 \<Rightarrow> u8 \<Rightarrow> can_decode_error + unit" where
  "require_reserved_zero ident index value reserved_mask =
     (if value AND reserved_mask = 0 then Inr () else Inl (InvalidField ident index value))"

definition require_dlc :: "u16 \<Rightarrow> bytes \<Rightarrow> nat \<Rightarrow> can_decode_error + unit" where
  "require_dlc ident data expected =
     (if length data = expected then Inr () else Inl (InvalidDlc ident expected (length data)))"

definition get_u16 :: "bytes \<Rightarrow> u16" where
  "get_u16 data = u16_from_le (data ! 0) (data ! 1)"

definition decode_command_result :: "u16 \<Rightarrow> bytes \<Rightarrow> can_decode_error + can_rx_message" where
  "decode_command_result ident data =
     and_then (require_dlc ident data 8) (\<lambda>_.
     and_then (require_received_transaction_id ident 0 (data ! 0)) (\<lambda>_.
     and_then (decode_field ident 2 (data ! 2) command_phase_decode) (\<lambda>phase.
     and_then (decode_field ident 3 (data ! 3) command_reason_decode) (\<lambda>reason.
       Inr (RxCommandResult
         \<lparr>cr_transaction_id = data ! 0, cr_command = data ! 1, cr_phase = phase,
          cr_reason = reason,
          cr_detail = u32_from_le (data ! 4) (data ! 5) (data ! 6) (data ! 7)\<rparr>)))))"

definition decode_standard :: "u16 \<Rightarrow> bytes \<Rightarrow> can_decode_error + can_rx_message" where
  "decode_standard ident data =
     (if ident = CAN_ID_COMMAND_RESULT then decode_command_result ident data
      else if ident = CAN_ID_TIME_REQUEST then
        and_then (require_dlc ident data 1) (\<lambda>_.
        and_then (require_received_transaction_id ident 0 (data ! 0)) (\<lambda>_.
          Inr (RxTimeRequest (data ! 0))))
      else if ident = CAN_ID_MISSION_EVENT then
        and_then (require_dlc ident data 8) (\<lambda>_.
        and_then (decode_field ident 3 (data ! 3) mission_state_decode) (\<lambda>state.
          Inr (RxMissionEvent
            \<lparr>me_sequence = data ! 0, me_flags = get_u16 (slice data 1 3), me_state = state,
             me_elapsed = get_u16 (slice data 4 6), me_detail = get_u16 (slice data 6 8)\<rparr>)))
      else if ident = CAN_ID_KINEMATICS then
        and_then (require_dlc ident data 8) (\<lambda>_.
          Inr (RxKinematics
            \<lparr>kin_sequence = data ! 0, kin_roll = get_u16 (slice data 1 3),
             kin_roll_rate = get_u16 (slice data 3 5), kin_fin_angle = data ! 5,
             kin_fin_rate = get_u16 (slice data 6 8)\<rparr>))
      else if ident = CAN_ID_CONTROL then
        and_then (require_dlc ident data 4) (\<lambda>_.
        and_then (require_reserved_zero ident 2 (data ! 2) 0xf0) (\<lambda>_.
          Inr (RxControl
            \<lparr>ctl_sequence = data ! 0, ctl_requested_torque = get_u16 (slice data 1 3),
             ctl_elapsed = data ! 3\<rparr>)))
      else if ident = CAN_ID_MISSION_STATUS then
        and_then (require_dlc ident data 8) (\<lambda>_.
        and_then (decode_field ident 1 (data ! 1) mission_state_decode) (\<lambda>state.
        and_then (if state = MsUnknown then Inl (InvalidField ident 1 (data ! 1)) else Inr ()) (\<lambda>_.
        and_then (decode_field ident 5 (data ! 5) fin_mode_decode) (\<lambda>fin_mode.
        and_then (decode_field ident 6 (data ! 6) para_mode_decode) (\<lambda>para_mode.
          Inr (RxMissionStatus
            \<lparr>ms_sequence = data ! 0, ms_state = state, ms_status = get_u16 (slice data 2 4),
             ms_config = data ! 4, ms_fin_mode = fin_mode, ms_para_mode = para_mode,
             ms_para_angle = data ! 7\<rparr>))))))
      else if ident = CAN_ID_POWER_TIME then
        and_then (require_dlc ident data 8) (\<lambda>_.
        and_then (require_reserved_zero ident 7 (data ! 7) 0x70) (\<lambda>_.
          Inr (RxPowerTime
            \<lparr>pt_sequence = data ! 0, pt_logic_voltage = data ! 1, pt_motor_voltage = data ! 2,
             pt_descent_elapsed = get_u16 (slice data 3 5),
             pt_recovery_elapsed = get_u16 (slice data 5 7), pt_flags = data ! 7\<rparr>)))
      else if ident = CAN_ID_DESCENT_CORE then
        and_then (require_dlc ident data 4) (\<lambda>_.
        and_then (require_reserved_zero ident 1 (data ! 1) 0xe0) (\<lambda>_.
        and_then (require_reserved_zero ident 2 (data ! 2) 0xff) (\<lambda>_.
          Inr (RxDescentCore
            \<lparr>dc_sequence = data ! 0, dc_status = get_u16 (slice data 1 3),
             dc_para_angle = data ! 3\<rparr>))))
      else if ident = CAN_ID_RECOVERY_STATUS then
        and_then (require_dlc ident data 8) (\<lambda>_.
        and_then (decode_field ident 0 (data ! 0) recovery_opcode_decode) (\<lambda>opcode.
        and_then (decode_field ident 2 (data ! 2) recovery_status_code_decode) (\<lambda>status.
        and_then (decode_field ident 3 (data ! 3) recovery_source_decode) (\<lambda>source.
          Inr (RxRecoveryStatus
            \<lparr>rs_opcode = opcode, rs_transfer_id = data ! 1, rs_status = status,
             rs_source = source,
             rs_total_size = u32_from_le (data ! 4) (data ! 5) (data ! 6) (data ! 7)\<rparr>)))))
      else if ident = CAN_ID_RECOVERY_LOG_DATA then
        and_then (require_dlc ident data 8) (\<lambda>_.
          Inr (RxRecoveryLogData
            \<lparr>rl_transfer_id = data ! 0, rl_sequence = data ! 1, rl_data = slice data 2 8\<rparr>))
      else if ident = CAN_ID_ATTITUDE_TILT then
        and_then (require_dlc ident data 3) (\<lambda>_.
          (let packed = get_u16 (slice data 1 3) in
           Inr (RxAttitudeTilt
             \<lparr>tilt_sequence = data ! 0, tilt_magnitude = ucast (packed AND 0x7f),
              tilt_direction = drop_bit 7 packed\<rparr>)))
      else if ident = CAN_ID_LPS then
        and_then (require_dlc ident data 4) (\<lambda>_.
        and_then (require_reserved_zero ident 2 (data ! 2) 0xf8) (\<lambda>_.
          Inr (RxLps
            \<lparr>lps_sequence = data ! 0, lps_pressure = get_u16 (slice data 1 3),
             lps_temperature = data ! 3\<rparr>)))
      else if ident = CAN_ID_AIRSPEED then
        and_then (require_dlc ident data 2) (\<lambda>_.
          Inr (RxAirspeed \<lparr>air_sequence = data ! 0, air_airspeed = data ! 1\<rparr>))
      else if ident = CAN_ID_CONTROL_ROLL_V2 then
        and_then (require_dlc ident data 8) (\<lambda>_.
        and_then (if data ! 1 \<noteq> CONTROL_ROLL_SCHEMA_VERSION
                  then Inl (InvalidField ident 1 (data ! 1)) else Inr ()) (\<lambda>_.
        and_then (require_reserved_zero ident 6 (data ! 6) 0xe0) (\<lambda>_.
          (let reference_raw = get_u16 (slice data 2 4);
               deviation_raw = get_u16 (slice data 4 6);
               reference_out_of_range = (data ! 6 AND REFERENCE_OUT_OF_RANGE \<noteq> 0);
               deviation_out_of_range = (data ! 6 AND DEVIATION_OUT_OF_RANGE \<noteq> 0)
           in if (reference_raw = CONTROL_ROLL_OUT_OF_RANGE_RAW) \<noteq> reference_out_of_range
                 \<or> (deviation_raw = CONTROL_ROLL_OUT_OF_RANGE_RAW) \<noteq> deviation_out_of_range
              then Inl (InvalidField ident 6 (data ! 6))
              else Inr (RxControlRollV2
                \<lparr>roll_sequence = data ! 0, roll_reference_raw = reference_raw,
                 roll_deviation_raw = deviation_raw, roll_flags = data ! 6,
                 roll_capture_event_sequence = data ! 7\<rparr>)))))
      else Inl (UnknownId ident))"

subsection \<open>The wire layout, stated independently\<close>

text \<open>
  \<open>wire_rx m\<close> is the frame the Mission board sends for \<open>m\<close>: identifier and data bytes,
  little-endian. \<open>valid_rx\<close> collects the values that the layout can carry and the protocol
  allows: non-zero transaction identifiers, reserved bits zero, out-of-range markers that
  agree with their flags.
\<close>

fun wire_rx :: "can_rx_message \<Rightarrow> u16 \<times> bytes" where
  "wire_rx (RxCommandResult r) = (CAN_ID_COMMAND_RESULT,
     [cr_transaction_id r, cr_command r, command_phase_code (cr_phase r),
      command_reason_code (cr_reason r)] @ u32_to_le (cr_detail r))"
| "wire_rx (RxTimeRequest request_id) = (CAN_ID_TIME_REQUEST, [request_id])"
| "wire_rx (RxMissionEvent e) = (CAN_ID_MISSION_EVENT,
     [me_sequence e] @ u16_to_le (me_flags e) @ [mission_state_code (me_state e)] @
     u16_to_le (me_elapsed e) @ u16_to_le (me_detail e))"
| "wire_rx (RxKinematics k) = (CAN_ID_KINEMATICS,
     [kin_sequence k] @ u16_to_le (kin_roll k) @ u16_to_le (kin_roll_rate k) @
     [kin_fin_angle k] @ u16_to_le (kin_fin_rate k))"
| "wire_rx (RxControl c) = (CAN_ID_CONTROL,
     [ctl_sequence c] @ u16_to_le (ctl_requested_torque c) @ [ctl_elapsed c])"
| "wire_rx (RxMissionStatus s) = (CAN_ID_MISSION_STATUS,
     [ms_sequence s, mission_state_code (ms_state s)] @ u16_to_le (ms_status s) @
     [ms_config s, fin_mode_code (ms_fin_mode s), para_mode_code (ms_para_mode s),
      ms_para_angle s])"
| "wire_rx (RxPowerTime p) = (CAN_ID_POWER_TIME,
     [pt_sequence p, pt_logic_voltage p, pt_motor_voltage p] @
     u16_to_le (pt_descent_elapsed p) @ u16_to_le (pt_recovery_elapsed p) @ [pt_flags p])"
| "wire_rx (RxDescentCore d) = (CAN_ID_DESCENT_CORE,
     [dc_sequence d] @ u16_to_le (dc_status d) @ [dc_para_angle d])"
| "wire_rx (RxRecoveryStatus s) = (CAN_ID_RECOVERY_STATUS,
     [recovery_opcode_code (rs_opcode s), rs_transfer_id s,
      recovery_status_code_code (rs_status s), recovery_source_code (rs_source s)] @
     u32_to_le (rs_total_size s))"
| "wire_rx (RxRecoveryLogData d) = (CAN_ID_RECOVERY_LOG_DATA,
     [rl_transfer_id d, rl_sequence d] @ rl_data d)"
| "wire_rx (RxAttitudeTilt t) = (CAN_ID_ATTITUDE_TILT,
     [tilt_sequence t] @
     u16_to_le (ucast (tilt_magnitude t) OR push_bit 7 (tilt_direction t)))"
| "wire_rx (RxLps l) = (CAN_ID_LPS,
     [lps_sequence l] @ u16_to_le (lps_pressure l) @ [lps_temperature l])"
| "wire_rx (RxAirspeed a) = (CAN_ID_AIRSPEED, [air_sequence a, air_airspeed a])"
| "wire_rx (RxControlRollV2 r) = (CAN_ID_CONTROL_ROLL_V2,
     [roll_sequence r, CONTROL_ROLL_SCHEMA_VERSION] @ u16_to_le (roll_reference_raw r) @
     u16_to_le (roll_deviation_raw r) @ [roll_flags r, roll_capture_event_sequence r])"

fun valid_rx :: "can_rx_message \<Rightarrow> bool" where
  "valid_rx (RxCommandResult r) \<longleftrightarrow> cr_transaction_id r \<noteq> 0"
| "valid_rx (RxTimeRequest request_id) \<longleftrightarrow> request_id \<noteq> 0"
| "valid_rx (RxControl c) \<longleftrightarrow> ctl_requested_torque c AND 0xf000 = 0"
| "valid_rx (RxMissionStatus s) \<longleftrightarrow> ms_state s \<noteq> MsUnknown"
| "valid_rx (RxPowerTime p) \<longleftrightarrow> pt_flags p AND 0x70 = 0"
| "valid_rx (RxDescentCore d) \<longleftrightarrow> dc_status d AND 0xffe0 = 0"
| "valid_rx (RxRecoveryLogData d) \<longleftrightarrow> length (rl_data d) = 6"
| "valid_rx (RxAttitudeTilt t) \<longleftrightarrow> tilt_magnitude t AND 0x80 = 0 \<and> tilt_direction t AND 0xfe00 = 0"
| "valid_rx (RxLps l) \<longleftrightarrow> lps_pressure l AND 0xf800 = 0"
| "valid_rx (RxControlRollV2 r) \<longleftrightarrow>
     roll_flags r AND 0xe0 = 0 \<and>
     (roll_reference_raw r = CONTROL_ROLL_OUT_OF_RANGE_RAW) =
       (roll_flags r AND REFERENCE_OUT_OF_RANGE \<noteq> 0) \<and>
     (roll_deviation_raw r = CONTROL_ROLL_OUT_OF_RANGE_RAW) =
       (roll_flags r AND DEVIATION_OUT_OF_RANGE \<noteq> 0)"
| "valid_rx _ \<longleftrightarrow> True"

subsection \<open>Facts about the layout\<close>

lemma require_simps [simp]:
  "require_dlc ident data n = Inr u \<longleftrightarrow> length data = n"
  "require_received_transaction_id ident i t = Inr u \<longleftrightarrow> t \<noteq> 0"
  "require_reserved_zero ident i v m = Inr u \<longleftrightarrow> v AND m = 0"
  "decode_field ident i raw dec = Inr x \<longleftrightarrow> dec raw = Some x"
  by (simp_all add: require_dlc_def require_received_transaction_id_def
      require_reserved_zero_def decode_field_def)

lemma guard_eq_Inr [simp]: "(if b then Inl e else Inr x) = Inr y \<longleftrightarrow> \<not> b \<and> x = y"
  by auto

lemma list_of_length:
  "length xs = 1 \<longleftrightarrow> (\<exists>a. xs = [a])"
  "length xs = 2 \<longleftrightarrow> (\<exists>a b. xs = [a, b])"
  "length xs = 3 \<longleftrightarrow> (\<exists>a b c. xs = [a, b, c])"
  "length xs = 4 \<longleftrightarrow> (\<exists>a b c d. xs = [a, b, c, d])"
  "length xs = 6 \<longleftrightarrow> (\<exists>a b c d e f. xs = [a, b, c, d, e, f])"
  "length xs = 8 \<longleftrightarrow> (\<exists>a b c d e f g h. xs = [a, b, c, d, e, f, g, h])"
  by (auto simp: numeral_eq_Suc length_Suc_conv_list)

lemma u16_from_le_and:
  "u16_from_le b0 b1 AND u16_from_le m0 m1 = u16_from_le (b0 AND m0) (b1 AND m1)"
  by (rule bit_word_eqI) (auto simp: u16_from_le_def bit_simps bit_u8_out)

lemma u16_from_le_inject [simp]: "u16_from_le a b = u16_from_le c d \<longleftrightarrow> a = c \<and> b = d"
  by (metis u16_from_le_bytes)

lemma u16_from_le_0: "u16_from_le a b = 0 \<longleftrightarrow> a = 0 \<and> b = 0"
proof -
  have "u16_from_le 0 0 = 0" by (simp add: u16_from_le_def)
  then show ?thesis by (metis u16_from_le_inject)
qed

lemma u16_masks [simp]:
  "u16_from_le b0 b1 AND 0xf000 = 0 \<longleftrightarrow> b1 AND 0xf0 = 0"
  "u16_from_le b0 b1 AND 0xf800 = 0 \<longleftrightarrow> b1 AND 0xf8 = 0"
  "u16_from_le b0 b1 AND 0xffe0 = 0 \<longleftrightarrow> b0 AND 0xe0 = 0 \<and> b1 AND 0xff = 0"
proof -
  have masks: "0xf000 = u16_from_le 0 0xf0" "0xf800 = u16_from_le 0 0xf8"
    "0xffe0 = u16_from_le 0xe0 0xff"
    by (simp_all add: u16_from_le_def)
  show "u16_from_le b0 b1 AND 0xf000 = 0 \<longleftrightarrow> b1 AND 0xf0 = 0"
    "u16_from_le b0 b1 AND 0xf800 = 0 \<longleftrightarrow> b1 AND 0xf8 = 0"
    "u16_from_le b0 b1 AND 0xffe0 = 0 \<longleftrightarrow> b0 AND 0xe0 = 0 \<and> b1 AND 0xff = 0"
    by (simp_all only: masks u16_from_le_and u16_from_le_0, simp_all)
qed

lemma u16_of_le_eq: "u16_to_le w = [b0, b1] \<longleftrightarrow> w = u16_from_le b0 b1"
  by (metis u16_to_le_from_le u16_to_le_inject)

lemma u32_of_le_eq: "u32_to_le w = [b0, b1, b2, b3] \<longleftrightarrow> w = u32_from_le b0 b1 b2 b3"
  by (metis u32_to_le_from_le u32_to_le_inject)

lemma tilt_packing:
  "(m AND 0x80 = 0 \<and> d AND 0xfe00 = 0 \<and> p = ucast (m :: u8) OR push_bit 7 d) \<longleftrightarrow>
   (m = ucast ((p :: u16) AND 0x7f) \<and> d = drop_bit 7 p)"
proof -
  have b: "(0x7f :: u16) = mask 7" "(0x80 :: u8) = 2 ^ 7" "(0xfe00 :: u16) = push_bit 9 (mask 7)"
    by (simp_all add: mask_numeral)
  have m: "m AND 2 ^ 7 = 0 \<longleftrightarrow> \<not> bit m 7"
    by (rule and_exp_eq_0_iff_not_bit)
  have d: "d AND push_bit 9 (mask 7) = 0 \<longleftrightarrow> (\<forall>n \<ge> 9. \<not> bit d n)"
    using bit_imp_le_length [of d] by (fastforce simp: bit_eq_iff bit_simps)
  have m8: "bit m n \<Longrightarrow> n < 8" for n using bit_imp_le_length [of m n] by simp
  show ?thesis
  proof (safe)
    assume "m AND 0x80 = 0" "d AND 0xfe00 = 0" "p = ucast m OR push_bit 7 d"
    then have m': "\<not> bit m 7" and d': "\<forall>n \<ge> 9. \<not> bit d n"
      and p: "p = ucast m OR push_bit 7 d"
      unfolding b m d by auto
    have m7: "bit m n \<Longrightarrow> n < 7" for n using m' m8 [of n] by (cases "n = 7") auto
    show "m = ucast ((ucast m OR push_bit 7 d) AND 0x7f)"
      unfolding b by (rule bit_word_eqI) (use m7 in \<open>auto simp: bit_simps\<close>)
    show "d = drop_bit 7 (ucast m OR push_bit 7 d)"
      by (rule bit_word_eqI) (use m7 d' in \<open>fastforce simp: bit_simps\<close>)
  next
    show "ucast (p AND 0x7f) AND (0x80 :: u8) = 0"
      unfolding b and_exp_eq_0_iff_not_bit by (simp only: bit_simps) simp
    show "drop_bit 7 p AND 0xfe00 = 0"
      unfolding b using bit_imp_le_length [of p] by (fastforce simp: bit_eq_iff bit_simps)
    show "p = ucast (ucast (p AND 0x7f) :: u8) OR push_bit 7 (drop_bit 7 p)"
      unfolding b
    proof (rule bit_word_eqI)
      fix n assume "n < LENGTH(16)"
      then show "bit p n \<longleftrightarrow>
          bit (ucast (ucast (p AND mask 7) :: u8) OR push_bit 7 (drop_bit 7 p)) n"
        by (cases "n < 7") (auto simp: bit_simps)
    qed
  qed
qed

subsection \<open>The decoder inverts the layout\<close>

lemma u16_mask_bytes:
  "ucast (drop_bit 8 (w :: u16)) AND (0xf0 :: u8) = 0 \<longleftrightarrow> w AND 0xf000 = 0"
  "ucast (drop_bit 8 w) AND (0xf8 :: u8) = 0 \<longleftrightarrow> w AND 0xf800 = 0"
  "ucast w AND (0xe0 :: u8) = 0 \<and> ucast (drop_bit 8 w) AND (0xff :: u8) = 0 \<longleftrightarrow> w AND 0xffe0 = 0"
  using u16_masks [of "ucast w" "ucast (drop_bit 8 w)", unfolded u16_from_to_le] by auto

lemma u16_mask_ffe0:
  "w AND 0xffe0 = 0 \<Longrightarrow> ucast (w :: u16) AND (0xe0 :: u8) = 0"
  "w AND 0xffe0 = 0 \<Longrightarrow> ucast (drop_bit 8 w) AND (0xff :: u8) = 0"
  using u16_mask_bytes(3) [of w] by auto

lemma u16_bytes_of: "u16_from_le a b = w \<Longrightarrow> u16_to_le w = [a, b]"
  by auto

lemmas decode_forward =
  decode_standard_def decode_command_result_def get_u16_def slice_def Let_def
  list_of_length length_Suc_conv_list wire_enum_decode_iff

lemmas decode_backward =
  decode_standard_def decode_command_result_def get_u16_def slice_def Let_def
  wire_enum_decode_iff u16_to_le_def u32_to_le_def u16_from_to_le u32_from_to_le
  u16_mask_bytes(1,2) u16_mask_ffe0

lemma decode_command_result_wire:
  "decode_standard CAN_ID_COMMAND_RESULT data = Inr m \<longleftrightarrow>
   (\<exists>v. m = RxCommandResult v \<and> valid_rx m \<and> data = snd (wire_rx m))" (is "?L \<longleftrightarrow> ?R")
proof
  show "?L \<Longrightarrow> ?R" by (auto simp: decode_forward)
  show "?R \<Longrightarrow> ?L" by (auto simp: decode_backward)
qed

lemma decode_time_request_wire:
  "decode_standard CAN_ID_TIME_REQUEST data = Inr m \<longleftrightarrow>
   (\<exists>v. m = RxTimeRequest v \<and> valid_rx m \<and> data = snd (wire_rx m))" (is "?L \<longleftrightarrow> ?R")
proof
  show "?L \<Longrightarrow> ?R" by (auto simp: decode_forward)
  show "?R \<Longrightarrow> ?L" by (auto simp: decode_backward)
qed

lemma decode_mission_event_wire:
  "decode_standard CAN_ID_MISSION_EVENT data = Inr m \<longleftrightarrow>
   (\<exists>v. m = RxMissionEvent v \<and> valid_rx m \<and> data = snd (wire_rx m))" (is "?L \<longleftrightarrow> ?R")
proof
  show "?L \<Longrightarrow> ?R" by (auto simp: decode_forward)
  show "?R \<Longrightarrow> ?L" by (auto simp: decode_backward)
qed

lemma decode_kinematics_wire:
  "decode_standard CAN_ID_KINEMATICS data = Inr m \<longleftrightarrow>
   (\<exists>v. m = RxKinematics v \<and> valid_rx m \<and> data = snd (wire_rx m))" (is "?L \<longleftrightarrow> ?R")
proof
  show "?L \<Longrightarrow> ?R" by (auto simp: decode_forward)
  show "?R \<Longrightarrow> ?L" by (auto simp: decode_backward)
qed

lemma decode_control_wire:
  "decode_standard CAN_ID_CONTROL data = Inr m \<longleftrightarrow>
   (\<exists>v. m = RxControl v \<and> valid_rx m \<and> data = snd (wire_rx m))" (is "?L \<longleftrightarrow> ?R")
proof
  show "?L \<Longrightarrow> ?R" by (auto simp: decode_forward)
  show "?R \<Longrightarrow> ?L" by (auto simp: decode_backward)
qed

lemma decode_mission_status_wire:
  "decode_standard CAN_ID_MISSION_STATUS data = Inr m \<longleftrightarrow>
   (\<exists>v. m = RxMissionStatus v \<and> valid_rx m \<and> data = snd (wire_rx m))" (is "?L \<longleftrightarrow> ?R")
proof
  show "?L \<Longrightarrow> ?R" by (auto simp: decode_forward)
  show "?R \<Longrightarrow> ?L" by (auto simp: decode_backward)
qed

lemma decode_power_time_wire:
  "decode_standard CAN_ID_POWER_TIME data = Inr m \<longleftrightarrow>
   (\<exists>v. m = RxPowerTime v \<and> valid_rx m \<and> data = snd (wire_rx m))" (is "?L \<longleftrightarrow> ?R")
proof
  show "?L \<Longrightarrow> ?R" by (auto simp: decode_forward)
  show "?R \<Longrightarrow> ?L" by (auto simp: decode_backward)
qed

lemma decode_descent_core_wire:
  "decode_standard CAN_ID_DESCENT_CORE data = Inr m \<longleftrightarrow>
   (\<exists>v. m = RxDescentCore v \<and> valid_rx m \<and> data = snd (wire_rx m))" (is "?L \<longleftrightarrow> ?R")
proof
  show "?L \<Longrightarrow> ?R" by (auto simp: decode_forward)
  show "?R \<Longrightarrow> ?L" by (auto simp: decode_backward)
qed

lemma decode_recovery_status_wire:
  "decode_standard CAN_ID_RECOVERY_STATUS data = Inr m \<longleftrightarrow>
   (\<exists>v. m = RxRecoveryStatus v \<and> valid_rx m \<and> data = snd (wire_rx m))" (is "?L \<longleftrightarrow> ?R")
proof
  show "?L \<Longrightarrow> ?R" by (auto simp: decode_forward)
  show "?R \<Longrightarrow> ?L" by (auto simp: decode_backward)
qed

lemma decode_recovery_log_data_wire:
  "decode_standard CAN_ID_RECOVERY_LOG_DATA data = Inr m \<longleftrightarrow>
   (\<exists>v. m = RxRecoveryLogData v \<and> valid_rx m \<and> data = snd (wire_rx m))" (is "?L \<longleftrightarrow> ?R")
proof
  show "?L \<Longrightarrow> ?R" by (auto simp: decode_forward)
  show "?R \<Longrightarrow> ?L" by (auto simp: decode_backward)
qed

lemma decode_lps_wire:
  "decode_standard CAN_ID_LPS data = Inr m \<longleftrightarrow>
   (\<exists>v. m = RxLps v \<and> valid_rx m \<and> data = snd (wire_rx m))" (is "?L \<longleftrightarrow> ?R")
proof
  show "?L \<Longrightarrow> ?R" by (auto simp: decode_forward)
  show "?R \<Longrightarrow> ?L" by (auto simp: decode_backward)
qed

lemma decode_airspeed_wire:
  "decode_standard CAN_ID_AIRSPEED data = Inr m \<longleftrightarrow>
   (\<exists>v. m = RxAirspeed v \<and> valid_rx m \<and> data = snd (wire_rx m))" (is "?L \<longleftrightarrow> ?R")
proof
  show "?L \<Longrightarrow> ?R" by (auto simp: decode_forward)
  show "?R \<Longrightarrow> ?L" by (auto simp: decode_backward)
qed

lemma u16_out_of_range_bytes: "u16_from_le 0x800a 0x80 = 0x800a"
  by (simp add: u16_from_le_def)

lemma decode_control_roll_v2_wire:
  "decode_standard CAN_ID_CONTROL_ROLL_V2 data = Inr m \<longleftrightarrow>
   (\<exists>v. m = RxControlRollV2 v \<and> valid_rx m \<and> data = snd (wire_rx m))" (is "?L \<longleftrightarrow> ?R")
proof
  show "?L \<Longrightarrow> ?R" by (auto simp: decode_forward dest: u16_bytes_of)
      (metis append_Cons append_Nil u16_to_le_from_le)
  show "?R \<Longrightarrow> ?L" by (auto simp: decode_backward u16_out_of_range_bytes)
qed

lemma decode_attitude_tilt_wire:
  "decode_standard CAN_ID_ATTITUDE_TILT data = Inr m \<longleftrightarrow>
   (\<exists>v. m = RxAttitudeTilt v \<and> valid_rx m \<and> data = snd (wire_rx m))" (is "?L \<longleftrightarrow> ?R")
proof -
  let ?p = "\<lambda>b c. u16_from_le b c"
  have "?L \<longleftrightarrow> (\<exists>a b c. data = [a, b, c] \<and> m = RxAttitudeTilt
      \<lparr>tilt_sequence = a, tilt_magnitude = ucast (?p b c AND 0x7f), tilt_direction = drop_bit 7 (?p b c)\<rparr>)"
    by (auto simp: decode_forward)
  also have "\<dots> \<longleftrightarrow> (\<exists>a b c d e. data = [a, b, c] \<and> m = RxAttitudeTilt
      \<lparr>tilt_sequence = a, tilt_magnitude = d, tilt_direction = e\<rparr> \<and>
      d = ucast (?p b c AND 0x7f) \<and> e = drop_bit 7 (?p b c))"
    by blast
  also have "\<dots> \<longleftrightarrow> (\<exists>a b c d e. data = [a, b, c] \<and> m = RxAttitudeTilt
      \<lparr>tilt_sequence = a, tilt_magnitude = d, tilt_direction = e\<rparr> \<and>
      d AND 0x80 = 0 \<and> e AND 0xfe00 = 0 \<and> ?p b c = ucast d OR push_bit 7 e)"
    unfolding tilt_packing [symmetric] by blast
  also have "\<dots> \<longleftrightarrow> (\<exists>a d e. m = RxAttitudeTilt
      \<lparr>tilt_sequence = a, tilt_magnitude = d, tilt_direction = e\<rparr> \<and>
      d AND 0x80 = 0 \<and> e AND 0xfe00 = 0 \<and> data = a # u16_to_le (ucast d OR push_bit 7 e))"
  proof -
    have "(\<exists>b c. data = [a, b, c] \<and> ?p b c = w) \<longleftrightarrow> data = a # u16_to_le w" for a w
      by (auto dest: u16_bytes_of) (auto simp: u16_to_le_def u16_from_to_le)
    then show ?thesis by blast
  qed
  also have "\<dots> \<longleftrightarrow> ?R"
    by (cases m) (auto, metis attitude_tilt_telemetry.cases attitude_tilt_telemetry.select_convs)
  finally show ?thesis .
qed


lemmas decode_wire = decode_command_result_wire decode_time_request_wire decode_mission_event_wire
  decode_kinematics_wire decode_control_wire decode_mission_status_wire decode_power_time_wire
  decode_descent_core_wire decode_recovery_status_wire decode_recovery_log_data_wire
  decode_attitude_tilt_wire decode_lps_wire decode_airspeed_wire decode_control_roll_v2_wire

lemma decode_standard_sound:
  assumes d: "decode_standard ident data = Inr m"
  shows "valid_rx m" "wire_rx m = (ident, data)"
proof -
  from d have "\<exists>i \<in> {CAN_ID_COMMAND_RESULT, CAN_ID_TIME_REQUEST, CAN_ID_MISSION_EVENT,
      CAN_ID_KINEMATICS, CAN_ID_CONTROL, CAN_ID_MISSION_STATUS, CAN_ID_POWER_TIME,
      CAN_ID_DESCENT_CORE, CAN_ID_RECOVERY_STATUS, CAN_ID_RECOVERY_LOG_DATA,
      CAN_ID_ATTITUDE_TILT, CAN_ID_LPS, CAN_ID_AIRSPEED, CAN_ID_CONTROL_ROLL_V2}. ident = i"
    unfolding decode_standard_def by (simp split: if_split_asm)
  then have "valid_rx m \<and> wire_rx m = (ident, data)"
    using d by (elim bexE) (elim insertE emptyE; simp only: decode_wire; force)
  then show "valid_rx m" "wire_rx m = (ident, data)" by simp_all
qed

text \<open>
  C8. \<open>CanRxMessage::decode_standard\<close> accepts exactly the frames that the wire layout produces
  from the valid messages, and returns the message that was sent: every accepted frame
  decodes to its sender's message, and nothing else is accepted (wrong DLC, unknown
  identifier, reserved bits, unknown enum values, inconsistent out-of-range markers).
\<close>

theorem decode_standard_inverts_wire:
  "decode_standard ident data = Inr m \<longleftrightarrow> valid_rx m \<and> wire_rx m = (ident, data)"
proof
  show "decode_standard ident data = Inr m \<Longrightarrow> valid_rx m \<and> wire_rx m = (ident, data)"
    by (simp add: decode_standard_sound)
  show "valid_rx m \<and> wire_rx m = (ident, data) \<Longrightarrow> decode_standard ident data = Inr m"
    by (cases m) (simp_all only: wire_rx.simps prod.inject, (elim conjE, hypsubst, simp only: decode_wire, force)+)
qed

subsection \<open>Reading a transmitted frame back\<close>

text \<open>
  What the Mission board reads from a frame of this board, stated over the same layout
  conventions. It is a specification: the source has no decoder for these identifiers.
\<close>

definition read_tx :: "u16 \<Rightarrow> bytes \<Rightarrow> can_tx_message option" where
  "read_tx ident d =
     (if ident = CAN_ID_ACTUATOR_EMERGENCY_STOP then Some (ActuatorEmergencyStop (d ! 0))
      else if ident = CAN_ID_LIFTOFF_EMERGENCY_STOP then Some (LiftoffEmergencyStop (d ! 0))
      else if ident = CAN_ID_RECOVERY_CONTROL then
        Option.bind (recovery_opcode_decode (d ! 0 AND 0x0f)) (\<lambda>opcode.
        Option.bind (recovery_source_decode (drop_bit 4 (d ! 0))) (\<lambda>source.
          Some (TxRecoveryControl
            \<lparr>rctl_opcode = opcode, rctl_source = source, rctl_transfer_id = d ! 1,
             rctl_offset = u32_from_le (d ! 2) (d ! 3) (d ! 4) 0,
             rctl_length = u32_from_le (d ! 5) (d ! 6) (d ! 7) 0\<rparr>)))
      else if ident = CAN_ID_GENERIC_COMMAND_REQUEST then
        Some (TxGenericCommandRequest
          \<lparr>req_transaction_id = d ! 0, req_command = d ! 1, req_args = slice d 2 8\<rparr>)
      else if ident = CAN_ID_TIME_RESPONSE then
        map_option (\<lambda>source. TxTimeResponse (d ! 0) source
          (u32_from_le (d ! 2) (d ! 3) (d ! 4) (d ! 5)) (u16_from_le (d ! 6) (d ! 7)))
          (time_source_decode (d ! 1))
      else None)"

text \<open>
  The messages the type system admits (\<open>args\<close> is a 6-byte array) and, among them, the ones
  that fit the frame.
\<close>

fun wf_tx :: "can_tx_message \<Rightarrow> bool" where
  "wf_tx (TxGenericCommandRequest r) \<longleftrightarrow> length (req_args r) = 6"
| "wf_tx _ \<longleftrightarrow> True"

fun encodable_tx :: "can_tx_message \<Rightarrow> bool" where
  "encodable_tx (ActuatorEmergencyStop t) \<longleftrightarrow> t \<noteq> 0"
| "encodable_tx (LiftoffEmergencyStop t) \<longleftrightarrow> t \<noteq> 0"
| "encodable_tx (TxRecoveryControl c) \<longleftrightarrow> rctl_offset c < 2 ^ 24 \<and> rctl_length c < 2 ^ 24"
| "encodable_tx (TxGenericCommandRequest r) \<longleftrightarrow> req_transaction_id r \<noteq> 0"
| "encodable_tx (TxTimeResponse _ _ _ ms) \<longleftrightarrow> ms < 1000"

lemma u24_bound: "\<not> (w > 0x00ffffff) \<longleftrightarrow> (w :: u32) < 2 ^ 24"
  by (auto simp: word_less_nat_alt word_le_nat_alt not_less)

lemma u24_top_byte: "(w :: u32) < 2 ^ 24 \<Longrightarrow> ucast (drop_bit 24 w) = (0 :: u8)"
proof -
  assume "w < 2 ^ 24"
  then have "unat w < 2 ^ 24" by (simp add: word_less_nat_alt)
  then have "unat (drop_bit 24 w) = 0" by (simp add: drop_bit_eq_div unat_div)
  then show ?thesis by (simp add: unat_eq_0)
qed

lemma u24_from_to_le:
  "w < 2 ^ 24 \<Longrightarrow> u32_from_le (ucast w) (ucast (drop_bit 8 w)) (ucast (drop_bit 16 w)) 0 = w"
  using u32_from_to_le [of w] by (simp add: u24_top_byte)

lemma opcode_source_nibbles:
  "(recovery_opcode_code opc OR push_bit 4 (recovery_source_code src)) AND 0x0f = recovery_opcode_code opc"
  "drop_bit 4 (recovery_opcode_code opc OR push_bit 4 (recovery_source_code src)) = recovery_source_code src"
  "drop_bit 4 (recovery_opcode_code opc) OR drop_bit 4 (push_bit 4 (recovery_source_code src)) = recovery_source_code src"
  by (cases opc; cases src; simp)+

lemma millis_bound: "\<not> (999 < (ms :: u16)) \<longleftrightarrow> ms < 1000"
  by (auto simp: word_less_nat_alt)

lemma encode_payload_tx:
  "encode_payload (ActuatorEmergencyStop t) =
     (if t = 0 then Inl EncReservedTransactionId else Inr ([t, 0, 0, 0, 0, 0, 0, 0], 1))"
  "encode_payload (LiftoffEmergencyStop t) =
     (if t = 0 then Inl EncReservedTransactionId else Inr ([t, 0, 0, 0, 0, 0, 0, 0], 1))"
  "encode_payload (TxRecoveryControl c) =
     (if rctl_offset c < 2 ^ 24 \<and> rctl_length c < 2 ^ 24
      then Inr ([recovery_opcode_code (rctl_opcode c) OR push_bit 4 (recovery_source_code (rctl_source c)),
                 rctl_transfer_id c] @ take 3 (u32_to_le (rctl_offset c)) @ take 3 (u32_to_le (rctl_length c)), 8)
      else Inl EncOutOfRange)"
  "length (req_args r) = 6 \<Longrightarrow> encode_payload (TxGenericCommandRequest r) =
     (if req_transaction_id r = 0 then Inl EncReservedTransactionId
      else Inr ([req_transaction_id r, req_command r] @ req_args r, 8))"
  "encode_payload (TxTimeResponse i src u ms) =
     (if ms < 1000 then Inr ([i, time_source_code src] @ u32_to_le u @ u16_to_le ms, 8)
      else Inl EncOutOfRange)"
  using u24_bound [of "rctl_offset c"] u24_bound [of "rctl_length c"] millis_bound [of ms]
  by (auto simp: encode_payload_def Let_def require_transaction_id_def put_u24_le_def copy_into_def
      numeral_eq_Suc u32_to_le_def u16_to_le_def)

text \<open>
  \<open>CanTxMessage::encode_payload\<close> fails exactly on the reserved transaction identifier 0,
  on 24-bit offsets or lengths that do not fit and on milliseconds above 999; otherwise it
  fills all eight bytes, returns the DLC of the message, and the frame reads back as the
  message that was encoded.
\<close>

theorem encode_payload_roundtrip:
  assumes "wf_tx m"
  shows "case encode_payload m of
      Inl _ \<Rightarrow> \<not> encodable_tx m
    | Inr (out, n) \<Rightarrow> encodable_tx m \<and> length out = 8 \<and> n = dlc m \<and>
        read_tx (can_tx_id m) (take n out) = Some m"
proof (cases m)
  case (TxGenericCommandRequest r)
  with assms have "length (req_args r) = 6" by simp
  with TxGenericCommandRequest show ?thesis
    by (simp add: encode_payload_tx read_tx_def slice_def)
qed (auto simp: encode_payload_tx read_tx_def recovery_opcode.decode_code
    recovery_source.decode_code time_source.decode_code opcode_source_nibbles
    u32_to_le_def u16_to_le_def u24_from_to_le u32_from_to_le u16_from_to_le)

theorem encode_payload_roundtrip_witness:
  "wf_tx (TxRecoveryControl \<lparr>rctl_opcode = OpStartLogDump, rctl_source = MissionSdLatestFlight,
      rctl_transfer_id = 0x34, rctl_offset = 0x012345, rctl_length = 0x000456\<rparr>) \<and>
   encode_payload (TxRecoveryControl \<lparr>rctl_opcode = OpStartLogDump,
      rctl_source = MissionSdLatestFlight, rctl_transfer_id = 0x34, rctl_offset = 0x012345,
      rctl_length = 0x000456\<rparr>) =
     Inr ([0x12, 0x34, 0x45, 0x23, 0x01, 0x56, 0x04, 0x00], 8) \<and>
   read_tx 0x008 [0x12, 0x34, 0x45, 0x23, 0x01, 0x56, 0x04, 0x00] =
     Some (TxRecoveryControl \<lparr>rctl_opcode = OpStartLogDump, rctl_source = MissionSdLatestFlight,
      rctl_transfer_id = 0x34, rctl_offset = 0x012345, rctl_length = 0x000456\<rparr>)"
proof -
  let ?m = "TxRecoveryControl \<lparr>rctl_opcode = OpStartLogDump, rctl_source = MissionSdLatestFlight,
      rctl_transfer_id = 0x34, rctl_offset = 0x012345, rctl_length = 0x000456\<rparr>"
  have e: "encode_payload ?m = Inr ([0x12, 0x34, 0x45, 0x23, 0x01, 0x56, 0x04, 0x00], 8)"
    by (simp add: encode_payload_tx u32_to_le_def)
  have "wf_tx ?m" by simp
  from encode_payload_roundtrip [OF this] show ?thesis by (simp add: e)
qed

lemma unat_quality_code:
  "unat (control_roll_quality_code raw) =
     (if 0x8000 \<le> unat raw \<and> unat raw \<le> 0x800f then unat raw - 0x7fff else 0)"
proof (cases "0x8000 \<le> unat raw \<and> unat raw \<le> 0x800f")
  case True
  define k where "k = unat raw - 0x8000"
  with True have k: "unat raw = 0x8000 + k" "k \<le> 15" by auto
  have "raw AND 0x000f = take_bit 4 raw" by (simp add: take_bit_eq_mask mask_numeral)
  then have "unat (raw AND 0x000f) = unat raw mod 16"
    by (simp add: unsigned_take_bit_eq) (simp add: take_bit_eq_mod)
  also have "\<dots> = (16 * 2048 + k) mod 16" using k(1) by simp
  also have "\<dots> = k" using k(2) by (simp only: mod_mult_self4) simp
  finally have a: "unat (raw AND 0x000f) = k" .
  have "unat (ucast (raw AND 0x000f) :: u8) = k"
    using a k(2) by (simp add: unsigned_ucast_eq take_bit_nat_eq_self)
  then have "unat (ucast (raw AND 0x000f) + 1 :: u8) = k + 1"
    using k(2) by (simp add: unat_word_ariths)
  then show ?thesis using True k
    by (simp add: control_roll_quality_code_def word_le_nat_alt)
next
  case False
  then show ?thesis by (auto simp: control_roll_quality_code_def word_le_nat_alt)
qed

lemma quality_code_bit: "bit (control_roll_quality_code raw) n \<Longrightarrow> n < 5"
  by (rule bit_bounded [of _ 5]) (auto simp: unat_quality_code)

lemma bit_status_signature:
  "bit (status_signature t) n \<longleftrightarrow>
     bit (roll_flags t AND 0x1d) n \<or>
     8 \<le> n \<and> bit (control_roll_quality_code (roll_reference_raw t)) (n - 8) \<or>
     13 \<le> n \<and> bit (control_roll_quality_code (roll_deviation_raw t)) (n - 13)"
  using quality_code_bit [of "roll_reference_raw t" "n - 8"]
    quality_code_bit [of "roll_deviation_raw t" "n - 13"] bit_u8_out [of n "roll_flags t AND 0x1d"]
  by (cases "n < 32") (auto simp: status_signature_def bit_simps dest: bit_imp_le_length)

text \<open>
  \<open>status_signature\<close>, which decides whether a new 0x10A frame asks for an extra A7
  packet, never merges two different states: two signatures agree exactly when the four
  status flags and both quality codes agree (the three fields do not overlap in the word),
  and the capture flag and the sequence numbers do not matter.
\<close>

theorem status_signature_faithful:
  "status_signature a = status_signature b \<longleftrightarrow>
     roll_flags a AND 0x1d = roll_flags b AND 0x1d \<and>
     control_roll_quality_code (roll_reference_raw a) = control_roll_quality_code (roll_reference_raw b) \<and>
     control_roll_quality_code (roll_deviation_raw a) = control_roll_quality_code (roll_deviation_raw b)"
  (is "?L \<longleftrightarrow> ?R")
proof
  assume ?R
  then show ?L by (intro bit_word_eqI) (simp add: bit_status_signature)
next
  assume L: ?L
  have bits: "bit (status_signature a) n = bit (status_signature b) n" for n using L by simp
  note q = quality_code_bit [of "roll_reference_raw a"] quality_code_bit [of "roll_reference_raw b"]
    quality_code_bit [of "roll_deviation_raw a"] quality_code_bit [of "roll_deviation_raw b"]
  have f: "roll_flags a AND 0x1d = roll_flags b AND 0x1d"
  proof (rule bit_word_eqI)
    fix n assume "n < LENGTH(8)"
    with bits [of n] show "bit (roll_flags a AND 0x1d) n = bit (roll_flags b AND 0x1d) n"
      by (simp add: bit_status_signature)
  qed
  have r: "control_roll_quality_code (roll_reference_raw a) = control_roll_quality_code (roll_reference_raw b)"
  proof (rule bit_word_eqI)
    fix n show "bit (control_roll_quality_code (roll_reference_raw a)) n =
        bit (control_roll_quality_code (roll_reference_raw b)) n"
      using bits [of "n + 8"] q(1,2) [of n]
      by (cases "n < 5") (auto simp: bit_status_signature bit_u8_out)
  qed
  have d: "control_roll_quality_code (roll_deviation_raw a) = control_roll_quality_code (roll_deviation_raw b)"
  proof (rule bit_word_eqI)
    fix n show "bit (control_roll_quality_code (roll_deviation_raw a)) n =
        bit (control_roll_quality_code (roll_deviation_raw b)) n"
      using bits [of "n + 13"] q(1,2) [of "5 + n"] q(3,4) [of n]
      by (cases "n < 5") (auto simp: bit_status_signature bit_u8_out)
  qed
  from f r d show ?R by blast
qed

end
