(* ===== verification/Command.thy ===== *)
theory Command
  imports Protocol
begin

section \<open>The transaction tracker (src/can/command.rs)\<close>

text \<open>
  \<open>TransactionTracker\<close> remembers up to sixteen generic commands that were forwarded to the
  Mission board and the results of the last sixteen, so that a repeated uplink is answered
  from the cache instead of being executed again. The arrays of slots are lists; the methods
  take the tracker and return it with their result.
\<close>

definition MAX_PENDING_TRANSACTIONS :: nat where "MAX_PENDING_TRANSACTIONS = 16"
definition RESULT_CACHE_CAPACITY :: nat where "RESULT_CACHE_CAPACITY = 16"

datatype register_result =
  Forward | DuplicatePending | Replay command_result | ProtocolError | Busy

record pending_entry =
  pe_request :: generic_command_request

record cached_entry =
  ce_request :: generic_command_request
  ce_result :: command_result

record transaction_tracker =
  pending :: "pending_entry option list"
  results :: "cached_entry option list"
  next_result :: nat

definition new_tracker :: transaction_tracker where
  "new_tracker = \<lparr>pending = replicate MAX_PENDING_TRANSACTIONS None,
     results = replicate RESULT_CACHE_CAPACITY None, next_result = 0\<rparr>"

definition register ::
  "transaction_tracker \<Rightarrow> generic_command_request \<Rightarrow> register_result \<times> transaction_tracker" where
  "register t request =
     (case find (\<lambda>entry. req_transaction_id (pe_request entry) = req_transaction_id request)
             (flatten (pending t)) of
        Some entry \<Rightarrow>
          (if pe_request entry = request
           then (case find (\<lambda>cached. ce_request cached = request) (flatten (results t)) of
                   None \<Rightarrow> DuplicatePending
                 | Some cached \<Rightarrow> Replay (ce_result cached))
           else ProtocolError, t)
      | None \<Rightarrow>
          (case find (\<lambda>entry. req_transaction_id (ce_request entry) = req_transaction_id request)
                  (flatten (results t)) of
             Some entry \<Rightarrow>
               (if ce_request entry = request then Replay (ce_result entry) else ProtocolError, t)
           | None \<Rightarrow>
               (case position (\<lambda>entry. entry = None) (pending t) of
                  None \<Rightarrow> (Busy, t)
                | Some slot \<Rightarrow>
                    (Forward, t\<lparr>pending := (pending t)[slot := Some \<lparr>pe_request = request\<rparr>]\<rparr>))))"

definition apply_result ::
  "transaction_tracker \<Rightarrow> command_result \<Rightarrow> bool \<times> transaction_tracker" where
  "apply_result t result =
     (case position (\<lambda>entry. case entry of None \<Rightarrow> False | Some entry \<Rightarrow>
               req_transaction_id (pe_request entry) = cr_transaction_id result
               \<and> req_command (pe_request entry) = cr_command result) (pending t) of
        None \<Rightarrow> (False, t)
      | Some index \<Rightarrow>
          let request = pe_request (the (pending t ! index));
              t = (case position (\<lambda>entry. case entry of None \<Rightarrow> False | Some entry \<Rightarrow>
                          req_transaction_id (ce_request entry) = req_transaction_id request
                          \<and> req_command (ce_request entry) = req_command request) (results t) of
                     Some found \<Rightarrow>
                       t\<lparr>results := (results t)[found :=
                          Some ((the (results t ! found))\<lparr>ce_result := result\<rparr>)]\<rparr>
                   | None \<Rightarrow>
                       t\<lparr>results := (results t)[next_result t :=
                            Some \<lparr>ce_request = request, ce_result = result\<rparr>],
                         next_result := (next_result t + 1) mod RESULT_CACHE_CAPACITY\<rparr>)
          in (True, if is_final (cr_phase result) then t\<lparr>pending := (pending t)[index := None]\<rparr> else t))"

definition pending_count :: "transaction_tracker \<Rightarrow> nat" where
  "pending_count t = length (flatten (pending t))"

subsection \<open>Invariant\<close>

abbreviation pending_key :: "pending_entry \<Rightarrow> u8" where
  "pending_key e \<equiv> req_transaction_id (pe_request e)"

abbreviation cached_key :: "cached_entry \<Rightarrow> u8" where
  "cached_key e \<equiv> req_transaction_id (ce_request e)"

text \<open>
  Transaction identifiers are unique among the pending slots and among the cached results,
  and an identifier that is in both belongs to the same request.
\<close>

definition tracker_inv :: "transaction_tracker \<Rightarrow> bool" where
  "tracker_inv t \<longleftrightarrow>
     length (pending t) = MAX_PENDING_TRANSACTIONS \<and>
     length (results t) = RESULT_CACHE_CAPACITY \<and>
     next_result t < RESULT_CACHE_CAPACITY \<and>
     uniq_by pending_key (pending t) \<and> uniq_by cached_key (results t) \<and>
     (\<forall>p c. Some p \<in> set (pending t) \<longrightarrow> Some c \<in> set (results t) \<longrightarrow>
        pending_key p = cached_key c \<longrightarrow> pe_request p = ce_request c)"

lemma tracker_invD:
  assumes "tracker_inv t"
  shows "length (pending t) = 16" "length (results t) = 16" "next_result t < 16"
    "uniq_by pending_key (pending t)" "uniq_by cached_key (results t)"
    "Some p \<in> set (pending t) \<Longrightarrow> Some c \<in> set (results t) \<Longrightarrow> pending_key p = cached_key c \<Longrightarrow>
       pe_request p = ce_request c"
  using assms unfolding tracker_inv_def MAX_PENDING_TRANSACTIONS_def RESULT_CACHE_CAPACITY_def
  by blast+

lemma tracker_inv_new: "tracker_inv new_tracker"
  by (auto simp: tracker_inv_def new_tracker_def uniq_by_def RESULT_CACHE_CAPACITY_def)

subsection \<open>The abstract tracker: two finite maps\<close>

text \<open>
  \<open>pending_of\<close> and \<open>cached_of\<close> read the slots as maps from transaction identifiers; under the
  invariant they are all a caller can observe.
\<close>

definition pending_of :: "transaction_tracker \<Rightarrow> u8 \<Rightarrow> generic_command_request option" where
  "pending_of t k = map_option pe_request (lookup_by pending_key (pending t) k)"

definition cached_of :: "transaction_tracker \<Rightarrow> u8 \<Rightarrow> (generic_command_request \<times> command_result) option" where
  "cached_of t k = map_option (\<lambda>e. (ce_request e, ce_result e)) (lookup_by cached_key (results t) k)"

lemma pending_of_Some:
  assumes "tracker_inv t"
  shows "pending_of t k = Some r \<longleftrightarrow> (\<exists>p. Some p \<in> set (pending t) \<and> pe_request p = r \<and> req_transaction_id r = k)"
  by (auto simp: pending_of_def lookup_by_Some [OF tracker_invD(4) [OF assms]])

lemma cached_of_Some:
  assumes "tracker_inv t"
  shows "cached_of t k = Some (r, res) \<longleftrightarrow>
    (\<exists>c. Some c \<in> set (results t) \<and> ce_request c = r \<and> ce_result c = res \<and> req_transaction_id r = k)"
  by (auto simp: cached_of_def lookup_by_Some [OF tracker_invD(5) [OF assms]])

lemma pending_of_None:
  "pending_of t k = None \<longleftrightarrow> (\<forall>p. Some p \<in> set (pending t) \<longrightarrow> pending_key p \<noteq> k)"
  by (simp add: pending_of_def lookup_by_None)

lemma cached_of_None:
  "cached_of t k = None \<longleftrightarrow> (\<forall>c. Some c \<in> set (results t) \<longrightarrow> cached_key c \<noteq> k)"
  by (simp add: cached_of_def lookup_by_None)

lemma tracker_inv_agree:
  assumes inv: "tracker_inv t" and "pending_of t k = Some r" "cached_of t k = Some (r', res)"
  shows "r' = r"
proof -
  from assms obtain p c where "Some p \<in> set (pending t)" "pe_request p = r" "req_transaction_id r = k"
      "Some c \<in> set (results t)" "ce_request c = r'" "req_transaction_id r' = k"
    by (auto simp: pending_of_Some [OF inv] cached_of_Some [OF inv])
  with tracker_invD(6) [OF inv] show ?thesis by metis
qed

lemma tracker_invI:
  assumes "length (pending t) = 16" "length (results t) = 16" "next_result t < 16"
    and u: "uniq_by pending_key (pending t)" "uniq_by cached_key (results t)"
    and agree: "\<And>k r r' res. pending_of t k = Some r \<Longrightarrow> cached_of t k = Some (r', res) \<Longrightarrow> r' = r"
  shows "tracker_inv t"
proof -
  have "pe_request p = ce_request c"
    if "Some p \<in> set (pending t)" "Some c \<in> set (results t)" "pending_key p = cached_key c" for p c
  proof -
    have "lookup_by pending_key (pending t) (pending_key p) = Some p"
      "lookup_by cached_key (results t) (pending_key p) = Some c"
      using that by (simp_all add: lookup_by_Some u)
    with agree [of "pending_key p" "pe_request p" "ce_request c" "ce_result c"] show ?thesis
      by (simp add: pending_of_def cached_of_def)
  qed
  with assms show ?thesis
    by (simp add: tracker_inv_def MAX_PENDING_TRANSACTIONS_def RESULT_CACHE_CAPACITY_def)
qed

subsection \<open>Registering a request\<close>

lemma length_flatten_le: "length (flatten xs) \<le> length xs"
proof (induction xs)
  case (Cons y ys) then show ?case by (cases y) auto
qed simp

lemma flatten_count_full:
  "position (\<lambda>e. e = None) xs = None \<longleftrightarrow> length (flatten xs) = length xs"
proof (induction xs)
  case (Cons x xs)
  with length_flatten_le [of xs] show ?case by (cases x) auto
qed simp

lemma register_cases:
  fixes request :: generic_command_request
  assumes inv: "tracker_inv t"
  defines "k \<equiv> req_transaction_id request"
  shows "register t request =
    (case pending_of t k of
       Some r \<Rightarrow> (if r = request
                  then (case cached_of t k of None \<Rightarrow> DuplicatePending | Some (_, res) \<Rightarrow> Replay res)
                  else ProtocolError, t)
     | None \<Rightarrow> (case cached_of t k of
         Some (r, res) \<Rightarrow> (if r = request then Replay res else ProtocolError, t)
       | None \<Rightarrow> (case position (\<lambda>e. e = None) (pending t) of
           None \<Rightarrow> (Busy, t)
         | Some slot \<Rightarrow> (Forward, t\<lparr>pending := (pending t)[slot := Some \<lparr>pe_request = request\<rparr>]\<rparr>))))"
proof (cases "find (\<lambda>e. pending_key e = k) (flatten (pending t))")
  case None
  then show ?thesis
    by (auto simp: register_def pending_of_def cached_of_def lookup_by_def k_def split: option.splits)
next
  case (Some p)
  then have p: "Some p \<in> set (pending t)" "pending_key p = k" by (auto dest: find_flatten_Some)
  have "find (\<lambda>c. ce_request c = request) (flatten (results t)) = find (\<lambda>e. cached_key e = k) (flatten (results t))"
    if "pe_request p = request"
  proof (rule find_cong [OF refl])
    fix c assume "c \<in> set (flatten (results t))"
    then have "cached_key c = k \<Longrightarrow> ce_request c = request"
      using tracker_invD(6) [OF inv p(1), of c] p(2) that by simp
    then show "(ce_request c = request) = (cached_key c = k)" by (auto simp: k_def)
  qed
  with Some show ?thesis
    by (auto simp: register_def pending_of_def cached_of_def lookup_by_def k_def split: option.splits)
qed

lemma register_pending_store:
  fixes request :: generic_command_request
  assumes inv: "tracker_inv t" and slot: "position (\<lambda>e. e = None) (pending t) = Some slot"
    and fresh: "pending_of t (req_transaction_id request) = None" "cached_of t (req_transaction_id request) = None"
  defines "t' \<equiv> t\<lparr>pending := (pending t)[slot := Some \<lparr>pe_request = request\<rparr>]\<rparr>"
  shows "tracker_inv t'" "pending_of t' = (pending_of t)(req_transaction_id request \<mapsto> request)"
    "cached_of t' = cached_of t"
proof -
  have "slot < length (pending t)" "pending t ! slot = None" using position_Some [OF slot] by auto
  note store = lookup_by_store_free [OF tracker_invD(4) [OF inv] this, of "\<lparr>pe_request = request\<rparr>"]
  have new: "lookup_by pending_key (pending t) (pending_key \<lparr>pe_request = request\<rparr>) = None"
    using fresh(1) by (simp add: pending_of_def)
  show pend: "pending_of t' = (pending_of t)(req_transaction_id request \<mapsto> request)"
    using store(2) [OF new] by (simp add: pending_of_def t'_def fun_eq_iff)
  show cach: "cached_of t' = cached_of t" by (simp add: cached_of_def t'_def fun_eq_iff)
  show "tracker_inv t'"
  proof (rule tracker_invI)
    show "r' = r" if "pending_of t' k = Some r" "cached_of t' k = Some (r', res)" for k r r' res
      using that fresh tracker_inv_agree [OF inv] by (auto simp: pend cach split: if_splits)
  qed (use tracker_invD [OF inv] store(1) [OF new] in \<open>simp_all add: t'_def\<close>)
qed

text \<open>
  C15. \<open>register\<close> follows its contract on the two maps, for every reachable tracker: a new
  identifier is forwarded once and becomes pending (or is refused as Busy with the sixteen
  slots full); a repeated request is never forwarded again, it is answered from the cache or
  reported as a duplicate; an identifier in use with another payload is a protocol error.
  Only a forwarded request changes the tracker.
\<close>

theorem register_contract:
  assumes "tracker_inv t"
  shows "case register t request of (answer, t') \<Rightarrow>
    let k = req_transaction_id request;
        known = (case pending_of t k of Some r \<Rightarrow> Some r | None \<Rightarrow> map_option fst (cached_of t k))
    in tracker_inv t' \<and>
       (case known of
          Some r \<Rightarrow> t' = t \<and>
            answer = (if r \<noteq> request then ProtocolError
                      else case cached_of t k of None \<Rightarrow> DuplicatePending | Some (_, res) \<Rightarrow> Replay res)
        | None \<Rightarrow>
            if pending_count t = MAX_PENDING_TRANSACTIONS then answer = Busy \<and> t' = t
            else answer = Forward \<and> pending_of t' = (pending_of t)(k \<mapsto> request) \<and>
                 cached_of t' = cached_of t)"
proof -
  have full: "position (\<lambda>e. e = None) (pending t) = None \<longleftrightarrow> pending_count t = MAX_PENDING_TRANSACTIONS"
    using assms by (simp add: flatten_count_full pending_count_def tracker_inv_def)
  show ?thesis
    using assms full register_pending_store [OF assms]
    by (auto simp: register_cases [OF assms] Let_def split: option.splits)
qed

lemma register_inv: "tracker_inv t \<Longrightarrow> tracker_inv (snd (register t request))"
  using register_pending_store(1) [of t]
  by (auto simp: register_cases split: option.splits)


subsection \<open>Applying a result\<close>

text \<open>\<open>apply_result\<close> without its nested searches: which slots it writes, under the invariant.\<close>

definition matches :: "transaction_tracker \<Rightarrow> command_result \<Rightarrow> generic_command_request \<Rightarrow> bool" where
  "matches t result request \<longleftrightarrow>
     pending_of t (cr_transaction_id result) = Some request \<and> req_command request = cr_command result"

definition caches :: "u8 \<Rightarrow> cached_entry option \<Rightarrow> bool" where
  "caches k e = (case e of None \<Rightarrow> False | Some e \<Rightarrow> cached_key e = k)"

definition result_slot :: "transaction_tracker \<Rightarrow> u8 \<Rightarrow> nat" where
  "result_slot t k = (case position (caches k) (results t) of Some found \<Rightarrow> found | None \<Rightarrow> next_result t)"

lemma position_cached_key:
  assumes inv: "tracker_inv t" and p: "Some p \<in> set (pending t)"
  shows "position (\<lambda>e. case e of None \<Rightarrow> False | Some e \<Rightarrow> cached_key e = pending_key p
            \<and> req_command (ce_request e) = req_command (pe_request p)) (results t)
       = position (caches (pending_key p)) (results t)"
proof (rule position_cong)
  fix e assume e: "e \<in> set (results t)"
  show "(case e of None \<Rightarrow> False | Some e \<Rightarrow> cached_key e = pending_key p
            \<and> req_command (ce_request e) = req_command (pe_request p)) =
      caches (pending_key p) e"
  proof (cases e)
    case (Some c)
    with e tracker_invD(6) [OF inv p, of c] show ?thesis by (auto simp: caches_def)
  qed (simp add: caches_def)
qed

lemma apply_result_matched:
  assumes inv: "tracker_inv t" and m: "matches t result request"
  obtains index where
    "index < 16" "pending t ! index = Some \<lparr>pe_request = request\<rparr>"
    "apply_result t result = (True,
       let s = result_slot t (cr_transaction_id result);
           t1 = t\<lparr>results := (results t)[s := Some \<lparr>ce_request = request, ce_result = result\<rparr>],
                  next_result := if cached_of t (cr_transaction_id result) = None
                                 then (next_result t + 1) mod 16 else next_result t\<rparr>
       in if is_final (cr_phase result) then t1\<lparr>pending := (pending t)[index := None]\<rparr> else t1)"
proof -
  let ?k = "cr_transaction_id result"
  let ?P = "\<lambda>entry. case entry of None \<Rightarrow> False | Some entry \<Rightarrow>
      req_transaction_id (pe_request entry) = cr_transaction_id result
      \<and> req_command (pe_request entry) = cr_command result"
  from m obtain p where p: "Some p \<in> set (pending t)" "pe_request p = request"
      "req_transaction_id request = ?k" "req_command request = cr_command result"
    by (auto simp: matches_def pending_of_Some [OF inv])
  obtain index where index: "position ?P (pending t) = Some index"
    using p by (cases "position ?P (pending t)") (force simp: position_None)+
  from position_Some [OF index] obtain q where
    q: "index < length (pending t)" "pending t ! index = Some q" "pending_key q = ?k"
    by (auto split: option.splits)
  from q(1,2) have "Some q \<in> set (pending t)" by (metis nth_mem)
  with p q(3) have "q = p" using uniq_by_slot [OF tracker_invD(4) [OF inv]] by auto
  with p have qr: "q = \<lparr>pe_request = request\<rparr>" by simp
  let ?Q = "caches ?k"
  have pos: "position (\<lambda>entry. case entry of None \<Rightarrow> False | Some entry \<Rightarrow>
        req_transaction_id (ce_request entry) = req_transaction_id request
        \<and> req_command (ce_request entry) = req_command request) (results t) = position ?Q (results t)"
    using position_cached_key [OF inv p(1)] unfolding p(2) unfolding p(3) .
  have cached: "position ?Q (results t) = None \<longleftrightarrow> cached_of t ?k = None"
    by (auto simp: position_None cached_of_None caches_def split: option.splits)
  have found: "the (results t ! i)\<lparr>ce_result := result\<rparr> = \<lparr>ce_request = request, ce_result = result\<rparr>"
    if "position ?Q (results t) = Some i" for i
  proof -
    from position_Some [OF that] obtain c where c: "results t ! i = Some c" "cached_key c = ?k" "i < length (results t)"
      by (auto simp: caches_def split: option.splits)
    then have "Some c \<in> set (results t)" by (metis nth_mem)
    with p c have "ce_request c = request" using tracker_invD(6) [OF inv p(1), of c] by simp
    with c show ?thesis by simp
  qed
  have "apply_result t result = (True,
       let s = result_slot t ?k;
           t1 = t\<lparr>results := (results t)[s := Some \<lparr>ce_request = request, ce_result = result\<rparr>],
                  next_result := if cached_of t ?k = None then (next_result t + 1) mod 16 else next_result t\<rparr>
       in if is_final (cr_phase result) then t1\<lparr>pending := (pending t)[index := None]\<rparr> else t1)"
    using cached found
    by (auto simp: apply_result_def index q(2) qr pos result_slot_def Let_def RESULT_CACHE_CAPACITY_def
        split: option.splits)
  moreover have "index < 16" using q(1) tracker_invD(1) [OF inv] by simp
  ultimately show ?thesis using q(2) qr that by simp
qed

lemma apply_result_unmatched:
  assumes inv: "tracker_inv t" and m: "\<nexists>request. matches t result request"
  shows "apply_result t result = (False, t)"
proof -
  let ?P = "\<lambda>entry. case entry of None \<Rightarrow> False | Some entry \<Rightarrow>
      req_transaction_id (pe_request entry) = cr_transaction_id result
      \<and> req_command (pe_request entry) = cr_command result"
  have "position ?P (pending t) = None"
    using m by (auto simp: position_None matches_def pending_of_Some [OF inv] split: option.splits)
  then show ?thesis by (simp add: apply_result_def)
qed


text \<open>The cache without the entry that the next insertion overwrites.\<close>

definition forget_oldest :: "transaction_tracker \<Rightarrow> u8 \<Rightarrow> (generic_command_request \<times> command_result) option" where
  "forget_oldest t = (case results t ! next_result t of
     None \<Rightarrow> cached_of t | Some e \<Rightarrow> (cached_of t)(cached_key e := None))"

lemma result_store:
  fixes request :: generic_command_request and result :: command_result
  assumes inv: "tracker_inv t" and k: "req_transaction_id request = k"
  defines "xs \<equiv> (results t)[result_slot t k := Some \<lparr>ce_request = request, ce_result = result\<rparr>]"
  shows "uniq_by cached_key xs"
    "(\<lambda>j. map_option (\<lambda>e. (ce_request e, ce_result e)) (lookup_by cached_key xs j)) =
       (if cached_of t k = None then forget_oldest t else cached_of t)(k \<mapsto> (request, result))"
proof -
  let ?new = "\<lparr>ce_request = request, ce_result = result\<rparr>"
  note u = tracker_invD(5) [OF inv]
  have "uniq_by cached_key xs \<and>
    (\<lambda>j. map_option (\<lambda>e. (ce_request e, ce_result e)) (lookup_by cached_key xs j)) =
       (if cached_of t k = None then forget_oldest t else cached_of t)(k \<mapsto> (request, result))"
  proof (cases "position (caches k) (results t)")
    case None
    then have none: "cached_of t k = None" "result_slot t k = next_result t"
      by (force simp: position_None cached_of_None caches_def, simp add: result_slot_def)
    then have new: "lookup_by cached_key (results t) (cached_key ?new) = None"
      using k by (simp add: cached_of_def)
    have i: "next_result t < length (results t)" using tracker_invD(2,3) [OF inv] by simp
    from lookup_by_store_other [OF u i new] show ?thesis
      using none k by (auto simp: xs_def forget_oldest_def cached_of_def fun_eq_iff split: option.splits)
  next
    case (Some i)
    from position_Some [OF this] obtain c where
      c: "i < length (results t)" "results t ! i = Some c" "cached_key c = cached_key ?new"
      using k by (auto simp: caches_def split: option.splits)
    have "position (caches k) (results t) \<noteq> None" using Some by simp
    then have "cached_of t k \<noteq> None"
      by (auto simp: position_None cached_of_None caches_def split: option.splits)
    with lookup_by_store_same [OF u c] Some k show ?thesis
      by (auto simp: xs_def result_slot_def cached_of_def fun_eq_iff)
  qed
  then show "uniq_by cached_key xs"
    "(\<lambda>j. map_option (\<lambda>e. (ce_request e, ce_result e)) (lookup_by cached_key xs j)) =
       (if cached_of t k = None then forget_oldest t else cached_of t)(k \<mapsto> (request, result))"
    by blast+
qed

lemma result_slot_less: "tracker_inv t \<Longrightarrow> result_slot t k < 16"
  using position_bound [of "caches k" "results t"] tracker_invD(2,3) [of t]
  by (auto simp: result_slot_def split: option.splits)

lemma forget_oldest_sub: "forget_oldest t j = Some x \<Longrightarrow> cached_of t j = Some x"
  by (auto simp: forget_oldest_def split: option.splits if_splits)

lemma apply_result_effect:
  assumes inv: "tracker_inv t" and m: "matches t result request"
  defines "k \<equiv> cr_transaction_id result" and "t' \<equiv> snd (apply_result t result)"
  shows "fst (apply_result t result)" "tracker_inv t'"
    "pending_of t' = (if is_final (cr_phase result) then (pending_of t)(k := None) else pending_of t)"
    "cached_of t' = (if cached_of t k = None then forget_oldest t else cached_of t)(k \<mapsto> (request, result))"
    "results t' = (results t)[result_slot t k := Some \<lparr>ce_request = request, ce_result = result\<rparr>]"
    "next_result t' = (if cached_of t k = None then (next_result t + 1) mod 16 else next_result t)"
proof -
  from m have k: "req_transaction_id request = k" and pend: "pending_of t k = Some request"
    by (auto simp: matches_def k_def pending_of_Some [OF inv])
  obtain index where index: "index < 16" "pending t ! index = Some \<lparr>pe_request = request\<rparr>"
    and eff: "apply_result t result = (True,
       let s = result_slot t (cr_transaction_id result);
           t1 = t\<lparr>results := (results t)[s := Some \<lparr>ce_request = request, ce_result = result\<rparr>],
                  next_result := if cached_of t (cr_transaction_id result) = None
                                 then (next_result t + 1) mod 16 else next_result t\<rparr>
       in if is_final (cr_phase result) then t1\<lparr>pending := (pending t)[index := None]\<rparr> else t1)"
    by (rule apply_result_matched [OF inv m])
  have index': "index < length (pending t)" using index tracker_invD(1) [OF inv] by simp
  show "fst (apply_result t result)" by (simp add: eff)
  show res: "results t' = (results t)[result_slot t k := Some \<lparr>ce_request = request, ce_result = result\<rparr>]"
    and nxt: "next_result t' = (if cached_of t k = None then (next_result t + 1) mod 16 else next_result t)"
    by (simp_all add: t'_def k_def eff Let_def)
  have pendt: "pending t' = (if is_final (cr_phase result) then (pending t)[index := None] else pending t)"
    by (simp add: t'_def eff Let_def)
  show pend': "pending_of t' = (if is_final (cr_phase result) then (pending_of t)(k := None) else pending_of t)"
    using lookup_by_clear [OF tracker_invD(4) [OF inv] index' index(2)] k
    by (auto simp: pending_of_def pendt fun_eq_iff)
  show cach': "cached_of t' = (if cached_of t k = None then forget_oldest t else cached_of t)(k \<mapsto> (request, result))"
    using result_store(2) [OF inv k] unfolding cached_of_def [abs_def] res by (simp add: fun_eq_iff)
  show "tracker_inv t'"
  proof (rule tracker_invI)
    show "length (pending t') = 16" "length (results t') = 16" "next_result t' < 16"
      using tracker_invD(1,2,3) [OF inv] by (simp_all add: pendt res nxt)
    show "uniq_by pending_key (pending t')"
      using tracker_invD(4) [OF inv] by (simp add: pendt uniq_by_clear)
    show "uniq_by cached_key (results t')"
      unfolding res by (rule result_store(1) [OF inv k])
    show "r' = r" if p: "pending_of t' j = Some r" and c: "cached_of t' j = Some (r', res)" for j r r' res
    proof (cases "j = k")
      case True
      with p c pend show ?thesis by (auto simp: pend' cach' split: if_splits)
    next
      case False
      with p c have "pending_of t j = Some r" "cached_of t j = Some (r', res)"
        by (auto simp: pend' cach' dest!: forget_oldest_sub split: if_splits)
      then show ?thesis by (rule tracker_inv_agree [OF inv])
    qed
  qed
qed

lemma apply_result_inv: "tracker_inv t \<Longrightarrow> tracker_inv (snd (apply_result t result))"
  using apply_result_effect(2) apply_result_unmatched by (metis snd_conv)

subsection \<open>Runs\<close>

datatype tracker_op = Uplink_request generic_command_request | Board_result command_result

fun tracker_step :: "tracker_op \<Rightarrow> transaction_tracker \<Rightarrow> transaction_tracker" where
  "tracker_step (Uplink_request request) t = snd (register t request)"
| "tracker_step (Board_result result) t = snd (apply_result t result)"

definition run_tracker :: "tracker_op list \<Rightarrow> transaction_tracker \<Rightarrow> transaction_tracker" where
  "run_tracker = fold tracker_step"

lemma run_tracker_simps [simp]:
  "run_tracker [] t = t"
  "run_tracker (oper # ops) t = run_tracker ops (tracker_step oper t)"
  by (simp_all add: run_tracker_def)

lemma tracker_step_inv: "tracker_inv t \<Longrightarrow> tracker_inv (tracker_step oper t)"
  by (cases oper) (simp_all add: register_inv apply_result_inv)

lemma run_tracker_inv: "tracker_inv t \<Longrightarrow> tracker_inv (run_tracker ops t)"
  by (induction ops arbitrary: t) (simp_all add: tracker_step_inv)

text \<open>
  Whatever uplink requests and board results arrive, in whatever order, the tracker keeps
  its invariant: unique identifiers in both arrays, agreement between them, the ring index in
  range; in particular never more than sixteen transactions are pending.
\<close>

theorem tracker_reachable_inv:
  "tracker_inv (run_tracker ops new_tracker) \<and>
   pending_count (run_tracker ops new_tracker) \<le> MAX_PENDING_TRANSACTIONS"
proof
  show inv: "tracker_inv (run_tracker ops new_tracker)"
    by (rule run_tracker_inv [OF tracker_inv_new])
  show "pending_count (run_tracker ops new_tracker) \<le> MAX_PENDING_TRANSACTIONS"
    using length_flatten_le [of "pending (run_tracker ops new_tracker)"] tracker_invD(1) [OF inv]
    by (simp add: pending_count_def MAX_PENDING_TRANSACTIONS_def)
qed

subsubsection \<open>The tracker as a memory of the last sixteen answers\<close>

text \<open>
  The abstract machine knows no slots and no ring index: a map of the requests that wait for
  their final result, and the list of the remembered answers, oldest first. A new answer goes
  to the end behind at most fifteen others, the oldest is forgotten when there are more; an
  answer for a transaction that is in the list replaces the older one in its place.
\<close>

type_synonym remembered = "generic_command_request \<times> command_result"
type_synonym command_memory = "(u8 \<Rightarrow> generic_command_request option) \<times> remembered list"

definition answer_of :: "remembered list \<Rightarrow> u8 \<Rightarrow> remembered option" where
  "answer_of answers k = find (\<lambda>(request, _). req_transaction_id request = k) answers"

definition remember :: "generic_command_request \<Rightarrow> command_result \<Rightarrow> remembered list \<Rightarrow> remembered list" where
  "remember request result answers =
     (if answer_of answers (req_transaction_id request) \<noteq> None
      then map (\<lambda>e. if req_transaction_id (fst e) = req_transaction_id request then (request, result) else e) answers
      else drop (length answers - 15) answers @ [(request, result)])"

fun memory_step :: "tracker_op \<Rightarrow> command_memory \<Rightarrow> command_memory" where
  "memory_step (Uplink_request request) (waiting, answers) =
     (let k = req_transaction_id request
      in if waiting k = None \<and> answer_of answers k = None \<and> card (dom waiting) < 16
         then (waiting(k \<mapsto> request), answers) else (waiting, answers))"
| "memory_step (Board_result result) (waiting, answers) =
     (case waiting (cr_transaction_id result) of
        None \<Rightarrow> (waiting, answers)
      | Some request \<Rightarrow>
          if req_command request \<noteq> cr_command result then (waiting, answers)
          else (if cr_phase result = Accepted then waiting else waiting(cr_transaction_id result := None),
                remember request result answers))"

text \<open>The ring of slots, read from the slot that is overwritten next, is that list.\<close>

definition remembers :: "transaction_tracker \<Rightarrow> command_memory \<Rightarrow> bool" where
  "remembers t = (\<lambda>(waiting, answers). tracker_inv t \<and> pending_of t = waiting \<and>
     (\<exists>free held. rotate (next_result t) (results t) = replicate free None @ map Some held \<and>
        answers = map (\<lambda>e. (ce_request e, ce_result e)) held))"

lemma rotate_store:
  assumes "n < length xs"
  shows "rotate (Suc n mod length xs) (xs[n := y]) = tl (rotate n xs) @ [y]"
proof -
  have "rotate (Suc n mod length xs) (xs[n := y]) = rotate1 (rotate n (xs[n := y]))"
    by (metis length_list_update rotate_Suc rotate_conv_mod)
  moreover have "rotate n (xs[n := y]) = y # drop (Suc n) xs @ take n xs"
    using assms by (simp add: rotate_drop_take Cons_nth_drop_Suc [symmetric])
  moreover have "rotate n xs = (xs ! n) # drop (Suc n) xs @ take n xs"
    using assms by (simp add: rotate_drop_take Cons_nth_drop_Suc)
  ultimately show ?thesis by simp
qed

lemma remembers_answer:
  assumes "remembers t (waiting, answers)"
  shows "cached_of t = answer_of answers"
proof
  fix k
  from assms obtain free held where inv: "tracker_inv t"
    and ring: "rotate (next_result t) (results t) = replicate free None @ map Some held"
    and answers: "answers = map (\<lambda>e. (ce_request e, ce_result e)) held"
    by (auto simp: remembers_def)
  have held: "Some e \<in> set (results t) \<longleftrightarrow> e \<in> set held" for e
    using arg_cong [OF ring, of set] by auto
  show "cached_of t k = answer_of answers k"
  proof (cases "answer_of answers k")
    case None
    then have "\<forall>e \<in> set held. cached_key e \<noteq> k" by (auto simp: answer_of_def find_None_iff answers)
    with None show ?thesis by (simp add: cached_of_None held)
  next
    case (Some x)
    then have x: "x \<in> set answers" "req_transaction_id (fst x) = k"
      by (auto simp: answer_of_def find_Some_iff dest: nth_mem)
    from x(1) obtain e where e: "e \<in> set held" "x = (ce_request e, ce_result e)"
      unfolding answers set_map by blast
    with x(2) have "cached_key e = k" by simp
    with e held have "lookup_by cached_key (results t) k = Some e"
      by (simp add: lookup_by_Some [OF tracker_invD(5) [OF inv]])
    with Some e(2) show ?thesis by (simp add: cached_of_def)
  qed
qed

text \<open>Replacing the entry of a transaction leaves the order of the ring alone.\<close>

lemma store_known:
  assumes inv: "tracker_inv t" and "cached_of t k \<noteq> None" and new: "cached_key new = k"
  shows "(results t)[result_slot t k := Some new] = map (\<lambda>e. if caches k e then Some new else e) (results t)"
proof (rule nth_equalityI)
  fix j assume j: "j < length ((results t)[result_slot t k := Some new])"
  from assms(2) obtain i where i: "position (caches k) (results t) = Some i"
    by (cases "position (caches k) (results t)")
      (auto simp: position_None cached_of_None caches_def split: option.splits)
  from position_Some [OF i] have hit: "i < length (results t)" "caches k (results t ! i)" by simp_all
  then obtain c where c: "results t ! i = Some c" "cached_key c = k" by (auto simp: caches_def split: option.splits)
  have "j = i" if "caches k (results t ! j)"
    using that j hit c uniq_byD [OF tracker_invD(5) [OF inv], of j i _ c]
    by (auto simp: caches_def split: option.splits)
  with i hit j show "(results t)[result_slot t k := Some new] ! j =
      map (\<lambda>e. if caches k e then Some new else e) (results t) ! j"
    by (auto simp: result_slot_def nth_list_update)
qed simp

lemma remembers_result:
  assumes "remembers t (waiting, answers)"
  shows "remembers (snd (apply_result t result)) (memory_step (Board_result result) (waiting, answers))"
proof (cases "\<exists>request. matches t result request")
  case True
  then obtain request where m: "matches t result request" ..
  define k where "k = cr_transaction_id result"
  define new where "new = \<lparr>ce_request = request, ce_result = result\<rparr>"
  define t' where "t' = snd (apply_result t result)"
  from assms obtain free held where inv: "tracker_inv t" and waiting: "pending_of t = waiting"
    and ring: "rotate (next_result t) (results t) = replicate free None @ map Some held"
    and answers: "answers = map (\<lambda>e. (ce_request e, ce_result e)) held"
    by (auto simp: remembers_def)
  note effect = apply_result_effect [OF inv m, folded k_def t'_def]
  have request: "waiting k = Some request" "req_command request = cr_command result" "req_transaction_id request = k"
    using m by (auto simp: matches_def k_def waiting pending_of_Some [OF inv] simp flip: waiting)
  have size: "free + length held = 16"
    using arg_cong [OF ring, of length] tracker_invD(2) [OF inv] by simp
  have step: "memory_step (Board_result result) (waiting, answers) =
      (if cr_phase result = Accepted then waiting else waiting(k := None), remember request result answers)"
    using request by (simp add: k_def)
  have pend: "pending_of t' = (if cr_phase result = Accepted then waiting else waiting(k := None))"
    using effect(3) waiting by (simp add: is_final_def)
  have "\<exists>free held. rotate (next_result t') (results t') = replicate free None @ map Some held \<and>
      remember request result answers = map (\<lambda>e. (ce_request e, ce_result e)) held"
  proof (cases "cached_of t k = None")
    case True
    then have "position (caches k) (results t) = None"
      by (force simp: position_None cached_of_None caches_def split: option.splits)
    then have "result_slot t k = next_result t" by (simp add: result_slot_def)
    with True effect(5,6) have ring': "rotate (next_result t') (results t') =
        tl (replicate free None @ map Some held) @ [Some new]"
      using rotate_store [of "next_result t" "results t" "Some new"] tracker_invD(2,3) [OF inv] ring
      by (simp add: new_def)
    have "remember request result answers = drop (length answers - 15) answers @ [(request, result)]"
      using True remembers_answer [OF assms] request(3) by (simp add: remember_def)
    with ring' size show ?thesis
      by (intro exI [of _ "free - 1"] exI [of _ "drop (length held - 15) held @ [new]"], cases free)
        (simp_all add: answers new_def drop_map drop_Suc map_tl)
  next
    case False
    let ?put = "\<lambda>e. if cached_key e = k then new else e"
    have "(\<lambda>e. if caches k e then Some new else e) = map_option ?put"
      by (auto simp: caches_def fun_eq_iff split: option.splits)
    then have "results t' = map (map_option ?put) (results t)"
      using effect(5) store_known [OF inv False, of new] request(3) by (simp add: new_def)
    then have "rotate (next_result t') (results t') = replicate free None @ map Some (map ?put held)"
      using effect(6) False ring by (simp add: rotate_map)
    moreover have "remember request result answers = map (\<lambda>e. (ce_request e, ce_result e)) (map ?put held)"
      using False remembers_answer [OF assms] request(3) by (auto simp: remember_def answers new_def)
    ultimately show ?thesis by blast
  qed
  then show ?thesis unfolding step t'_def [symmetric] remembers_def using effect(2) pend by simp
next
  case False
  from assms have inv: "tracker_inv t" and waiting: "pending_of t = waiting" by (auto simp: remembers_def)
  have "memory_step (Board_result result) (waiting, answers) = (waiting, answers)"
    using False waiting by (auto simp: matches_def split: option.splits)
  with assms show ?thesis by (simp only: apply_result_unmatched [OF inv False] snd_conv)
qed

text \<open>A request never touches the ring; it is noted if it is new and there is room.\<close>

lemma pending_count_card:
  assumes "tracker_inv t"
  shows "pending_count t = card (dom (pending_of t))"
proof -
  have "distinct (map key (flatten xs))" if "uniq_by key xs" for key :: "pending_entry \<Rightarrow> u8" and xs
    using that
  proof (induction xs)
    case (Cons x xs)
    have "uniq_by key xs"
      unfolding uniq_by_def
    proof (intro allI impI)
      fix i j a b
      assume "i < length xs" "j < length xs" "xs ! i = Some a" "xs ! j = Some b" "key a = key b"
      then show "i = j" using uniq_byD [OF Cons.prems, of "Suc i" "Suc j" a b] by simp
    qed
    moreover have "key a \<noteq> key b" if "x = Some a" "Some b \<in> set xs" for a b
    proof -
      from that(2) obtain j where "j < length xs" "xs ! j = Some b" by (auto simp: in_set_conv_nth)
      then show ?thesis using uniq_byD [OF Cons.prems, of 0 "Suc j" a b] that(1) by auto
    qed
    ultimately show ?case using Cons.IH by (cases x) auto
  qed simp
  from distinct_card [OF this [OF tracker_invD(4) [OF assms]]]
  have "length (flatten (pending t)) = card (pending_key ` set (flatten (pending t)))" by simp
  moreover have "dom (pending_of t) = pending_key ` set (flatten (pending t))"
    using lookup_by_Some [OF tracker_invD(4) [OF assms]] by (auto simp: pending_of_def dom_def image_iff) 
  ultimately show ?thesis by (simp add: pending_count_def)
qed

lemma remembers_request:
  assumes "remembers t (waiting, answers)"
  shows "remembers (snd (register t request)) (memory_step (Uplink_request request) (waiting, answers))"
proof -
  let ?k = "req_transaction_id request"
  from assms have inv: "tracker_inv t" and waiting: "pending_of t = waiting" by (auto simp: remembers_def)
  note cached = remembers_answer [OF assms]
  have full: "position (\<lambda>e. e = None) (pending t) = None \<longleftrightarrow> \<not> card (dom waiting) < 16"
    using flatten_count_full [of "pending t"] length_flatten_le [of "pending t"] pending_count_card [OF inv]
      tracker_invD(1) [OF inv] by (auto simp: pending_count_def waiting)
  show ?thesis
  proof (cases "waiting ?k = None \<and> answer_of answers ?k = None \<and> card (dom waiting) < 16")
    case True
    with full obtain slot where slot: "position (\<lambda>e. e = None) (pending t) = Some slot" by fastforce
    with True have "register t request = (Forward, t\<lparr>pending := (pending t)[slot := Some \<lparr>pe_request = request\<rparr>]\<rparr>)"
      by (simp add: register_cases [OF inv] waiting cached)
    with True register_pending_store [OF inv slot] waiting cached assms show ?thesis
      by (auto simp: remembers_def Let_def)
  next
    case False
    then have "snd (register t request) = t"
      using full by (auto simp: register_cases [OF inv] waiting cached split: option.splits)
    with False assms show ?thesis by (auto simp: Let_def)
  qed
qed

lemma remembers_run: "remembers t memory \<Longrightarrow> remembers (run_tracker ops t) (fold memory_step ops memory)"
proof (induction ops arbitrary: t memory)
  case (Cons oper ops)
  obtain waiting answers where m: "memory = (waiting, answers)" by fastforce
  have "remembers (tracker_step oper t) (memory_step oper memory)"
    using Cons.prems remembers_request remembers_result unfolding m by (cases oper) simp_all
  then show ?case using Cons.IH by simp
qed simp

lemma remembers_new: "remembers new_tracker (\<lambda>_. None, [])"
proof -
  have "pending_of new_tracker = (\<lambda>_. None)"
    by (auto simp: pending_of_def lookup_by_None new_tracker_def fun_eq_iff)
  then show ?thesis
    using tracker_inv_new
    by (auto simp: remembers_def) (auto simp: new_tracker_def)
qed

text \<open>
  C14. \<open>apply_result\<close> follows its contract after every run of requests and results: the tracker
  holds what the abstract memory holds, a result is taken exactly when a pending request has its
  transaction and its command, and then the memory changes as specified: the answer is cached,
  in the place of the request's older answer or else behind the fifteen youngest of the others,
  and a final result (anything but Accepted) frees the pending slot. Any other result changes
  nothing. The memory is a list of answers in the order of their arrival and has no ring index.
\<close>

theorem apply_result_contract:
  "let t = run_tracker ops new_tracker;
       (waiting, answers) = fold memory_step ops (\<lambda>_. None, []);
       (waiting', answers') = memory_step (Board_result result) (waiting, answers);
       (applied, t') = apply_result t result
   in pending_of t = waiting \<and> cached_of t = answer_of answers \<and>
      pending_of t' = waiting' \<and> cached_of t' = answer_of answers' \<and>
      (if \<exists>request. waiting (cr_transaction_id result) = Some request \<and> req_command request = cr_command result
       then applied else \<not> applied \<and> t' = t)"
proof -
  define t where "t = run_tracker ops new_tracker"
  obtain waiting answers where memory: "fold memory_step ops (\<lambda>_. None, []) = (waiting, answers)" by fastforce
  obtain waiting' answers' where after: "memory_step (Board_result result) (waiting, answers) = (waiting', answers')"
    by fastforce
  obtain applied t' where applied: "apply_result t result = (applied, t')" by fastforce
  have now: "remembers t (waiting, answers)"
    using remembers_run [OF remembers_new, of ops] by (simp add: t_def memory)
  have later: "remembers t' (waiting', answers')"
    using remembers_result [OF now, of result] unfolding after applied snd_conv .
  have inv: "tracker_inv t" and waiting: "pending_of t = waiting" and "pending_of t' = waiting'"
    using now later by (simp_all add: remembers_def)
  moreover have "if \<exists>request. waiting (cr_transaction_id result) = Some request \<and> req_command request = cr_command result
      then applied else \<not> applied \<and> t' = t"
  proof (cases "\<exists>request. matches t result request")
    case True
    then obtain request where m: "matches t result request" ..
    with apply_result_effect(1) [OF inv m] show ?thesis by (auto simp: applied matches_def waiting)
  next
    case False
    with apply_result_unmatched [OF inv False] show ?thesis by (auto simp: applied matches_def waiting)
  qed
  ultimately show ?thesis
    unfolding Let_def t_def [symmetric] memory prod.case after applied
    using remembers_answer [OF now] remembers_answer [OF later] by blast
qed

subsubsection \<open>A forwarded request is not forwarded again\<close>

definition finishes :: "generic_command_request \<Rightarrow> tracker_op \<Rightarrow> bool" where
  "finishes request oper = (case oper of
     Board_result result \<Rightarrow> cr_transaction_id result = req_transaction_id request \<and>
       cr_command result = req_command request \<and> is_final (cr_phase result)
   | _ \<Rightarrow> False)"

lemma register_keeps_pending:
  assumes "tracker_inv t" "pending_of t k = Some r"
  shows "pending_of (snd (register t request)) k = Some r"
  using assms register_pending_store(2) [OF assms(1), of _ request]
  by (auto simp: register_cases split: option.splits)

lemma step_keeps_pending:
  assumes inv: "tracker_inv t" and p: "pending_of t (req_transaction_id r) = Some r" and n: "\<not> finishes r oper"
  shows "pending_of (tracker_step oper t) (req_transaction_id r) = Some r"
proof (cases oper)
  case (Board_result result)
  show ?thesis
  proof (cases "\<exists>request. matches t result request")
    case True
    then obtain request where m: "matches t result request" ..
    have "\<not> (is_final (cr_phase result) \<and> cr_transaction_id result = req_transaction_id r)"
      using m n p by (auto simp: matches_def finishes_def Board_result)
    then show ?thesis using p by (auto simp: Board_result apply_result_effect(3) [OF inv m])
  next
    case False
    then show ?thesis using p by (simp add: Board_result apply_result_unmatched [OF inv False])
  qed
qed (simp add: register_keeps_pending [OF inv p])

lemma run_keeps_pending:
  "tracker_inv t \<Longrightarrow> pending_of t (req_transaction_id r) = Some r \<Longrightarrow> \<forall>oper \<in> set ops. \<not> finishes r oper \<Longrightarrow>
   pending_of (run_tracker ops t) (req_transaction_id r) = Some r"
  by (induction ops arbitrary: t) (simp_all add: step_keeps_pending tracker_step_inv)

text \<open>
  C7. A command that was forwarded to the Mission board is not forwarded a second time, however
  often the ground station repeats it and whatever else happens, until its final result has
  arrived: every repetition is answered as a duplicate or from the cache, and the same
  identifier with another payload is refused.
\<close>

theorem forwarded_once:
  assumes "tracker_inv t" and "fst (register t request) = Forward"
    and "\<forall>oper \<in> set ops. \<not> finishes request oper"
    and "req_transaction_id again = req_transaction_id request"
  shows "fst (register (run_tracker ops (snd (register t request))) again) \<in>
    (if again = request then insert DuplicatePending (range Replay) else {ProtocolError})"
proof -
  let ?t = "snd (register t request)"
  have "pending_of ?t (req_transaction_id request) = Some request"
    using assms(2) register_pending_store(2) [OF assms(1), of _ request]
    by (auto simp: register_cases [OF assms(1)] split: option.splits if_splits)
  then have "pending_of (run_tracker ops ?t) (req_transaction_id request) = Some request"
    by (rule run_keeps_pending [OF register_inv [OF assms(1)] _ assms(3)])
  then show ?thesis
    using assms(4) by (auto simp: register_cases [OF run_tracker_inv [OF register_inv [OF assms(1)]]]
        split: option.splits)
qed

subsubsection \<open>The replay window\<close>

text \<open>
  \<open>kept r s entry t\<close>: the result cache still holds \<open>entry\<close> in slot \<open>s\<close>, its transaction is no
  longer pending, and at least \<open>r\<close> more results fit before the ring comes round to \<open>s\<close>.
\<close>

definition kept :: "nat \<Rightarrow> nat \<Rightarrow> cached_entry \<Rightarrow> transaction_tracker \<Rightarrow> bool" where
  "kept r s entry t \<longleftrightarrow> tracker_inv t \<and> s < 16 \<and> results t ! s = Some entry \<and>
     pending_of t (cached_key entry) = None \<and>
     (\<exists>d. r \<le> d \<and> d < 16 \<and> (next_result t + d) mod 16 = s)"

fun is_result :: "tracker_op \<Rightarrow> bool" where
  "is_result (Board_result _) = True"
| "is_result (Uplink_request _) = False"

lemma kept_cached: "kept r s entry t \<Longrightarrow> cached_of t (cached_key entry) = Some (ce_request entry, ce_result entry)"
  using tracker_invD(2) [of t] nth_mem [of s "results t"] by (auto simp: kept_def cached_of_Some)

lemma kept_register:
  assumes k: "kept r s entry t"
  shows "kept r s entry (snd (register t request))"
proof -
  from k have inv: "tracker_inv t" by (simp add: kept_def)
  have "pending_of (snd (register t request)) (cached_key entry) = None"
    using k kept_cached [OF k] register_pending_store(2) [OF inv, of _ request]
    by (auto simp: register_cases [OF inv] kept_def split: option.splits)
  moreover have "results (snd (register t request)) = results t" "next_result (snd (register t request)) = next_result t"
    by (auto simp: register_def split: option.splits)
  ultimately show ?thesis using k register_inv [OF inv] by (simp add: kept_def)
qed

lemma kept_result:
  assumes k: "kept (Suc r) s entry t"
  shows "kept r s entry (snd (apply_result t result))"
proof (cases "\<exists>request. matches t result request")
  case True
  then obtain request where m: "matches t result request" ..
  let ?k = "cr_transaction_id result" and ?t = "snd (apply_result t result)"
  from k obtain d where inv: "tracker_inv t" and d: "Suc r \<le> d" "d < 16" "(next_result t + d) mod 16 = s"
    and s: "results t ! s = Some entry" "s < 16" by (auto simp: kept_def)
  note eff = apply_result_effect [OF inv m]
  have other: "?k \<noteq> cached_key entry" using k m by (auto simp: kept_def matches_def)
  have "result_slot t ?k \<noteq> s"
  proof (cases "position (caches ?k) (results t)")
    case None
    have "next_result t \<noteq> s"
    proof
      assume n: "next_result t = s"
      obtain q where "s + d = q * 16 + s" using d(3) n by (metis div_mult_mod_eq)
      with d show False by simp
    qed
    with None show ?thesis by (simp add: result_slot_def)
  next
    case (Some i)
    from position_Some [OF this] s(1) other show ?thesis
      by (auto simp: caches_def result_slot_def Some split: option.splits)
  qed
  moreover have "pending_of ?t (cached_key entry) = None"
    using k eff(3) by (simp add: kept_def)
  moreover have "\<exists>d'. r \<le> d' \<and> d' < 16 \<and> (next_result ?t + d') mod 16 = s"
  proof (cases "cached_of t ?k = None")
    case True
    from d(1) obtain d' where "d = Suc d'" by (cases d) auto
    with True d show ?thesis by (intro exI [of _ d']) (auto simp: eff(6) mod_simps)
  next
    case False
    with d show ?thesis by (intro exI [of _ d]) (auto simp: eff(6))
  qed
  ultimately show ?thesis using s eff(2) by (simp add: kept_def eff(5))
next
  case False
  have "kept r s entry t" using k by (auto simp: kept_def intro: Suc_leD)
  moreover have "tracker_inv t" using k by (simp add: kept_def)
  ultimately show ?thesis using False by (simp add: apply_result_unmatched)
qed

lemma kept_run:
  "kept (r + length (filter is_result ops)) s entry t \<Longrightarrow> kept r s entry (run_tracker ops t)"
proof (induction ops arbitrary: t)
  case (Cons oper ops)
  then show ?case by (cases oper) (auto intro!: Cons.IH kept_register kept_result)
qed simp

text \<open>
  C2. A final result that enters the cache as a new entry is replayed to every repetition of
  its request as long as at most fifteen further results arrive, whatever requests and results
  those are: the command is not executed a second time.
\<close>

theorem replay_window:
  assumes "tracker_inv t" and "fst (apply_result t result)" and "is_final (cr_phase result)"
    and "pending_of t (cr_transaction_id result) = Some request"
    and "cached_of t (cr_transaction_id result) = None"
    and "length (filter is_result ops) \<le> 15"
  shows "fst (register (run_tracker ops (snd (apply_result t result))) request) = Replay result"
proof -
  let ?t = "snd (apply_result t result)" and ?entry = "\<lparr>ce_request = request, ce_result = result\<rparr>"
  have m: "matches t result request"
  proof (rule ccontr)
    assume "\<not> matches t result request"
    with assms(4) have "\<nexists>r. matches t result r" by (auto simp: matches_def)
    from apply_result_unmatched [OF assms(1) this] assms(2) show False by simp
  qed
  note eff = apply_result_effect [OF assms(1) m]
  have k: "req_transaction_id request = cr_transaction_id result"
    using assms(4) by (auto simp: pending_of_Some [OF assms(1)])
  have slot: "result_slot t (cr_transaction_id result) = next_result t"
  proof -
    have "position (caches (cr_transaction_id result)) (results t) = None"
      using assms(5) by (auto simp: position_None cached_of_None caches_def split: option.splits)
    then show ?thesis by (simp add: result_slot_def)
  qed
  have n: "next_result t < 16" "length (results t) = 16" using tracker_invD [OF assms(1)] by auto
  have "kept 15 (next_result t) ?entry ?t"
    using eff(2) eff(3,5,6) assms(3,5) k n slot
    by (auto simp: kept_def mod_simps intro!: exI [of _ 15])
  then have "kept (0 + length (filter is_result ops)) (next_result t) ?entry ?t"
    using assms(6) by (auto simp: kept_def intro: order_trans)
  then have "kept 0 (next_result t) ?entry (run_tracker ops ?t)" by (rule kept_run)
  then show ?thesis
    using kept_cached [of 0 "next_result t" ?entry] k
    by (auto simp: kept_def register_cases)
qed


subsubsection \<open>Concrete runs\<close>

definition demo_request :: "u8 \<Rightarrow> generic_command_request" where
  "demo_request n = \<lparr>req_transaction_id = n, req_command = 2, req_args = replicate 6 0\<rparr>"

definition demo_result :: "u8 \<Rightarrow> command_phase \<Rightarrow> command_result" where
  "demo_result n phase = \<lparr>cr_transaction_id = n, cr_command = 2, cr_phase = phase,
     cr_reason = NoReason, cr_detail = 0\<rparr>"

definition demo_exchange :: "u8 \<Rightarrow> tracker_op list" where
  "demo_exchange n = [Uplink_request (demo_request n), Board_result (demo_result n Completed)]"

text \<open>
  The window is counted from the first result of a transaction, not from its final one: a
  long command whose Accepted was cached first keeps that cache slot, so when its Completed
  arrives after fifteen other transactions, a single further result evicts it and a
  repetition of the completed command is forwarded to the Mission board again.
\<close>

theorem accepted_entry_ages:
  "let early = [Uplink_request (demo_request 1), Board_result (demo_result 1 Accepted)];
       others = concat (map demo_exchange [2, 3, 4, 5, 6, 7, 8, 9, 10, 11, 12, 13, 14, 15, 16]);
       t = run_tracker (early @ others @ [Board_result (demo_result 1 Completed)]) new_tracker
   in fst (register t (demo_request 1)) = Replay (demo_result 1 Completed) \<and>
      fst (register (run_tracker (demo_exchange 17) t) (demo_request 1)) = Forward"
  by code_simp

text \<open>Instances of the contracts above on concrete trackers.\<close>

lemma register_contract_witness:
  "tracker_inv new_tracker \<and> fst (register new_tracker (demo_request 1)) = Forward \<and>
   pending_of (snd (register new_tracker (demo_request 1))) 1 = Some (demo_request 1)"
proof -
  have "pending_of new_tracker 1 = None" "cached_of new_tracker 1 = None"
      "pending_count new_tracker \<noteq> MAX_PENDING_TRANSACTIONS" "req_transaction_id (demo_request 1) = 1"
    by code_simp+
  with register_contract [OF tracker_inv_new, of "demo_request 1"] show ?thesis
    by (simp add: tracker_inv_new case_prod_beta Let_def)
qed

lemma forwarded_once_witness:
  "fst (register (run_tracker (demo_exchange 2 @ [Board_result (demo_result 1 Accepted)])
     (snd (register new_tracker (demo_request 1)))) (demo_request 1)) \<in> insert DuplicatePending (range Replay)"
proof -
  have "fst (register new_tracker (demo_request 1)) = Forward"
    "\<forall>oper \<in> set (demo_exchange 2 @ [Board_result (demo_result 1 Accepted)]). \<not> finishes (demo_request 1) oper"
    by code_simp+
  from forwarded_once [OF tracker_inv_new this, of "demo_request 1"] show ?thesis by simp
qed

lemma replay_window_witness:
  "fst (register (run_tracker (concat (map demo_exchange [2, 3, 4, 5, 6, 7, 8, 9, 10, 11, 12, 13, 14, 15, 16]))
     (run_tracker (demo_exchange 1) new_tracker)) (demo_request 1)) = Replay (demo_result 1 Completed)"
proof -
  let ?t = "snd (register new_tracker (demo_request 1))"
  have "fst (apply_result ?t (demo_result 1 Completed))" "is_final (cr_phase (demo_result 1 Completed))"
    "pending_of ?t (cr_transaction_id (demo_result 1 Completed)) = Some (demo_request 1)"
    "cached_of ?t (cr_transaction_id (demo_result 1 Completed)) = None"
    "length (filter is_result (concat (map demo_exchange [2, 3, 4, 5, 6, 7, 8, 9, 10, 11, 12, 13, 14, 15, 16]))) \<le> 15"
    by code_simp+
  from replay_window [OF register_inv [OF tracker_inv_new] this] show ?thesis
    by (simp add: demo_exchange_def [of 1])
qed

end
