(* ===== verification/Recovery.thy ===== *)
theory Recovery
  imports Protocol
begin

section \<open>Recovery transfers (src/can/recovery.rs)\<close>

text \<open>
  \<open>RecoverySession\<close> follows the single recovery command that may be outstanding on the CAN bus
  and turns the Mission board's status frames into command results. \<open>RecoveryAssembler\<close> joins
  the 6-byte fragments of a log dump into the 16-byte chunks of the A6 packet. The methods take
  the object and return it with their result.
\<close>

subsection \<open>The session\<close>

record pending_recovery =
  prec_transaction_id :: u8
  prec_command :: u8
  prec_opcode :: recovery_opcode
  prec_source :: recovery_source

record recovery_session =
  rec_pending :: "pending_recovery option"

definition new_session :: recovery_session where
  "new_session = \<lparr>rec_pending = None\<rparr>"

definition session_start :: "recovery_session \<Rightarrow> pending_recovery \<Rightarrow> bool \<times> recovery_session" where
  "session_start s p = (if rec_pending s \<noteq> None then (False, s) else (True, s\<lparr>rec_pending := Some p\<rparr>))"

definition session_cancel :: "recovery_session \<Rightarrow> u8 \<Rightarrow> recovery_session" where
  "session_cancel s transaction_id =
     (if (case rec_pending s of None \<Rightarrow> False | Some p \<Rightarrow> prec_transaction_id p = transaction_id)
      then s\<lparr>rec_pending := None\<rparr> else s)"

fun status_outcome :: "recovery_opcode \<Rightarrow> recovery_status_code \<Rightarrow> command_phase \<times> command_reason \<times> bool" where
  "status_outcome opcode RsDumping = (Accepted, NoReason, False)"
| "status_outcome opcode RsReady = (Completed, NoReason, True)"
| "status_outcome opcode RsComplete = (Completed, NoReason, True)"
| "status_outcome opcode RsAborted =
     (if opcode = OpStopLogDump then (Completed, NoReason, True) else (Failed, InterruptedByEmergency, True))"
| "status_outcome opcode RsBusy = (Rejected, ReasonBusy, True)"
| "status_outcome opcode RsInvalidState = (Rejected, InvalidState, True)"
| "status_outcome opcode RsInvalidArgument = (Rejected, InvalidArgument, True)"
| "status_outcome opcode RsSourceUnavailable = (Failed, DeviceUnavailable, True)"
| "status_outcome opcode RsIoError = (Failed, PersistenceError, True)"
| "status_outcome opcode RsInternalError = (Failed, InternalError, True)"

definition apply_status :: "recovery_session \<Rightarrow> recovery_status \<Rightarrow> command_result option \<times> recovery_session" where
  "apply_status s status =
     (case rec_pending s of
        None \<Rightarrow> (None, s)
      | Some p \<Rightarrow>
          if rs_transfer_id status \<noteq> prec_transaction_id p \<or> rs_source status \<noteq> prec_source p
             \<or> rs_opcode status \<noteq> prec_opcode p
          then (None, s)
          else (case status_outcome (prec_opcode p) (rs_status status) of (phase, reason, final_result) \<Rightarrow>
            (Some \<lparr>cr_transaction_id = prec_transaction_id p, cr_command = prec_command p,
                   cr_phase = phase, cr_reason = reason, cr_detail = rs_total_size status\<rparr>,
             if final_result then s\<lparr>rec_pending := None\<rparr> else s)))"

definition active_source :: "recovery_session \<Rightarrow> recovery_source option" where
  "active_source s = map_option prec_source (rec_pending s)"

definition session_fail ::
  "recovery_session \<Rightarrow> command_reason \<Rightarrow> u32 \<Rightarrow> command_result option \<times> recovery_session" where
  "session_fail s reason detail =
     (case rec_pending s of
        None \<Rightarrow> (None, s)
      | Some p \<Rightarrow>
          (Some \<lparr>cr_transaction_id = prec_transaction_id p, cr_command = prec_command p,
                 cr_phase = Failed, cr_reason = reason, cr_detail = detail\<rparr>,
           s\<lparr>rec_pending := None\<rparr>))"

definition fail_matching ::
  "recovery_session \<Rightarrow> u8 \<Rightarrow> command_reason \<Rightarrow> u32 \<Rightarrow> command_result option \<times> recovery_session" where
  "fail_matching s transaction_id reason detail =
     (if (case rec_pending s of None \<Rightarrow> True | Some p \<Rightarrow> prec_transaction_id p \<noteq> transaction_id)
      then (None, s) else session_fail s reason detail)"

definition interrupt_with_stop ::
  "recovery_session \<Rightarrow> pending_recovery \<Rightarrow> command_result option \<times> recovery_session" where
  "interrupt_with_stop s p =
     (case session_fail s InterruptedByEmergency 0 of (interrupted, s) \<Rightarrow>
        (interrupted, s\<lparr>rec_pending := Some p\<rparr>))"

subsection \<open>The assembler\<close>

record recovery_chunk =
  ch_transfer_id :: u8
  ch_source :: recovery_source
  ch_offset :: u32
  ch_data_length :: u8
  ch_data :: bytes
  ch_end_of_file :: bool

record recovery_resume =
  rsm_transfer_id :: u8
  rsm_source :: recovery_source
  rsm_offset :: u32

datatype recovery_assembly_error = NotStarted | WrongTransfer | SequenceGap

record recovery_assembler =
  asm_active :: bool
  asm_transfer_id :: u8
  asm_source :: recovery_source
  asm_offset :: u32
  asm_total_size :: "u32 option"
  asm_expected :: "u8 option"
  asm_data :: bytes
  asm_length :: u8

definition new_assembler :: recovery_assembler where
  "new_assembler = \<lparr>asm_active = False, asm_transfer_id = 0, asm_source = InternalFlash,
     asm_offset = 0, asm_total_size = None, asm_expected = None,
     asm_data = replicate 16 0, asm_length = 0\<rparr>"

definition asm_start ::
  "recovery_assembler \<Rightarrow> u8 \<Rightarrow> recovery_source \<Rightarrow> u32 \<Rightarrow> u32 \<Rightarrow> recovery_assembler" where
  "asm_start a transfer_id source offset requested_length =
     \<lparr>asm_active = True, asm_transfer_id = transfer_id, asm_source = source, asm_offset = offset,
      asm_total_size = (if requested_length \<noteq> 0 then Some (saturating_add offset requested_length) else None),
      asm_expected = None, asm_data = replicate 16 0, asm_length = 0\<rparr>"

definition set_total_size :: "recovery_assembler \<Rightarrow> u8 \<Rightarrow> u32 \<Rightarrow> recovery_assembler" where
  "set_total_size a transfer_id total_size =
     (if asm_active a \<and> asm_transfer_id a = transfer_id \<and> total_size \<noteq> 0
      then a\<lparr>asm_total_size := Some (case asm_total_size a of None \<Rightarrow> total_size | Some e \<Rightarrow> min e total_size)\<rparr>
      else a)"

definition asm_next_offset :: "recovery_assembler \<Rightarrow> u32" where
  "asm_next_offset a = saturating_add (asm_offset a) (ucast (asm_length a))"

definition reached_end :: "recovery_assembler \<Rightarrow> bool" where
  "reached_end a = (case asm_total_size a of None \<Rightarrow> False | Some total_size \<Rightarrow> total_size \<le> asm_next_offset a)"

definition take_chunk :: "recovery_assembler \<Rightarrow> bool \<Rightarrow> recovery_chunk \<times> recovery_assembler" where
  "take_chunk a end_of_file =
     (\<lparr>ch_transfer_id = asm_transfer_id a, ch_source = asm_source a, ch_offset = asm_offset a,
       ch_data_length = asm_length a, ch_data = asm_data a, ch_end_of_file = end_of_file\<rparr>,
      let a = a\<lparr>asm_offset := asm_next_offset a, asm_data := replicate 16 0, asm_length := 0\<rparr>
      in if end_of_file then a\<lparr>asm_active := False\<rparr> else a)"

definition finish :: "recovery_assembler \<Rightarrow> u8 \<Rightarrow> recovery_chunk option \<times> recovery_assembler" where
  "finish a transfer_id =
     (if \<not> asm_active a \<or> asm_transfer_id a \<noteq> transfer_id then (None, a)
      else case take_chunk a True of (chunk, a) \<Rightarrow> (Some chunk, a))"

definition asm_stop :: "recovery_assembler \<Rightarrow> recovery_chunk option \<times> recovery_assembler" where
  "asm_stop a = (if \<not> asm_active a then (None, a) else finish a (asm_transfer_id a))"

definition fragment_length :: "recovery_assembler \<Rightarrow> nat" where
  "fragment_length a = (case asm_total_size a of None \<Rightarrow> 6
     | Some total_size \<Rightarrow> unat (min (saturating_sub total_size (asm_next_offset a)) 6))"

lemma round_progress:
  fixes l :: u8
  assumes "l \<noteq> 16" "source < len"
  shows "len - (source + min (unat (16 - l)) (len - source)) < len - source"
    "len - (source + unat (16 - l)) < len - source"
proof -
  have "0 < unat (16 - l)" using assms(1) by (simp add: unat_gt_0)
  with assms(2) show "len - (source + min (unat (16 - l)) (len - source)) < len - source"
    "len - (source + unat (16 - l)) < len - source" by linarith+
qed

text \<open>
  The copying loop of \<open>push\<close>. One round copies what fits into the 16-byte buffer and takes the
  chunk when the buffer is full. It ends for every state: a round either copies at least one
  byte or empties a full buffer.
\<close>

function push_loop ::
  "bytes \<Rightarrow> nat \<Rightarrow> nat \<Rightarrow> recovery_chunk option \<Rightarrow> recovery_assembler \<Rightarrow> recovery_chunk option \<times> recovery_assembler" where
  "push_loop data len source emitted a =
     (if source < len then
        let copied = min (unat (16 - asm_length a)) (len - source);
            destination = unat (asm_length a);
            a1 = a\<lparr>asm_data := copy_into (asm_data a) destination (slice data source (source + copied)),
                   asm_length := asm_length a + of_nat copied\<rparr>;
            source1 = source + copied
        in if asm_length a1 = 16
           then (case take_chunk a1 (reached_end a1 \<and> source1 = len) of
                   (chunk, a2) \<Rightarrow> push_loop data len source1 (Some chunk) a2)
           else push_loop data len source1 emitted a1
      else (emitted, a))"
  by pat_completeness auto
termination
proof (relation "measure (\<lambda>(_, len, source, _, a). 2 * (len - source) + (if asm_length a = 16 then 1 else 0))")
qed (auto simp: take_chunk_def Let_def round_progress split: if_splits)

definition push ::
  "recovery_assembler \<Rightarrow> recovery_log_data \<Rightarrow>
   (recovery_assembly_error + recovery_chunk option) \<times> recovery_assembler" where
  "push a fragment =
     (if \<not> asm_active a then (Inl NotStarted, a)
      else if rl_transfer_id fragment \<noteq> asm_transfer_id a then (Inl WrongTransfer, a)
      else if (case asm_expected a of None \<Rightarrow> False | Some e \<Rightarrow> rl_sequence fragment \<noteq> e)
      then (Inl SequenceGap,
            a\<lparr>asm_offset := asm_next_offset a, asm_data := replicate 16 0, asm_length := 0,
              asm_active := False\<rparr>)
      else let a = a\<lparr>asm_expected := Some (rl_sequence fragment + 1)\<rparr>
           in case push_loop (rl_data fragment) (fragment_length a) 0 None a of (emitted, a) \<Rightarrow>
                if emitted = None \<and> reached_end a
                then (case take_chunk a True of (chunk, a) \<Rightarrow> (Inr (Some chunk), a))
                else (Inr emitted, a))"

definition asm_abort :: "recovery_assembler \<Rightarrow> recovery_resume option \<times> recovery_assembler" where
  "asm_abort a =
     (if asm_transfer_id a \<noteq> 0
      then Some \<lparr>rsm_transfer_id = asm_transfer_id a, rsm_source = asm_source a, rsm_offset = asm_next_offset a\<rparr>
      else None,
      a\<lparr>asm_active := False, asm_data := replicate 16 0, asm_length := 0\<rparr>)"

declare push_loop.simps [simp del]

subsection \<open>What the buffer holds\<close>

definition buffered :: "recovery_assembler \<Rightarrow> bytes" where
  "buffered a = take (unat (asm_length a)) (asm_data a)"

definition with_buffer :: "recovery_assembler \<Rightarrow> bytes \<Rightarrow> recovery_assembler" where
  "with_buffer a bs = a\<lparr>asm_data := bs @ replicate (16 - length bs) 0, asm_length := of_nat (length bs)\<rparr>"

definition chunk_of :: "recovery_assembler \<Rightarrow> bytes \<Rightarrow> bool \<Rightarrow> recovery_chunk" where
  "chunk_of a bs end_of_file =
     \<lparr>ch_transfer_id = asm_transfer_id a, ch_source = asm_source a, ch_offset = asm_offset a,
      ch_data_length = of_nat (length bs), ch_data = bs @ replicate (16 - length bs) 0,
      ch_end_of_file = end_of_file\<rparr>"

definition asm_inv :: "recovery_assembler \<Rightarrow> bool" where
  "asm_inv a \<longleftrightarrow> length (asm_data a) = 16 \<and> unat (asm_length a) < 16 \<and>
     drop (unat (asm_length a)) (asm_data a) = replicate (16 - unat (asm_length a)) 0"

lemma asm_inv_buffer:
  assumes "asm_inv a"
  shows "with_buffer a (buffered a) = a" "length (buffered a) < 16"
    "asm_length a = of_nat (length (buffered a))"
proof -
  have "buffered a @ replicate (16 - unat (asm_length a)) 0 = asm_data a"
    using assms unfolding asm_inv_def buffered_def by (metis append_take_drop_id)
  with assms show "with_buffer a (buffered a) = a" "length (buffered a) < 16"
    "asm_length a = of_nat (length (buffered a))"
    by (auto simp: with_buffer_def asm_inv_def buffered_def min_def)
qed

lemma unat_of_nat_u8 [simp]: "n < 256 \<Longrightarrow> unat (of_nat n :: u8) = n"
  by (simp add: unat_of_nat)

lemma ucast_of_nat_u8: "n < 256 \<Longrightarrow> (ucast (of_nat n :: u8) :: u32) = of_nat n"
  by (simp add: unsigned_of_nat take_bit_nat_eq_self)

lemma with_buffer_simps [simp]:
  "asm_active (with_buffer a bs) = asm_active a"
  "asm_transfer_id (with_buffer a bs) = asm_transfer_id a"
  "asm_source (with_buffer a bs) = asm_source a"
  "asm_offset (with_buffer a bs) = asm_offset a"
  "asm_total_size (with_buffer a bs) = asm_total_size a"
  "asm_expected (with_buffer a bs) = asm_expected a"
  "asm_length (with_buffer a bs) = of_nat (length bs)"
  "asm_data (with_buffer a bs) = bs @ replicate (16 - length bs) 0"
  by (simp_all add: with_buffer_def)

lemma buffered_with_buffer [simp]: "length bs \<le> 16 \<Longrightarrow> buffered (with_buffer a bs) = bs"
  by (simp add: buffered_def)

lemma asm_inv_with_buffer [simp]: "length bs < 16 \<Longrightarrow> asm_inv (with_buffer a bs)"
  by (simp add: asm_inv_def)

lemma with_buffer_Nil: "a\<lparr>asm_data := replicate 16 0, asm_length := 0\<rparr> = with_buffer a []"
  by (simp add: with_buffer_def)

lemma next_offset_with_buffer:
  "length bs \<le> 16 \<Longrightarrow> asm_next_offset (with_buffer a bs) = saturating_add (asm_offset a) (of_nat (length bs))"
  by (simp add: asm_next_offset_def ucast_of_nat_u8)

lemma take_chunk_with_buffer:
  assumes "length bs \<le> 16"
  shows "take_chunk (with_buffer a bs) end_of_file =
    (chunk_of a bs end_of_file,
     with_buffer (a\<lparr>asm_offset := saturating_add (asm_offset a) (of_nat (length bs)),
                    asm_active := asm_active a \<and> \<not> end_of_file\<rparr>) [])"
  using assms next_offset_with_buffer [OF assms, of a]
  by (simp add: take_chunk_def chunk_of_def with_buffer_def Let_def)

lemma push_loop_round:
  assumes "length bs < 16" "source < len" "len \<le> length data"
  defines "copied \<equiv> min (16 - length bs) (len - source)"
  defines "bs' \<equiv> bs @ slice data source (source + copied)"
  shows "push_loop data len source emitted (with_buffer a bs) =
    (if length bs' = 16
     then (case take_chunk (with_buffer a bs') (reached_end (with_buffer a bs') \<and> source + copied = len) of
             (chunk, a2) \<Rightarrow> push_loop data len (source + copied) (Some chunk) a2)
     else push_loop data len (source + copied) emitted (with_buffer a bs'))"
    "length bs' = length bs + copied" "length bs' \<le> 16"
proof -
  have c: "unat (16 - of_nat (length bs) :: u8) = 16 - length bs"
  proof -
    have "(of_nat (length bs) :: u8) \<le> 16" using assms(1) by (simp add: word_le_nat_alt)
    then show ?thesis using assms(1) by (simp add: unat_sub)
  qed
  have sl: "length (slice data source (source + copied)) = copied"
    using assms(2,3) by (simp add: copied_def)
  then show len': "length bs' = length bs + copied" by (simp add: bs'_def)
  then show le: "length bs' \<le> 16" using assms(1) by (simp add: copied_def)
  have l: "unat (of_nat (length bs) :: u8) = length bs" using assms(1) by simp
  have store: "(with_buffer a bs)\<lparr>asm_data := copy_into (asm_data (with_buffer a bs)) (length bs) (slice data source (source + copied)),
      asm_length := of_nat (length bs) + of_nat copied\<rparr> = with_buffer a bs'"
    using le len' sl by (simp add: with_buffer_def copy_into_def bs'_def)
  have full: "(of_nat (length bs') :: u8) = 16 \<longleftrightarrow> length bs' = 16"
  proof
    assume "(of_nat (length bs') :: u8) = 16"
    then have "unat (of_nat (length bs') :: u8) = unat (16 :: u8)" by simp
    then show "length bs' = 16" using le by simp
  qed simp
  show "push_loop data len source emitted (with_buffer a bs) =
    (if length bs' = 16
     then (case take_chunk (with_buffer a bs') (reached_end (with_buffer a bs') \<and> source + copied = len) of
             (chunk, a2) \<Rightarrow> push_loop data len (source + copied) (Some chunk) a2)
     else push_loop data len (source + copied) emitted (with_buffer a bs'))"
    unfolding push_loop.simps [of data len source emitted "with_buffer a bs"] Let_def
      with_buffer_simps(7) c l copied_def [symmetric] store
    using assms(2) by (simp add: full)
qed

lemma push_loop_done: "len \<le> source \<Longrightarrow> push_loop data len source emitted a = (emitted, a)"
  by (subst push_loop.simps) simp


lemma push_loop_buffer:
  fixes a :: recovery_assembler and data :: bytes
  assumes bs: "length bs < 16" and n: "n \<le> 6" "n \<le> length data"
  defines "all \<equiv> bs @ take n data"
  defines "e \<equiv> reached_end (with_buffer a (take 16 all)) \<and> length all = 16"
  shows "push_loop data n 0 None (with_buffer a bs) =
    (if length all < 16 then (None, with_buffer a all)
     else (Some (chunk_of a (take 16 all) e),
           with_buffer (a\<lparr>asm_offset := saturating_add (asm_offset a) 16,
                          asm_active := asm_active a \<and> \<not> e\<rparr>) (drop 16 all)))"
proof (cases "n = 0")
  case True
  with bs show ?thesis by (simp add: push_loop_done all_def)
next
  case False
  define c where "c = min (16 - length bs) n"
  have sl: "slice data 0 c = take c data" by (simp add: slice_def)
  note r = push_loop_round(1) [OF bs _ n(2), of 0 None a, unfolded add_0 diff_zero, folded c_def, unfolded sl]
  show ?thesis
  proof (cases "length all < 16")
    case True
    then have "c = n" using n by (simp add: c_def all_def)
    with r False True show ?thesis by (simp add: push_loop_done all_def)
  next
    case full: False
    then have c: "c = 16 - length bs" "c \<le> n" using n bs by (auto simp: c_def all_def)
    have bs': "bs @ take c data = take 16 all" "length (take 16 all) = 16"
      using c bs n full by (auto simp: all_def min_def)
    have cn: "c = n \<longleftrightarrow> length all = 16" using c bs n full by (auto simp: all_def)
    let ?a = "a\<lparr>asm_offset := saturating_add (asm_offset a) 16, asm_active := asm_active a \<and> \<not> e\<rparr>"
    have first: "push_loop data n 0 None (with_buffer a bs) =
        push_loop data n c (Some (chunk_of a (take 16 all) e)) (with_buffer ?a [])"
      using r False bs' cn by (simp add: take_chunk_with_buffer e_def)
    show ?thesis
    proof (cases "c = n")
      case True
      then have "drop 16 all = []" using cn by simp
      then show ?thesis unfolding first True push_loop_done [OF order_refl] using full by simp
    next
      case more: False
      have rest: "slice data c n = drop 16 all"
        using c bs n by (simp add: slice_def all_def drop_take)
      have le: "c < n" "min 16 (n - c) = n - c" "c + (n - c) = n" "length (drop 16 all) \<noteq> 16"
        using bs n c more by (auto simp: all_def)
      have "push_loop data n c em (with_buffer ?a []) = push_loop data n n em (with_buffer ?a (drop 16 all))" for em
        using push_loop_round(1) [of "[]" c n data em ?a, unfolded list.size(3) append_Nil diff_zero le(2,3) rest]
        by (simp add: le n del: length_drop)
      then show ?thesis unfolding first push_loop_done [OF order_refl] using full by simp
    qed
  qed
qed

text \<open>What a fragment in sequence does: the buffer grows by \<open>n\<close> bytes and gives at most one chunk.\<close>

definition in_sequence :: "recovery_assembler \<Rightarrow> recovery_log_data \<Rightarrow> bool" where
  "in_sequence a f \<longleftrightarrow> asm_active a \<and> rl_transfer_id f = asm_transfer_id a \<and>
     (case asm_expected a of None \<Rightarrow> True | Some e \<Rightarrow> rl_sequence f = e)"

lemma fragment_length_le: "fragment_length a \<le> 6"
proof -
  have "unat (min w 6 :: u32) \<le> unat (6 :: u32)" for w
    unfolding word_le_nat_alt [symmetric] by simp
  then show ?thesis by (auto simp: fragment_length_def split: option.splits)
qed

lemma push_in_sequence:
  assumes inv: "asm_inv a" and seq: "in_sequence a f" and len: "6 \<le> length (rl_data f)"
  defines "all \<equiv> buffered a @ take (fragment_length a) (rl_data f)"
    and "b \<equiv> a\<lparr>asm_expected := Some (rl_sequence f + 1)\<rparr>"
  defines "e \<equiv> reached_end (with_buffer b (take 16 all)) \<and> length all \<le> 16"
  shows "push a f =
    (if length all < 16 \<and> \<not> e then (Inr None, with_buffer b all)
     else (Inr (Some (chunk_of b (take 16 all) e)),
           with_buffer (b\<lparr>asm_offset := saturating_add (asm_offset b) (of_nat (length (take 16 all))),
                          asm_active := \<not> e\<rparr>) (drop 16 all)))"
proof -
  have b: "a\<lparr>asm_expected := Some (rl_sequence f + 1)\<rparr> = with_buffer b (buffered a)"
    using asm_inv_buffer(1) [OF inv] unfolding b_def with_buffer_def
    by (metis (no_types, lifting) recovery_assembler.surjective recovery_assembler.update_convs(6,7,8))
  have act: "asm_active b" using seq by (simp add: in_sequence_def b_def)
  have n: "fragment_length (with_buffer b (buffered a)) = fragment_length a"
  proof -
    have "asm_next_offset (with_buffer b (buffered a)) = asm_next_offset a"
      by (simp add: asm_next_offset_def b_def flip: asm_inv_buffer(3) [OF inv])
    then show ?thesis by (simp add: fragment_length_def b_def split: option.split)
  qed
  have nn: "fragment_length a \<le> length (rl_data f)" using len fragment_length_le [of a] by simp
  note loop = push_loop_buffer [OF asm_inv_buffer(2) [OF inv] fragment_length_le nn, of b, folded all_def]
  have push: "push a f = (case push_loop (rl_data f) (fragment_length a) 0 None (with_buffer b (buffered a)) of
      (emitted, a) \<Rightarrow> if emitted = None \<and> reached_end a
        then (case take_chunk a True of (chunk, a) \<Rightarrow> (Inr (Some chunk), a)) else (Inr emitted, a))"
    using seq by (auto simp: push_def in_sequence_def b n Let_def split: option.splits)
  show ?thesis
  proof (cases "length all < 16")
    case True
    then show ?thesis
      using act by (simp add: push loop e_def take_chunk_with_buffer)
  next
    case False
    then have e: "e \<longleftrightarrow> reached_end (with_buffer b (take 16 all)) \<and> length all = 16"
      by (auto simp: e_def)
    from False have "length (take 16 all) = 16" by simp
    with False act show ?thesis by (simp add: push loop flip: e)
  qed
qed


subsection \<open>A whole transfer\<close>

text \<open>
  \<open>receive\<close> is how the CAN task drives the assembler: fragments are pushed as they arrive, an
  error ends the transfer, and the Mission board's Complete status finishes it.
\<close>

fun receive :: "recovery_assembler \<Rightarrow> recovery_log_data list \<Rightarrow> recovery_chunk list" where
  "receive a [] = (case finish a (asm_transfer_id a) of (None, _) \<Rightarrow> [] | (Some c, _) \<Rightarrow> [c])"
| "receive a (f # fs) = (case push a f of
     (Inl _, _) \<Rightarrow> []
   | (Inr None, a) \<Rightarrow> receive a fs
   | (Inr (Some c), a) \<Rightarrow> c # receive a fs)"

text \<open>Consecutive fragments of one transfer; the sequence number is a byte and wraps.\<close>

fun consecutive :: "u8 \<Rightarrow> u8 \<Rightarrow> recovery_log_data list \<Rightarrow> bool" where
  "consecutive tid s [] = True"
| "consecutive tid s (f # fs) =
     (rl_transfer_id f = tid \<and> rl_sequence f = s \<and> length (rl_data f) = 6 \<and> consecutive tid (s + 1) fs)"

text \<open>
  \<open>carries tid src off bs chunks\<close>: the chunks are contiguous from offset \<open>off\<close>, their valid bytes
  are \<open>bs\<close>, unused bytes are zero, all but the last hold 16 bytes and only the last is marked
  end-of-file.
\<close>

fun carries :: "u8 \<Rightarrow> recovery_source \<Rightarrow> nat \<Rightarrow> bytes \<Rightarrow> recovery_chunk list \<Rightarrow> bool" where
  "carries tid src off bs [] = False"
| "carries tid src off bs (c # cs) =
     (let n = unat (ch_data_length c)
      in ch_transfer_id c = tid \<and> ch_source c = src \<and> unat (ch_offset c) = off \<and> n \<le> length bs \<and>
         n \<le> 16 \<and> ch_data c = take n bs @ replicate (16 - n) 0 \<and>
         (if ch_end_of_file c then cs = [] \<and> n = length bs
          else n = 16 \<and> carries tid src (off + 16) (drop 16 bs) cs))"

definition position_of :: "recovery_assembler \<Rightarrow> nat" where
  "position_of a = unat (asm_offset a) + length (buffered a)"

text \<open>The part of the incoming bytes that belongs to the transfer.\<close>

definition limited :: "recovery_assembler \<Rightarrow> bytes \<Rightarrow> bytes" where
  "limited a bs = (case asm_total_size a of None \<Rightarrow> bs | Some t \<Rightarrow> take (unat t - position_of a) bs)"

lemma unat_next_offset:
  assumes "asm_inv a" "position_of a < 2 ^ 32"
  shows "unat (asm_next_offset a) = position_of a"
proof -
  have "unat (ucast (asm_length a) :: u32) = length (buffered a)"
    using asm_inv_buffer(2,3) [OF assms(1)] by (simp add: ucast_of_nat_u8 unat_of_nat)
  with assms(2) show ?thesis
    by (simp add: asm_next_offset_def unat_saturating_add position_of_def)
qed

lemma unat_next_offset_buffer:
  assumes "length bs \<le> 16" "unat (asm_offset a) + length bs < 2 ^ 32"
  shows "unat (saturating_add (asm_offset a) (of_nat (length bs))) = unat (asm_offset a) + length bs"
  using assms by (simp add: unat_saturating_add unat_of_nat)

lemma fragment_length_room:
  assumes "asm_inv a" "position_of a < 2 ^ 32"
  shows "fragment_length a = (case asm_total_size a of None \<Rightarrow> 6 | Some t \<Rightarrow> min (unat t - position_of a) 6)"
proof -
  have "unat (min v w) = min (unat v) (unat w)" for v w :: u32
    by (simp add: min_def word_le_nat_alt)
  then show ?thesis
    by (simp add: fragment_length_def unat_saturating_sub unat_next_offset [OF assms] split: option.split)
qed

lemma reached_end_buffer:
  assumes "length bs \<le> 16" "unat (asm_offset a) + length bs < 2 ^ 32"
  shows "reached_end (with_buffer a bs) \<longleftrightarrow>
    (case asm_total_size a of None \<Rightarrow> False | Some t \<Rightarrow> unat t \<le> unat (asm_offset a) + length bs)"
  using unat_next_offset_buffer [OF assms]
  by (simp add: reached_end_def next_offset_with_buffer [OF assms(1)] word_le_nat_alt split: option.split)

lemma receive_inactive: "\<not> asm_active a \<Longrightarrow> receive a fs = []"
  by (cases fs) (simp_all add: finish_def push_def)

lemma carries_last: "length bs \<le> 16 \<Longrightarrow>
    carries (asm_transfer_id a) (asm_source a) (unat (asm_offset a)) bs [chunk_of a bs True]"
  by (simp add: chunk_of_def)

lemma carries_full: "16 \<le> length bs \<Longrightarrow>
    carries (asm_transfer_id a) (asm_source a) (unat (asm_offset a)) bs (chunk_of a (take 16 bs) False # cs)
    \<longleftrightarrow> carries (asm_transfer_id a) (asm_source a) (unat (asm_offset a) + 16) (drop 16 bs) cs"
  by (simp add: chunk_of_def min_def)

lemma receive_carries:
  assumes "asm_inv a" "asm_active a" "consecutive (asm_transfer_id a) s fs"
    and "asm_expected a = None \<or> asm_expected a = Some s"
    and "position_of a + 6 * length fs < 2 ^ 32"
  shows "carries (asm_transfer_id a) (asm_source a) (unat (asm_offset a))
           (buffered a @ limited a (concat (map rl_data fs))) (receive a fs)"
  using assms
proof (induction fs arbitrary: a s)
  case Nil
  have "receive a [] = [chunk_of a (buffered a) True]"
    using Nil.prems(2) asm_inv_buffer(2) [OF Nil.prems(1)] asm_inv_buffer(1) [OF Nil.prems(1)]
      take_chunk_with_buffer [of "buffered a" a True]
    by (simp add: finish_def)
  with asm_inv_buffer(2) [OF Nil.prems(1)] show ?case
    by (simp add: chunk_of_def limited_def split: option.split)
next
  case (Cons f fs)
  let ?bs = "buffered a"
  define n where "n = fragment_length a"
  define all where "all = ?bs @ take n (rl_data f)"
  define b where "b = a\<lparr>asm_expected := Some (rl_sequence f + 1)\<rparr>"
  define e where "e = (reached_end (with_buffer b (take 16 all)) \<and> length all \<le> 16)"
  have f: "in_sequence a f" "6 \<le> length (rl_data f)" "rl_sequence f = s" "length (rl_data f) = 6"
    using Cons.prems by (auto simp: in_sequence_def)
  note push = push_in_sequence [OF Cons.prems(1) f(1,2), folded n_def, folded all_def b_def, folded e_def]
  have pos: "position_of a < 2 ^ 32" "unat (asm_offset a) + length all < 2 ^ 32" and n6: "n \<le> 6"
    using Cons.prems(5) f(4) fragment_length_le [of a] by (auto simp: position_of_def all_def n_def)
  have n: "n = (case asm_total_size a of None \<Rightarrow> 6 | Some t \<Rightarrow> min (unat t - position_of a) 6)"
    unfolding n_def by (rule fragment_length_room [OF Cons.prems(1) pos(1)])
  have len: "length all = length ?bs + n" "length ?bs < 16"
    using n6 f(4) asm_inv_buffer(2) [OF Cons.prems(1)] by (simp_all add: all_def)
  have split: "limited a (rl_data f @ ds) = take n (rl_data f) @
      (case asm_total_size a of None \<Rightarrow> ds | Some t \<Rightarrow> take (unat t - (position_of a + n)) ds)" for ds
    using f(4) by (auto simp: limited_def n min_def split: option.split)
  have e: "e \<longleftrightarrow> length all \<le> 16 \<and> (case asm_total_size a of None \<Rightarrow> False | Some t \<Rightarrow> unat t \<le> position_of a + n)"
    using reached_end_buffer [of "take 16 all" b] pos(2) len(1)
    by (auto simp: e_def b_def position_of_def min_def add.assoc split: option.splits)
  have IH: "carries (asm_transfer_id a) (asm_source a) (unat (asm_offset c))
      (bs' @ limited c (concat (map rl_data fs))) (receive c fs)"
    if "c = with_buffer (b\<lparr>asm_offset := off, asm_active := True\<rparr>) bs'" "length bs' < 16"
      "unat off + length bs' = position_of a + n" for c off bs'
    using Cons.IH [of c "s + 1"] Cons.prems that n6 f(3)
    by (simp add: b_def position_of_def)
  let ?rest = "case asm_total_size a of None \<Rightarrow> concat (map rl_data fs)
      | Some t \<Rightarrow> take (unat t - (position_of a + n)) (concat (map rl_data fs))"
  have goal: "buffered a @ limited a (concat (map rl_data (f # fs))) = all @ ?rest"
    using split [of "concat (map rl_data fs)"] by (simp add: all_def)
  have b: "asm_transfer_id b = asm_transfer_id a" "asm_source b = asm_source a" "asm_offset b = asm_offset a"
    by (simp_all add: b_def)
  have rest: "limited c (concat (map rl_data fs)) = ?rest"
    if "asm_total_size c = asm_total_size a" "position_of c = position_of a + n" for c
    using that by (simp add: limited_def split: option.split)
  show ?case
  proof (cases e)
    case True
    then have "length all \<le> 16" "?rest = []" by (auto simp: e split: option.splits)
    with True carries_last [of all b] show ?thesis
      unfolding goal by (simp add: push receive_inactive b)
  next
    case ne: False
    show ?thesis
    proof (cases "length all < 16")
      case True
      have act: "b = b\<lparr>asm_offset := asm_offset a, asm_active := True\<rparr>"
        using Cons.prems(2) by (simp add: b_def)
      have "carries (asm_transfer_id a) (asm_source a) (unat (asm_offset a)) (all @ ?rest)
          (receive (with_buffer b all) fs)"
        using IH [of "with_buffer b all" "asm_offset a" all] rest [of "with_buffer b all"] act True len
        by (simp add: position_of_def b_def)
      with True ne show ?thesis unfolding goal by (simp add: push)
    next
      case False
      define off where "off = saturating_add (asm_offset b) (of_nat (length (take 16 all)))"
      define c where "c = with_buffer (b\<lparr>asm_offset := off, asm_active := True\<rparr>) (drop 16 all)"
      have off: "unat off = unat (asm_offset a) + 16"
        using unat_next_offset_buffer [of "take 16 all" b] False pos(2) by (simp add: off_def b_def min_def)
      have small: "length (drop 16 all) < 16" using len n6 by simp
      have "position_of c = position_of a + n"
        using off small len False by (simp add: position_of_def c_def)
      then have "carries (asm_transfer_id a) (asm_source a) (unat (asm_offset a) + 16)
          (drop 16 (all @ ?rest)) (receive c fs)"
        using IH [OF c_def small] rest [of c] off small len False
        by (simp add: c_def position_of_def b_def)
      moreover have "16 \<le> length (all @ ?rest)" "take 16 (all @ ?rest) = take 16 all" using False by auto
      moreover have "receive a (f # fs) = chunk_of b (take 16 all) False # receive c fs"
        using False ne by (simp add: push c_def off_def)
      ultimately show ?thesis
        using carries_full [of "all @ ?rest" b "receive c fs"] unfolding goal b by (simp only: simp_thms)
    qed
  qed
qed

lemma start_carries:
  assumes "consecutive transfer_id s fs" and "unat offset + 6 * length fs < 2 ^ 32"
  shows "carries transfer_id source (unat offset)
    (if requested_length = 0 then concat (map rl_data fs)
     else take (unat requested_length) (concat (map rl_data fs)))
    (receive (asm_start a transfer_id source offset requested_length) fs)"
proof -
  let ?a = "asm_start a transfer_id source offset requested_length"
  have buf: "buffered ?a = []" by (simp add: buffered_def asm_start_def)
  have "length (concat (map rl_data fs)) = 6 * length fs"
    using assms(1) by (induction fs arbitrary: s) auto
  then have "limited ?a (concat (map rl_data fs)) =
      (if requested_length = 0 then concat (map rl_data fs)
       else take (unat requested_length) (concat (map rl_data fs)))"
    using assms(2) buf
    by (auto simp: limited_def position_of_def asm_start_def unat_saturating_add min_def)
  moreover have "asm_inv ?a" by (simp add: asm_inv_def asm_start_def)
  moreover have "asm_active ?a" "asm_expected ?a = None" "asm_transfer_id ?a = transfer_id"
      "asm_source ?a = source" "asm_offset ?a = offset"
    by (simp_all add: asm_start_def)
  ultimately show ?thesis
    using receive_carries [of ?a s fs] assms buf by (simp add: position_of_def)
qed

text \<open>
  C5. A dump transferred without loss: when the fragments of a transfer arrive in sequence, the
  chunks given to the downlink are contiguous from the requested offset, their bytes are exactly
  the dumped bytes up to the requested length (all of them when no length was requested), every
  chunk but the last is full, and exactly the last is marked end-of-file.
\<close>

theorem transfer_stream:
  assumes "consecutive transfer_id s fs" and "unat offset + 6 * length fs < 2 ^ 32"
  shows "carries transfer_id source (unat offset)
    (if requested_length = 0 then concat (map rl_data fs)
     else take (unat requested_length) (concat (map rl_data fs)))
    (receive (asm_start a transfer_id source offset requested_length) fs)"
  by (rule start_carries [OF assms])

text \<open>
  C22. Losing a fragment: a gap in the sequence ends the transfer, later fragments are refused,
  and the buffered bytes are discarded without having been put in any chunk. The resume offset
  handed out by the following abort nevertheless counts them: it lies past the end of the last
  chunk by the number of discarded bytes, so resuming there skips them.
\<close>

theorem gap_resume_skips_buffer:
  assumes "asm_inv a" "asm_active a" "position_of a < 2 ^ 32" "asm_transfer_id a \<noteq> 0"
    and "rl_transfer_id f = asm_transfer_id a" "asm_expected a = Some e" "rl_sequence f \<noteq> e"
  shows "case push a f of (answer, a1) \<Rightarrow>
    answer = Inl SequenceGap \<and> push a1 g = (Inl NotStarted, a1) \<and> finish a1 tid = (None, a1) \<and>
    (\<exists>resume. fst (asm_abort a1) = Some resume \<and> rsm_transfer_id resume = asm_transfer_id a \<and>
       unat (rsm_offset resume) = unat (asm_offset a) + length (buffered a))"
proof -
  have "asm_next_offset (a\<lparr>asm_offset := asm_next_offset a, asm_data := replicate 16 0, asm_length := 0,
      asm_active := False\<rparr>) = asm_next_offset a"
    using unat_below [of "asm_next_offset a"]
    by (simp add: asm_next_offset_def [of "a\<lparr>asm_offset := x, asm_data := y, asm_length := z, asm_active := w\<rparr>" for x y z w]
        saturating_add_def)
  then show ?thesis
    using assms unat_next_offset [OF assms(1,3)]
    by (simp add: push_def finish_def asm_abort_def position_of_def)
qed

text \<open>Which operations keep the assembler's buffer well formed: all of them.\<close>

lemma asm_inv_ops:
  "asm_inv new_assembler"
  "asm_inv (asm_start a transfer_id source offset requested_length)"
  "asm_inv a \<Longrightarrow> asm_inv (set_total_size a transfer_id total_size)"
  "asm_inv a \<Longrightarrow> asm_inv (snd (finish a transfer_id))"
  "asm_inv a \<Longrightarrow> asm_inv (snd (asm_stop a))"
  "asm_inv (snd (asm_abort a))"
  by (auto simp: asm_inv_def new_assembler_def asm_start_def set_total_size_def finish_def asm_stop_def
      take_chunk_def asm_abort_def Let_def)

lemma asm_inv_push:
  assumes inv: "asm_inv a" and len: "length (rl_data f) = 6"
  shows "asm_inv (snd (push a f))"
proof (cases "in_sequence a f")
  case True
  let ?all = "buffered a @ take (fragment_length a) (rl_data f)"
  have "length ?all < 32"
    using asm_inv_buffer(2) [OF inv] fragment_length_le [of a] by simp
  then show ?thesis
    using push_in_sequence [OF inv True] len by simp
next
  case False
  with inv show ?thesis by (auto simp: push_def in_sequence_def asm_inv_def split: option.splits)
qed

datatype assembler_op =
  AsmStart u8 recovery_source u32 u32 | AsmTotal u8 u32 | AsmPush recovery_log_data
| AsmFinish u8 | AsmStop | AsmAbort

fun assembler_step :: "assembler_op \<Rightarrow> recovery_assembler \<Rightarrow> recovery_chunk option \<times> recovery_assembler" where
  "assembler_step (AsmStart t src off len) a = (None, asm_start a t src off len)"
| "assembler_step (AsmTotal t n) a = (None, set_total_size a t n)"
| "assembler_step (AsmPush f) a =
     (case push a f of (Inl _, a) \<Rightarrow> (None, a) | (Inr emitted, a) \<Rightarrow> (emitted, a))"
| "assembler_step (AsmFinish t) a = finish a t"
| "assembler_step AsmStop a = asm_stop a"
| "assembler_step AsmAbort a = (None, snd (asm_abort a))"

fun assembler_run :: "assembler_op list \<Rightarrow> recovery_assembler \<Rightarrow> recovery_chunk list" where
  "assembler_run [] a = []"
| "assembler_run (oper # ops) a = (case assembler_step oper a of (emitted, a) \<Rightarrow>
     (case emitted of None \<Rightarrow> [] | Some c \<Rightarrow> [c]) @ assembler_run ops a)"

fun fragment_ok :: "assembler_op \<Rightarrow> bool" where
  "fragment_ok (AsmPush f) = (length (rl_data f) = 6)"
| "fragment_ok _ = True"

lemma assembler_step_inv: "asm_inv a \<Longrightarrow> fragment_ok oper \<Longrightarrow> asm_inv (snd (assembler_step oper a))"
proof (cases oper)
  case (AsmPush f)
  assume "asm_inv a" "fragment_ok oper"
  with AsmPush asm_inv_push [of a f] show ?thesis by (auto split: prod.splits sum.splits)
qed (auto simp: asm_inv_ops)

definition chunk_ok :: "recovery_chunk \<Rightarrow> bool" where
  "chunk_ok c \<longleftrightarrow> length (ch_data c) = 16 \<and> unat (ch_data_length c) \<le> 16 \<and>
     drop (unat (ch_data_length c)) (ch_data c) = replicate (16 - unat (ch_data_length c)) 0"

lemma chunk_of_ok: "length bs \<le> 16 \<Longrightarrow> chunk_ok (chunk_of a bs e)"
  by (simp add: chunk_ok_def chunk_of_def)

lemma finish_chunk_ok: "asm_inv a \<Longrightarrow> fst (finish a t) = Some c \<Longrightarrow> chunk_ok c"
  by (auto simp: finish_def take_chunk_def chunk_ok_def asm_inv_def split: if_splits)

lemma push_chunk_ok:
  assumes "asm_inv a" "length (rl_data f) = 6" "fst (push a f) = Inr (Some c)"
  shows "chunk_ok c"
proof (cases "in_sequence a f")
  case True
  then show ?thesis
    using push_in_sequence [OF assms(1) True] assms(2,3) by (auto simp: chunk_of_ok split: if_splits)
next
  case False
  with assms(3) show ?thesis
    by (cases "asm_expected a") (auto simp: push_def in_sequence_def split: if_splits)
qed

lemma assembler_step_chunk:
  assumes "asm_inv a" "fragment_ok oper" "fst (assembler_step oper a) = Some c"
  shows "chunk_ok c"
  using assms push_chunk_ok [OF assms(1)] finish_chunk_ok [OF assms(1)]
  by (cases oper) (auto simp: asm_stop_def split: prod.splits sum.splits if_splits)

lemma assembler_run_chunks:
  "asm_inv a \<Longrightarrow> \<forall>oper \<in> set ops. fragment_ok oper \<Longrightarrow> c \<in> set (assembler_run ops a) \<Longrightarrow> chunk_ok c"
proof (induction ops arbitrary: a)
  case (Cons oper ops)
  obtain emitted a' where step: "assembler_step oper a = (emitted, a')" by fastforce
  then have "asm_inv a'" "emitted = Some c \<Longrightarrow> chunk_ok c"
    using assembler_step_chunk [of a oper c] assembler_step_inv [of a oper] Cons.prems by auto
  with Cons.IH [of a'] Cons.prems step show ?case by (auto split: option.splits)
qed simp

text \<open>
  Whatever the CAN bus and the command task do to the assembler, in whatever order, every
  chunk it emits is an A6 payload: 16 bytes, at most 16 of them valid, the rest zero, so no
  byte of an earlier chunk or transfer leaks into a later one. (A fragment carries six bytes.)
\<close>

theorem chunks_well_formed:
  assumes "\<forall>oper \<in> set ops. fragment_ok oper"
  shows "list_all chunk_ok (assembler_run ops new_assembler)"
  using assembler_run_chunks [OF asm_inv_ops(1) assms] by (auto simp: list_all_iff)

subsection \<open>The lifecycle of a recovery command\<close>

datatype session_op =
  SessionStart pending_recovery | SessionCancel u8 | SessionStatus recovery_status
| SessionFail command_reason u32 | SessionFailMatching u8 command_reason u32
| SessionInterrupt pending_recovery

type_synonym command_key = "u8 \<times> u8"

definition recovery_key :: "pending_recovery \<Rightarrow> command_key" where
  "recovery_key p = (prec_transaction_id p, prec_command p)"

definition open_key :: "recovery_session \<Rightarrow> command_key list" where
  "open_key s = (case rec_pending s of None \<Rightarrow> [] | Some p \<Rightarrow> [recovery_key p])"

definition final_key :: "command_result option \<Rightarrow> command_key list" where
  "final_key r = (case r of None \<Rightarrow> []
     | Some r \<Rightarrow> if is_final (cr_phase r) then [(cr_transaction_id r, cr_command r)] else [])"

text \<open>One operation: the commands it opens, the commands it closes, the result it reports.\<close>

fun session_step :: "session_op \<Rightarrow> recovery_session \<Rightarrow>
    command_key list \<times> command_key list \<times> command_result option \<times> recovery_session" where
  "session_step (SessionStart p) s = (case session_start s p of (ok, s') \<Rightarrow>
     (if ok then [recovery_key p] else [], [], None, s'))"
| "session_step (SessionCancel t) s = (let s' = session_cancel s t in
     ([], if s' = s then [] else open_key s, None, s'))"
| "session_step (SessionStatus st) s = (case apply_status s st of (r, s') \<Rightarrow> ([], final_key r, r, s'))"
| "session_step (SessionFail reason detail) s = (case session_fail s reason detail of (r, s') \<Rightarrow>
     ([], final_key r, r, s'))"
| "session_step (SessionFailMatching t reason detail) s = (case fail_matching s t reason detail of (r, s') \<Rightarrow>
     ([], final_key r, r, s'))"
| "session_step (SessionInterrupt p) s = (case interrupt_with_stop s p of (r, s') \<Rightarrow>
     ([recovery_key p], final_key r, r, s'))"

fun session_run :: "session_op list \<Rightarrow> recovery_session \<Rightarrow>
    command_key list \<times> command_key list \<times> recovery_session" where
  "session_run [] s = ([], [], s)"
| "session_run (oper # ops) s = (case session_step oper s of (opened, closed, _, s) \<Rightarrow>
     (case session_run ops s of (opened', closed', s) \<Rightarrow> (opened @ opened', closed @ closed', s)))"

lemma status_outcome_final:
  "status_outcome opcode code = (phase, reason, final) \<Longrightarrow> is_final phase = final"
  by (cases code) (auto simp: is_final_def split: if_splits)

lemma session_step_serial:
  "session_step oper s = (opened, closed, r, s') \<Longrightarrow> open_key s @ opened = closed @ open_key s'"
  by (cases oper)
    (auto simp: session_start_def session_cancel_def apply_status_def session_fail_def fail_matching_def
      interrupt_with_stop_def open_key_def final_key_def recovery_key_def is_final_def Let_def
      dest!: status_outcome_final split: prod.splits option.splits if_splits)

lemma session_run_serial:
  "session_run ops s = (opened, closed, s') \<Longrightarrow> open_key s @ opened = closed @ open_key s'"
proof (induction ops arbitrary: s opened closed s')
  case (Cons oper ops)
  obtain o1 c1 r1 s1 where one: "session_step oper s = (o1, c1, r1, s1)" by (metis prod_cases4)
  obtain o2 c2 s2 where more: "session_run ops s1 = (o2, c2, s2)" by (metis prod_cases3)
  from Cons.prems one more have "opened = o1 @ o2" "closed = c1 @ c2" "s' = s2" by auto
  with session_step_serial [OF one] Cons.IH [OF more] show ?case by (metis append.assoc)
qed simp

text \<open>
  Recovery commands are served one at a time and none is lost or answered twice: over any
  run of session operations the commands opened, in order, are the commands closed (by exactly
  one final result each, or by a cancellation when the request never left the board), in the
  same order, followed by the one that is still pending.
\<close>

theorem recovery_commands_serial:
  "case session_run ops new_session of (opened, closed, s) \<Rightarrow> opened = closed @ open_key s"
  using session_run_serial [of ops new_session]
  by (auto simp: open_key_def [of "\<lparr>rec_pending = None\<rparr>"] new_session_def split: prod.splits)

text \<open>
  A status frame is reported exactly when it answers the pending command (transfer, source
  and opcode agree); the report carries that command's transaction, it is final exactly when
  the session is free again, and an Aborted status counts as success only for a stop request.
\<close>

theorem apply_status_contract:
  "case apply_status s status of (answer, s') \<Rightarrow>
    (case rec_pending s of
       None \<Rightarrow> answer = None \<and> s' = s
     | Some p \<Rightarrow>
         if rs_transfer_id status = prec_transaction_id p \<and> rs_source status = prec_source p
            \<and> rs_opcode status = prec_opcode p
         then (\<exists>r. answer = Some r \<and> (cr_transaction_id r, cr_command r) = recovery_key p \<and>
                 cr_detail r = rs_total_size status \<and>
                 (is_final (cr_phase r) = (rec_pending s' = None)) \<and>
                 (cr_phase r = Accepted) = (rs_status status = RsDumping) \<and>
                 (cr_phase r = Completed) = (rs_status status \<in> {RsReady, RsComplete} \<or>
                    rs_status status = RsAborted \<and> prec_opcode p = OpStopLogDump))
         else answer = None \<and> s' = s)"
  by (cases "rs_status status")
    (auto simp: apply_status_def recovery_key_def is_final_def split: option.splits if_splits)

subsection \<open>Concrete transfers\<close>

definition demo_fragment :: "u8 \<Rightarrow> recovery_log_data" where
  "demo_fragment s = \<lparr>rl_transfer_id = 5, rl_sequence = s, rl_data = [s, 1, 2, 3, 4, 5]\<rparr>"

text \<open>Four fragments around the wrap of the sequence number, of which 20 bytes were requested.\<close>

lemma transfer_stream_witness:
  "carries 5 InternalFlash 100 (take 20 (concat (map rl_data (map demo_fragment [254, 255, 0, 1]))))
     (receive (asm_start new_assembler 5 InternalFlash 100 20) (map demo_fragment [254, 255, 0, 1])) \<and>
   map ch_end_of_file (receive (asm_start new_assembler 5 InternalFlash 100 20)
     (map demo_fragment [254, 255, 0, 1])) = [False, True]"
proof
  have "consecutive 5 254 (map demo_fragment [254, 255, 0, 1])" by code_simp
  moreover have "unat (100 :: u32) + 6 * length (map demo_fragment [254, 255, 0, 1]) < 2 ^ 32" by simp
  ultimately
  show "carries 5 InternalFlash 100 (take 20 (concat (map rl_data (map demo_fragment [254, 255, 0, 1]))))
     (receive (asm_start new_assembler 5 InternalFlash 100 20) (map demo_fragment [254, 255, 0, 1]))"
    using transfer_stream [of 5 254 "map demo_fragment [254, 255, 0, 1]" 100 InternalFlash 20 new_assembler]
    by simp
  show "map ch_end_of_file (receive (asm_start new_assembler 5 InternalFlash 100 20)
     (map demo_fragment [254, 255, 0, 1])) = [False, True]"
    by code_simp
qed

lemma gap_resume_skips_buffer_witness:
  "\<exists>resume. fst (asm_abort (snd (push
       (snd (push (asm_start new_assembler 5 InternalFlash 100 0) (demo_fragment 0))) (demo_fragment 2))))
     = Some resume \<and> unat (rsm_offset resume) = 106"
proof -
  let ?a = "snd (push (asm_start new_assembler 5 InternalFlash 100 0) (demo_fragment 0))"
  have a: "asm_active ?a" "position_of ?a = 106" "asm_transfer_id ?a \<noteq> 0"
    "rl_transfer_id (demo_fragment 2) = asm_transfer_id ?a" "asm_expected ?a = Some 1"
    "rl_sequence (demo_fragment 2) \<noteq> 1"
    "unat (asm_offset ?a) + length (buffered ?a) = 106"
    by code_simp+
  then have p: "position_of ?a < 2 ^ 32" by simp
  have "asm_inv ?a" by (rule asm_inv_push [OF asm_inv_ops(2)]) (simp add: demo_fragment_def)
  from gap_resume_skips_buffer [OF this a(1) p a(3-6), of "demo_fragment 2" 5] a(7) show ?thesis
    by (simp add: case_prod_beta) blast
qed

lemma chunks_well_formed_witness:
  "list_all chunk_ok (assembler_run
     (AsmStart 5 InternalFlash 0 0 # map (AsmPush \<circ> demo_fragment) [0, 1, 2, 3] @ [AsmStop]) new_assembler) \<and>
   length (assembler_run
     (AsmStart 5 InternalFlash 0 0 # map (AsmPush \<circ> demo_fragment) [0, 1, 2, 3] @ [AsmStop]) new_assembler) = 2"
proof
  let ?ops = "AsmStart 5 InternalFlash 0 0 # map (AsmPush \<circ> demo_fragment) [0, 1, 2, 3] @ [AsmStop]"
  have "\<forall>oper \<in> set ?ops. fragment_ok oper" by code_simp
  from chunks_well_formed [OF this] show "list_all chunk_ok (assembler_run ?ops new_assembler)" .
  show "length (assembler_run ?ops new_assembler) = 2" by code_simp
qed

end
