(* ===== verification/Cache.thy ===== *)
theory Cache
  imports Protocol
begin

section \<open>The telemetry cache (src/can/cache.rs)\<close>

text \<open>
  \<open>CanCache\<close> keeps the latest message of every CAN identifier with its time of reception, and
  the event flags that wait to be sent. The event flags are latched: they are cleared only by
  the sender that took a snapshot of them, and only if no event arrived in between, which a
  revision counter detects.
\<close>

definition FRESHNESS_100_HZ_MS :: u64 where "FRESHNESS_100_HZ_MS = 30"
definition FRESHNESS_25_HZ_MS :: u64 where "FRESHNESS_25_HZ_MS = 120"
definition FRESHNESS_10_HZ_MS :: u64 where "FRESHNESS_10_HZ_MS = 300"

definition observed_sequence :: "u16 \<Rightarrow> bytes \<Rightarrow> u8 option" where
  "observed_sequence identifier data =
     (if identifier = 0x020 \<or> 0x100 \<le> identifier \<and> identifier \<le> 0x104
         \<or> 0x107 \<le> identifier \<and> identifier \<le> 0x10a
      then (if data = [] then None else Some (hd data))
      else if identifier = 0x106 then (if length data \<le> 1 then None else Some (data ! 1))
      else None)"

definition sequence_gap :: "u8 option \<Rightarrow> u8 \<Rightarrow> bool" where
  "sequence_gap previous current = (case previous of None \<Rightarrow> False | Some p \<Rightarrow> current \<noteq> p + 1)"

datatype freshness = Missing | Fresh | Stale

record 'a latest =
  lt_value :: "'a option"
  lt_received_at_ms :: u64

definition latest_new :: "'a latest" where
  "latest_new = \<lparr>lt_value = None, lt_received_at_ms = 0\<rparr>"

definition latest_update :: "'a \<Rightarrow> u64 \<Rightarrow> 'a latest \<Rightarrow> 'a latest" where
  "latest_update v received_at_ms l = l\<lparr>lt_value := Some v, lt_received_at_ms := received_at_ms\<rparr>"

definition latest_clear :: "'a latest \<Rightarrow> 'a latest" where
  "latest_clear l = l\<lparr>lt_value := None, lt_received_at_ms := 0\<rparr>"

definition received_at_ms :: "'a latest \<Rightarrow> u64 option" where
  "received_at_ms l = (if lt_value l \<noteq> None then Some (lt_received_at_ms l) else None)"

definition freshness_of :: "'a latest \<Rightarrow> u64 \<Rightarrow> u64 \<Rightarrow> freshness" where
  "freshness_of l now_ms maximum_age_ms =
     (case lt_value l of
        None \<Rightarrow> Missing
      | Some _ \<Rightarrow> if lt_received_at_ms l \<le> now_ms \<and> now_ms - lt_received_at_ms l \<le> maximum_age_ms
                  then Fresh else Stale)"

datatype cache_update =
  UpTelemetry | UpCommandResult command_result | UpTimeRequest u8
| UpMissionEvent mission_event u16 | UpDuplicateMissionEvent
| UpRecoveryStatus recovery_status | UpRecoveryLogData recovery_log_data

record can_cache =
  cc_kinematics :: "kinematics_telemetry latest"
  cc_control :: "control_telemetry latest"
  cc_mission_status :: "mission_status_telemetry latest"
  cc_power_time :: "power_time_telemetry latest"
  cc_descent_core :: "descent_core_telemetry latest"
  cc_attitude_tilt :: "attitude_tilt_telemetry latest"
  cc_lps :: "lps_telemetry latest"
  cc_airspeed :: "airspeed_telemetry latest"
  cc_control_roll_v2 :: "control_roll_telemetry_v2 latest"
  cc_recovery_status :: "recovery_status latest"
  cc_recovery_log_data :: "recovery_log_data latest"
  cc_command_result :: "command_result latest"
  cc_time_request :: "u8 latest"
  cc_mission_event :: "mission_event latest"
  event_flags_latched :: u16
  event_revision :: u32
  last_event_sequence :: "u8 option"

definition new_cache :: can_cache where
  "new_cache = \<lparr>cc_kinematics = latest_new, cc_control = latest_new, cc_mission_status = latest_new,
     cc_power_time = latest_new, cc_descent_core = latest_new, cc_attitude_tilt = latest_new,
     cc_lps = latest_new, cc_airspeed = latest_new, cc_control_roll_v2 = latest_new,
     cc_recovery_status = latest_new, cc_recovery_log_data = latest_new,
     cc_command_result = latest_new, cc_time_request = latest_new, cc_mission_event = latest_new,
     event_flags_latched = 0, event_revision = 0, last_event_sequence = None\<rparr>"

fun update_cache :: "can_rx_message \<Rightarrow> u64 \<Rightarrow> can_cache \<Rightarrow> cache_update \<times> can_cache" where
  "update_cache (RxCommandResult v) now c =
     (UpCommandResult v, c\<lparr>cc_command_result := latest_update v now (cc_command_result c)\<rparr>)"
| "update_cache (RxTimeRequest request_id) now c =
     (UpTimeRequest request_id, c\<lparr>cc_time_request := latest_update request_id now (cc_time_request c)\<rparr>)"
| "update_cache (RxMissionEvent event) now c =
     (if last_event_sequence c = Some (me_sequence event) then (UpDuplicateMissionEvent, c)
      else (UpMissionEvent event (me_flags event AND NOT (event_flags_latched c)),
            c\<lparr>event_flags_latched := event_flags_latched c OR me_flags event,
              event_revision := event_revision c + 1,
              last_event_sequence := Some (me_sequence event),
              cc_mission_event := latest_update event now (cc_mission_event c)\<rparr>))"
| "update_cache (RxKinematics v) now c =
     (UpTelemetry, c\<lparr>cc_kinematics := latest_update v now (cc_kinematics c)\<rparr>)"
| "update_cache (RxControl v) now c =
     (UpTelemetry, c\<lparr>cc_control := latest_update v now (cc_control c)\<rparr>)"
| "update_cache (RxMissionStatus v) now c =
     (UpTelemetry, c\<lparr>cc_mission_status := latest_update v now (cc_mission_status c)\<rparr>)"
| "update_cache (RxPowerTime v) now c =
     (UpTelemetry, c\<lparr>cc_power_time := latest_update v now (cc_power_time c)\<rparr>)"
| "update_cache (RxDescentCore v) now c =
     (UpTelemetry, c\<lparr>cc_descent_core := latest_update v now (cc_descent_core c)\<rparr>)"
| "update_cache (RxRecoveryStatus v) now c =
     (UpRecoveryStatus v, c\<lparr>cc_recovery_status := latest_update v now (cc_recovery_status c)\<rparr>)"
| "update_cache (RxRecoveryLogData v) now c =
     (UpRecoveryLogData v, c\<lparr>cc_recovery_log_data := latest_update v now (cc_recovery_log_data c)\<rparr>)"
| "update_cache (RxAttitudeTilt v) now c =
     (UpTelemetry, c\<lparr>cc_attitude_tilt := latest_update v now (cc_attitude_tilt c)\<rparr>)"
| "update_cache (RxLps v) now c =
     (UpTelemetry, c\<lparr>cc_lps := latest_update v now (cc_lps c)\<rparr>)"
| "update_cache (RxAirspeed v) now c =
     (UpTelemetry, c\<lparr>cc_airspeed := latest_update v now (cc_airspeed c)\<rparr>)"
| "update_cache (RxControlRollV2 v) now c =
     (UpTelemetry, c\<lparr>cc_control_roll_v2 := latest_update v now (cc_control_roll_v2 c)\<rparr>)"

definition event_snapshot :: "can_cache \<Rightarrow> u16 \<times> u32" where
  "event_snapshot c = (event_flags_latched c, event_revision c)"

definition clear_event_flags :: "u16 \<Rightarrow> u32 \<Rightarrow> can_cache \<Rightarrow> can_cache" where
  "clear_event_flags flags revision c =
     (if event_revision c = revision
      then c\<lparr>event_flags_latched := event_flags_latched c AND NOT flags\<rparr> else c)"

definition clear_recovery_power_snapshot :: "can_cache \<Rightarrow> can_cache" where
  "clear_recovery_power_snapshot c = c\<lparr>cc_power_time := latest_clear (cc_power_time c)\<rparr>"

subsection \<open>Freshness\<close>

text \<open>
  A value is Fresh exactly when it was received at most \<open>maximum_age_ms\<close> before now and not
  after now; without a value the answer is Missing, and a clock that ran backwards gives Stale.
\<close>

theorem freshness_exact:
  "freshness_of l now_ms maximum_age_ms =
    (case received_at_ms l of
       None \<Rightarrow> Missing
     | Some t \<Rightarrow> if unat t \<le> unat now_ms \<and> unat now_ms \<le> unat t + unat maximum_age_ms then Fresh else Stale)"
proof -
  have "now_ms - t \<le> maximum_age_ms \<longleftrightarrow> unat now_ms \<le> unat t + unat maximum_age_ms" if "t \<le> now_ms" for t
    using that by (auto simp: word_le_nat_alt unat_sub)
  then show ?thesis
    by (auto simp: freshness_of_def received_at_ms_def word_le_nat_alt split: option.split)
qed

subsection \<open>The cache holds the last message of every kind\<close>

type_synonym reception = "can_rx_message \<times> u64"

definition receive_all :: "reception list \<Rightarrow> can_cache \<Rightarrow> can_cache" where
  "receive_all = fold (\<lambda>(message, now) c. snd (update_cache message now c))"

lemma receive_all_simps [simp]:
  "receive_all [] c = c"
  "receive_all ((message, now) # ms) c = receive_all ms (snd (update_cache message now c))"
  "receive_all (ms @ ms') c = receive_all ms' (receive_all ms c)"
  by (simp_all add: receive_all_def)

text \<open>\<open>newest select ms\<close>: the last reception that \<open>select\<close> recognises, as a cache slot.\<close>

definition newest :: "(can_rx_message \<Rightarrow> 'a option) \<Rightarrow> reception list \<Rightarrow> 'a latest" where
  "newest select ms = fold (\<lambda>(message, now) l.
     case select message of None \<Rightarrow> l | Some v \<Rightarrow> \<lparr>lt_value = Some v, lt_received_at_ms = now\<rparr>) ms latest_new"

lemma newest_snoc:
  "newest select (ms @ [(message, now)]) =
     (case select message of None \<Rightarrow> newest select ms
        | Some v \<Rightarrow> \<lparr>lt_value = Some v, lt_received_at_ms = now\<rparr>)"
  by (simp add: newest_def split: option.split)

lemma latest_update_eq: "latest_update v now l = \<lparr>lt_value = Some v, lt_received_at_ms = now\<rparr>"
  by (simp add: latest_update_def)

fun kinematics_in where "kinematics_in (RxKinematics v) = Some v" | "kinematics_in _ = None"
fun control_in where "control_in (RxControl v) = Some v" | "control_in _ = None"
fun mission_status_in where "mission_status_in (RxMissionStatus v) = Some v" | "mission_status_in _ = None"
fun power_time_in where "power_time_in (RxPowerTime v) = Some v" | "power_time_in _ = None"
fun descent_core_in where "descent_core_in (RxDescentCore v) = Some v" | "descent_core_in _ = None"
fun attitude_tilt_in where "attitude_tilt_in (RxAttitudeTilt v) = Some v" | "attitude_tilt_in _ = None"
fun lps_in where "lps_in (RxLps v) = Some v" | "lps_in _ = None"
fun airspeed_in where "airspeed_in (RxAirspeed v) = Some v" | "airspeed_in _ = None"
fun control_roll_in where "control_roll_in (RxControlRollV2 v) = Some v" | "control_roll_in _ = None"
fun recovery_status_in where "recovery_status_in (RxRecoveryStatus v) = Some v" | "recovery_status_in _ = None"
fun recovery_log_in where "recovery_log_in (RxRecoveryLogData v) = Some v" | "recovery_log_in _ = None"
fun command_result_in where "command_result_in (RxCommandResult v) = Some v" | "command_result_in _ = None"
fun time_request_in where "time_request_in (RxTimeRequest v) = Some v" | "time_request_in _ = None"

text \<open>
  After any sequence of receptions every telemetry slot holds the newest message of its own
  CAN identifier with the time of that reception; messages of other identifiers leave it alone.
\<close>

theorem cache_holds_newest:
  "let c = receive_all ms new_cache in
   cc_kinematics c = newest kinematics_in ms \<and> cc_control c = newest control_in ms \<and>
   cc_mission_status c = newest mission_status_in ms \<and> cc_power_time c = newest power_time_in ms \<and>
   cc_descent_core c = newest descent_core_in ms \<and> cc_attitude_tilt c = newest attitude_tilt_in ms \<and>
   cc_lps c = newest lps_in ms \<and> cc_airspeed c = newest airspeed_in ms \<and>
   cc_control_roll_v2 c = newest control_roll_in ms \<and>
   cc_recovery_status c = newest recovery_status_in ms \<and>
   cc_recovery_log_data c = newest recovery_log_in ms \<and>
   cc_command_result c = newest command_result_in ms \<and> cc_time_request c = newest time_request_in ms"
proof (induction ms rule: rev_induct)
  case Nil
  show ?case by (simp add: newest_def new_cache_def)
next
  case (snoc m ms)
  obtain message now where m: "m = (message, now)" by fastforce
  from snoc.IH show ?case
    unfolding m Let_def by (cases message) (auto simp: newest_snoc latest_update_eq)
qed

subsection \<open>Mission events\<close>

text \<open>
  The abstract event log: the accepted events are those whose sequence number differs from the
  one accepted before. \<open>accepted prev es\<close> lists their flags.
\<close>

fun accepted :: "u8 option \<Rightarrow> mission_event list \<Rightarrow> u16 list" where
  "accepted prev [] = []"
| "accepted prev (e # es) =
     (if prev = Some (me_sequence e) then accepted prev es
      else me_flags e # accepted (Some (me_sequence e)) es)"

fun mission_event_in :: "can_rx_message \<Rightarrow> mission_event option" where
  "mission_event_in (RxMissionEvent e) = Some e"
| "mission_event_in _ = None"

definition events_of :: "reception list \<Rightarrow> mission_event list" where
  "events_of ms = List.map_filter (mission_event_in \<circ> fst) ms"

definition or_all :: "u16 list \<Rightarrow> u16" where
  "or_all fs = fold (OR) fs 0"

lemma fold_or: "fold (OR) fs x = x OR fold (OR) fs (0 :: u16)"
proof (induction fs arbitrary: x)
  case (Cons f fs)
  show ?case using Cons.IH [of "f OR x"] Cons.IH [of "f OR 0"] by (simp add: ac_simps)
qed simp

lemma or_all_simps [simp]: "or_all [] = 0" "or_all (f # fs) = f OR or_all fs"
  using fold_or [of fs "f OR 0"] by (simp_all add: or_all_def)

lemma events_of_simps [simp]:
  "events_of [] = []"
  "events_of ((message, now) # ms) = (case mission_event_in message of None \<Rightarrow> events_of ms | Some e \<Rightarrow> e # events_of ms)"
  by (simp_all add: events_of_def List.map_filter_simps split: option.split)

lemma receive_all_events:
  "event_flags_latched (receive_all ms c) =
     event_flags_latched c OR or_all (accepted (last_event_sequence c) (events_of ms)) \<and>
   event_revision (receive_all ms c) =
     event_revision c + of_nat (length (accepted (last_event_sequence c) (events_of ms)))"
proof (induction ms arbitrary: c)
  case (Cons m ms)
  obtain message now where m: "m = (message, now)" by fastforce
  show ?case
    using Cons.IH [of "snd (update_cache message now c)"]
    unfolding m by (cases message) (auto simp: ac_simps)
qed simp

text \<open>
  No event flag is lost between the cache and the downlink: the sender takes a snapshot,
  sends it, and clears it afterwards. Whatever arrives in between, the flags that wait
  afterwards contain every flag of the events accepted in between; if there was none, exactly
  the flags that were sent are cleared (fewer than \<open>2 ^ 32\<close> events fit between two sends).
\<close>

theorem events_not_lost_while_sending:
  assumes "length (accepted (last_event_sequence c) (events_of ms)) < 2 ^ 32"
  defines "c' \<equiv> (case event_snapshot c of (flags, revision) \<Rightarrow> clear_event_flags flags revision (receive_all ms c))"
  shows "event_flags_latched c' =
    (if accepted (last_event_sequence c) (events_of ms) = [] then 0
     else event_flags_latched c OR or_all (accepted (last_event_sequence c) (events_of ms)))"
proof -
  let ?n = "length (accepted (last_event_sequence c) (events_of ms))"
  have "(of_nat ?n :: u32) = 0 \<longleftrightarrow> ?n = 0"
    using assms(1) by (auto simp: word_of_nat_eq_0_iff dvd_def)
  then show ?thesis
    using receive_all_events [of ms c] by (auto simp: c'_def event_snapshot_def clear_event_flags_def)
qed

text \<open>
  Reporting events: from an empty cache the latched flags are the union of the flags of all
  accepted events, a repeated frame of the event accepted last changes nothing, and the
  \<open>new_flags\<close> of the notification are exactly the flags that were not waiting already.
\<close>

theorem mission_event_latch:
  "event_flags_latched (receive_all ms new_cache) = or_all (accepted None (events_of ms)) \<and>
   (case update_cache (RxMissionEvent e) now c of (notice, c') \<Rightarrow>
      if last_event_sequence c = Some (me_sequence e) then notice = UpDuplicateMissionEvent \<and> c' = c
      else (\<exists>new. notice = UpMissionEvent e new \<and> last_event_sequence c' = Some (me_sequence e) \<and>
              event_flags_latched c' = event_flags_latched c OR new \<and> event_flags_latched c AND new = 0 \<and>
              new OR me_flags e = me_flags e \<and> event_flags_latched c' AND me_flags e = me_flags e))"
proof
  show "event_flags_latched (receive_all ms new_cache) = or_all (accepted None (events_of ms))"
    using receive_all_events [of ms new_cache] by (simp add: new_cache_def)
  have "l OR (f AND NOT l) = l OR f" "l AND (f AND NOT l) = 0" "(f AND NOT l) OR f = f" "(l OR f) AND f = f"
    for l f :: u16
    by (rule bit_word_eqI, auto simp: bit_simps)+
  then show "case update_cache (RxMissionEvent e) now c of (notice, c') \<Rightarrow>
      if last_event_sequence c = Some (me_sequence e) then notice = UpDuplicateMissionEvent \<and> c' = c
      else (\<exists>new. notice = UpMissionEvent e new \<and> last_event_sequence c' = Some (me_sequence e) \<and>
              event_flags_latched c' = event_flags_latched c OR new \<and> event_flags_latched c AND new = 0 \<and>
              new OR me_flags e = me_flags e \<and> event_flags_latched c' AND me_flags e = me_flags e)"
    by simp
qed

definition demo_event :: "u8 \<Rightarrow> u16 \<Rightarrow> mission_event" where
  "demo_event s f = \<lparr>me_sequence = s, me_flags = f, me_state = MsControl, me_elapsed = 1, me_detail = 2\<rparr>"

lemma events_not_lost_while_sending_witness:
  "event_flags_latched
     (let c = receive_all [(RxMissionEvent (demo_event 1 1), 0)] new_cache
      in case event_snapshot c of (flags, revision) \<Rightarrow>
           clear_event_flags flags revision (receive_all [(RxMissionEvent (demo_event 2 4), 1)] c)) = 5"
proof -
  let ?c = "receive_all [(RxMissionEvent (demo_event 1 1), 0)] new_cache"
  let ?ms = "[(RxMissionEvent (demo_event 2 4), 1)]"
  have a: "accepted (last_event_sequence ?c) (events_of ?ms) = [4]" "event_flags_latched ?c = 1"
    by code_simp+
  then have "length (accepted (last_event_sequence ?c) (events_of ?ms)) < 2 ^ 32" by simp
  from events_not_lost_while_sending [OF this] a show ?thesis by (simp add: Let_def)
qed

end
