(* ===== verification/Payload.thy ===== *)
theory Payload
  imports Protocol
begin

section \<open>Downlink packets (src/payload.rs)\<close>

text \<open>
  The LoRa application packets are bit fields packed least significant bit first, closed by an
  XOR checksum and preceded by the three address bytes of the radio module. \<open>BitWriter\<close>
  is the state of the packing, \<open>encode\<close> builds the whole frame. A sequence of
  \<open>writer.write(value, width)?\<close> calls is \<open>write_fields\<close> on the list of its arguments.
\<close>

definition LORA_PREFIX :: bytes where "LORA_PREFIX = [0x00, 0x00, 0x04]"
definition MAX_APPLICATION_LENGTH :: nat where "MAX_APPLICATION_LENGTH = 24"
definition MAX_LORA_FRAME_LENGTH :: nat where
  "MAX_LORA_FRAME_LENGTH = length LORA_PREFIX + MAX_APPLICATION_LENGTH"

datatype packet_header =
  HCommandReceive | HLiftoffDetection | HEngineBurn | HControl | HDescent | HRecoveryBeacon
| HRecoveryLogData | HControlRollTelemetryV2 | HMissionLinkFallbackTelemetry | HCommandResult
| HGroundTimeRequest

fun header_code :: "packet_header \<Rightarrow> u32" where
  "header_code HCommandReceive = 0xa0"
| "header_code HLiftoffDetection = 0xa1"
| "header_code HEngineBurn = 0xa2"
| "header_code HControl = 0xa3"
| "header_code HDescent = 0xa4"
| "header_code HRecoveryBeacon = 0xa5"
| "header_code HRecoveryLogData = 0xa6"
| "header_code HControlRollTelemetryV2 = 0xa7"
| "header_code HMissionLinkFallbackTelemetry = 0xa8"
| "header_code HCommandResult = 0xb0"
| "header_code HGroundTimeRequest = 0xb1"

record flight_telemetry =
  ft_header :: packet_header
  ft_status :: u16
  ft_roll :: u16
  ft_roll_rate :: u16
  ft_tilt_magnitude :: u8
  ft_tilt_direction :: u16
  ft_fin_angle :: u8
  ft_fin_rate :: u16
  ft_pressure :: u16
  ft_temperature :: u8
  ft_airspeed :: u8
  ft_requested_torque :: u16
  ft_elapsed :: u8
  ft_east :: u16
  ft_north :: u16
  ft_height :: u16

record command_receive_telemetry =
  crt_status :: u32
  crt_motor_profile :: u8
  crt_tilt_magnitude :: u8
  crt_tilt_direction :: u16
  crt_fin_mode :: u8
  crt_para_mode :: u8
  crt_fin_angle :: u8
  crt_para_angle :: u8
  crt_pressure :: u16
  crt_temperature :: u8
  crt_airspeed :: u8
  crt_logic_voltage :: u8
  crt_motor_voltage :: u8
  crt_east :: u16
  crt_north :: u16
  crt_height :: u16
  crt_display_roll :: u16

record descent_telemetry =
  dt_status :: u16
  dt_pressure :: u16
  dt_temperature :: u8
  dt_para_angle :: u8
  dt_elapsed :: u16
  dt_east :: u16
  dt_north :: u16
  dt_height :: u16

record recovery_beacon =
  rb_logic_voltage :: u8
  rb_motor_voltage :: u8
  rb_east :: u16
  rb_north :: u16
  rb_height :: u16
  rb_elapsed :: u16

record mission_link_fallback =
  mlf_sequence :: u8
  mlf_primary_loss_reason :: u8
  mlf_status_flags :: u16
  mlf_last_valid_mission_state :: u8
  mlf_gnss_state :: u8
  mlf_mission_status_age :: u16
  mlf_any_mission_periodic_age :: u16
  mlf_power_time_age :: u16
  mlf_east :: u16
  mlf_north :: u16
  mlf_height :: u16
  mlf_logic_voltage :: u8
  mlf_motor_voltage :: u8
  mlf_can_health :: u8

record recovery_log_packet =
  rlp_transfer_id :: u8
  rlp_source :: bool
  rlp_end_of_file :: bool
  rlp_offset :: u32
  rlp_data_length :: u8
  rlp_data :: bytes

record command_result_packet =
  crp_transaction_id :: u8
  crp_command :: u8
  crp_phase :: command_phase
  crp_reason :: command_reason
  crp_detail :: u32

record control_roll_packet =
  crv_reference_raw :: u16
  crv_deviation_raw :: u16
  crv_flags :: u8
  crv_capture_event_sequence :: u8

datatype application_packet =
  PCommandReceive command_receive_telemetry
| PFlight flight_telemetry
| PDescent descent_telemetry
| PRecoveryBeacon recovery_beacon
| PMissionLinkFallback mission_link_fallback
| PRecoveryLogData recovery_log_packet
| PCommandResult command_result_packet
| PGroundTimeRequest u8
| PControlRollTelemetryV2 control_roll_packet

record lora_frame =
  lf_bytes :: bytes
  lf_length :: nat

definition as_bytes :: "lora_frame \<Rightarrow> bytes" where
  "as_bytes f = take (lf_length f) (lf_bytes f)"

datatype encode_error = EncInvalidHeader | EncInvalidField | EncFieldOutOfRange | EncReservedId

subsection \<open>The bit writer\<close>

record bit_writer =
  bw_bytes :: bytes
  bw_bit_offset :: nat

definition bw_new :: "nat \<Rightarrow> bit_writer" where
  "bw_new len = \<lparr>bw_bytes = replicate len 0, bw_bit_offset = 0\<rparr>"

definition write_loop :: "u32 \<Rightarrow> nat \<Rightarrow> nat \<Rightarrow> bytes \<Rightarrow> bytes" where
  "write_loop v off bit_count bytes = fold (\<lambda>i bytes.
     if v AND push_bit i 1 \<noteq> 0
     then let destination = off + i
          in bytes[destination div 8 := bytes ! (destination div 8) OR push_bit (destination mod 8) 1]
     else bytes) [0..<bit_count] bytes"

definition bw_write :: "u32 \<Rightarrow> nat \<Rightarrow> bit_writer \<Rightarrow> encode_error + bit_writer" where
  "bw_write v bit_count w =
     (if 32 < bit_count \<or> length (bw_bytes w) * 8 < bw_bit_offset w + bit_count
         \<or> bit_count < 32 \<and> push_bit bit_count 1 \<le> v
      then Inl EncFieldOutOfRange
      else Inr (w\<lparr>bw_bytes := write_loop v (bw_bit_offset w) bit_count (bw_bytes w),
                  bw_bit_offset := bw_bit_offset w + bit_count\<rparr>))"

definition byte_length :: "bit_writer \<Rightarrow> nat" where
  "byte_length w = (bw_bit_offset w + 7) div 8"

fun write_fields :: "(u32 \<times> nat) list \<Rightarrow> bit_writer \<Rightarrow> encode_error + bit_writer" where
  "write_fields [] w = Inr w"
| "write_fields ((v, n) # fs) w = and_then (bw_write v n w) (write_fields fs)"

subsection \<open>The packets\<close>

definition command_receive_fields :: "command_receive_telemetry \<Rightarrow> (u32 \<times> nat) list" where
  "command_receive_fields v =
     [(header_code HCommandReceive, 8), (crt_status v, 24), (ucast (crt_motor_profile v), 8),
      (ucast (crt_tilt_magnitude v), 7), (ucast (crt_tilt_direction v), 9),
      (ucast (crt_fin_mode v), 4), (ucast (crt_para_mode v), 4), (ucast (crt_fin_angle v), 8),
      (ucast (crt_para_angle v), 8), (ucast (crt_pressure v), 11), (ucast (crt_temperature v), 8),
      (ucast (crt_airspeed v), 8), (ucast (crt_logic_voltage v), 8), (ucast (crt_motor_voltage v), 8),
      (ucast (crt_east v), 16), (ucast (crt_north v), 16), (ucast (crt_height v), 9),
      (ucast (crt_display_roll v), 16), (0, 4)]"

definition encode_command_receive :: "command_receive_telemetry \<Rightarrow> bit_writer \<Rightarrow> encode_error + bit_writer" where
  "encode_command_receive v = write_fields (command_receive_fields v)"

definition flight_fields :: "flight_telemetry \<Rightarrow> (u32 \<times> nat) list" where
  "flight_fields v =
     [(header_code (ft_header v), 8), (ucast (ft_status v), 16), (ucast (ft_roll v), 16),
      (ucast (ft_roll_rate v), 16), (ucast (ft_tilt_magnitude v), 7),
      (ucast (ft_tilt_direction v), 9), (ucast (ft_fin_angle v), 8), (ucast (ft_fin_rate v), 16),
      (ucast (ft_pressure v), 11), (ucast (ft_temperature v), 8), (ucast (ft_airspeed v), 8),
      (ucast (ft_requested_torque v), 12), (ucast (ft_elapsed v), 8), (ucast (ft_east v), 16),
      (ucast (ft_north v), 16), (ucast (ft_height v), 9)]"

definition encode_flight :: "flight_telemetry \<Rightarrow> bit_writer \<Rightarrow> encode_error + bit_writer" where
  "encode_flight v w =
     (if ft_header v \<notin> {HLiftoffDetection, HEngineBurn, HControl} then Inl EncInvalidHeader
      else write_fields (flight_fields v) w)"

definition descent_fields :: "descent_telemetry \<Rightarrow> (u32 \<times> nat) list" where
  "descent_fields v =
     [(header_code HDescent, 8), (ucast (dt_status v), 13), (ucast (dt_pressure v), 11),
      (ucast (dt_temperature v), 8), (ucast (dt_para_angle v), 8), (ucast (dt_elapsed v), 16),
      (ucast (dt_east v), 16), (ucast (dt_north v), 16), (ucast (dt_height v), 9), (0, 7)]"

definition encode_descent :: "descent_telemetry \<Rightarrow> bit_writer \<Rightarrow> encode_error + bit_writer" where
  "encode_descent v = write_fields (descent_fields v)"

definition recovery_beacon_fields :: "recovery_beacon \<Rightarrow> (u32 \<times> nat) list" where
  "recovery_beacon_fields v =
     [(header_code HRecoveryBeacon, 8), (ucast (rb_logic_voltage v), 8), (ucast (rb_motor_voltage v), 8),
      (ucast (rb_east v), 16), (ucast (rb_north v), 16), (ucast (rb_height v), 9),
      (ucast (rb_elapsed v), 16), (0, 7)]"

definition encode_recovery_beacon :: "recovery_beacon \<Rightarrow> bit_writer \<Rightarrow> encode_error + bit_writer" where
  "encode_recovery_beacon v = write_fields (recovery_beacon_fields v)"

definition mission_link_fallback_fields :: "mission_link_fallback \<Rightarrow> (u32 \<times> nat) list" where
  "mission_link_fallback_fields v =
     [(header_code HMissionLinkFallbackTelemetry, 8), (1, 8), (ucast (mlf_sequence v), 8),
      (ucast (mlf_primary_loss_reason v), 8), (ucast (mlf_status_flags v), 16),
      (ucast (mlf_last_valid_mission_state v), 8), (ucast (mlf_gnss_state v), 8),
      (ucast (mlf_mission_status_age v), 16), (ucast (mlf_any_mission_periodic_age v), 16),
      (ucast (mlf_power_time_age v), 16), (ucast (mlf_east v), 16), (ucast (mlf_north v), 16),
      (ucast (mlf_height v), 16), (ucast (mlf_logic_voltage v), 8),
      (ucast (mlf_motor_voltage v), 8), (ucast (mlf_can_health v), 8)]"

definition encode_mission_link_fallback ::
  "mission_link_fallback \<Rightarrow> bit_writer \<Rightarrow> encode_error + bit_writer" where
  "encode_mission_link_fallback v w =
     (if 7 < mlf_primary_loss_reason v
         \<or> mlf_status_flags v AND 0x8000 \<noteq> 0
         \<or> 4 < mlf_last_valid_mission_state v \<and> mlf_last_valid_mission_state v \<noteq> 0xff
         \<or> 8 < mlf_gnss_state v
         \<or> 0x01ff < mlf_height v
         \<or> 6 < mlf_can_health v
      then Inl EncInvalidField
      else write_fields (mission_link_fallback_fields v) w)"

definition recovery_log_fields :: "recovery_log_packet \<Rightarrow> (u32 \<times> nat) list" where
  "recovery_log_fields v =
     [(header_code HRecoveryLogData, 8), (ucast (rlp_transfer_id v), 8),
      (let meta = (if rlp_source v then 1 else 0) OR push_bit 1 (if rlp_end_of_file v then 1 else 0)
       in ucast (meta :: u8), 8),
      (rlp_offset v, 24), (ucast (rlp_data_length v), 8)]
     @ map (\<lambda>byte. (ucast byte, 8)) (rlp_data v)"

definition encode_recovery_log :: "recovery_log_packet \<Rightarrow> bit_writer \<Rightarrow> encode_error + bit_writer" where
  "encode_recovery_log v w =
     (if 0x00ffffff < rlp_offset v \<or> 16 < rlp_data_length v then Inl EncFieldOutOfRange
      else write_fields (recovery_log_fields v) w)"

definition command_result_fields :: "command_result_packet \<Rightarrow> (u32 \<times> nat) list" where
  "command_result_fields v =
     [(header_code HCommandResult, 8), (ucast (crp_transaction_id v), 8), (ucast (crp_command v), 8),
      (ucast (command_phase_code (crp_phase v)), 8), (ucast (command_reason_code (crp_reason v)), 8),
      (crp_detail v, 32)]"

definition encode_command_result :: "command_result_packet \<Rightarrow> bit_writer \<Rightarrow> encode_error + bit_writer" where
  "encode_command_result v w =
     (if crp_transaction_id v = 0 then Inl EncReservedId
      else write_fields (command_result_fields v) w)"

definition control_roll_fields :: "control_roll_packet \<Rightarrow> (u32 \<times> nat) list" where
  "control_roll_fields v =
     [(header_code HControlRollTelemetryV2, 8), (ucast CONTROL_ROLL_SCHEMA_VERSION, 8),
      (ucast (crv_reference_raw v), 16), (ucast (crv_deviation_raw v), 16),
      (ucast (crv_flags v), 8), (ucast (crv_capture_event_sequence v), 8)]"

definition encode_control_roll :: "control_roll_packet \<Rightarrow> bit_writer \<Rightarrow> encode_error + bit_writer" where
  "encode_control_roll v w =
     (let reference_out_of_range = crv_flags v AND REFERENCE_OUT_OF_RANGE \<noteq> 0;
          deviation_out_of_range = crv_flags v AND DEVIATION_OUT_OF_RANGE \<noteq> 0
      in if crv_flags v AND 0xe0 \<noteq> 0
            \<or> (crv_reference_raw v = CONTROL_ROLL_OUT_OF_RANGE_RAW) \<noteq> reference_out_of_range
            \<or> (crv_deviation_raw v = CONTROL_ROLL_OUT_OF_RANGE_RAW) \<noteq> deviation_out_of_range
         then Inl EncInvalidField
         else write_fields (control_roll_fields v) w)"

definition ground_time_request_fields :: "u8 \<Rightarrow> (u32 \<times> nat) list" where
  "ground_time_request_fields request_id =
     [(header_code HGroundTimeRequest, 8), (ucast request_id, 8)]"

fun write_packet :: "application_packet \<Rightarrow> bit_writer \<Rightarrow> encode_error + bit_writer" where
  "write_packet (PCommandReceive v) = encode_command_receive v"
| "write_packet (PFlight v) = encode_flight v"
| "write_packet (PDescent v) = encode_descent v"
| "write_packet (PRecoveryBeacon v) = encode_recovery_beacon v"
| "write_packet (PMissionLinkFallback v) = encode_mission_link_fallback v"
| "write_packet (PRecoveryLogData v) = encode_recovery_log v"
| "write_packet (PCommandResult v) = encode_command_result v"
| "write_packet (PGroundTimeRequest request_id) =
     write_fields (ground_time_request_fields request_id)"
| "write_packet (PControlRollTelemetryV2 v) = encode_control_roll v"

definition encode :: "application_packet \<Rightarrow> encode_error + lora_frame" where
  "encode packet =
     and_then (write_packet packet (bw_new MAX_APPLICATION_LENGTH)) (\<lambda>writer.
       let app = bw_bytes writer;
           application_without_checksum = byte_length writer;
           checksum = xor_checksum (take application_without_checksum app);
           app = app[application_without_checksum := checksum]
       in Inr \<lparr>lf_bytes = LORA_PREFIX @ app,
               lf_length = length LORA_PREFIX + application_without_checksum + 1\<rparr>)"

subsection \<open>What the writer has written\<close>

text \<open>Bit \<open>i\<close> of a byte string, and the bits of a field, both least significant first.\<close>

definition bit_of :: "bytes \<Rightarrow> nat \<Rightarrow> bool" where
  "bit_of bs i = bit (bs ! (i div 8)) (i mod 8)"

definition field_bits :: "u32 \<times> nat \<Rightarrow> bool list" where
  "field_bits f = map (bit (fst f)) [0..<snd f]"

definition written :: "bit_writer \<Rightarrow> bool list" where
  "written w = map (bit_of (bw_bytes w)) [0..<bw_bit_offset w]"

definition bw_inv :: "bit_writer \<Rightarrow> bool" where
  "bw_inv w \<longleftrightarrow> bw_bit_offset w \<le> 8 * length (bw_bytes w) \<and>
     (\<forall>i. bw_bit_offset w \<le> i \<longrightarrow> i < 8 * length (bw_bytes w) \<longrightarrow> \<not> bit_of (bw_bytes w) i)"

lemma bw_new_inv: "bw_inv (bw_new n)" "written (bw_new n) = []" "length (bw_bytes (bw_new n)) = n"
  "bw_bit_offset (bw_new n) = 0"
  by (auto simp: bw_inv_def bw_new_def bit_of_def written_def)

lemma bit_of_set:
  assumes "i < 8 * length bs" "d < 8 * length bs"
  shows "bit_of (bs[d div 8 := bs ! (d div 8) OR push_bit (d mod 8) 1]) i \<longleftrightarrow> bit_of bs i \<or> i = d"
proof (cases "i div 8 = d div 8")
  case True
  have "i mod 8 = d mod 8 \<longleftrightarrow> i = d" using True by (metis div_mult_mod_eq)
  moreover have "d div 8 < length bs" using assms(2) by linarith
  ultimately show ?thesis
    using True by (auto simp: bit_of_def bit_simps)
next
  case False
  then show ?thesis by (auto simp: bit_of_def)
qed

lemma write_loop_bits:
  assumes "off + n \<le> 8 * length bs"
  shows "length (write_loop v off n bs) = length bs \<and>
    (\<forall>i < 8 * length bs. bit_of (write_loop v off n bs) i \<longleftrightarrow>
       bit_of bs i \<or> off \<le> i \<and> i < off + n \<and> bit v (i - off))"
  using assms
proof (induction n)
  case 0
  show ?case by (auto simp: write_loop_def)
next
  case (Suc n)
  then have IH: "length (write_loop v off n bs) = length bs"
    "\<And>i. i < 8 * length bs \<Longrightarrow> bit_of (write_loop v off n bs) i \<longleftrightarrow>
       bit_of bs i \<or> off \<le> i \<and> i < off + n \<and> bit v (i - off)" by auto
  let ?ys = "write_loop v off n bs"
  have step: "write_loop v off (Suc n) bs = (if bit v n
      then ?ys[(off + n) div 8 := ?ys ! ((off + n) div 8) OR push_bit ((off + n) mod 8) 1] else ?ys)"
    by (simp add: write_loop_def bit_iff_and_push_bit_not_eq_0 Let_def)
  show ?case
  proof (intro conjI allI impI)
    show "length (write_loop v off (Suc n) bs) = length bs" by (simp add: step IH(1))
    fix i assume i: "i < 8 * length bs"
    have "off \<le> i \<and> i < off + Suc n \<longleftrightarrow> off \<le> i \<and> i < off + n \<or> i = off + n" by auto
    then show "bit_of (write_loop v off (Suc n) bs) i \<longleftrightarrow>
        bit_of bs i \<or> off \<le> i \<and> i < off + Suc n \<and> bit v (i - off)"
      using bit_of_set [of i ?ys "off + n"] Suc.prems i IH by (auto simp: step)
  qed
qed

lemma bw_write_Inr:
  assumes inv: "bw_inv w" and ok: "bw_write v n w = Inr w'"
  shows "bw_inv w'" "written w' = written w @ field_bits (v, n)"
    "bw_bit_offset w' = bw_bit_offset w + n" "length (bw_bytes w') = length (bw_bytes w)"
proof -
  let ?off = "bw_bit_offset w" and ?bs = "bw_bytes w"
  have w': "w' = w\<lparr>bw_bytes := write_loop v ?off n ?bs, bw_bit_offset := ?off + n\<rparr>"
    and fits: "?off + n \<le> 8 * length ?bs"
    using ok by (auto simp: bw_write_def split: if_splits)
  note loop = write_loop_bits [OF fits, of v]
  then show len: "length (bw_bytes w') = length ?bs" and "bw_bit_offset w' = ?off + n" by (simp_all add: w')
  show "bw_inv w'" using inv fits loop by (auto simp: bw_inv_def w')
  have "bit_of (write_loop v ?off n ?bs) i = bit_of ?bs i" if "i < ?off" for i
    using that loop fits by auto
  moreover have "bit_of (write_loop v ?off n ?bs) i = bit v (i - ?off)" if "?off \<le> i" "i < ?off + n" for i
    using that loop fits inv by (auto simp: bw_inv_def)
  ultimately show "written w' = written w @ field_bits (v, n)"
    by (auto simp: written_def field_bits_def w' list_eq_iff_nth_eq nth_append)
qed

definition field_ok :: "u32 \<times> nat \<Rightarrow> bool" where
  "field_ok f \<longleftrightarrow> snd f \<le> 32 \<and> unat (fst f) < 2 ^ snd f"

lemma power_le_iff: "n < 32 \<Longrightarrow> 2 ^ n \<le> v \<longleftrightarrow> 2 ^ n \<le> unat (v :: u32)"
proof -
  assume n: "n < 32"
  then have "(2 :: nat) ^ n < 2 ^ 32" by (rule power_strict_increasing) simp
  then have "unat (of_nat (2 ^ n) :: u32) = 2 ^ n" by (simp only: unat_of_nat) simp
  then show ?thesis by (simp add: word_le_nat_alt)
qed

lemma bw_write_ok_iff:
  "is_ok (bw_write v n w) \<longleftrightarrow> field_ok (v, n) \<and> bw_bit_offset w + n \<le> 8 * length (bw_bytes w)"
proof -
  have "unat v < 2 ^ 32" using unat_below [of v] by simp
  then have "field_ok (v, n) \<longleftrightarrow> n \<le> 32 \<and> (n < 32 \<longrightarrow> unat v < 2 ^ n)"
    by (auto simp: field_ok_def le_less)
  then show ?thesis by (auto simp: bw_write_def power_le_iff not_less is_ok_def)
qed

definition width :: "(u32 \<times> nat) list \<Rightarrow> nat" where
  "width fs = sum_list (map snd fs)"

lemma width_simps [simp]: "width [] = 0" "width (f # fs) = snd f + width fs" "width (fs @ gs) = width fs + width gs"
  by (simp_all add: width_def)

lemma write_fields_Inr:
  "bw_inv w \<Longrightarrow> write_fields fs w = Inr w' \<Longrightarrow>
   bw_inv w' \<and> written w' = written w @ concat (map field_bits fs) \<and>
   bw_bit_offset w' = bw_bit_offset w + width fs \<and> length (bw_bytes w') = length (bw_bytes w)"
proof (induction fs arbitrary: w)
  case (Cons f fs)
  obtain v n where f: "f = (v, n)" by fastforce
  with Cons.prems(2) obtain w1 where w1: "bw_write v n w = Inr w1" "write_fields fs w1 = Inr w'" by auto
  from Cons.IH [OF _ w1(2)] bw_write_Inr [OF Cons.prems(1) w1(1)] show ?case by (simp add: f)
qed simp

lemma write_fields_ok_iff:
  "bw_inv w \<Longrightarrow> is_ok (write_fields fs w) \<longleftrightarrow>
     list_all field_ok fs \<and> bw_bit_offset w + width fs \<le> 8 * length (bw_bytes w)"
proof (induction fs arbitrary: w)
  case Nil
  then show ?case by (simp add: bw_inv_def)
next
  case (Cons f fs)
  obtain v n where f: "f = (v, n)" by fastforce
  show ?case
  proof (cases "bw_write v n w")
    case (Inl e)
    then have "\<not> (field_ok (v, n) \<and> bw_bit_offset w + n \<le> 8 * length (bw_bytes w))"
      using bw_write_ok_iff [of v n w] by simp
    with Inl show ?thesis by (auto simp: f)
  next
    case (Inr w1)
    then have "field_ok (v, n)" using bw_write_ok_iff [of v n w] by simp
    with Inr Cons.IH [of w1] bw_write_Inr [OF Cons.prems Inr] show ?thesis by (simp add: f add.assoc)
  qed
qed

subsection \<open>Reading the fields back\<close>

definition read_field :: "bytes \<Rightarrow> nat \<Rightarrow> nat \<Rightarrow> u32" where
  "read_field bs off n = horner_sum of_bool 2 (map (bit_of bs) [off..<off + n])"

fun read_fields :: "nat list \<Rightarrow> nat \<Rightarrow> bytes \<Rightarrow> u32 list" where
  "read_fields [] off bs = []"
| "read_fields (n # ns) off bs = read_field bs off n # read_fields ns (off + n) bs"

lemma read_field_bits:
  assumes "field_ok f" "map (bit_of bs) [off..<off + snd f] = field_bits f"
  shows "read_field bs off (snd f) = fst f"
proof -
  have "take_bit (snd f) (fst f) = fst f"
    using assms(1) by (intro unat_eqI) (simp add: field_ok_def unsigned_take_bit_eq take_bit_nat_eq_self)
  then show ?thesis
    by (simp add: read_field_def assms(2) field_bits_def horner_sum_bit_eq_take_bit)
qed

lemma length_field_bits [simp]: "length (field_bits f) = snd f"
  by (simp add: field_bits_def)

lemma read_fields_bits:
  "list_all field_ok fs \<Longrightarrow> map (bit_of bs) [off..<off + width fs] = concat (map field_bits fs) \<Longrightarrow>
   read_fields (map snd fs) off bs = map fst fs"
proof (induction fs arbitrary: off)
  case (Cons f fs)
  have "[off..<off + width (f # fs)] = [off..<off + snd f] @ [off + snd f..<off + snd f + width fs]"
    unfolding width_simps add.assoc [symmetric] by (rule upt_add_eq_append) simp
  then have "map (bit_of bs) [off..<off + snd f] @ map (bit_of bs) [off + snd f..<off + snd f + width fs] =
      field_bits f @ concat (map field_bits fs)"
    using Cons.prems(2) by (simp only: map_append list.map concat.simps)
  then have "map (bit_of bs) [off..<off + snd f] = field_bits f"
    "map (bit_of bs) [off + snd f..<off + snd f + width fs] = concat (map field_bits fs)"
    using append_eq_append_conv [of "map (bit_of bs) [off..<off + snd f]" "field_bits f"] by simp_all
  with Cons.IH [of "off + snd f"] Cons.prems(1) read_field_bits [of f bs off] show ?case by simp
qed simp

lemma bit_of_cong:
  "take n xs = take n ys \<Longrightarrow> n \<le> length xs \<Longrightarrow> n \<le> length ys \<Longrightarrow> i < 8 * n \<Longrightarrow> bit_of xs i = bit_of ys i"
  unfolding bit_of_def by (metis less_mult_imp_div_less mult.commute nth_take)

subsection \<open>Layouts and frames\<close>

fun layout :: "application_packet \<Rightarrow> (u32 \<times> nat) list" where
  "layout (PCommandReceive v) = command_receive_fields v"
| "layout (PFlight v) = flight_fields v"
| "layout (PDescent v) = descent_fields v"
| "layout (PRecoveryBeacon v) = recovery_beacon_fields v"
| "layout (PMissionLinkFallback v) = mission_link_fallback_fields v"
| "layout (PRecoveryLogData v) = recovery_log_fields v"
| "layout (PCommandResult v) = command_result_fields v"
| "layout (PGroundTimeRequest request_id) = ground_time_request_fields request_id"
| "layout (PControlRollTelemetryV2 v) = control_roll_fields v"

fun packet_guard :: "application_packet \<Rightarrow> bool" where
  "packet_guard (PFlight v) \<longleftrightarrow> ft_header v \<in> {HLiftoffDetection, HEngineBurn, HControl}"
| "packet_guard (PMissionLinkFallback v) \<longleftrightarrow>
     mlf_primary_loss_reason v \<le> 7 \<and> mlf_status_flags v AND 0x8000 = 0 \<and>
     (mlf_last_valid_mission_state v \<le> 4 \<or> mlf_last_valid_mission_state v = 0xff) \<and>
     mlf_gnss_state v \<le> 8 \<and> mlf_height v \<le> 0x01ff \<and> mlf_can_health v \<le> 6"
| "packet_guard (PRecoveryLogData v) \<longleftrightarrow> rlp_offset v \<le> 0x00ffffff \<and> rlp_data_length v \<le> 16"
| "packet_guard (PCommandResult v) \<longleftrightarrow> crp_transaction_id v \<noteq> 0"
| "packet_guard (PControlRollTelemetryV2 v) \<longleftrightarrow>
     crv_flags v AND 0xe0 = 0 \<and>
     (crv_reference_raw v = CONTROL_ROLL_OUT_OF_RANGE_RAW) = (crv_flags v AND REFERENCE_OUT_OF_RANGE \<noteq> 0) \<and>
     (crv_deviation_raw v = CONTROL_ROLL_OUT_OF_RANGE_RAW) = (crv_flags v AND DEVIATION_OUT_OF_RANGE \<noteq> 0)"
| "packet_guard _ \<longleftrightarrow> True"

lemma write_packet_layout:
  "packet_guard p \<Longrightarrow> write_packet p w = write_fields (layout p) w"
  "\<not> packet_guard p \<Longrightarrow> \<not> is_ok (write_packet p w)"
  by (cases p; auto simp: encode_command_receive_def encode_flight_def encode_descent_def
      encode_recovery_beacon_def encode_mission_link_fallback_def encode_recovery_log_def
      encode_command_result_def encode_control_roll_def Let_def not_less)+

text \<open>The data of an A6 packet is a \<open>[u8; 16]\<close>.\<close>

definition packet_typed :: "application_packet \<Rightarrow> bool" where
  "packet_typed p = (case p of PRecoveryLogData v \<Rightarrow> length (rlp_data v) = 16 | _ \<Rightarrow> True)"

fun application_length :: "application_packet \<Rightarrow> nat" where
  "application_length (PCommandReceive _) = 24"
| "application_length (PFlight _) = 24"
| "application_length (PDescent _) = 15"
| "application_length (PRecoveryBeacon _) = 12"
| "application_length (PMissionLinkFallback _) = 24"
| "application_length (PRecoveryLogData _) = 24"
| "application_length (PCommandResult _) = 10"
| "application_length (PGroundTimeRequest _) = 3"
| "application_length (PControlRollTelemetryV2 _) = 9"

lemmas fields_defs = command_receive_fields_def flight_fields_def descent_fields_def
  recovery_beacon_fields_def mission_link_fallback_fields_def recovery_log_fields_def
  command_result_fields_def ground_time_request_fields_def control_roll_fields_def

lemma width_bytes: "width (map (\<lambda>b. (ucast b, 8)) bs) = 8 * length bs"
  by (induction bs) auto

lemma width_layout: "packet_typed p \<Longrightarrow> width (layout p) + 8 = 8 * application_length p"
  by (cases p) (simp_all add: fields_defs packet_typed_def width_bytes)

lemma application_length_le: "application_length p \<le> 24" "3 \<le> application_length p"
  by (cases p; simp)+

lemma unat_u8_u16_less [simp]: "unat (x :: u8) < 256" "unat (y :: u16) < 65536"
  using unat_below [of x] unat_below [of y] by simp_all

lemma unat_ucast_up [simp]:
  "unat (ucast (x :: u8) :: u32) = unat x"
  "unat (ucast (y :: u16) :: u32) = unat y"
  using less_trans [OF unat_u8_u16_less(1) [of x], of "2 ^ 32"]
    less_trans [OF unat_u8_u16_less(2) [of y], of "2 ^ 32"]
  by (simp_all add: unsigned_ucast_eq take_bit_nat_eq_self)

lemma field_ok_ucast [simp]:
  "field_ok (ucast (x :: u8), n) \<longleftrightarrow> n \<le> 32 \<and> unat x < 2 ^ n"
  "field_ok (ucast (y :: u16), n) \<longleftrightarrow> n \<le> 32 \<and> unat y < 2 ^ n"
  by (simp_all add: field_ok_def)

lemma field_ok_numeral [simp]:
  "field_ok (0, n) \<longleftrightarrow> n \<le> 32"
  "field_ok (1, 8)"
  "field_ok (numeral k, n) \<longleftrightarrow> n \<le> 32 \<and> unat (numeral k :: u32) < 2 ^ n"
  by (simp_all add: field_ok_def)

lemma header_code_ok [simp]: "field_ok (header_code h, 8)"
  by (cases h) (simp_all add: field_ok_def)

text \<open>The values a packet can carry: what fits its bit fields and passes its consistency checks.\<close>

fun in_range :: "application_packet \<Rightarrow> bool" where
  "in_range (PCommandReceive v) \<longleftrightarrow>
     crt_status v < 0x1000000 \<and> crt_tilt_magnitude v < 128 \<and> crt_tilt_direction v < 512 \<and>
     crt_fin_mode v < 16 \<and> crt_para_mode v < 16 \<and> crt_pressure v < 2048 \<and> crt_height v < 512"
| "in_range (PFlight v) \<longleftrightarrow>
     ft_header v \<in> {HLiftoffDetection, HEngineBurn, HControl} \<and> ft_tilt_magnitude v < 128 \<and>
     ft_tilt_direction v < 512 \<and> ft_pressure v < 2048 \<and> ft_requested_torque v < 4096 \<and> ft_height v < 512"
| "in_range (PDescent v) \<longleftrightarrow> dt_status v < 8192 \<and> dt_pressure v < 2048 \<and> dt_height v < 512"
| "in_range (PRecoveryBeacon v) \<longleftrightarrow> rb_height v < 512"
| "in_range p \<longleftrightarrow> packet_guard p"

lemma list_all_data_ok: "list_all field_ok (map (\<lambda>b :: u8. (ucast b, 8)) bs)"
  by (induction bs) simp_all

lemma in_range_iff: "in_range p \<longleftrightarrow> packet_guard p \<and> list_all field_ok (layout p)"
proof (cases p)
  case (PRecoveryLogData v)
  have "unat (rlp_offset v) < 2 ^ 24" if "rlp_offset v \<le> 0x00ffffff"
    using that by (simp add: word_le_nat_alt)
  then show ?thesis
    by (auto simp: PRecoveryLogData fields_defs list_all_data_ok field_ok_def [of "(rlp_offset v, 24)"])
next
  case (PCommandResult v)
  have "unat (crp_detail v) < 2 ^ 32" using unat_below [of "crp_detail v"] by simp
  then show ?thesis
    by (auto simp: PCommandResult fields_defs field_ok_def [of "(crp_detail v, 32)"])
next
  case (PCommandReceive v)
  then show ?thesis
    by (auto simp: fields_defs word_less_nat_alt field_ok_def [of "(crt_status v, 24)"])
next
  case (PMissionLinkFallback v)
  then show ?thesis by (auto simp: fields_defs)
qed (auto simp: fields_defs word_less_nat_alt)

lemma encode_Inr:
  assumes typed: "packet_typed p" and ok: "encode p = Inr f"
  shows "packet_guard p" "list_all field_ok (layout p)"
    "lf_length f = 3 + application_length p" "length (lf_bytes f) = 27"
    "\<exists>app. as_bytes f = LORA_PREFIX @ app \<and> length app = application_length p \<and> xor_checksum app = 0 \<and>
       read_fields (map snd (layout p)) 0 app = map fst (layout p)"
proof -
  let ?w0 = "bw_new MAX_APPLICATION_LENGTH"
  obtain w where w: "write_packet p ?w0 = Inr w"
    using ok by (auto simp: encode_def)
  show guard: "packet_guard p" using w write_packet_layout(2) [of p ?w0] by (cases "packet_guard p") auto
  have w': "write_fields (layout p) ?w0 = Inr w" using w write_packet_layout(1) [OF guard] by simp
  then show fok: "list_all field_ok (layout p)"
    using write_fields_ok_iff [OF bw_new_inv(1), of "layout p" MAX_APPLICATION_LENGTH] by simp
  define n where "n = application_length p - 1"
  define app where "app = bw_bytes w"
  from write_fields_Inr [OF bw_new_inv(1) w'] have
    inv: "bw_inv w" and wr: "map (bit_of app) [0..<width (layout p)] = concat (map field_bits (layout p))"
    and off: "bw_bit_offset w = width (layout p)" and len: "length app = 24"
    by (auto simp: bw_new_inv MAX_APPLICATION_LENGTH_def written_def app_def)
  have n: "n < 24" "width (layout p) = 8 * n" "byte_length w = n" "Suc n = application_length p"
    using width_layout [OF typed] application_length_le [of p] off by (auto simp: n_def byte_length_def)
  define fin where "fin = app[n := xor_checksum (take n app)]"
  have f: "f = \<lparr>lf_bytes = LORA_PREFIX @ fin, lf_length = Suc (Suc (Suc (Suc n)))\<rparr>"
    using ok w n(3) by (simp add: encode_def Let_def fin_def app_def LORA_PREFIX_def)
  with n len show "lf_length f = 3 + application_length p" "length (lf_bytes f) = 27"
    by (simp_all add: LORA_PREFIX_def fin_def)
  have cut: "take (Suc n) fin = take n app @ [xor_checksum (take n app)]"
    using n(1) len by (simp add: fin_def take_Suc_conv_app_nth)
  have "map (bit_of (take (Suc n) fin)) [0..<width (layout p)] = map (bit_of app) [0..<width (layout p)]"
    using n(1,2) len by (intro map_cong refl bit_of_cong [of n]) (auto simp: fin_def)
  then have "read_fields (map snd (layout p)) 0 (take (Suc n) fin) = map fst (layout p)"
    using read_fields_bits [OF fok, of "take (Suc n) fin" 0] wr by simp
  moreover have "as_bytes f = LORA_PREFIX @ take (Suc n) fin" "length (take (Suc n) fin) = application_length p"
    using n len by (simp_all add: f as_bytes_def LORA_PREFIX_def fin_def)
  ultimately show "\<exists>app. as_bytes f = LORA_PREFIX @ app \<and> length app = application_length p \<and>
      xor_checksum app = 0 \<and> read_fields (map snd (layout p)) 0 app = map fst (layout p)"
    using cut by (intro exI [of _ "take (Suc n) fin"]) simp
qed

lemma encode_is_ok_iff:
  assumes typed: "packet_typed p"
  shows "is_ok (encode p) \<longleftrightarrow> in_range p"
proof -
  let ?w0 = "bw_new MAX_APPLICATION_LENGTH"
  have "is_ok (encode p) \<longleftrightarrow> is_ok (write_packet p ?w0)"
    by (auto simp: encode_def is_ok_iff Let_def)
  also have "\<dots> \<longleftrightarrow> packet_guard p \<and> is_ok (write_fields (layout p) ?w0)"
    using write_packet_layout [of p ?w0] by (cases "packet_guard p") auto
  also have "\<dots> \<longleftrightarrow> packet_guard p \<and> list_all field_ok (layout p)"
    using width_layout [OF typed] application_length_le [of p]
    by (auto simp: write_fields_ok_iff [OF bw_new_inv(1)] bw_new_inv MAX_APPLICATION_LENGTH_def)
  finally show ?thesis by (simp add: in_range_iff)
qed

text \<open>
  \<open>encode\<close> succeeds exactly for the packets whose values fit their bit fields and pass the
  consistency checks. The frame is then the address prefix and an application packet of the
  fixed length of its type (at most 24 bytes), whose bytes XOR to zero, and no byte is written
  outside the 27-byte buffer.
\<close>

theorem encode_frame:
  assumes "packet_typed p"
  shows "case encode p of
      Inl _ \<Rightarrow> \<not> in_range p
    | Inr f \<Rightarrow> in_range p \<and> length (lf_bytes f) = MAX_LORA_FRAME_LENGTH \<and>
        length (as_bytes f) = 3 + application_length p \<and> application_length p \<le> MAX_APPLICATION_LENGTH \<and>
        take 3 (as_bytes f) = LORA_PREFIX \<and> xor_checksum (drop 3 (as_bytes f)) = 0"
proof (cases "encode p")
  case (Inl e)
  then show ?thesis using encode_is_ok_iff [OF assms] by simp
next
  case (Inr f)
  have "in_range p" using encode_is_ok_iff [OF assms] Inr by simp
  with encode_Inr [OF assms Inr] application_length_le [of p] Inr show ?thesis
    by (auto simp: MAX_LORA_FRAME_LENGTH_def MAX_APPLICATION_LENGTH_def LORA_PREFIX_def)
qed

subsection \<open>Decoding on the ground\<close>

text \<open>
  A reference decoder written from the packet tables: it reads the header, then the fields at
  their widths. It is not part of the program; it states that the packets lose nothing.
\<close>

definition decode_flight_header :: "u32 \<Rightarrow> packet_header" where
  "decode_flight_header h = (if h = 0xa1 then HLiftoffDetection else if h = 0xa2 then HEngineBurn else HControl)"

definition ground_decode :: "bytes \<Rightarrow> application_packet option" where
  "ground_decode bs =
     (let h = read_field bs 0 8; r = (\<lambda>widths. read_fields widths 0 bs)
      in if h = 0xa0 then
           let f = r [8, 24, 8, 7, 9, 4, 4, 8, 8, 11, 8, 8, 8, 8, 16, 16, 9, 16, 4]
           in Some (PCommandReceive \<lparr>crt_status = f ! 1, crt_motor_profile = ucast (f ! 2),
                crt_tilt_magnitude = ucast (f ! 3), crt_tilt_direction = ucast (f ! 4),
                crt_fin_mode = ucast (f ! 5), crt_para_mode = ucast (f ! 6), crt_fin_angle = ucast (f ! 7),
                crt_para_angle = ucast (f ! 8), crt_pressure = ucast (f ! 9), crt_temperature = ucast (f ! 10),
                crt_airspeed = ucast (f ! 11), crt_logic_voltage = ucast (f ! 12),
                crt_motor_voltage = ucast (f ! 13), crt_east = ucast (f ! 14), crt_north = ucast (f ! 15),
                crt_height = ucast (f ! 16), crt_display_roll = ucast (f ! 17)\<rparr>)
         else if 0xa1 \<le> h \<and> h \<le> 0xa3 then
           let f = r [8, 16, 16, 16, 7, 9, 8, 16, 11, 8, 8, 12, 8, 16, 16, 9]
           in Some (PFlight \<lparr>ft_header = decode_flight_header h, ft_status = ucast (f ! 1),
                ft_roll = ucast (f ! 2), ft_roll_rate = ucast (f ! 3), ft_tilt_magnitude = ucast (f ! 4),
                ft_tilt_direction = ucast (f ! 5), ft_fin_angle = ucast (f ! 6), ft_fin_rate = ucast (f ! 7),
                ft_pressure = ucast (f ! 8), ft_temperature = ucast (f ! 9), ft_airspeed = ucast (f ! 10),
                ft_requested_torque = ucast (f ! 11), ft_elapsed = ucast (f ! 12), ft_east = ucast (f ! 13),
                ft_north = ucast (f ! 14), ft_height = ucast (f ! 15)\<rparr>)
         else if h = 0xa4 then
           let f = r [8, 13, 11, 8, 8, 16, 16, 16, 9, 7]
           in Some (PDescent \<lparr>dt_status = ucast (f ! 1), dt_pressure = ucast (f ! 2),
                dt_temperature = ucast (f ! 3), dt_para_angle = ucast (f ! 4), dt_elapsed = ucast (f ! 5),
                dt_east = ucast (f ! 6), dt_north = ucast (f ! 7), dt_height = ucast (f ! 8)\<rparr>)
         else if h = 0xa5 then
           let f = r [8, 8, 8, 16, 16, 9, 16, 7]
           in Some (PRecoveryBeacon \<lparr>rb_logic_voltage = ucast (f ! 1), rb_motor_voltage = ucast (f ! 2),
                rb_east = ucast (f ! 3), rb_north = ucast (f ! 4), rb_height = ucast (f ! 5),
                rb_elapsed = ucast (f ! 6)\<rparr>)
         else if h = 0xa8 then
           let f = r [8, 8, 8, 8, 16, 8, 8, 16, 16, 16, 16, 16, 16, 8, 8, 8]
           in Some (PMissionLinkFallback \<lparr>mlf_sequence = ucast (f ! 2), mlf_primary_loss_reason = ucast (f ! 3),
                mlf_status_flags = ucast (f ! 4), mlf_last_valid_mission_state = ucast (f ! 5),
                mlf_gnss_state = ucast (f ! 6), mlf_mission_status_age = ucast (f ! 7),
                mlf_any_mission_periodic_age = ucast (f ! 8), mlf_power_time_age = ucast (f ! 9),
                mlf_east = ucast (f ! 10), mlf_north = ucast (f ! 11), mlf_height = ucast (f ! 12),
                mlf_logic_voltage = ucast (f ! 13), mlf_motor_voltage = ucast (f ! 14),
                mlf_can_health = ucast (f ! 15)\<rparr>)
         else if h = 0xa6 then
           let f = r ([8, 8, 8, 24, 8] @ replicate 16 8)
           in Some (PRecoveryLogData \<lparr>rlp_transfer_id = ucast (f ! 1), rlp_source = bit (f ! 2) 0,
                rlp_end_of_file = bit (f ! 2) 1, rlp_offset = f ! 3, rlp_data_length = ucast (f ! 4),
                rlp_data = map ucast (drop 5 f)\<rparr>)
         else if h = 0xa7 then
           let f = r [8, 8, 16, 16, 8, 8]
           in Some (PControlRollTelemetryV2 \<lparr>crv_reference_raw = ucast (f ! 2),
                crv_deviation_raw = ucast (f ! 3), crv_flags = ucast (f ! 4),
                crv_capture_event_sequence = ucast (f ! 5)\<rparr>)
         else if h = 0xb0 then
           let f = r [8, 8, 8, 8, 8, 32]
           in (case (command_phase_decode (ucast (f ! 3)), command_reason_decode (ucast (f ! 4))) of
                 (Some phase, Some reason) \<Rightarrow>
                   Some (PCommandResult \<lparr>crp_transaction_id = ucast (f ! 1), crp_command = ucast (f ! 2),
                     crp_phase = phase, crp_reason = reason, crp_detail = f ! 5\<rparr>)
               | _ \<Rightarrow> None)
         else if h = 0xb1 then Some (PGroundTimeRequest (ucast (r [8, 8] ! 1)))
         else None)"

lemma ucast_down_up [simp]:
  "ucast (ucast (x :: u8) :: u32) = x" "ucast (ucast (y :: u16) :: u32) = y"
  by (rule bit_word_eqI, simp add: bit_simps)+

text \<open>The header is the first field of every layout.\<close>

lemma read_header: "map snd (layout p) = 8 # ns \<Longrightarrow> read_fields (map snd (layout p)) 0 bs = h # vs \<Longrightarrow> read_field bs 0 8 = h"
  by simp

lemma map_snd_data: "map snd (map (\<lambda>b :: u8. (ucast b :: u32, 8 :: nat)) bs) = replicate (length bs) 8"
  by (induction bs) simp_all

lemma map_fst_data: "map ucast (map fst (map (\<lambda>b :: u8. (ucast b :: u32, 8 :: nat)) bs)) = bs"
  by (induction bs) simp_all

lemma ground_decode_layout:
  assumes "packet_typed p" "packet_guard p" and r: "read_fields (map snd (layout p)) 0 bs = map fst (layout p)"
  shows "ground_decode bs = Some p"
proof (cases p)
  case (PCommandReceive v)
  then show ?thesis using r by (simp add: ground_decode_def fields_defs Let_def)
next
  case (PFlight v)
  then show ?thesis using r assms(2) by (auto simp: ground_decode_def fields_defs decode_flight_header_def)
next
  case (PDescent v)
  then show ?thesis using r by (simp add: ground_decode_def fields_defs)
next
  case (PRecoveryBeacon v)
  then show ?thesis using r by (simp add: ground_decode_def fields_defs)
next
  case (PMissionLinkFallback v)
  then show ?thesis using r by (simp add: ground_decode_def fields_defs)
next
  case (PRecoveryLogData v)
  define m :: u8 where "m = (if rlp_source v then 1 else 0) OR push_bit 1 (if rlp_end_of_file v then 1 else 0)"
  have data: "length (rlp_data v) = 16" using assms(1) by (simp add: packet_typed_def PRecoveryLogData)
  have m: "bit (ucast m :: u32) 0 = rlp_source v" "bit (ucast m :: u32) 1 = rlp_end_of_file v"
    by (simp_all add: m_def bit_simps)
  have "map snd (recovery_log_fields v) = [8, 8, 8, 24, 8] @ replicate 16 8"
    by (simp only: recovery_log_fields_def map_append map_snd_data data list.map snd_conv)
  moreover have "map fst (recovery_log_fields v) = [0xa6, ucast (rlp_transfer_id v), ucast m, rlp_offset v,
      ucast (rlp_data_length v)] @ map ucast (rlp_data v)"
    by (simp add: recovery_log_fields_def m_def o_def)
  ultimately have r6: "read_fields ([8, 8, 8, 24, 8] @ replicate 16 8) 0 bs = [0xa6, ucast (rlp_transfer_id v),
      ucast m, rlp_offset v, ucast (rlp_data_length v)] @ map ucast (rlp_data v)"
    using r by (simp only: PRecoveryLogData layout.simps)
  then have "read_field bs 0 8 = 0xa6" by simp
  then show ?thesis
    unfolding ground_decode_def Let_def r6 using m by (simp add: PRecoveryLogData o_def)
next
  case (PCommandResult v)
  then show ?thesis using r by (simp add: ground_decode_def fields_defs Let_def command_phase.decode_code command_reason.decode_code)
next
  case (PGroundTimeRequest v)
  then show ?thesis using r by (simp add: ground_decode_def fields_defs)
next
  case (PControlRollTelemetryV2 v)
  then show ?thesis using r by (simp add: ground_decode_def fields_defs)
qed

lemma ground_decode_frame:
  assumes "packet_typed p" "encode p = Inr f"
  shows "ground_decode (drop 3 (as_bytes f)) = Some p"
proof -
  note e = encode_Inr [OF assms]
  from e(5) obtain app where "as_bytes f = LORA_PREFIX @ app"
    "read_fields (map snd (layout p)) 0 app = map fst (layout p)" by blast
  with ground_decode_layout [OF assms(1) e(1)] show ?thesis by (simp add: LORA_PREFIX_def)
qed

text \<open>
  C6. Nothing is lost on the downlink: decoding the application bytes of an encoded packet by
  the packet tables gives the packet back, for all nine packet types. So no two packets have the
  same frame.
\<close>

theorem encode_roundtrip:
  assumes "packet_typed p" "encode p = Inr f"
  shows "ground_decode (drop 3 (as_bytes f)) = Some p \<and>
    (\<forall>p' f'. packet_typed p' \<longrightarrow> encode p' = Inr f' \<longrightarrow> as_bytes f' = as_bytes f \<longrightarrow> p' = p)"
  using ground_decode_frame [OF assms] ground_decode_frame by (metis option.inject)

subsection \<open>Concrete packets\<close>

definition demo_descent :: application_packet where
  "demo_descent = PDescent \<lparr>dt_status = 0x1234, dt_pressure = 2047, dt_temperature = 3, dt_para_angle = 4,
     dt_elapsed = 500, dt_east = 0x8001, dt_north = 6, dt_height = 511\<rparr>"

lemma encode_frame_witness:
  "packet_typed demo_descent \<and> is_ok (encode demo_descent) \<and>
   (case encode demo_descent of Inl _ \<Rightarrow> False | Inr f \<Rightarrow> xor_checksum (drop 3 (as_bytes f)) = 0)"
proof -
  have "packet_typed demo_descent" "is_ok (encode demo_descent)"
    by code_simp+
  with encode_frame [of demo_descent] show ?thesis by (auto simp: is_ok_iff)
qed

lemma encode_roundtrip_witness:
  "\<exists>f. encode demo_descent = Inr f \<and> length (as_bytes f) = 18 \<and> ground_decode (drop 3 (as_bytes f)) = Some demo_descent"
proof -
  have "packet_typed demo_descent" "case encode demo_descent of Inl _ \<Rightarrow> False | Inr f \<Rightarrow> length (as_bytes f) = 18"
    by code_simp+
  with encode_roundtrip [of demo_descent] show ?thesis by (auto split: sum.splits)
qed

end
