(* ===== verification/Scheduler.thy ===== *)
theory Scheduler
  imports Payload
begin

section \<open>Scheduling decisions of the downlink (src/lora_scheduler.rs)\<close>

text \<open>
  The pure decisions of the LoRa transmit task: priorities of the five packet sources, the
  deadline arithmetic of the periodic packet, and the fairness between periodic telemetry and a
  recovery dump. Times are microseconds in \<open>u64\<close>. The build without the feature
  \<open>lora-timing-debug\<close> is modelled, so an envelope has no \<open>requested_at_us\<close>.
\<close>

datatype lora_tx_source = SrcPeriodic | SrcRecovery | SrcGroundTimeRequest | SrcCommandResult | SrcEmergencyResult

fun source_rank :: "lora_tx_source \<Rightarrow> u8" where
  "source_rank SrcPeriodic = 0"
| "source_rank SrcRecovery = 1"
| "source_rank SrcGroundTimeRequest = 2"
| "source_rank SrcCommandResult = 3"
| "source_rank SrcEmergencyResult = 4"

lemma source_rank_inject: "source_rank a = source_rank b \<longleftrightarrow> a = b"
  by (cases a; cases b) simp_all

text \<open>The derived \<open>Ord\<close> of the source enum.\<close>

instantiation lora_tx_source :: linorder
begin

definition less_eq_lora_tx_source :: "lora_tx_source \<Rightarrow> lora_tx_source \<Rightarrow> bool" where
  "less_eq_lora_tx_source a b \<longleftrightarrow> source_rank a \<le> source_rank b"

definition less_lora_tx_source :: "lora_tx_source \<Rightarrow> lora_tx_source \<Rightarrow> bool" where
  "less_lora_tx_source a b \<longleftrightarrow> source_rank a < source_rank b"

instance
proof
  fix x y z :: lora_tx_source
  show "x < y \<longleftrightarrow> x \<le> y \<and> \<not> y \<le> x"
    unfolding less_eq_lora_tx_source_def less_lora_tx_source_def by (rule less_le_not_le)
  show "x \<le> x" by (simp add: less_eq_lora_tx_source_def)
  show "x \<le> y \<Longrightarrow> y \<le> z \<Longrightarrow> x \<le> z"
    unfolding less_eq_lora_tx_source_def by (rule order_trans)
  show "x \<le> y \<Longrightarrow> y \<le> x \<Longrightarrow> x = y"
    unfolding less_eq_lora_tx_source_def by (metis order_antisym source_rank_inject)
  show "x \<le> y \<or> y \<le> x" unfolding less_eq_lora_tx_source_def by (rule linear)
qed

end

record lora_tx_envelope =
  env_frame :: lora_frame
  env_source :: lora_tx_source
  env_interval_events :: u16
  env_event_revision :: u32

definition queued_envelope :: "lora_frame \<Rightarrow> lora_tx_source \<Rightarrow> lora_tx_envelope" where
  "queued_envelope frame source =
     \<lparr>env_frame = frame, env_source = source, env_interval_events = 0, env_event_revision = 0\<rparr>"

definition periodic_envelope :: "lora_frame \<Rightarrow> u16 \<Rightarrow> u32 \<Rightarrow> lora_tx_envelope" where
  "periodic_envelope frame interval_events event_revision =
     \<lparr>env_frame = frame, env_source = SrcPeriodic, env_interval_events = interval_events,
      env_event_revision = event_revision\<rparr>"

record deadline_advance =
  da_next_deadline_us :: u64
  da_missed_slots :: u32

definition advance_deadline :: "u64 \<Rightarrow> u64 \<Rightarrow> u64 \<Rightarrow> deadline_advance option" where
  "advance_deadline deadline_us now_us interval_us =
     (if interval_us = 0 then None
      else if now_us < deadline_us
      then Some \<lparr>da_next_deadline_us = deadline_us, da_missed_slots = 0\<rparr>
      else Option.bind (checked_sub now_us deadline_us) (\<lambda>elapsed.
        let elapsed_intervals = elapsed div interval_us
        in Option.bind (checked_add elapsed_intervals 1) (\<lambda>skipped.
           Option.bind (checked_mul skipped interval_us) (\<lambda>advance_us.
           Option.bind (checked_add deadline_us advance_us) (\<lambda>next_deadline_us.
             if next_deadline_us \<le> now_us then None
             else Some \<lparr>da_next_deadline_us = next_deadline_us,
                        da_missed_slots = (if 0xffffffff < skipped then 0xffffffff else ucast skipped)\<rparr>)))))"

datatype ground_time_action = IgnoreDuplicate | Enqueue | ReplaceOldest

definition ground_time_queue_action :: "u8 option \<Rightarrow> u8 \<Rightarrow> bool \<Rightarrow> ground_time_action" where
  "ground_time_queue_action previous_request_id request_id queue_is_full =
     (if previous_request_id = Some request_id then IgnoreDuplicate
      else if queue_is_full then ReplaceOldest else Enqueue)"

definition should_clear_periodic_events :: "lora_tx_source \<Rightarrow> bool \<Rightarrow> u16 \<Rightarrow> bool" where
  "should_clear_periodic_events source transmitted interval_events \<longleftrightarrow>
     source = SrcPeriodic \<and> transmitted \<and> interval_events \<noteq> 0"

definition is_higher_priority :: "lora_tx_source \<Rightarrow> lora_tx_source \<Rightarrow> bool" where
  "is_higher_priority candidate selected \<longleftrightarrow> source_rank selected < source_rank candidate"

definition should_defer_preempted :: "lora_tx_source \<Rightarrow> bool" where
  "should_defer_preempted source \<longleftrightarrow> source \<noteq> SrcPeriodic"

fun preempted_periodic_missed_slots :: "lora_tx_source \<Rightarrow> u32" where
  "preempted_periodic_missed_slots SrcPeriodic = 1"
| "preempted_periodic_missed_slots _ = 0"

definition recovery_next_eligible_at_us :: "u64 \<Rightarrow> u64 \<Rightarrow> u64 option" where
  "recovery_next_eligible_at_us completed_at_us minimum_gap_us = checked_add completed_at_us minimum_gap_us"

definition recovery_allowed :: "bool \<Rightarrow> bool \<Rightarrow> bool" where
  "recovery_allowed recovery_sent_since_periodic periodic_due \<longleftrightarrow>
     \<not> recovery_sent_since_periodic \<or> \<not> periodic_due"

definition periodic_due_for_reselection :: "lora_tx_source \<Rightarrow> bool \<Rightarrow> bool \<Rightarrow> bool" where
  "periodic_due_for_reselection selected_source periodic_deadline_valid deadline_reached \<longleftrightarrow>
     selected_source = SrcPeriodic \<or> periodic_deadline_valid \<and> deadline_reached"

definition deferred_recovery_blocked :: "lora_tx_source \<Rightarrow> bool \<Rightarrow> bool \<Rightarrow> bool" where
  "deferred_recovery_blocked deferred_source recovery_sent_since_periodic periodic_due \<longleftrightarrow>
     deferred_source = SrcRecovery \<and> \<not> recovery_allowed recovery_sent_since_periodic periodic_due"

fun update_recovery_fairness :: "bool \<Rightarrow> lora_tx_source \<Rightarrow> bool" where
  "update_recovery_fairness recovery_sent SrcRecovery = True"
| "update_recovery_fairness recovery_sent SrcPeriodic = False"
| "update_recovery_fairness recovery_sent _ = recovery_sent"

record periodic_deadline_selection =
  pds_deadline_us :: u64
  pds_retry_selected :: bool

definition select_periodic_deadline :: "u64 \<Rightarrow> bool \<Rightarrow> u64 option \<Rightarrow> periodic_deadline_selection" where
  "select_periodic_deadline regular_deadline_us regular_deadline_valid retry_at_us =
     (case retry_at_us of
        Some retry \<Rightarrow>
          if \<not> regular_deadline_valid \<or> retry < regular_deadline_us
          then \<lparr>pds_deadline_us = retry, pds_retry_selected = True\<rparr>
          else \<lparr>pds_deadline_us = regular_deadline_us, pds_retry_selected = False\<rparr>
      | None \<Rightarrow> \<lparr>pds_deadline_us = regular_deadline_us, pds_retry_selected = False\<rparr>)"

definition regular_deadline_after_selection :: "u64 \<Rightarrow> bool \<Rightarrow> u64 \<Rightarrow> u64 option" where
  "regular_deadline_after_selection regular_deadline_us retry_selected interval_us =
     (if retry_selected then Some regular_deadline_us else checked_add regular_deadline_us interval_us)"

record periodic_deadline_consumption =
  pdc_next_regular_deadline_us :: "u64 option"
  pdc_retry_at_us :: "u64 option"

definition consume_periodic_selection :: "u64 \<Rightarrow> bool \<Rightarrow> u64 \<Rightarrow> periodic_deadline_consumption" where
  "consume_periodic_selection regular_deadline_us retry_selected interval_us =
     \<lparr>pdc_next_regular_deadline_us =
        regular_deadline_after_selection regular_deadline_us retry_selected interval_us,
      pdc_retry_at_us = None\<rparr>"

definition periodic_retry_after_nonperiodic_attempt :: "u64 option \<Rightarrow> u64 \<Rightarrow> lora_tx_source \<Rightarrow> u64 option" where
  "periodic_retry_after_nonperiodic_attempt retry_at_us completed_at_us attempted_source =
     (if attempted_source = SrcPeriodic then retry_at_us
      else (case retry_at_us of
              Some retry \<Rightarrow> if retry \<le> completed_at_us then None else Some retry
            | None \<Rightarrow> None))"

definition periodic_retry_after_recovery_us :: "u64 \<Rightarrow> u64 \<Rightarrow> bool \<Rightarrow> u64 option" where
  "periodic_retry_after_recovery_us completed_at_us minimum_gap_us displaced_regular_slot =
     (if displaced_regular_slot then checked_add completed_at_us minimum_gap_us else None)"

definition recovery_displaced_regular_slot :: "lora_tx_source \<Rightarrow> lora_tx_source \<Rightarrow> bool \<Rightarrow> bool" where
  "recovery_displaced_regular_slot selected_source higher_source regular_periodic_selected \<longleftrightarrow>
     regular_periodic_selected \<and> selected_source = SrcPeriodic \<and> higher_source = SrcRecovery"

subsection \<open>Deadlines\<close>

text \<open>The least deadline of the grid after now, as natural numbers.\<close>

definition next_slot :: "nat \<Rightarrow> nat \<Rightarrow> nat \<Rightarrow> nat" where
  "next_slot deadline now interval = (if now < deadline then 0 else (now - deadline) div interval + 1)"

lemma next_slot_after:
  assumes "0 < interval"
  shows "now < deadline + next_slot deadline now interval * interval"
proof (cases "now < deadline")
  case False
  have "now - deadline < interval + (now - deadline) div interval * interval"
    using dividend_less_div_times [OF assms, of "now - deadline"] by simp
  with False show ?thesis by (simp add: next_slot_def)
qed (simp add: next_slot_def)

lemma next_slot_least:
  "next_slot deadline now interval = 0 \<or>
   deadline + (next_slot deadline now interval - 1) * interval \<le> now"
proof -
  have "(now - deadline) div interval * interval \<le> now - deadline" by simp
  then have "deadline + (now - deadline) div interval * interval \<le> now" if "\<not> now < deadline"
    using that by linarith
  then show ?thesis by (simp add: next_slot_def)
qed

lemma advance_deadline_cases:
  fixes deadline now interval :: u64
  assumes i: "interval \<noteq> 0"
  defines "k \<equiv> next_slot (unat deadline) (unat now) (unat interval)"
  shows "advance_deadline deadline now interval =
    (if unat deadline + k * unat interval < 2 ^ 64
     then Some \<lparr>da_next_deadline_us = of_nat (unat deadline + k * unat interval),
                da_missed_slots = (if 2 ^ 32 \<le> k then 0xffffffff else of_nat k)\<rparr>
     else None)"
proof (cases "now < deadline")
  case True
  then have "k = 0" by (simp add: k_def next_slot_def word_less_nat_alt)
  with True i show ?thesis using unat_below [of deadline] by (simp add: advance_deadline_def)
next
  case False
  have ipos: "0 < unat interval" using i by (simp add: unat_gt_0)
  have k: "k = (unat now - unat deadline) div unat interval + 1"
    using False by (simp add: k_def next_slot_def word_less_nat_alt)
  obtain e where e: "checked_sub now deadline = Some e" "unat e = unat now - unat deadline"
    using False by (metis checked_sub_Some checked_sub_def add_diff_cancel_right' linorder_not_less)
  have q: "unat (e div interval) + 1 = k" by (simp add: unat_div e(2) k)
  have after: "unat now < unat deadline + k * unat interval"
    unfolding k_def by (rule next_slot_after [OF ipos])
  show ?thesis
  proof (cases "unat deadline + k * unat interval < 2 ^ 64")
    case True
    moreover have "k \<le> k * unat interval" using ipos by simp
    ultimately have kb: "k < 2 ^ 64" "k * unat interval < 2 ^ 64" by linarith+
    have s: "checked_add (e div interval) 1 = Some (of_nat k)"
      using q kb(1) by (simp add: checked_add_Some unat_of_nat)
    have m: "checked_mul (of_nat k) interval = Some (of_nat (k * unat interval))"
      using kb by (simp add: checked_mul_Some unat_of_nat del: of_nat_mult)
    have a: "checked_add deadline (of_nat (k * unat interval)) = Some (of_nat (unat deadline + k * unat interval))"
      using True kb by (simp add: checked_add_Some unat_of_nat del: of_nat_mult of_nat_add)
    have cap: "(0xffffffff < (of_nat k :: u64)) \<longleftrightarrow> 2 ^ 32 \<le> k"
      using kb(1) by (simp add: word_less_nat_alt unat_of_nat) linarith
    have cast: "(ucast (of_nat k :: u64) :: u32) = of_nat k"
      by (rule bit_word_eqI) (simp add: bit_simps)
    show ?thesis
      using True after i False kb
      by (simp add: advance_deadline_def e(1) s m a cap cast word_le_nat_alt unat_of_nat
          del: of_nat_mult of_nat_add)
  next
    case big: False
    have "advance_deadline deadline now interval = None"
    proof (cases "checked_add (e div interval) 1")
      case (Some s)
      then have s: "unat s = k" using q by (simp add: checked_add_Some)
      show ?thesis
      proof (cases "checked_mul s interval")
        case (Some m)
        then have "checked_add deadline m = None"
          using big s by (simp add: checked_mul_Some checked_add_None)
        with Some \<open>checked_add (e div interval) 1 = Some s\<close> e(1) False show ?thesis
          by (simp add: advance_deadline_def)
      qed (use Some e(1) False in \<open>simp add: advance_deadline_def\<close>)
    qed (use e(1) False in \<open>simp add: advance_deadline_def\<close>)
    with big show ?thesis by simp
  qed
qed

text \<open>
  C21. \<open>advance_deadline\<close> keeps the phase: it returns the least deadline of the grid
  \<open>deadline + k * interval\<close> that lies after now, with the number of slots skipped (capped at the
  counter's width). It fails exactly for a zero interval, a deadline in the future included, or
  when that deadline does not fit in 64 bits; it never returns a deadline that has passed.
\<close>

theorem advance_deadline_exact:
  "(advance_deadline deadline now interval = None \<longleftrightarrow>
      interval = 0 \<or>
      (unat deadline \<le> unat now \<and>
       2 ^ 64 \<le> unat deadline + ((unat now - unat deadline) div unat interval + 1) * unat interval)) \<and>
   (case advance_deadline deadline now interval of
      None \<Rightarrow> True
    | Some a \<Rightarrow> unat now < unat (da_next_deadline_us a) \<and>
        (\<exists>k. unat (da_next_deadline_us a) = unat deadline + k * unat interval \<and>
             (k = 0 \<or> unat deadline + (k - 1) * unat interval \<le> unat now) \<and>
             unat (da_missed_slots a) = min k (2 ^ 32 - 1)))"
proof (cases "interval = 0")
  case True
  then show ?thesis by (simp add: advance_deadline_def)
next
  case False
  define k where "k = next_slot (unat deadline) (unat now) (unat interval)"
  have ipos: "0 < unat interval" using False by (simp add: unat_gt_0)
  note adv = advance_deadline_cases [OF False, of deadline now, folded k_def]
  have failing: "\<not> unat deadline + k * unat interval < 2 ^ 64 \<longleftrightarrow>
      unat deadline \<le> unat now \<and>
      2 ^ 64 \<le> unat deadline + ((unat now - unat deadline) div unat interval + 1) * unat interval"
    using unat_below [of deadline] by (auto simp: k_def next_slot_def)
  show ?thesis
  proof (cases "unat deadline + k * unat interval < 2 ^ 64")
    case True
    then have "unat (of_nat (unat deadline + k * unat interval) :: u64) = unat deadline + k * unat interval"
      by (simp only: unat_of_nat) simp
    moreover have "unat (if 2 ^ 32 \<le> k then 0xffffffff else of_nat k :: u32) = min k (2 ^ 32 - 1)"
      by (auto simp: unat_of_nat)
    ultimately show ?thesis
      using True False failing next_slot_after [OF ipos, of "unat now" "unat deadline", folded k_def]
        next_slot_least [of "unat deadline" "unat now" "unat interval", folded k_def]
      by (auto simp: adv simp del: of_nat_add of_nat_mult)
  next
    case big: False
    with failing show ?thesis by (simp add: adv)
  qed
qed


subsection \<open>Choosing the periodic deadline\<close>

text \<open>
  The periodic packet is scheduled for the earlier of its regular slot (while that is
  valid) and a retry granted by a recovery packet that displaced it. Using the retry leaves
  the regular grid alone; using the regular slot moves it on by one interval; either way the
  retry is spent.
\<close>

theorem periodic_selection:
  "let s = select_periodic_deadline regular valid retry;
       c = consume_periodic_selection regular (pds_retry_selected s) interval
   in pdc_retry_at_us c = None \<and>
      (case retry of
         None \<Rightarrow> pds_deadline_us s = regular \<and> \<not> pds_retry_selected s
       | Some r \<Rightarrow> pds_deadline_us s = (if valid then min regular r else r) \<and>
           pds_retry_selected s = (if valid then r < regular else True)) \<and>
      (if pds_retry_selected s then pdc_next_regular_deadline_us c = Some regular
       else case pdc_next_regular_deadline_us c of
              None \<Rightarrow> 2 ^ 64 \<le> unat regular + unat interval
            | Some next \<Rightarrow> unat next = unat regular + unat interval)"
proof -
  have "case checked_add regular interval of None \<Rightarrow> 2 ^ 64 \<le> unat regular + unat interval
      | Some next \<Rightarrow> unat next = unat regular + unat interval"
    using checked_add_None [of regular interval] checked_add_Some [of regular interval]
    by (auto split: option.split)
  then show ?thesis
    by (auto simp: select_periodic_deadline_def consume_periodic_selection_def
        regular_deadline_after_selection_def min_def Let_def split: option.split)
qed

subsection \<open>Priorities and fairness\<close>

lemma is_higher_priority_less: "is_higher_priority candidate selected \<longleftrightarrow> selected < candidate"
  by (simp add: is_higher_priority_def less_lora_tx_source_def)

text \<open>
  A run of the transmit task as far as fairness is concerned: each attempt has its source and
  whether the periodic packet was due when it was chosen. A recovery packet is attempted only
  when \<open>recovery_allowed\<close> agrees.
\<close>

fun fair_run :: "bool \<Rightarrow> (lora_tx_source \<times> bool) list \<Rightarrow> bool" where
  "fair_run sent [] = True"
| "fair_run sent ((source, periodic_due) # attempts) =
     (\<not> deferred_recovery_blocked source sent periodic_due \<and>
      fair_run (update_recovery_fairness sent source) attempts)"

lemma fair_run_append:
  "fair_run sent (xs @ ys) \<longleftrightarrow>
     fair_run sent xs \<and> fair_run (foldl update_recovery_fairness sent (map fst xs)) ys"
proof (induction xs arbitrary: sent)
  case (Cons x xs)
  obtain source due where x: "x = (source, due)" by fastforce
  show ?case by (simp only: x append_Cons fair_run.simps Cons.IH list.map fst_conv foldl.simps conj_assoc)
qed simp

lemma fairness_sticky:
  "SrcPeriodic \<notin> set ss \<Longrightarrow> foldl update_recovery_fairness True ss = True"
proof (induction ss)
  case (Cons s ss)
  then show ?case by (cases s) auto
qed simp

text \<open>
  A recovery dump cannot starve the periodic telemetry: in every run of the transmit task,
  between two recovery packets, the second of which was sent while the periodic packet was
  due, a periodic packet was sent.
\<close>

theorem recovery_fairness:
  assumes "fair_run sent (before @ (SrcRecovery, due) # between @ (SrcRecovery, True) # after)"
  shows "SrcPeriodic \<in> set (map fst between)"
proof (rule ccontr)
  assume "SrcPeriodic \<notin> set (map fst between)"
  from fairness_sticky [OF this] assms show False
    by (simp add: fair_run_append deferred_recovery_blocked_def recovery_allowed_def)
qed

lemma recovery_fairness_witness:
  "SrcPeriodic \<in> set (map fst [(SrcCommandResult, True), (SrcPeriodic, True)])"
proof -
  have "fair_run False ([] @ (SrcRecovery, False) # [(SrcCommandResult, True), (SrcPeriodic, True)] @ (SrcRecovery, True) # [])"
    by code_simp
  then show ?thesis by (rule recovery_fairness)
qed

end
