(* ===== verification/Uplink.thy ===== *)
theory Uplink
  imports Protocol
begin

section \<open>Uplink frames (src/lora_uplink.rs)\<close>

text \<open>
  The ground station's commands arrive as 11-byte frames in a noisy byte stream: header, kind,
  transaction, seven payload bytes and an XOR checksum. \<open>decode_uplink\<close> reads one frame;
  \<open>UplinkFrameBuffer\<close> collects bytes and looks for the next header after a bad frame.
\<close>

definition UPLINK_FRAME_LENGTH :: nat where "UPLINK_FRAME_LENGTH = 11"
definition UPLINK_HEADER :: u8 where [simp]: "UPLINK_HEADER = 0x55"
definition PARA_FREE :: u8 where "PARA_FREE = 0x20"
definition PARA_HOLD :: u8 where "PARA_HOLD = 0x21"
definition PARA_MOVE_RELATIVE :: u8 where "PARA_MOVE_RELATIVE = 0x22"
definition SET_PARA_OPEN :: u8 where "SET_PARA_OPEN = 0x23"
definition SET_PARA_CLOSE :: u8 where "SET_PARA_CLOSE = 0x24"

datatype uplink_kind =
  KMissionGeneric | KActuatorEmergency | KLiftoffDetectionEmergency | KComBoardLocal | KGroundTimeResponse

definition uplink_kind_decode :: "u8 \<Rightarrow> uplink_kind option" where
  "uplink_kind_decode raw =
     (if raw = 0 then Some KMissionGeneric
      else if raw = 1 then Some KActuatorEmergency
      else if raw = 2 then Some KLiftoffDetectionEmergency
      else if raw = 3 then Some KComBoardLocal
      else if raw = 4 then Some KGroundTimeResponse
      else None)"

fun uplink_kind_code :: "uplink_kind \<Rightarrow> u8" where
  "uplink_kind_code KMissionGeneric = 0"
| "uplink_kind_code KActuatorEmergency = 1"
| "uplink_kind_code KLiftoffDetectionEmergency = 2"
| "uplink_kind_code KComBoardLocal = 3"
| "uplink_kind_code KGroundTimeResponse = 4"

interpretation uplink_kind: wire_enum uplink_kind_code uplink_kind_decode
proof
  show "uplink_kind_decode (uplink_kind_code x) = Some x" for x
    by (cases x) (simp_all add: uplink_kind_decode_def)
  show "uplink_kind_decode raw = Some x \<Longrightarrow> uplink_kind_code x = raw" for raw x
    by (auto simp: uplink_kind_decode_def split: if_splits)
qed

datatype uplink_command =
  UpMissionGeneric generic_command_request
| UpActuatorEmergency u8
| UpLiftoffDetectionEmergency u8
| UpComBoardLocal u8 u8 bytes
| UpGroundTimeResponse u8 time_source u32 u16

datatype uplink_decode_error =
  InvalidHeader | InvalidChecksum | InvalidKind | ReservedTransactionId | InvalidUplinkField

definition is_deprecated_parachute_command :: "u8 \<Rightarrow> bool" where
  "is_deprecated_parachute_command command \<longleftrightarrow>
     command \<in> {PARA_FREE, PARA_HOLD, PARA_MOVE_RELATIVE, SET_PARA_OPEN, SET_PARA_CLOSE}"

definition decode_uplink :: "bytes \<Rightarrow> uplink_decode_error + uplink_command" where
  "decode_uplink bs =
     (if bs ! 0 \<noteq> UPLINK_HEADER then Inl InvalidHeader
      else if xor_checksum (take (UPLINK_FRAME_LENGTH - 1) bs) \<noteq> bs ! (UPLINK_FRAME_LENGTH - 1)
      then Inl InvalidChecksum
      else and_then (ok_or (uplink_kind_decode (bs ! 1)) InvalidKind) (\<lambda>kind.
        if bs ! 2 = 0 then Inl ReservedTransactionId
        else let args = slice bs 4 10
        in case kind of
             KMissionGeneric \<Rightarrow>
               if is_deprecated_parachute_command (bs ! 3) then Inl InvalidUplinkField
               else Inr (UpMissionGeneric \<lparr>req_transaction_id = bs ! 2, req_command = bs ! 3, req_args = args\<rparr>)
           | KActuatorEmergency \<Rightarrow>
               if list_ex (\<lambda>byte. byte \<noteq> 0) (slice bs 3 10) then Inl InvalidUplinkField
               else Inr (UpActuatorEmergency (bs ! 2))
           | KLiftoffDetectionEmergency \<Rightarrow>
               if list_ex (\<lambda>byte. byte \<noteq> 0) (slice bs 3 10) then Inl InvalidUplinkField
               else Inr (UpLiftoffDetectionEmergency (bs ! 2))
           | KComBoardLocal \<Rightarrow> Inr (UpComBoardLocal (bs ! 2) (bs ! 3) args)
           | KGroundTimeResponse \<Rightarrow>
               and_then (ok_or (time_source_decode (bs ! 3)) InvalidUplinkField) (\<lambda>source.
                 let milliseconds = u16_from_le (bs ! 8) (bs ! 9)
                 in if 999 < milliseconds then Inl InvalidUplinkField
                    else Inr (UpGroundTimeResponse (bs ! 2) source
                      (u32_from_le (bs ! 4) (bs ! 5) (bs ! 6) (bs ! 7)) milliseconds))))"

record uplink_frame_buffer =
  ub_bytes :: bytes
  ub_length :: nat

definition new_uplink_buffer :: uplink_frame_buffer where
  "new_uplink_buffer = \<lparr>ub_bytes = replicate UPLINK_FRAME_LENGTH 0, ub_length = 0\<rparr>"

definition push_uplink :: "uplink_frame_buffer \<Rightarrow> u8 \<Rightarrow>
    (uplink_decode_error + uplink_command) option \<times> uplink_frame_buffer" where
  "push_uplink u byte =
     (if ub_length u = 0
      then (None, if byte \<noteq> UPLINK_HEADER then u else u\<lparr>ub_bytes := (ub_bytes u)[0 := byte], ub_length := 1\<rparr>)
      else
        let u = u\<lparr>ub_bytes := (ub_bytes u)[ub_length u := byte], ub_length := ub_length u + 1\<rparr>
        in if ub_length u \<noteq> UPLINK_FRAME_LENGTH then (None, u)
           else
             let result = decode_uplink (ub_bytes u)
             in (Some result,
                 if is_ok result then u\<lparr>ub_length := 0\<rparr>
                 else (case position (\<lambda>v. v = UPLINK_HEADER) (drop 1 (ub_bytes u)) of
                         Some next_header \<Rightarrow>
                           let next_header = next_header + 1
                           in u\<lparr>ub_bytes := copy_into (ub_bytes u) 0 (drop next_header (ub_bytes u)),
                                ub_length := UPLINK_FRAME_LENGTH - next_header\<rparr>
                       | None \<Rightarrow> u\<lparr>ub_length := 0\<rparr>)))"

definition reset_uplink :: "uplink_frame_buffer \<Rightarrow> uplink_frame_buffer" where
  "reset_uplink u = u\<lparr>ub_length := 0\<rparr>"

subsection \<open>The frame format\<close>

text \<open>The frame that carries a command, and the commands that have one.\<close>

definition close_frame :: "bytes \<Rightarrow> bytes" where
  "close_frame bs = bs @ [xor_checksum bs]"

fun uplink_wire :: "uplink_command \<Rightarrow> bytes" where
  "uplink_wire (UpMissionGeneric r) =
     close_frame ([UPLINK_HEADER, 0, req_transaction_id r, req_command r] @ req_args r)"
| "uplink_wire (UpActuatorEmergency t) = close_frame ([UPLINK_HEADER, 1, t] @ replicate 7 0)"
| "uplink_wire (UpLiftoffDetectionEmergency t) = close_frame ([UPLINK_HEADER, 2, t] @ replicate 7 0)"
| "uplink_wire (UpComBoardLocal t c args) = close_frame ([UPLINK_HEADER, 3, t, c] @ args)"
| "uplink_wire (UpGroundTimeResponse i src secs ms) =
     close_frame ([UPLINK_HEADER, 4, i, time_source_code src] @ u32_to_le secs @ u16_to_le ms)"

fun valid_uplink :: "uplink_command \<Rightarrow> bool" where
  "valid_uplink (UpMissionGeneric r) \<longleftrightarrow> req_transaction_id r \<noteq> 0 \<and> length (req_args r) = 6 \<and>
     \<not> is_deprecated_parachute_command (req_command r)"
| "valid_uplink (UpActuatorEmergency t) \<longleftrightarrow> t \<noteq> 0"
| "valid_uplink (UpLiftoffDetectionEmergency t) \<longleftrightarrow> t \<noteq> 0"
| "valid_uplink (UpComBoardLocal t c args) \<longleftrightarrow> t \<noteq> 0 \<and> length args = 6"
| "valid_uplink (UpGroundTimeResponse i src secs ms) \<longleftrightarrow> i \<noteq> 0 \<and> ms \<le> 999"

lemma length_uplink_wire: "valid_uplink c \<Longrightarrow> length (uplink_wire c) = 11"
  by (cases c) (simp_all add: close_frame_def)

lemma hd_uplink_wire: "uplink_wire c \<noteq> [] \<and> hd (uplink_wire c) = UPLINK_HEADER"
  by (cases c) (simp_all add: close_frame_def)

lemma xs6: "length xs = 6 \<longleftrightarrow> (\<exists>a b c d e f. xs = [a, b, c, d, e, f])"
  by (auto simp: length_Suc_conv_list numeral_eq_Suc)

lemma decode_uplink_wire: "valid_uplink c \<Longrightarrow> decode_uplink (uplink_wire c) = Inr c"
proof (cases c)
  case (UpGroundTimeResponse i src secs ms)
  assume "valid_uplink c"
  with UpGroundTimeResponse show ?thesis
    by (simp add: decode_uplink_def uplink_kind_decode_def close_frame_def UPLINK_FRAME_LENGTH_def
        u16_to_le_def u32_to_le_def wire not_less [symmetric] time_source.decode_code)
next
  case (UpMissionGeneric r)
  assume "valid_uplink c"
  with UpMissionGeneric obtain a0 a1 a2 a3 a4 a5 where args: "req_args r = [a0, a1, a2, a3, a4, a5]" by (auto simp: xs6)
  from \<open>valid_uplink c\<close> show ?thesis unfolding UpMissionGeneric
    by (cases r) (use args in \<open>simp add: decode_uplink_def uplink_kind_decode_def close_frame_def
      UPLINK_FRAME_LENGTH_def slice_def\<close>)
next
  case (UpComBoardLocal t command args)
  assume "valid_uplink c"
  with UpComBoardLocal obtain a0 a1 a2 a3 a4 a5 where "args = [a0, a1, a2, a3, a4, a5]" by (auto simp: xs6)
  with \<open>valid_uplink c\<close> show ?thesis unfolding UpComBoardLocal
    by (simp add: decode_uplink_def uplink_kind_decode_def close_frame_def UPLINK_FRAME_LENGTH_def slice_def)
qed (auto simp: decode_uplink_def uplink_kind_decode_def close_frame_def UPLINK_FRAME_LENGTH_def slice_def
    numeral_eq_Suc)

lemma decode_uplink_sound:
  assumes "decode_uplink [b0, b1, b2, b3, b4, b5, b6, b7, b8, b9, b10] = Inr c"
  shows "valid_uplink c" "uplink_wire c = [b0, b1, b2, b3, b4, b5, b6, b7, b8, b9, b10]"
  using assms
  by (auto simp: decode_uplink_def uplink_kind.decode_iff time_source.decode_iff close_frame_def slice_def
      UPLINK_FRAME_LENGTH_def not_less numeral_eq_Suc Let_def split: if_splits uplink_kind.splits)

text \<open>
  \<open>decode_uplink\<close> accepts exactly the frames of the format: a frame decodes to a command if
  and only if the command is well formed (nonzero transaction, no deprecated parachute
  command, milliseconds below 1000) and the frame is the one that carries it, byte for byte.
\<close>

theorem decode_uplink_exact:
  "decode_uplink [b0, b1, b2, b3, b4, b5, b6, b7, b8, b9, b10] = Inr c \<longleftrightarrow>
   valid_uplink c \<and> [b0, b1, b2, b3, b4, b5, b6, b7, b8, b9, b10] = uplink_wire c"
proof
  assume "decode_uplink [b0, b1, b2, b3, b4, b5, b6, b7, b8, b9, b10] = Inr c"
  from decode_uplink_sound [OF this]
  show "valid_uplink c \<and> [b0, b1, b2, b3, b4, b5, b6, b7, b8, b9, b10] = uplink_wire c" by simp
qed (simp add: decode_uplink_wire)


subsection \<open>Resynchronisation\<close>

text \<open>
  The specification works on the whole received byte string: skip to a header, decode the
  eleven bytes there; after a good frame continue behind it, after a bad one continue one byte
  after its header. The second component is what is still being collected.
\<close>

fun skip :: "bytes \<Rightarrow> bytes" where
  "skip [] = []"
| "skip (b # bs) = (if b = UPLINK_HEADER then b # bs else skip bs)"

lemma length_skip_le: "length (skip bs) \<le> length bs"
  by (induction bs) auto

lemma skip_idem [simp]: "skip (skip bs) = skip bs"
  by (induction bs) auto

lemma hd_skip: "skip bs \<noteq> [] \<Longrightarrow> hd (skip bs) = UPLINK_HEADER"
  by (induction bs) (auto split: if_splits)

lemma skip_header: "hd bs = UPLINK_HEADER \<Longrightarrow> skip bs = bs"
  by (cases bs) auto

function scan :: "bytes \<Rightarrow> (uplink_decode_error + uplink_command) list \<times> bytes" where
  "scan bs =
     (let h = skip bs
      in if length h < 11 then ([], h)
         else let r = decode_uplink (take 11 h);
                  (rs, rest) = scan (if is_ok r then drop 11 h else tl h)
              in (r # rs, rest))"
  by pat_completeness auto
termination
proof (relation "measure length")
  fix bs h :: bytes and r :: "uplink_decode_error + uplink_command"
  assume h: "h = skip bs" "\<not> length h < 11"
  have "length h \<le> length bs" unfolding h(1) by (rule length_skip_le)
  with h(2) show "(if is_ok r then drop 11 h else tl h, bs) \<in> measure length" by auto
qed simp

declare scan.simps [simp del]

definition content :: "uplink_frame_buffer \<Rightarrow> bytes" where
  "content u = take (ub_length u) (ub_bytes u)"

definition uplink_inv :: "uplink_frame_buffer \<Rightarrow> bool" where
  "uplink_inv u \<longleftrightarrow> length (ub_bytes u) = 11 \<and> ub_length u < 11 \<and>
     (content u \<noteq> [] \<longrightarrow> hd (content u) = UPLINK_HEADER)"

text \<open>One byte, seen on the contents: collect it, and decode when eleven bytes are there.\<close>

definition feed :: "bytes \<Rightarrow> u8 \<Rightarrow> (uplink_decode_error + uplink_command) option \<times> bytes" where
  "feed c byte =
     (let h = skip (c @ [byte])
      in if length h < 11 then (None, h)
         else (Some (decode_uplink h), if is_ok (decode_uplink h) then [] else skip (tl h)))"

lemma skip_position:
  "skip xs = (case position (\<lambda>v. v = UPLINK_HEADER) xs of None \<Rightarrow> [] | Some i \<Rightarrow> drop i xs)"
  by (induction xs) (auto split: option.splits)

lemma push_uplink_feed:
  assumes inv: "uplink_inv u"
  shows "fst (push_uplink u byte) = fst (feed (content u) byte)"
    "content (snd (push_uplink u byte)) = snd (feed (content u) byte)"
    "uplink_inv (snd (push_uplink u byte))"
proof -
  have "fst (push_uplink u byte) = fst (feed (content u) byte) \<and>
    content (snd (push_uplink u byte)) = snd (feed (content u) byte) \<and>
    uplink_inv (snd (push_uplink u byte))"
  proof (cases "ub_length u = 0")
    case True
    then have "content u = []" by (simp add: content_def)
    moreover have "ub_bytes u \<noteq> []" using inv by (auto simp: uplink_inv_def)
    ultimately show ?thesis
      using True inv by (cases "ub_bytes u") (auto simp: push_uplink_def feed_def uplink_inv_def content_def Let_def)
  next
    case False
    let ?bs = "(ub_bytes u)[ub_length u := byte]"
    have n: "ub_length u < 11" "length (ub_bytes u) = 11" using inv by (auto simp: uplink_inv_def)
    have c: "content u \<noteq> []" "hd (content u) = UPLINK_HEADER" "length (content u) = ub_length u"
      using False n inv by (auto simp: uplink_inv_def content_def)
    then have h: "skip (content u @ [byte]) = content u @ [byte]" by (cases "content u") auto
    have tk: "take (Suc (ub_length u)) ?bs = content u @ [byte]"
      using n by (simp add: take_Suc_conv_app_nth content_def)
    show ?thesis
    proof (cases "ub_length u = 10")
      case False
      then have "ub_length u \<noteq> 10" "Suc (ub_length u) < 11" using n by auto
      with c h tk n \<open>ub_length u \<noteq> 0\<close> show ?thesis
        by (auto simp: push_uplink_def feed_def uplink_inv_def content_def UPLINK_FRAME_LENGTH_def)
    next
      case True
      define h' where "h' = content u @ [byte]"
      have bs: "(ub_bytes u)[10 := byte] = h'" using tk True n by (simp add: eval_nat_numeral h'_def)
      have len': "length h' = 11" using c True by (simp add: h'_def)
      have push: "push_uplink u byte = (Some (decode_uplink h'),
          if is_ok (decode_uplink h') then \<lparr>ub_bytes = h', ub_length = 0\<rparr>
          else (case position (\<lambda>v. v = UPLINK_HEADER) (tl h') of
              Some i \<Rightarrow> \<lparr>ub_bytes = copy_into h' 0 (drop (Suc i) h'), ub_length = 10 - i\<rparr>
            | None \<Rightarrow> \<lparr>ub_bytes = h', ub_length = 0\<rparr>))"
        using True bs by (cases u) (simp add: push_uplink_def UPLINK_FRAME_LENGTH_def Let_def drop_Suc
            split: option.split)
      have feed: "feed (content u) byte = (Some (decode_uplink h'),
          if is_ok (decode_uplink h') then [] else skip (tl h'))"
        unfolding feed_def h'_def [symmetric] using len' h [folded h'_def] by (simp add: Let_def)
      show ?thesis
      proof (cases "position (\<lambda>v. v = UPLINK_HEADER) (tl h')")
        case None
        then show ?thesis
          unfolding push feed using len' by (simp add: skip_position content_def uplink_inv_def)
      next
        case (Some i)
        from position_Some [OF this] have i: "i < 10" "tl h' ! i = UPLINK_HEADER" using len' by auto
        have d: "drop (Suc i) h' = drop i (tl h')" by (simp add: drop_Suc)
        have "hd (drop i (tl h')) = UPLINK_HEADER" using i len' by (simp add: hd_drop_conv_nth)
        then show ?thesis
          unfolding push feed using Some len' i d
          by (auto simp: skip_position content_def uplink_inv_def copy_into_def)
      qed
    qed
  qed
  then show "fst (push_uplink u byte) = fst (feed (content u) byte)"
    "content (snd (push_uplink u byte)) = snd (feed (content u) byte)"
    "uplink_inv (snd (push_uplink u byte))" by blast+
qed

text \<open>Feeding the bytes one by one is scanning the whole string.\<close>

lemma scan_skip: "scan (skip bs) = scan bs"
  by (subst (1 2) scan.simps) simp

lemma scan_skip_append: "scan (skip xs @ ys) = scan (xs @ ys)"
proof (induction xs)
  case (Cons x xs)
  show ?case
  proof (cases "x = UPLINK_HEADER")
    case False
    then have "scan ((x # xs) @ ys) = scan (skip (xs @ ys))" by (subst scan_skip [symmetric]) simp
    with False Cons show ?thesis by (simp add: scan_skip)
  qed simp
qed simp

lemma feed_scan:
  assumes c: "c = [] \<or> hd c = UPLINK_HEADER" "length c < 11"
  shows "scan (c @ byte # bs) =
    (case feed c byte of (out, c') \<Rightarrow> case scan (c' @ bs) of (rs, rest) \<Rightarrow>
       ((case out of None \<Rightarrow> rs | Some r \<Rightarrow> r # rs), rest))"
proof -
  define h where "h = skip (c @ [byte])"
  have start: "scan (c @ byte # bs) = scan (h @ bs)"
    using scan_skip_append [of "c @ [byte]" bs] by (simp add: h_def)
  show ?thesis
  proof (cases "length h < 11")
    case True
    then show ?thesis unfolding start by (simp add: feed_def Let_def flip: h_def)
  next
    case False
    have "length h \<le> length (c @ [byte])" unfolding h_def by (rule length_skip_le)
    with False c(2) have len: "length h = 11" by simp
    then have "h \<noteq> []" by auto
    then have "hd h = UPLINK_HEADER" using hd_skip [of "c @ [byte]"] by (simp add: h_def)
    with len have sk: "skip (h @ bs) = h @ bs" by (cases h) auto
    have tl: "tl (h @ bs) = tl h @ bs" using len by (cases h) auto
    have "scan (h @ bs) = (let (rs, rest) = scan (if is_ok (decode_uplink h) then bs else tl h @ bs)
        in (decode_uplink h # rs, rest))"
      using len by (subst scan.simps) (simp add: sk tl Let_def)
    then show ?thesis
      unfolding start feed_def using len scan_skip_append [of "tl h" bs]
      by (simp add: Let_def flip: h_def)
  qed
qed

fun push_all :: "uplink_frame_buffer \<Rightarrow> bytes \<Rightarrow> (uplink_decode_error + uplink_command) list \<times> uplink_frame_buffer" where
  "push_all u [] = ([], u)"
| "push_all u (byte # bs) = (case push_uplink u byte of (out, u) \<Rightarrow> case push_all u bs of (rs, u) \<Rightarrow>
     ((case out of None \<Rightarrow> rs | Some r \<Rightarrow> r # rs), u))"

lemma push_all_scan:
  "uplink_inv u \<Longrightarrow> fst (push_all u bs) = fst (scan (content u @ bs)) \<and>
     content (snd (push_all u bs)) = snd (scan (content u @ bs)) \<and> uplink_inv (snd (push_all u bs))"
proof (induction bs arbitrary: u)
  case Nil
  then have "skip (content u) = content u" "length (content u) < 11"
    by (cases "content u", auto simp: uplink_inv_def content_def)
  with Nil show ?case by (simp add: scan.simps [of "content u"])
next
  case (Cons byte bs)
  note step = push_uplink_feed [OF Cons.prems, of byte]
  have "scan (content u @ byte # bs) = (case feed (content u) byte of (out, c') \<Rightarrow>
      case scan (c' @ bs) of (rs, rest) \<Rightarrow> ((case out of None \<Rightarrow> rs | Some r \<Rightarrow> r # rs), rest))"
    by (rule feed_scan) (use Cons.prems in \<open>auto simp: uplink_inv_def content_def\<close>)
  with Cons.IH [OF step(3)] step show ?case
    by (auto simp: case_prod_beta split: option.split)
qed

lemma new_uplink_inv: "uplink_inv new_uplink_buffer" "content new_uplink_buffer = []"
  by (simp_all add: uplink_inv_def content_def new_uplink_buffer_def UPLINK_FRAME_LENGTH_def)

text \<open>
  C1. The frame buffer implements the scanner: for every byte string received, in any pieces,
  the results it has reported are those of scanning the whole string for headers, restarting
  behind a good frame and one byte after the header of a bad one, and it holds exactly the
  unfinished frame. It never overruns its eleven bytes.
\<close>

theorem uplink_refines_scan:
  "fst (push_all new_uplink_buffer bs) = fst (scan bs) \<and>
   content (snd (push_all new_uplink_buffer bs)) = snd (scan bs) \<and>
   uplink_inv (snd (push_all new_uplink_buffer bs))"
  using push_all_scan [OF new_uplink_inv(1), of bs] by (simp add: new_uplink_inv)

lemma scan_frame:
  assumes "valid_uplink c"
  shows "scan (uplink_wire c @ bs) = (let (rs, rest) = scan bs in (Inr c # rs, rest))"
proof -
  have "skip (uplink_wire c @ bs) = uplink_wire c @ bs"
    using hd_uplink_wire [of c] by (cases "uplink_wire c") auto
  then show ?thesis
    using length_uplink_wire [OF assms] decode_uplink_wire [OF assms]
    by (subst scan.simps) (simp add: Let_def)
qed

lemma scan_noise:
  assumes "valid_uplink c"
  shows "\<forall>i < length g. \<not> is_ok (decode_uplink (take 11 (drop i (g @ uplink_wire c)))) \<Longrightarrow>
    \<exists>errs. list_all (\<lambda>r. \<not> is_ok r) errs \<and> scan (g @ uplink_wire c) = (errs @ [Inr c], [])"
proof (induction g)
  case Nil
  have "scan [] = ([], [])" by (simp add: scan.simps)
  then show ?case using scan_frame [OF assms, of "[]"] by (intro exI [of _ "[]"]) simp
next
  case (Cons b g)
  have "\<forall>i < length g. \<not> is_ok (decode_uplink (take 11 (drop i (g @ uplink_wire c))))"
    using Cons.prems by auto
  from Cons.IH [OF this] obtain errs where
    errs: "list_all (\<lambda>r. \<not> is_ok r) errs" "scan (g @ uplink_wire c) = (errs @ [Inr c], [])" by blast
  show ?case
  proof (cases "b = UPLINK_HEADER")
    case True
    let ?r = "decode_uplink (take 11 (b # g @ uplink_wire c))"
    have "\<not> is_ok ?r" using Cons.prems by (force dest: spec [of _ 0])
    moreover have "scan ((b # g) @ uplink_wire c) = (?r # errs @ [Inr c], [])"
      using True calculation errs(2) length_uplink_wire [OF assms]
      by (subst scan.simps) (simp add: Let_def)
    ultimately show ?thesis using errs(1) by (intro exI [of _ "?r # errs"]) simp
  next
    case False
    then have "scan ((b # g) @ uplink_wire c) = scan (g @ uplink_wire c)"
      using scan_skip [of "(b # g) @ uplink_wire c"] scan_skip [of "g @ uplink_wire c"] by simp
    with errs show ?thesis by auto
  qed
qed

text \<open>
  C13. A command survives noise: whatever bytes precede its frame, and whatever the buffer has to
  discard for them, the frame is decoded as soon as its last byte arrives, provided no eleven
  bytes that start in the noise happen to be a good frame themselves.
\<close>

theorem uplink_resynchronises:
  assumes "valid_uplink c"
    and "\<forall>i < length noise. \<not> is_ok (decode_uplink (take 11 (drop i (noise @ uplink_wire c))))"
  shows "last (fst (push_all new_uplink_buffer (noise @ uplink_wire c))) = Inr c \<and>
    list_all (\<lambda>r. \<not> is_ok r) (butlast (fst (push_all new_uplink_buffer (noise @ uplink_wire c)))) \<and>
    content (snd (push_all new_uplink_buffer (noise @ uplink_wire c))) = []"
proof -
  from scan_noise [OF assms] obtain errs where
    "list_all (\<lambda>r. \<not> is_ok r) errs" "scan (noise @ uplink_wire c) = (errs @ [Inr c], [])" by blast
  then show ?thesis
    using push_all_scan [OF new_uplink_inv(1), of "noise @ uplink_wire c"] by (simp add: new_uplink_inv)
qed

text \<open>Two headers and a torn frame before an emergency command.\<close>

lemma uplink_resynchronises_witness:
  "last (fst (push_all new_uplink_buffer ([0x55, 0x55, 1, 9] @ uplink_wire (UpActuatorEmergency 9))))
     = Inr (UpActuatorEmergency 9)"
proof -
  have "valid_uplink (UpActuatorEmergency 9)"
    "\<forall>i < length [0x55, 0x55, 1, 9 :: u8]. \<not> is_ok (decode_uplink
       (take 11 (drop i ([0x55, 0x55, 1, 9] @ uplink_wire (UpActuatorEmergency 9)))))"
    by code_simp+
  from uplink_resynchronises [OF this] show ?thesis by blast
qed

end
