(* ===== verification/GnssTime.thy ===== *)
theory GnssTime
  imports Prelude
begin

section \<open>Time from the satellite receiver (src/gnss/time.rs)\<close>

text \<open>
  \<open>parse_rmc_datetime\<close> reads an NMEA RMC sentence and gives Unix time. The calendar arithmetic
  of the source runs in \<open>u8\<close> .. \<open>u64\<close> on values bounded by the checks before it (a two-digit
  year, month, day, hour, minute and second), so it is modelled with natural numbers; the
  checked operations and the conversion to \<open>u32\<close> are written out. Bytes are ASCII codes. The
  UTF-8 check before a number is parsed has no branch of its own: a byte that is not ASCII is
  no digit, and both failures give the same error.
\<close>

record gnss_date_time =
  gdt_unix_seconds :: u32
  gdt_milliseconds :: u16

datatype gnss_time_parse_error =
  InvalidStart | MissingField | InvalidChecksum | InvalidTalker | ParseError | OutOfRange

text \<open>Rust's \<open>from_str_radix\<close> of an unsigned type: an optional plus sign and at least one digit.\<close>

definition digit_value :: "nat \<Rightarrow> u8 \<Rightarrow> nat option" where
  "digit_value radix b =
     (let n = unat b;
          d = (if 48 \<le> n \<and> n \<le> 57 then n - 48
               else if 97 \<le> n \<and> n \<le> 122 then n - 87
               else if 65 \<le> n \<and> n \<le> 90 then n - 55
               else 36)
      in if d < radix then Some d else None)"

fun parse_digits :: "nat \<Rightarrow> nat \<Rightarrow> nat \<Rightarrow> bytes \<Rightarrow> nat option" where
  "parse_digits radix maximum acc [] = Some acc"
| "parse_digits radix maximum acc (b # bs) =
     (case digit_value radix b of
        None \<Rightarrow> None
      | Some d \<Rightarrow> if acc * radix + d \<le> maximum then parse_digits radix maximum (acc * radix + d) bs else None)"

definition from_str_radix :: "nat \<Rightarrow> nat \<Rightarrow> bytes \<Rightarrow> nat option" where
  "from_str_radix radix maximum field =
     (case field of
        [] \<Rightarrow> None
      | b # bs \<Rightarrow>
          let digits = (if b = 0x2b then bs else field)
          in if digits = [] then None else parse_digits radix maximum 0 digits)"

definition verify_checksum :: "bytes \<Rightarrow> gnss_time_parse_error + nat" where
  "verify_checksum sentence =
     (if sentence = [] \<or> hd sentence \<noteq> 0x24 then Inl InvalidStart
      else and_then (ok_or (position (\<lambda>v. v = 0x2a) sentence) MissingField) (\<lambda>star.
        if length sentence < star + 3 then Inl ParseError
        else and_then (ok_or (from_str_radix 16 255 (slice sentence (star + 1) (star + 3))) ParseError) (\<lambda>expected.
          if unat (xor_checksum (slice sentence 1 star)) \<noteq> expected then Inl InvalidChecksum
          else Inr star)))"

definition parse_u8 :: "bytes \<Rightarrow> gnss_time_parse_error + nat" where
  "parse_u8 field = ok_or (from_str_radix 10 255 field) ParseError"

definition is_ascii_digit :: "u8 \<Rightarrow> bool" where
  "is_ascii_digit b \<longleftrightarrow> 0x30 \<le> b \<and> b \<le> 0x39"

definition fraction_value :: "bytes \<Rightarrow> nat" where
  "fraction_value fraction = fold (\<lambda>index v.
     let v = v * 10
     in if index < length fraction then v + (unat (fraction ! index) - 0x30) else v) [0..<3] 0"

definition parse_time :: "bytes \<Rightarrow> gnss_time_parse_error + (nat \<times> nat \<times> nat \<times> nat)" where
  "parse_time field =
     (if length field < 6 then Inl ParseError
      else and_then (parse_u8 (slice field 0 2)) (\<lambda>hour.
           and_then (parse_u8 (slice field 2 4)) (\<lambda>minute.
           and_then (parse_u8 (slice field 4 6)) (\<lambda>second.
             if 24 \<le> hour \<or> 60 \<le> minute \<or> 60 < second then Inl OutOfRange
             else
               and_then
                 (if length field = 6 then Inr 0
                  else if field ! 6 \<noteq> 0x2e then Inl ParseError
                  else let fraction = drop 7 field
                    in if fraction = [] \<or> list_ex (\<lambda>digit. \<not> is_ascii_digit digit) fraction
                       then Inl ParseError else Inr (fraction_value fraction))
                 (\<lambda>milliseconds. Inr (hour, minute, second, milliseconds))))))"

definition leap_year :: "nat \<Rightarrow> bool" where
  "leap_year year \<longleftrightarrow> year mod 4 = 0 \<and> (year mod 100 \<noteq> 0 \<or> year mod 400 = 0)"

definition days_in_month :: "nat \<Rightarrow> nat \<Rightarrow> nat option" where
  "days_in_month year month =
     (if month \<in> {1, 3, 5, 7, 8, 10, 12} then Some 31
      else if month \<in> {4, 6, 9, 11} then Some 30
      else if month = 2 then Some (if leap_year year then 29 else 28)
      else None)"

definition parse_date :: "bytes \<Rightarrow> gnss_time_parse_error + (nat \<times> nat \<times> nat)" where
  "parse_date field =
     (if length field \<noteq> 6 then Inl ParseError
      else and_then (parse_u8 (slice field 0 2)) (\<lambda>day.
           and_then (parse_u8 (slice field 2 4)) (\<lambda>month.
           and_then (parse_u8 (slice field 4 6)) (\<lambda>short_year.
             let year = (if 80 \<le> short_year then 1900 + short_year else 2000 + short_year)
             in and_then (ok_or (days_in_month year month) OutOfRange) (\<lambda>maximum_day.
                  if day = 0 \<or> maximum_day < day then Inl OutOfRange
                  else Inr (year, month, day))))))"

definition days_before_year :: "nat \<Rightarrow> nat" where
  "days_before_year year =
     (let before = year - 1 in 365 * before + before div 4 - before div 100 + before div 400)"

text \<open>The loop over the months before \<open>month\<close>, from 1.\<close>

definition days_before_month :: "nat \<Rightarrow> nat \<Rightarrow> nat" where
  "days_before_month year month =
     fold (\<lambda>current days. days + (case days_in_month year current of None \<Rightarrow> 0 | Some n \<Rightarrow> n)) [1..<month] 0"

definition to_unix_seconds ::
  "nat \<Rightarrow> nat \<Rightarrow> nat \<Rightarrow> nat \<Rightarrow> nat \<Rightarrow> nat \<Rightarrow> gnss_time_parse_error + u32" where
  "to_unix_seconds year month day hour minute second =
     (if year < 1970 then Inl OutOfRange
      else
        let days = days_before_year year - days_before_year 1970 + days_before_month year month + (day - 1);
            leap_second_carry = (if second = 60 then 1 else 0);
            normal_second = min second 59;
            limit = 2 ^ 64;
            checked = (\<lambda>n. if n < limit then Some n else None :: nat option)
        in and_then
             (ok_or (Option.bind (checked (days * 86400)) (\<lambda>v.
                     Option.bind (checked (v + hour * 3600)) (\<lambda>v.
                     Option.bind (checked (v + minute * 60)) (\<lambda>v.
                     checked (v + (normal_second + leap_second_carry)))))) OutOfRange)
             (\<lambda>seconds. if seconds < 2 ^ 32 then Inr (of_nat seconds) else Inl OutOfRange))"

text \<open>Nine \<open>next\<close> calls after the talker; time is the first and date the ninth of them.\<close>

definition parse_rmc_datetime :: "bytes \<Rightarrow> gnss_time_parse_error + gnss_date_time" where
  "parse_rmc_datetime sentence =
     and_then (verify_checksum sentence) (\<lambda>star.
       let fs = split_on 0x2c (slice sentence 1 star);
           talker = hd fs
       in if length talker < 5 \<or> drop (length talker - 3) talker \<noteq> [0x52, 0x4d, 0x43] then Inl InvalidTalker
          else if length fs < 10 then Inl MissingField
          else
            and_then (parse_time (fs ! 1)) (\<lambda>(hour, minute, second, milliseconds).
            and_then (parse_date (fs ! 9)) (\<lambda>(year, month, day).
            and_then (to_unix_seconds year month day hour minute second) (\<lambda>seconds.
              Inr \<lparr>gdt_unix_seconds = seconds, gdt_milliseconds = of_nat milliseconds\<rparr>))))"

subsection \<open>The calendar\<close>

text \<open>
  The Gregorian calendar as its successor function, with the lengths of the months written down
  here: nothing of it is taken from the program.
\<close>

type_synonym date = "nat \<times> nat \<times> nat"

definition month_length :: "nat \<Rightarrow> nat \<Rightarrow> nat" where
  "month_length y m =
     [31, if 400 dvd y \<or> 4 dvd y \<and> \<not> 100 dvd y then 29 else 28, 31, 30, 31, 30, 31, 31, 30, 31, 30, 31] ! (m - 1)"

fun next_day :: "date \<Rightarrow> date" where
  "next_day (y, m, d) =
     (if d < month_length y m then (y, m, d + 1)
      else if m < 12 then (y, m + 1, 1) else (y + 1, 1, 1))"

definition valid_date :: "nat \<Rightarrow> nat \<Rightarrow> nat \<Rightarrow> bool" where
  "valid_date y m d \<longleftrightarrow> 1970 \<le> y \<and> 1 \<le> m \<and> m \<le> 12 \<and> 1 \<le> d \<and> d \<le> month_length y m"

lemma month_cases: "1 \<le> m \<Longrightarrow> m \<le> 12 \<Longrightarrow> m \<in> {1, 2, 3, 4, 5, 6, 7, 8, 9, 10, 11, 12 :: nat}"
  by simp presburger

text \<open>The table of the program agrees with it.\<close>

lemma days_in_month_calendar:
  "days_in_month y m = (if 1 \<le> m \<and> m \<le> 12 then Some (month_length y m) else None)"
proof (cases "1 \<le> m \<and> m \<le> 12")
  case True
  have "100 dvd y \<Longrightarrow> 4 dvd y" "400 dvd y \<Longrightarrow> 4 dvd y" by (rule dvd_trans; simp)+
  then show ?thesis using month_cases [of m] True
    by (auto simp: days_in_month_def month_length_def leap_year_def mod_eq_0_iff_dvd)
qed (auto simp: days_in_month_def)

lemma month_length_bounds: "1 \<le> m \<Longrightarrow> m \<le> 12 \<Longrightarrow> 28 \<le> month_length y m \<and> month_length y m \<le> 31"
  using month_cases [of m] by (auto simp: month_length_def)

definition day_number :: "nat \<Rightarrow> nat \<Rightarrow> nat \<Rightarrow> nat" where
  "day_number y m d = days_before_year y - days_before_year 1970 + days_before_month y m + (d - 1)"

definition year_length :: "nat \<Rightarrow> nat" where
  "year_length y = (if leap_year y then 366 else 365)"

lemma leap_year_arith:
  fixes z a b c i j k :: nat
  assumes "b \<le> z" "(i, j, k) \<in> {(0, 0, 0), (1, 0, 0), (1, 1, 0), (1, 1, 1)}"
  shows "365 * Suc z + (a + i) - (b + j) + (c + k) =
    (365 * z + a - b + c) + (if i = 1 \<and> (j = 0 \<or> k = 1) then 366 else 365)"
  using assms by auto

lemma days_before_year_Suc:
  assumes "1 \<le> y"
  shows "days_before_year (Suc y) = days_before_year y + year_length y"
proof -
  obtain z where y: "y = Suc z" using assms by (cases y) auto
  define i j k :: nat where "i = (if Suc z mod 4 = 0 then 1 else 0)"
    and "j = (if Suc z mod 100 = 0 then 1 else 0)" and "k = (if Suc z mod 400 = 0 then 1 else 0)"
  have s: "Suc z div 4 = z div 4 + i" "Suc z div 100 = z div 100 + j" "Suc z div 400 = z div 400 + k"
    by (simp_all add: div_Suc i_def j_def k_def)
  have "400 dvd Suc z \<Longrightarrow> 100 dvd Suc z" "100 dvd Suc z \<Longrightarrow> 4 dvd Suc z"
    by (rule dvd_trans, simp_all)+
  then have ijk: "(i, j, k) \<in> {(0, 0, 0), (1, 0, 0), (1, 1, 0), (1, 1, 1)}"
    by (auto simp: i_def j_def k_def mod_eq_0_iff_dvd)
  have yl: "year_length (Suc z) = (if i = 1 \<and> (j = 0 \<or> k = 1) then 366 else 365)"
    by (simp add: year_length_def leap_year_def i_def j_def k_def)
  show ?thesis
    using leap_year_arith [of "z div 100" z i j k "z div 4" "z div 400", OF div_le_dividend ijk]
    unfolding y days_before_year_def Let_def diff_Suc_1 s yl .
qed

lemma days_before_month_Suc:
  "1 \<le> m \<Longrightarrow> m \<le> 12 \<Longrightarrow> days_before_month y (Suc m) = days_before_month y m + month_length y m"
  by (simp add: days_before_month_def days_in_month_calendar)

lemma days_before_month_1 [simp]: "days_before_month y (Suc 0) = 0"
  by (simp add: days_before_month_def)

lemma days_before_month_13: "days_before_month y 12 + month_length y 12 = year_length y"
  by (simp add: days_before_month_def upt_rec days_in_month_def year_length_def month_length_def)

lemma days_before_year_mono: "1 \<le> y \<Longrightarrow> days_before_year y \<le> days_before_year (y + k)"
  by (induction k) (simp_all add: days_before_year_Suc)

text \<open>Every date after the epoch has a predecessor, one day number less.\<close>

lemma date_predecessor:
  assumes v: "valid_date y m d" and ne: "(y, m, d) \<noteq> (1970, 1, 1)"
  obtains y' m' d' where "valid_date y' m' d'" "next_day (y', m', d') = (y, m, d)"
    "day_number y m d = Suc (day_number y' m' d')"
proof -
  have len: "28 \<le> month_length y m" if "1 \<le> m" "m \<le> 12" for y m
    using month_length_bounds [OF that] by simp
  consider "1 < d" | "d = 1" "1 < m" | "d = 1" "m = 1" "1970 < y"
    using v ne by (fastforce simp: valid_date_def)
  then show ?thesis
  proof cases
    case 1
    then show ?thesis
      using v by (intro that [of y m "d - 1"]) (auto simp: valid_date_def day_number_def)
  next
    case 2
    obtain m' where m: "m = Suc m'" "1 \<le> m'" using 2 by (cases m) auto
    then show ?thesis
      using v 2 len [of m' y] days_before_month_Suc [of m' y]
      by (intro that [of y m' "month_length y m'"]) (auto simp: valid_date_def day_number_def)
  next
    case 3
    obtain z where y: "y = Suc z" "1970 \<le> z" using 3 by (cases y) auto
    have "days_before_year 1970 \<le> days_before_year z"
      using days_before_year_mono [of 1970 "z - 1970"] y(2) by simp
    then show ?thesis
      using v 3 y len [of 12 z] days_before_year_Suc [of z] days_before_month_13 [of z]
      by (intro that [of z 12 "month_length z 12"]) (auto simp: valid_date_def day_number_def)
  qed
qed

lemma day_number_counts:
  "valid_date y m d \<Longrightarrow> (next_day ^^ day_number y m d) (1970, 1, 1) = (y, m, d)"
proof (induction "day_number y m d" arbitrary: y m d rule: less_induct)
  case less
  show ?case
  proof (cases "(y, m, d) = (1970, 1, 1)")
    case True
    then show ?thesis by (simp add: day_number_def)
  next
    case False
    from date_predecessor [OF less.prems this] obtain y' m' d' where
      p: "valid_date y' m' d'" "next_day (y', m', d') = (y, m, d)"
      "day_number y m d = Suc (day_number y' m' d')" by metis
    with less.hyps [of y' m' d'] show ?thesis by simp
  qed
qed


lemma days_before_month_le: "m \<le> 12 \<Longrightarrow> days_before_month y m \<le> 31 * m"
proof (induction m)
  case (Suc m)
  with days_before_month_Suc [of m y] month_length_bounds [of m y] show ?case by (cases "m = 0") simp_all
qed (simp add: days_before_month_def)

lemma day_number_bound: "valid_date y m d \<Longrightarrow> y < 65536 \<Longrightarrow> day_number y m d \<le> 100000000"
proof -
  assume v: "valid_date y m d" "y < 65536"
  have "days_before_year y \<le> 367 * y"
  proof -
    have "(y - 1) div 4 \<le> y" "(y - 1) div 400 \<le> y" by (meson div_le_dividend diff_le_self le_trans)+
    then show ?thesis unfolding days_before_year_def Let_def by linarith
  qed
  moreover have "d \<le> 31" using v month_length_bounds [of m y] by (simp add: valid_date_def)
  moreover have "days_before_month y m \<le> 31 * 12" using v days_before_month_le [of m y] by (simp add: valid_date_def)
  ultimately show ?thesis using v(2) unfolding day_number_def by linarith
qed

text \<open>
  C19. Unix time is exact: for every date of the Gregorian calendar from 1970 on and every time
  of day (second 60 for a leap second), if \<open>n\<close> is the day number then counting \<open>n\<close> days on from
  1970-01-01 gives that date, and the result is \<open>86400 n + 3600 h + 60 m + s\<close>; it is refused
  exactly when it does not fit in 32 bits.
\<close>

theorem unix_seconds_exact:
  assumes "valid_date y m d" "hour < 24" "minute < 60" "second \<le> 60" "y < 65536"
  shows "\<exists>n. (next_day ^^ n) (1970, 1, 1) = (y, m, d) \<and>
    (let t = 86400 * n + 3600 * hour + 60 * minute + second
     in to_unix_seconds y m d hour minute second = (if t < 2 ^ 32 then Inr (of_nat t) else Inl OutOfRange))"
proof (intro exI conjI)
  show "(next_day ^^ day_number y m d) (1970, 1, 1) = (y, m, d)" by (rule day_number_counts [OF assms(1)])
  have s: "min second 59 + (if second = 60 then 1 else 0) = second" using assms(4) by auto
  have y: "\<not> y < 1970" using assms(1) by (simp add: valid_date_def)
  have bound: "day_number y m d \<le> 100000000" by (rule day_number_bound [OF assms(1,5)])
  then show "let t = 86400 * day_number y m d + 3600 * hour + 60 * minute + second
     in to_unix_seconds y m d hour minute second = (if t < 2 ^ 32 then Inr (of_nat t) else Inl OutOfRange)"
    unfolding to_unix_seconds_def Let_def day_number_def [symmetric] s
    using assms(2-4) y by (simp add: algebra_simps)
qed

subsection \<open>Sentences\<close>

text \<open>A printer for RMC sentences, to state what the parser accepts.\<close>

definition ascii_digit :: "nat \<Rightarrow> u8" where "ascii_digit n = of_nat (48 + n)"
definition digits2 :: "nat \<Rightarrow> bytes" where "digits2 n = [ascii_digit (n div 10), ascii_digit (n mod 10)]"
definition hex_digit :: "nat \<Rightarrow> u8" where "hex_digit n = of_nat (if n < 10 then 48 + n else 55 + n)"
definition hex2 :: "nat \<Rightarrow> bytes" where "hex2 n = [hex_digit (n div 16), hex_digit (n mod 16)]"

fun join_fields :: "bytes list \<Rightarrow> bytes" where
  "join_fields [] = []"
| "join_fields [f] = f"
| "join_fields (f # fs) = f @ 0x2c # join_fields fs"

text \<open>
  A time with any number of decimals, none included; the program keeps three of them, and takes
  missing ones as zeros.
\<close>

definition time_field :: "nat \<Rightarrow> nat \<Rightarrow> nat \<Rightarrow> nat list \<Rightarrow> bytes" where
  "time_field hour minute second decimals =
     digits2 hour @ digits2 minute @ digits2 second @
     (if decimals = [] then [] else 0x2e # map ascii_digit decimals)"

definition milliseconds_of :: "nat list \<Rightarrow> nat" where
  "milliseconds_of decimals = (case decimals @ [0, 0, 0] of a # b # c # _ \<Rightarrow> 100 * a + 10 * b + c)"

definition date_field :: "nat \<Rightarrow> nat \<Rightarrow> nat \<Rightarrow> bytes" where
  "date_field y m d = digits2 d @ digits2 m @ digits2 (y mod 100)"

definition sentence_of :: "bytes list \<Rightarrow> bytes \<Rightarrow> bytes" where
  "sentence_of fs line_end =
     0x24 # join_fields fs @ 0x2a # hex2 (unat (xor_checksum (join_fields fs))) @ line_end"

text \<open>A field holds neither a comma nor a star.\<close>

definition plain :: "bytes \<Rightarrow> bool" where
  "plain f \<longleftrightarrow> list_all (\<lambda>b. b \<noteq> 0x2c \<and> b \<noteq> 0x2a) f"

lemma plainD: "plain f \<Longrightarrow> 0x2c \<notin> set f" "plain f \<Longrightarrow> 0x2a \<notin> set f"
  by (auto simp: plain_def list_all_iff)

lemma less10_cases: "n < 10 \<Longrightarrow> n \<in> {0, 1, 2, 3, 4, 5, 6, 7, 8, 9 :: nat}"
  by auto

lemma less16_cases: "n < 16 \<Longrightarrow> n \<in> {0, 1, 2, 3, 4, 5, 6, 7, 8, 9, 10, 11, 12, 13, 14, 15 :: nat}"
  by simp presburger

lemma ascii_digit_props:
  assumes "n < 10"
  shows "digit_value 10 (ascii_digit n) = Some n" "ascii_digit n \<noteq> 0x2b" "ascii_digit n \<noteq> 0x2c"
    "ascii_digit n \<noteq> 0x2a" "is_ascii_digit (ascii_digit n)" "unat (ascii_digit n) = 48 + n"
  using less10_cases [OF assms] by (auto simp: digit_value_def ascii_digit_def is_ascii_digit_def)

lemma hex_digit_props:
  assumes "n < 16"
  shows "digit_value 16 (hex_digit n) = Some n" "hex_digit n \<noteq> 0x2b"
  using less16_cases [OF assms] by (auto simp: digit_value_def hex_digit_def)

lemma parse_u8_digits2: "n < 100 \<Longrightarrow> parse_u8 (digits2 n) = Inr n"
proof -
  assume "n < 100"
  then have "n div 10 < 10" "n div 10 * 10 \<le> 255" "n \<le> 255" "n div 10 \<le> 255" by auto
  then show ?thesis
    by (simp add: parse_u8_def digits2_def from_str_radix_def ascii_digit_props)
qed

lemma from_str_radix_hex2: "n < 256 \<Longrightarrow> from_str_radix 16 255 (hex2 n) = Some n"
proof -
  assume "n < 256"
  then have "n div 16 < 16" "n \<le> 255" "n div 16 \<le> 255" by auto
  then show ?thesis by (simp add: hex2_def from_str_radix_def hex_digit_props)
qed

lemma split_join: "fs \<noteq> [] \<Longrightarrow> \<forall>f \<in> set fs. plain f \<Longrightarrow> split_on 0x2c (join_fields fs) = fs"
  by (induction fs rule: join_fields.induct) (auto simp: plainD split_on_plain split_on_append)

lemma star_not_in_join: "\<forall>f \<in> set fs. plain f \<Longrightarrow> 0x2a \<notin> set (join_fields fs)"
  by (induction fs rule: join_fields.induct) (auto simp: plainD)

lemma position_append: "\<forall>x \<in> set xs. \<not> P x \<Longrightarrow> P y \<Longrightarrow> position P (xs @ y # ys) = Some (length xs)"
  by (induction xs) auto

lemma verify_checksum_sentence:
  assumes "\<forall>f \<in> set fs. plain f"
  shows "verify_checksum (sentence_of fs line_end) = Inr (length (join_fields fs) + 1)"
    "slice (sentence_of fs line_end) 1 (length (join_fields fs) + 1) = join_fields fs"
proof -
  let ?b = "join_fields fs" and ?h = "hex2 (unat (xor_checksum (join_fields fs)))"
  have star: "position (\<lambda>v. v = 0x2a) (sentence_of fs line_end) = Some (length ?b + 1)"
  proof -
    have "\<forall>v \<in> set (0x24 # ?b). \<not> v = 0x2a" using star_not_in_join [OF assms] by auto
    from position_append [OF this refl, of "?h @ line_end"] show ?thesis by (simp add: sentence_of_def)
  qed
  show body: "slice (sentence_of fs line_end) 1 (length ?b + 1) = ?b"
    by (simp add: slice_def sentence_of_def)
  have len: "length ?h = 2" by (simp add: hex2_def)
  have "slice (sentence_of fs line_end) (length ?b + 1 + 1) (length ?b + 1 + 3) = ?h"
    using len by (simp add: slice_def sentence_of_def)
  moreover have "unat (xor_checksum ?b) < 256" using unat_below [of "xor_checksum ?b"] by simp
  ultimately show "verify_checksum (sentence_of fs line_end) = Inr (length ?b + 1)"
    using star body len from_str_radix_hex2
    by (simp add: verify_checksum_def) (simp add: sentence_of_def)
qed

lemma length_digits [simp]: "length (digits2 n) = 2"
  by (simp add: digits2_def)

lemma plain_digits: "n < 100 \<Longrightarrow> plain (digits2 n)"
  by (simp add: plain_def digits2_def ascii_digit_props)

lemma fraction_decimals:
  assumes "\<forall>d \<in> set decimals. d < 10"
  shows "fraction_value (map ascii_digit decimals) = milliseconds_of decimals"
proof -
  consider "decimals = []" | a where "decimals = [a]" | a b where "decimals = [a, b]"
    | a b c rest where "decimals = a # b # c # rest"
    by (metis list.exhaust)
  then show ?thesis using assms
    by cases (simp_all add: fraction_value_def milliseconds_of_def upt_rec ascii_digit_props)
qed

lemma milliseconds_less: "\<forall>d \<in> set decimals. d < 10 \<Longrightarrow> milliseconds_of decimals < 1000"
  by (cases decimals rule: remdups_adj.cases; cases "tl (tl decimals)")
    (auto simp: milliseconds_of_def)

lemma time_field_parts:
  "slice (time_field hour minute second decimals) 0 2 = digits2 hour"
  "slice (time_field hour minute second decimals) 2 4 = digits2 minute"
  "slice (time_field hour minute second decimals) 4 6 = digits2 second"
  "length (time_field hour minute second decimals) = (if decimals = [] then 6 else 7 + length decimals)"
  "decimals \<noteq> [] \<Longrightarrow> drop 7 (time_field hour minute second decimals) = map ascii_digit decimals"
  "decimals \<noteq> [] \<Longrightarrow> time_field hour minute second decimals ! 6 = 0x2e"
  by (simp_all add: time_field_def slice_def digits2_def)

lemma parse_time_field:
  assumes "hour < 24" "minute < 60" "second \<le> 60" "\<forall>d \<in> set decimals. d < 10"
  shows "parse_time (time_field hour minute second decimals) = Inr (hour, minute, second, milliseconds_of decimals)"
proof -
  have d: "\<not> list_ex (\<lambda>digit. \<not> is_ascii_digit digit) (map ascii_digit decimals)"
    using assms(4) by (auto simp: list_ex_iff ascii_digit_props)
  have "milliseconds_of [] = 0" by (simp add: milliseconds_of_def)
  with assms d show ?thesis
    by (cases "decimals = []") (simp_all add: parse_time_def time_field_parts parse_u8_digits2 fraction_decimals)
qed

lemma parse_date_field:
  assumes "valid_date y m d" "1980 \<le> y" "y < 2080"
  shows "parse_date (date_field y m d) = Inr (y, m, d)"
proof -
  have s: "slice (date_field y m d) 0 2 = digits2 d" "slice (date_field y m d) 2 4 = digits2 m"
    "slice (date_field y m d) 4 6 = digits2 (y mod 100)" "length (date_field y m d) = 6"
    by (simp_all add: date_field_def slice_def digits2_def)
  have y: "(if 80 \<le> y mod 100 then 1900 + y mod 100 else 2000 + y mod 100) = y"
  proof (cases "y < 2000")
    case True
    then have "y = (y - 1900) + 19 * 100" using assms(2) by simp
    then have "y mod 100 = (y - 1900) mod 100" by (metis mod_mult_self1)
    with True assms(2) show ?thesis by simp
  next
    case False
    then have "y = (y - 2000) + 20 * 100" by simp
    then have "y mod 100 = (y - 2000) mod 100" by (metis mod_mult_self1)
    with False assms(3) show ?thesis by simp
  qed
  obtain n where n: "days_in_month y m = Some n" "1 \<le> d" "d \<le> n" "n \<le> 31" "m \<le> 12"
    using assms(1) month_length_bounds [of m y] by (auto simp: valid_date_def days_in_month_calendar)
  then show ?thesis
    by (simp add: parse_date_def s parse_u8_digits2 y Let_def)
qed

lemma to_unix_seconds_value:
  assumes "valid_date y m d" "hour < 24" "minute < 60" "second \<le> 60" "y < 65536"
    "86400 * day_number y m d + 3600 * hour + 60 * minute + second < 2 ^ 32"
  shows "to_unix_seconds y m d hour minute second =
    Inr (of_nat (86400 * day_number y m d + 3600 * hour + 60 * minute + second))"
proof -
  have s: "min second 59 + (if second = 60 then 1 else 0) = second" using assms(4) by auto
  have y: "\<not> y < 1970" using assms(1) by (simp add: valid_date_def)
  have bound: "day_number y m d \<le> 100000000" by (rule day_number_bound [OF assms(1,5)])
  then show ?thesis
    unfolding to_unix_seconds_def Let_def day_number_def [symmetric] s
    using assms(2-4,6) y by (simp add: algebra_simps)
qed

lemma days_in_year:
  assumes "1 \<le> m" "m \<le> 12"
  shows "days_before_month y m + month_length y m \<le> year_length y"
proof -
  have "days_before_month y (Suc m) \<le> days_before_month y (Suc m + k)" for k
    by (induction k) (simp_all add: days_before_month_def)
  from this [of "12 - m"] assms have "days_before_month y (Suc m) \<le> days_before_month y (Suc 12)" by simp
  then show ?thesis
    using days_before_month_Suc [of m y] days_before_month_Suc [of 12 y] days_before_month_13 [of y] assms
    by linarith
qed

lemma day_number_range:
  assumes v: "valid_date y m d" and y: "1980 \<le> y" "y < 2080"
  shows "3652 \<le> day_number y m d" "day_number y m d < 40177"
proof -
  have "days_before_year 1980 \<le> days_before_year y"
    using days_before_year_mono [of 1980 "y - 1980"] y by simp
  moreover have "days_before_year (Suc y) \<le> days_before_year 2080"
    using days_before_year_mono [of "Suc y" "2080 - Suc y"] y by simp
  moreover have "days_before_month y m + d \<le> year_length y" "1 \<le> d"
    using v days_in_year [of m y] by (auto simp: valid_date_def)
  moreover have "days_before_year (Suc y) = days_before_year y + year_length y"
    using y by (intro days_before_year_Suc) simp
  moreover have "days_before_year 1970 = 719162" "days_before_year 1980 = 722814" "days_before_year 2080 = 759339"
    by (simp_all add: days_before_year_def)
  ultimately show "3652 \<le> day_number y m d" "day_number y m d < 40177"
    unfolding day_number_def by linarith+
qed

text \<open>
  C20. Every well-formed RMC sentence is understood: for any talker ending in RMC, any contents of
  the fields the program ignores, any further fields and any line end, the sentence that states
  a UTC time, with any number of decimals or none, and a date between 1980 and 2079 is accepted,
  with the exact Unix second, counted in days of the calendar from 1970-01-01, and the
  millisecond, further decimals cut off.
\<close>

theorem rmc_roundtrip:
  assumes "valid_date y m d" "1980 \<le> y" "y < 2080"
    and "hour < 24" "minute < 60" "second \<le> 60" "\<forall>digit \<in> set decimals. digit < 10"
    and "length ignored = 7" "5 \<le> length talker" "drop (length talker - 3) talker = [0x52, 0x4d, 0x43]"
    and "\<forall>f \<in> set (talker # ignored @ extra). plain f"
  shows "\<exists>n. (next_day ^^ n) (1970, 1, 1) = (y, m, d) \<and> parse_rmc_datetime
      (sentence_of (talker # time_field hour minute second decimals # ignored @ date_field y m d # extra) line_end) =
    Inr \<lparr>gdt_unix_seconds = of_nat (86400 * n + 3600 * hour + 60 * minute + second),
         gdt_milliseconds = of_nat (milliseconds_of decimals)\<rparr>"
proof (intro exI conjI)
  show "(next_day ^^ day_number y m d) (1970, 1, 1) = (y, m, d)" by (rule day_number_counts [OF assms(1)])
  let ?fs = "talker # time_field hour minute second decimals # ignored @ date_field y m d # extra"
  have "d < 100" "m < 100" using assms(1) month_length_bounds [of m y] by (auto simp: valid_date_def)
  then have "plain (date_field y m d)" using plain_digits by (auto simp: date_field_def plain_def)
  moreover have "plain (digits2 hour)" "plain (digits2 minute)" "plain (digits2 second)" "plain (map ascii_digit decimals)"
    using assms(4-7) by (simp_all add: plain_digits) (auto simp: plain_def list_all_iff ascii_digit_props)
  then have "plain (time_field hour minute second decimals)" by (auto simp: time_field_def plain_def)
  ultimately have "plain (date_field y m d)" "plain (time_field hour minute second decimals)" by blast+
  then have pl: "\<forall>f \<in> set ?fs. plain f" using assms(11) by auto
  have "?fs ! 9 = date_field y m d" using assms(8) by (simp add: nth_append)
  moreover have "86400 * day_number y m d + 3600 * hour + 60 * minute + second < 2 ^ 32"
    using day_number_range [OF assms(1-3)] assms(4-6) by simp
  ultimately show "parse_rmc_datetime (sentence_of ?fs line_end) =
    Inr \<lparr>gdt_unix_seconds = of_nat (86400 * day_number y m d + 3600 * hour + 60 * minute + second),
         gdt_milliseconds = of_nat (milliseconds_of decimals)\<rparr>"
    using assms verify_checksum_sentence [OF pl, of line_end] split_join [OF _ pl]
      parse_time_field [OF assms(4-7)] parse_date_field [OF assms(1-3)]
      to_unix_seconds_value [OF assms(1,4-6)]
    by (simp add: parse_rmc_datetime_def Let_def)
qed

lemma parse_digits_two:
  "parse_digits 10 maximum acc bs = Some n \<Longrightarrow> n < (acc + 1) * 10 ^ length bs"
proof (induction bs arbitrary: acc)
  case (Cons b bs)
  then obtain d where d: "d < 10" "parse_digits 10 maximum (acc * 10 + d) bs = Some n"
    by (auto simp: digit_value_def Let_def split: option.splits if_splits)
  have "(acc * 10 + d + 1) * 10 ^ length bs \<le> ((acc + 1) * 10) * 10 ^ length bs"
    using d(1) by (intro mult_le_mono1) simp
  moreover have "(acc + 1) * 10 * 10 ^ length bs = (acc + 1) * 10 ^ length (b # bs)" by (simp add: algebra_simps)
  ultimately show ?case using Cons.IH [OF d(2)] by linarith
qed simp

lemma parse_u8_two: "parse_u8 bs = Inr n \<Longrightarrow> length bs = 2 \<Longrightarrow> n < 100"
proof -
  assume p: "parse_u8 bs = Inr n" and l: "length bs = 2"
  then obtain ds where ds: "parse_digits 10 255 0 ds = Some n" "length ds \<le> 2"
    by (auto simp: parse_u8_def from_str_radix_def Let_def split: list.splits if_splits)
  have "n < 10 ^ length ds" using parse_digits_two [OF ds(1)] by simp
  also have "\<dots> \<le> 10 ^ 2" using ds(2) by (intro power_increasing) auto
  finally show ?thesis by simp
qed

lemma fraction_value_less: "list_all is_ascii_digit bs \<Longrightarrow> fraction_value bs < 1000"
proof -
  assume d: "list_all is_ascii_digit bs"
  have u: "unat b - 48 \<le> 9" if "is_ascii_digit b" for b
    using that by (auto simp: is_ascii_digit_def word_le_nat_alt)
  have n: "unat (bs ! i) - 48 \<le> 9" if "i < length bs" for i
    using d that u by (auto simp: list_all_length)
  have "0 < length bs \<Longrightarrow> unat (bs ! 0) - 48 \<le> 9" "Suc 0 < length bs \<Longrightarrow> unat (bs ! Suc 0) - 48 \<le> 9"
    "Suc (Suc 0) < length bs \<Longrightarrow> unat (bs ! Suc (Suc 0)) - 48 \<le> 9"
    using n by simp_all
  then show ?thesis
    by (auto simp: fraction_value_def upt_rec Let_def)
qed

lemma parse_time_range:
  "parse_time field = Inr (hour, minute, second, ms) \<Longrightarrow> hour < 24 \<and> minute < 60 \<and> second \<le> 60 \<and> ms < 1000"
  by (auto simp: parse_time_def Let_def not_le list_ex_iff list_all_iff
      intro!: fraction_value_less split: if_splits)

lemma parse_date_range:
  assumes "parse_date field = Inr (y, m, d)"
  shows "valid_date y m d \<and> 1980 \<le> y \<and> y < 2080"
proof -
  from assms obtain short where
    l: "length field = 6" and s: "parse_u8 (slice field 4 6) = Inr short"
    and y: "y = (if 80 \<le> short then 1900 + short else 2000 + short)"
    and md: "\<exists>n. days_in_month y m = Some n \<and> d \<le> n" "d \<noteq> 0"
    by (auto simp: parse_date_def Let_def not_le split: if_splits)
  have "short < 100" using parse_u8_two [OF s] l by simp
  with y have "1980 \<le> y" "y < 2080" by auto
  with md show ?thesis
    by (auto simp: valid_date_def days_in_month_calendar split: if_splits)
qed

text \<open>
  Nothing out of range gets past the parser: an accepted sentence starts with a dollar sign
  and has the checksum it claims, its time lies between 1980-01-01 and the end of 2079, and the
  millisecond is below 1000.
\<close>

theorem rmc_accepts_only:
  "case parse_rmc_datetime sentence of
      Inl _ \<Rightarrow> True
    | Inr t \<Rightarrow> hd sentence = 0x24 \<and>
        (\<exists>star. sentence ! star = 0x2a \<and> star + 3 \<le> length sentence \<and>
           from_str_radix 16 255 (slice sentence (star + 1) (star + 3)) =
             Some (unat (xor_checksum (slice sentence 1 star)))) \<and>
        315532800 \<le> unat (gdt_unix_seconds t) \<and> unat (gdt_unix_seconds t) \<le> 3471292800 \<and>
        unat (gdt_milliseconds t) < 1000"
proof (cases "parse_rmc_datetime sentence")
  case (Inr t)
  then obtain star fs hour minute second ms y m d secs where
    star: "verify_checksum sentence = Inr star"
    and time: "parse_time (fs ! 1) = Inr (hour, minute, second, ms)"
    and date: "parse_date (fs ! 9) = Inr (y, m, d)"
    and secs: "to_unix_seconds y m d hour minute second = Inr secs"
    and t: "t = \<lparr>gdt_unix_seconds = secs, gdt_milliseconds = of_nat ms\<rparr>"
    by (auto simp: parse_rmc_datetime_def Let_def split: if_splits)
  note tr = parse_time_range [OF time] and dr = parse_date_range [OF date]
  have n: "3652 \<le> day_number y m d" "day_number y m d < 40177"
    using day_number_range dr by auto
  then have "86400 * day_number y m d + 3600 * hour + 60 * minute + second \<le> 3471292800" (is "?s \<le> _")
    using tr by linarith
  moreover have "315532800 \<le> ?s" using n by linarith
  moreover have "secs = of_nat ?s"
    using to_unix_seconds_value [of y m d hour minute second] secs dr tr calculation by simp
  moreover have "unat (of_nat n :: u32) = n" if "n \<le> 3471292800" for n
    using that by (simp add: unat_of_nat)
  ultimately have "unat secs = ?s" by blast
  moreover have "hd sentence = 0x24 \<and> sentence ! star = 0x2a \<and> star + 3 \<le> length sentence \<and>
      from_str_radix 16 255 (slice sentence (star + 1) (star + 3)) = Some (unat (xor_checksum (slice sentence 1 star)))"
    using star by (auto simp: verify_checksum_def dest!: position_Some split: if_splits)
  moreover have "unat (of_nat ms :: u16) < 1000" using tr by (simp add: unat_of_nat)
  ultimately show ?thesis
    using \<open>?s \<le> 3471292800\<close> \<open>315532800 \<le> ?s\<close> Inr t by auto
qed simp

subsection \<open>Concrete sentences\<close>

lemma unix_seconds_exact_witness:
  "\<exists>n. (next_day ^^ n) (1970, 1, 1) = (2024, 2, 29) \<and> to_unix_seconds 2024 2 29 23 59 60 = Inr (of_nat (86400 * n + 86400))"
proof -
  have "valid_date 2024 2 29" by (simp add: valid_date_def month_length_def)
  from unix_seconds_exact [OF this, of 23 59 60] obtain n where
    n: "(next_day ^^ n) (1970, 1, 1) = (2024, 2, 29)"
    "to_unix_seconds 2024 2 29 23 59 60 =
       (if 86400 * n + 86400 < 2 ^ 32 then Inr (of_nat (86400 * n + 86400)) else Inl OutOfRange)"
    by (auto simp: Let_def)
  moreover have "is_ok (to_unix_seconds 2024 2 29 23 59 60)"
    by (simp add: to_unix_seconds_def days_before_year_def days_before_month_def days_in_month_def
        leap_year_def upt_rec)
  ultimately show ?thesis by (auto split: if_splits)
qed

lemma rmc_roundtrip_witness:
  "\<exists>n. (next_day ^^ n) (1970, 1, 1) = (1994, 3, 23) \<and> parse_rmc_datetime
     (sentence_of ([0x47, 0x50, 0x52, 0x4d, 0x43] # time_field 12 35 19 [2, 5] # [[0x41], [], [], [], [], [], []]
        @ date_field 1994 3 23 # []) [0x0d, 0x0a]) =
   Inr \<lparr>gdt_unix_seconds = of_nat (86400 * n + 45319), gdt_milliseconds = 250\<rparr>"
proof -
  have "valid_date 1994 3 23" by (simp add: valid_date_def month_length_def)
  from rmc_roundtrip [OF this, of 12 35 19 "[2, 5]" "[[0x41], [], [], [], [], [], []]"
      "[0x47, 0x50, 0x52, 0x4d, 0x43]" "[]" "[0x0d, 0x0a]"] show ?thesis
    by (simp add: plain_def milliseconds_of_def) (simp add: add.commute)
qed

text \<open>Rust's number parser takes a leading plus sign, so a malformed date field is accepted.\<close>

lemma date_accepts_plus_sign: "parse_date [0x2b, 0x31, 0x2b, 0x32, 0x2b, 0x33] = Inr (2003, 2, 1)"
  by (simp add: parse_date_def parse_u8_def slice_def from_str_radix_def digit_value_def days_in_month_def
      leap_year_def)

end
