(* ===== verification/Channels.thy ===== *)
theory Channels
  imports Prelude
begin

section \<open>Bounded channels between tasks\<close>

text \<open>
  The tasks of the board talk through \<open>embassy_sync::channel::Channel\<close>, a library outside the
  repository. Its operations are a parameter of the model, the record \<open>channel_ops\<close> over a type
  of queue states that no definition looks into; what the code relies on is the locale
  \<open>fifo_channel\<close>, the documented contract of a bounded first-in first-out channel with
  non-blocking \<open>try_send\<close> and \<open>try_receive\<close>. The lemmas of the locale say what a task observes
  over several operations. \<open>list_channel\<close> is a queue that meets the contract; the witnesses of
  the theorems about tasks run on it.
\<close>

named_theorems channel "what channel operations do to the contents of a queue"

text \<open>\<open>try_send\<close> gives whether the value was taken, \<open>try_receive\<close> the oldest value if any.\<close>

record ('e, 'q) channel_ops =
  try_send :: "'e \<Rightarrow> 'q \<Rightarrow> bool \<times> 'q"
  try_receive :: "'q \<Rightarrow> 'e option \<times> 'q"
  is_full :: "'q \<Rightarrow> bool"

locale fifo_channel =
  fixes ops :: "('e, 'q) channel_ops" and contents :: "'q \<Rightarrow> 'e list" and capacity :: "'q \<Rightarrow> nat"
  assumes send_taken: "fst (try_send ops e q) \<longleftrightarrow> length (contents q) < capacity q"
    and send_contents: "contents (snd (try_send ops e q)) =
          (if length (contents q) < capacity q then contents q @ [e] else contents q)"
    and send_capacity: "capacity (snd (try_send ops e q)) = capacity q"
    and receive_item: "fst (try_receive ops q) = (case contents q of [] \<Rightarrow> None | e # _ \<Rightarrow> Some e)"
    and receive_contents: "contents (snd (try_receive ops q)) = tl (contents q)"
    and receive_capacity: "capacity (snd (try_receive ops q)) = capacity q"
    and full_iff: "is_full ops q \<longleftrightarrow> capacity q \<le> length (contents q)"
begin

lemmas laws = send_taken send_contents send_capacity receive_item receive_contents receive_capacity
  full_iff

lemma receive_empty_iff: "fst (try_receive ops q) = None \<longleftrightarrow> contents q = []"
  by (simp add: receive_item split: list.splits)

lemma send_when_not_full: "\<not> is_full ops q \<Longrightarrow> fst (try_send ops e q)"
  by (simp add: laws)

text \<open>Sending a whole list keeps what fits, in order; the rest is refused.\<close>

fun send_all :: "'e list \<Rightarrow> 'q \<Rightarrow> 'q" where
  "send_all [] q = q"
| "send_all (e # es) q = send_all es (snd (try_send ops e q))"

lemma contents_send_all:
  "length (contents q) \<le> capacity q \<Longrightarrow>
   contents (send_all es q) = contents q @ take (capacity q - length (contents q)) es"
proof (induction es arbitrary: q)
  case (Cons e es)
  show ?case
  proof (cases "length (contents q) < capacity q")
    case True
    then have "capacity q - length (contents q) = Suc (capacity q - Suc (length (contents q)))" by simp
    with True Cons.IH [of "snd (try_send ops e q)"] show ?thesis by (simp add: laws)
  next
    case False
    with Cons.prems Cons.IH [of "snd (try_send ops e q)"] show ?thesis by (simp add: laws)
  qed
qed simp

text \<open>A queue that makes room by dropping its oldest element always takes the newest.\<close>

definition replace_oldest :: "'e \<Rightarrow> 'q \<Rightarrow> 'q" where
  "replace_oldest e q = snd (try_send ops e (if is_full ops q then snd (try_receive ops q) else q))"

lemma replace_oldest_contents:
  assumes "length (contents q) \<le> capacity q" "0 < capacity q"
  shows "contents (replace_oldest e q) = drop (length (contents q) + 1 - capacity q) (contents q @ [e])"
    "capacity (replace_oldest e q) = capacity q"
proof -
  show "capacity (replace_oldest e q) = capacity q" by (simp add: replace_oldest_def laws)
  show "contents (replace_oldest e q) = drop (length (contents q) + 1 - capacity q) (contents q @ [e])"
  proof (cases "is_full ops q")
    case True
    then have eq: "length (contents q) = capacity q" using assms by (simp add: laws)
    with assms have "contents q \<noteq> []" by auto
    with True eq assms show ?thesis
      by (simp add: replace_oldest_def laws drop_Suc drop_Suc_Cons tl_append2)
  next
    case False
    then show ?thesis using assms by (simp add: replace_oldest_def laws)
  qed
qed

end

definition list_channel :: "('e, nat \<times> 'e list) channel_ops" where
  "list_channel = \<lparr>
     try_send = (\<lambda>e q. if length (snd q) < fst q then (True, fst q, snd q @ [e]) else (False, q)),
     try_receive = (\<lambda>q. case snd q of [] \<Rightarrow> (None, q) | e # es \<Rightarrow> (Some e, fst q, es)),
     is_full = (\<lambda>q. fst q \<le> length (snd q))\<rparr>"

lemma list_channel_fifo: "fifo_channel list_channel snd fst"
  by unfold_locales (auto simp: list_channel_def split: list.splits)

interpretation list_queue: fifo_channel list_channel snd fst
  by (rule list_channel_fifo)

end
