(* ===== verification/Board.thy ===== *)
theory Board
  imports Channels Cache Command Recovery Scheduler Uplink
begin

section \<open>The state the tasks share (src/state.rs)\<close>

text \<open>
  Every \<open>static\<close> of src/state.rs that the modelled tasks touch is a field of \<open>board\<close>: a
  \<open>Mutex\<close> or an atomic is its value, a \<open>Channel\<close> a queue state of a type of its own parameter,
  a \<open>Signal\<close> the number of \<open>signal(())\<close> calls made so far. The counters are the atomic 32-bit
  counters, incremented by \<open>fetch_add(1)\<close>, which wraps. \<open>board_ops\<close> holds the channel
  operations of each element type.
\<close>

datatype gnss_command = GnssTurnOn | GnssTurnOff

datatype gnss_receiver_state =
  GnssOff | GnssStarting | GnssReceiverDetected | GnssConfigurationFailed | GnssReceiverError
| GnssNoFix | GnssValidFix | GnssInvalidSample | GnssStale

record gnss_telemetry =
  gt_state :: gnss_receiver_state
  gt_east :: u16
  gt_north :: u16
  gt_height :: u16
  gt_last_receiver_at_ms :: "u64 option"
  gt_last_fix_at_ms :: "u64 option"
  gt_started_at_ms :: "u64 option"

definition new_gnss_telemetry :: gnss_telemetry where
  "new_gnss_telemetry = \<lparr>gt_state = GnssOff, gt_east = 0x8000, gt_north = 0x8000, gt_height = 496,
     gt_last_receiver_at_ms = None, gt_last_fix_at_ms = None, gt_started_at_ms = None\<rparr>"

record can_tx_request =
  ctr_message :: can_tx_message

record raw_can_record =
  raw_received_at_ms :: u64
  raw_identifier :: u16
  raw_data_length :: u8
  raw_data :: bytes

record counters =
  raw_can_log_dropped_count :: u32
  can_tx_success_count :: u32
  can_rx_success_count :: u32
  can_tx_error_count :: u32
  can_rx_error_count :: u32
  lora_tx_queue_drop_count :: u32
  lora_emergency_result_drop_count :: u32
  lora_ground_time_request_drop_count :: u32
  lora_ground_time_request_duplicate_count :: u32

definition zero_counters :: counters where
  "zero_counters = \<lparr>raw_can_log_dropped_count = 0, can_tx_success_count = 0,
     can_rx_success_count = 0, can_tx_error_count = 0, can_rx_error_count = 0,
     lora_tx_queue_drop_count = 0, lora_emergency_result_drop_count = 0,
     lora_ground_time_request_drop_count = 0, lora_ground_time_request_duplicate_count = 0\<rparr>"

record device_health =
  dh_sequence :: u8
  dh_icm42688_state :: u8
  dh_as5047d_state :: u8
  dh_lps25hb_state :: u8
  dh_ssc_state :: u8
  dh_sd_state :: u8

record ('l, 'c, 'r, 'g) board =
  bd_cache :: can_cache
  bd_tracker :: transaction_tracker
  bd_session :: recovery_session
  bd_assembler :: recovery_assembler
  bd_recovery_beacon_active :: bool
  bd_recovery_enter_sent :: bool
  bd_mission_status_invalid_at_ms :: u32
  bd_gnss_commands :: 'g
  bd_emergency_results :: 'l
  bd_command_results :: 'l
  bd_ground_time_requests :: 'l
  bd_recovery_chunks :: 'l
  bd_control_roll_signals :: nat
  bd_raw_can_log :: 'r
  bd_can_tx :: 'c
  bd_can_safety_tx :: 'c
  bd_logging_requested :: bool
  bd_sd_flush_signals :: nat
  bd_is_can_error :: bool
  bd_can_tec :: u8
  bd_can_rec :: u8
  bd_can_health :: u8
  bd_can_fallback_health :: u8
  bd_counters :: counters
  bd_device_health :: device_health

record ('l, 'c, 'r, 'g) board_ops =
  lora_ops :: "(lora_tx_envelope, 'l) channel_ops"
  can_tx_ops :: "(can_tx_request, 'c) channel_ops"
  raw_ops :: "(raw_can_record, 'r) channel_ops"
  gnss_ops :: "(gnss_command, 'g) channel_ops"

text \<open>The statics as they are initialised; the empty queues are an argument.\<close>

definition initial_board :: "'l \<Rightarrow> 'l \<Rightarrow> 'l \<Rightarrow> 'l \<Rightarrow> 'c \<Rightarrow> 'c \<Rightarrow> 'r \<Rightarrow> 'g \<Rightarrow> ('l, 'c, 'r, 'g) board" where
  "initial_board emergency_q result_q ground_time_q recovery_q can_q safety_q raw_q gnss_q =
     \<lparr>bd_cache = new_cache, bd_tracker = new_tracker, bd_session = new_session,
      bd_assembler = new_assembler, bd_recovery_beacon_active = False,
      bd_recovery_enter_sent = False, bd_mission_status_invalid_at_ms = 0,
      bd_gnss_commands = gnss_q, bd_emergency_results = emergency_q,
      bd_command_results = result_q, bd_ground_time_requests = ground_time_q,
      bd_recovery_chunks = recovery_q, bd_control_roll_signals = 0, bd_raw_can_log = raw_q,
      bd_can_tx = can_q, bd_can_safety_tx = safety_q, bd_logging_requested = False,
      bd_sd_flush_signals = 0, bd_is_can_error = True, bd_can_tec = 0, bd_can_rec = 0,
      bd_can_health = 0, bd_can_fallback_health = 0, bd_counters = zero_counters,
      bd_device_health = \<lparr>dh_sequence = 0, dh_icm42688_state = 0, dh_as5047d_state = 0,
        dh_lps25hb_state = 0, dh_ssc_state = 0, dh_sd_state = 0\<rparr>\<rparr>"

text \<open>\<open>COUNTER.fetch_add(1, Relaxed)\<close>, the counter given by its record update.\<close>

definition count :: "((u32 \<Rightarrow> u32) \<Rightarrow> counters \<Rightarrow> counters) \<Rightarrow>
    ('l, 'c, 'r, 'g) board \<Rightarrow> ('l, 'c, 'r, 'g) board" where
  [simp]: "count counter b = b\<lparr>bd_counters := counter (\<lambda>n. n + 1) (bd_counters b)\<rparr>"

definition signal_control_roll :: "('l, 'c, 'r, 'g) board \<Rightarrow> ('l, 'c, 'r, 'g) board" where
  [simp]: "signal_control_roll b = b\<lparr>bd_control_roll_signals := bd_control_roll_signals b + 1\<rparr>"

text \<open>The contract of the four kinds of channels together, for theorems about whole tasks.\<close>

locale board_channels =
  lora: fifo_channel "lora_ops ops" lora_contents lora_capacity +
  can: fifo_channel "can_tx_ops ops" can_contents can_capacity +
  raw: fifo_channel "raw_ops ops" raw_contents raw_capacity +
  gnss: fifo_channel "gnss_ops ops" gnss_contents gnss_capacity
  for ops :: "('l, 'c, 'r, 'g) board_ops" and lora_contents lora_capacity can_contents can_capacity
    raw_contents raw_capacity gnss_contents gnss_capacity

subsection \<open>Board statics on list queues\<close>

type_synonym 'e list_queue = "nat \<times> 'e list"

type_synonym list_board =
  "(lora_tx_envelope list_queue, can_tx_request list_queue, raw_can_record list_queue,
    gnss_command list_queue) board"

definition list_ops :: "(lora_tx_envelope list_queue, can_tx_request list_queue,
    raw_can_record list_queue, gnss_command list_queue) board_ops" where
  "list_ops = \<lparr>lora_ops = list_channel, can_tx_ops = list_channel, raw_ops = list_channel,
     gnss_ops = list_channel\<rparr>"

text \<open>The capacities are the ones declared in src/state.rs.\<close>

definition list_start :: list_board where
  "list_start = initial_board (16, []) (16, []) (8, []) (16, []) (8, []) (8, []) (32, []) (2, [])"

lemma list_ops_simps [simp]:
  "lora_ops list_ops = list_channel" "can_tx_ops list_ops = list_channel"
  "raw_ops list_ops = list_channel" "gnss_ops list_ops = list_channel"
  by (simp_all add: list_ops_def)

lemma list_ops_channels: "board_channels list_ops snd fst snd fst snd fst snd fst"
  by (simp add: board_channels_def list_channel_fifo)

interpretation list_queues: board_channels list_ops snd fst snd fst snd fst snd fst
  by (rule list_ops_channels)

end
