(* ===== verification/CanDriver.thy ===== *)
theory CanDriver
  imports Protocol
begin

section \<open>CAN health and transmission (src/can/health.rs, src/can/tx.rs)\<close>

text \<open>
  The TWAI peripheral driver is outside the repository. Its constructors of identifiers and
  frames are the parameter \<open>can_driver\<close>, the outcome of one bounded transmission is supplied
  as a \<open>twai_outcome\<close>: done, a driver error, or no answer within the time limit.
\<close>

datatype can_health = HealthActive | HealthWarning | HealthPassive | HealthBusOff

fun can_health_code :: "can_health \<Rightarrow> u8" where
  "can_health_code HealthActive = 0"
| "can_health_code HealthWarning = 1"
| "can_health_code HealthPassive = 2"
| "can_health_code HealthBusOff = 3"

definition CAN_ERROR_WARNING_THRESHOLD :: u8 where "CAN_ERROR_WARNING_THRESHOLD = 96"
definition CAN_ERROR_PASSIVE_THRESHOLD :: u8 where "CAN_ERROR_PASSIVE_THRESHOLD = 128"

definition classify_can_health :: "u8 \<Rightarrow> u8 \<Rightarrow> bool \<Rightarrow> can_health" where
  "classify_can_health tec rec bus_off =
     (if bus_off then HealthBusOff
      else let n = max tec rec
           in if CAN_ERROR_PASSIVE_THRESHOLD \<le> n then HealthPassive
              else if CAN_ERROR_WARNING_THRESHOLD \<le> n then HealthWarning
              else HealthActive)"

datatype can_identifier = StandardId u16 | ExtendedId u32

record twai_frame =
  fr_id :: can_identifier
  fr_data :: bytes

datatype twai_error = TwaiBusOff | TwaiOtherError

datatype twai_outcome = TwaiDone | TwaiError twai_error | TwaiTimedOut

record can_driver =
  standard_id_new :: "u16 \<Rightarrow> can_identifier option"
  frame_new :: "can_identifier \<Rightarrow> bytes \<Rightarrow> twai_frame option"

datatype can_frame_error = InvalidId u16 | InvalidPayloadLength nat | InvalidPayload can_encode_error

datatype can_tx_error = FrameCreateFailed | TransmitFailed | TimedOutUnknownState | TxBusOff

definition create_frame_from_message :: "can_driver \<Rightarrow> can_tx_message \<Rightarrow> can_frame_error + twai_frame" where
  "create_frame_from_message drv msg =
     (case encode_payload msg of
        Inl e \<Rightarrow> Inl (InvalidPayload e)
      | Inr (payload, len) \<Rightarrow>
          and_then (ok_or (standard_id_new drv (can_tx_id msg)) (InvalidId (can_tx_id msg))) (\<lambda>ident.
            ok_or (frame_new drv ident (take len payload)) (InvalidPayloadLength len)))"

fun transmit_frame_with_timeout :: "twai_outcome \<Rightarrow> can_tx_error + unit" where
  "transmit_frame_with_timeout TwaiDone = Inr ()"
| "transmit_frame_with_timeout (TwaiError TwaiBusOff) = Inl TxBusOff"
| "transmit_frame_with_timeout (TwaiError TwaiOtherError) = Inl TransmitFailed"
| "transmit_frame_with_timeout TwaiTimedOut = Inl TimedOutUnknownState"

definition transmit_message_with_timeout ::
  "can_driver \<Rightarrow> can_tx_message \<Rightarrow> twai_outcome \<Rightarrow> can_tx_error + unit" where
  "transmit_message_with_timeout drv msg outcome =
     (case create_frame_from_message drv msg of
        Inl _ \<Rightarrow> Inl FrameCreateFailed
      | Inr _ \<Rightarrow> transmit_frame_with_timeout outcome)"

text \<open>
  What the driver's constructors promise: an identifier is accepted when it has eleven bits, a
  frame when it carries at most eight bytes, and the frame holds what it was built from.
\<close>

locale twai_constructors =
  fixes drv :: can_driver
  assumes standard_id: "standard_id_new drv w = (if w \<le> 0x7ff then Some (StandardId w) else None)"
    and new_frame: "frame_new drv ident payload =
          (if length payload \<le> 8 then Some \<lparr>fr_id = ident, fr_data = payload\<rparr> else None)"
begin

text \<open>
  Under this contract a message becomes a frame exactly when its payload can be encoded: the
  identifiers of the protocol and the data lengths always fit.
\<close>

lemma tx_id_eleven_bits: "can_tx_id msg \<le> 0x7ff"
  by (cases msg) simp_all

lemma encode_payload_length: "encode_payload msg = Inr (payload, len) \<Longrightarrow> len \<le> 8"
  by (cases msg) (auto simp: encode_payload_def Let_def)

lemma create_frame_iff:
  "create_frame_from_message drv msg = Inr frame \<longleftrightarrow>
     (\<exists>payload len. encode_payload msg = Inr (payload, len) \<and>
        frame = \<lparr>fr_id = StandardId (can_tx_id msg), fr_data = take len payload\<rparr>)"
  by (auto simp: create_frame_from_message_def standard_id new_frame tx_id_eleven_bits
      dest: encode_payload_length split: sum.splits prod.splits)

lemma transmit_message_iff:
  "transmit_message_with_timeout drv msg outcome = Inr () \<longleftrightarrow>
     is_ok (encode_payload msg) \<and> outcome = TwaiDone"
proof (cases "encode_payload msg")
  case (Inr r)
  then obtain frame where "create_frame_from_message drv msg = Inr frame"
    using create_frame_iff [of msg] by (cases r) auto
  with Inr show ?thesis
    by (cases outcome rule: transmit_frame_with_timeout.cases)
      (simp_all add: transmit_message_with_timeout_def)
qed (simp add: transmit_message_with_timeout_def create_frame_from_message_def)

end

definition reference_driver :: can_driver where
  "reference_driver =
     \<lparr>standard_id_new = (\<lambda>w. if w \<le> 0x7ff then Some (StandardId w) else None),
      frame_new = (\<lambda>ident payload.
        if length payload \<le> 8 then Some \<lparr>fr_id = ident, fr_data = payload\<rparr> else None)\<rparr>"

interpretation reference_driver: twai_constructors reference_driver
  by unfold_locales (simp_all add: reference_driver_def)

end
