(* ===== verification/CanTask.thy ===== *)
theory CanTask
  imports Board Payload CanDriver
begin

section \<open>The CAN task (src/tasks/can\_communication.rs)\<close>

text \<open>
  The task owns the CAN controller: it waits for a periodic health tick, a request to transmit
  or a received frame, and updates the shared state. \<open>can_task\<close> is its local state; every
  handler takes the channel operations and the board and returns the new board. The readings of
  the controller, the outcome of each transmission and the time are supplied. While the task
  waits for a transmission other tasks run; their effect on the board is an arbitrary function
  in the script of the transmission. The locks of the mutexes are free whenever the task takes
  them, except where the theory of the two tasks says otherwise.
\<close>

definition FRAME_DEVICE_HEALTH :: u16 where [simp]: "FRAME_DEVICE_HEALTH = 0x10b"
definition DEVICE_STATE_MAX :: u8 where [simp]: "DEVICE_STATE_MAX = 4"
definition LOCAL_EXIT_RECOVERY_COMMAND :: u8 where [simp]: "LOCAL_EXIT_RECOVERY_COMMAND = 0x65"
definition CAN_CONSECUTIVE_ERROR_THRESHOLD :: u8 where [simp]: "CAN_CONSECUTIVE_ERROR_THRESHOLD = 3"

definition decode_device_health :: "bytes \<Rightarrow> bytes option" where
  "decode_device_health data =
     (if length data \<noteq> 6 \<or> list_ex (\<lambda>state. DEVICE_STATE_MAX < state) (drop 1 data) then None
      else Some [data ! 0, data ! 1, data ! 2, data ! 3, data ! 4, data ! 5])"

definition cache_device_health :: "bytes \<Rightarrow> ('l, 'c, 'r, 'g) board \<Rightarrow> ('l, 'c, 'r, 'g) board" where
  "cache_device_health health b = b\<lparr>bd_device_health :=
     \<lparr>dh_sequence = health ! 0, dh_icm42688_state = health ! 1, dh_as5047d_state = health ! 2,
      dh_lps25hb_state = health ! 3, dh_ssc_state = health ! 4, dh_sd_state = health ! 5\<rparr>\<rparr>"

datatype can_runtime_state = AwaitingTraffic | RuntimeNormal | BusRecovering | TxStateUnknown

datatype can_runtime_event = TransmitSucceeded | ReceiveSucceeded | EventBusOff | EventTimedOut

definition OBSERVED_CAN_IDS :: "u16 list" where
  "OBSERVED_CAN_IDS = [0x011, 0x012, 0x020, 0x100, 0x101, 0x102, 0x103, 0x104, 0x105, 0x106, 0x107,
     0x108, 0x109, 0x10a]"

record can_observed_stats =
  obs_counts :: "u32 list"
  obs_sequence_gaps :: "u32 list"
  obs_last_sequences :: "u8 option list"

definition new_observed_stats :: can_observed_stats where
  "new_observed_stats =
     \<lparr>obs_counts = replicate 14 0, obs_sequence_gaps = replicate 14 0,
      obs_last_sequences = replicate 14 None\<rparr>"

definition observe :: "u16 \<Rightarrow> bytes \<Rightarrow> can_observed_stats \<Rightarrow> can_observed_stats" where
  "observe identifier data s =
     (case position (\<lambda>w. w = identifier) OBSERVED_CAN_IDS of
        None \<Rightarrow> s
      | Some index \<Rightarrow>
          let s = s\<lparr>obs_counts := (obs_counts s)[index := saturating_add (obs_counts s ! index) 1]\<rparr>
          in (case observed_sequence identifier data of
                None \<Rightarrow> s
              | Some sequence \<Rightarrow>
                  let s = (if sequence_gap (obs_last_sequences s ! index) sequence
                           then s\<lparr>obs_sequence_gaps := (obs_sequence_gaps s)
                                    [index := saturating_add (obs_sequence_gaps s ! index) 1]\<rparr>
                           else s)
                  in s\<lparr>obs_last_sequences := (obs_last_sequences s)[index := Some sequence]\<rparr>))"

fun transition_runtime :: "can_runtime_state \<Rightarrow> can_runtime_event \<Rightarrow> can_runtime_state \<times> bool" where
  "transition_runtime AwaitingTraffic TransmitSucceeded = (RuntimeNormal, False)"
| "transition_runtime AwaitingTraffic ReceiveSucceeded = (RuntimeNormal, False)"
| "transition_runtime AwaitingTraffic EventBusOff = (BusRecovering, True)"
| "transition_runtime RuntimeNormal EventBusOff = (BusRecovering, True)"
| "transition_runtime AwaitingTraffic EventTimedOut = (TxStateUnknown, True)"
| "transition_runtime RuntimeNormal EventTimedOut = (TxStateUnknown, True)"
| "transition_runtime TxStateUnknown EventBusOff = (BusRecovering, False)"
| "transition_runtime BusRecovering EventTimedOut = (TxStateUnknown, False)"
| "transition_runtime BusRecovering TransmitSucceeded = (RuntimeNormal, False)"
| "transition_runtime TxStateUnknown TransmitSucceeded = (RuntimeNormal, False)"
| "transition_runtime BusRecovering ReceiveSucceeded = (RuntimeNormal, False)"
| "transition_runtime state _ = (state, False)"

text \<open>The variables of the task; \<open>ct_restarts\<close> counts the calls of \<open>can.stop().start()\<close>.\<close>

record can_task =
  ct_runtime_state :: can_runtime_state
  ct_consecutive_tx_errors :: u8
  ct_consecutive_rx_errors :: u8
  ct_observed :: can_observed_stats
  ct_health_ticks :: u8
  ct_previous_time_request_id :: "u8 option"
  ct_restarts :: nat

definition enter_recovering :: "can_runtime_event \<Rightarrow> can_task \<Rightarrow> can_task" where
  "enter_recovering event t =
     (case transition_runtime (ct_runtime_state t) event of (next_state, restart_required) \<Rightarrow>
        (if restart_required then t\<lparr>ct_restarts := ct_restarts t + 1\<rparr> else t)
          \<lparr>ct_runtime_state := next_state\<rparr>)"

text \<open>One reading of the error counters and the bus-off flag of the controller.\<close>

record can_reading =
  rd_tec :: u8
  rd_rec :: u8
  rd_bus_off :: bool

definition publish_health :: "can_reading \<Rightarrow> ('l, 'c, 'r, 'g) board \<Rightarrow> can_health \<times> ('l, 'c, 'r, 'g) board" where
  "publish_health r b =
     (let health = classify_can_health (rd_tec r) (rd_rec r) (rd_bus_off r)
      in (health, b\<lparr>bd_can_tec := rd_tec r, bd_can_rec := rd_rec r,
                    bd_can_health := can_health_code health\<rparr>))"

fun fallback_health_code :: "can_runtime_state \<Rightarrow> can_health \<Rightarrow> u8" where
  "fallback_health_code BusRecovering _ = 5"
| "fallback_health_code TxStateUnknown _ = 6"
| "fallback_health_code _ HealthActive = 1"
| "fallback_health_code _ HealthWarning = 2"
| "fallback_health_code _ HealthPassive = 3"
| "fallback_health_code _ HealthBusOff = 4"

definition publish_fallback_health ::
  "can_runtime_state \<Rightarrow> can_health \<Rightarrow> ('l, 'c, 'r, 'g) board \<Rightarrow> ('l, 'c, 'r, 'g) board" where
  "publish_fallback_health state health b =
     b\<lparr>bd_can_fallback_health := fallback_health_code state health\<rparr>"

definition publish_error_state ::
  "can_runtime_state \<Rightarrow> can_health \<Rightarrow> u8 \<Rightarrow> u8 \<Rightarrow> bool \<Rightarrow> ('l, 'c, 'r, 'g) board \<Rightarrow> ('l, 'c, 'r, 'g) board" where
  "publish_error_state state health consecutive_tx_errors consecutive_rx_errors mission_status_fresh b =
     b\<lparr>bd_is_can_error :=
          state \<noteq> RuntimeNormal \<or> health \<noteq> HealthActive
          \<or> CAN_CONSECUTIVE_ERROR_THRESHOLD \<le> consecutive_tx_errors
          \<or> CAN_CONSECUTIVE_ERROR_THRESHOLD \<le> consecutive_rx_errors
          \<or> \<not> mission_status_fresh\<rparr>"

subsection \<open>Queues to the radio\<close>

definition packet_of_result :: "command_result \<Rightarrow> command_result_packet" where
  "packet_of_result result =
     \<lparr>crp_transaction_id = cr_transaction_id result, crp_command = cr_command result,
      crp_phase = cr_phase result, crp_reason = cr_reason result, crp_detail = cr_detail result\<rparr>"

definition queue_command_result ::
  "('l, 'c, 'r, 'g) board_ops \<Rightarrow> command_result_packet \<Rightarrow> ('l, 'c, 'r, 'g) board \<Rightarrow> ('l, 'c, 'r, 'g) board" where
  "queue_command_result ops packet b =
     (case encode (PCommandResult packet) of
        Inl _ \<Rightarrow> b
      | Inr frame \<Rightarrow>
          (case try_send (lora_ops ops) (queued_envelope frame SrcCommandResult) (bd_command_results b) of
             (sent, q) \<Rightarrow>
               let b = b\<lparr>bd_command_results := q\<rparr>
               in if sent then b else count lora_tx_queue_drop_count_update b))"

definition queue_ground_time_request ::
  "('l, 'c, 'r, 'g) board_ops \<Rightarrow> u8 \<Rightarrow> u8 option \<Rightarrow> ('l, 'c, 'r, 'g) board \<Rightarrow>
   u8 option \<times> ('l, 'c, 'r, 'g) board" where
  "queue_ground_time_request ops request_id previous_request_id b =
     (let action = ground_time_queue_action previous_request_id request_id
                     (is_full (lora_ops ops) (bd_ground_time_requests b))
      in if action = IgnoreDuplicate
         then (previous_request_id, count lora_ground_time_request_duplicate_count_update b)
         else (case encode (PGroundTimeRequest request_id) of
             Inl _ \<Rightarrow> (previous_request_id, b)
           | Inr frame \<Rightarrow>
               let b = (if action = ReplaceOldest
                        then (case try_receive (lora_ops ops) (bd_ground_time_requests b) of
                            (dropped, q) \<Rightarrow>
                              let b = b\<lparr>bd_ground_time_requests := q\<rparr>
                              in if dropped \<noteq> None
                                 then count lora_ground_time_request_drop_count_update
                                        (count lora_tx_queue_drop_count_update b)
                                 else b)
                        else b)
               in (case try_send (lora_ops ops) (queued_envelope frame SrcGroundTimeRequest)
                          (bd_ground_time_requests b) of
                     (sent, q) \<Rightarrow>
                       let b = b\<lparr>bd_ground_time_requests := q\<rparr>
                       in if sent then (Some request_id, b)
                          else (previous_request_id,
                                count lora_ground_time_request_drop_count_update
                                  (count lora_tx_queue_drop_count_update b)))))"

definition queue_emergency_result ::
  "('l, 'c, 'r, 'g) board_ops \<Rightarrow> command_result \<Rightarrow> ('l, 'c, 'r, 'g) board \<Rightarrow> ('l, 'c, 'r, 'g) board" where
  "queue_emergency_result ops result b =
     (case encode (PCommandResult (packet_of_result result)) of
        Inl _ \<Rightarrow> b
      | Inr frame \<Rightarrow>
          (case try_send (lora_ops ops) (queued_envelope frame SrcEmergencyResult) (bd_emergency_results b) of
             (sent, q) \<Rightarrow>
               let b = b\<lparr>bd_emergency_results := q\<rparr>
               in if sent then b
                  else count lora_emergency_result_drop_count_update
                         (count lora_tx_queue_drop_count_update b)))"

definition queue_recovery_chunk ::
  "('l, 'c, 'r, 'g) board_ops \<Rightarrow> recovery_chunk \<Rightarrow> ('l, 'c, 'r, 'g) board \<Rightarrow>
   bool \<times> ('l, 'c, 'r, 'g) board" where
  "queue_recovery_chunk ops chunk b =
     (let packet = PRecoveryLogData
        \<lparr>rlp_transfer_id = ch_transfer_id chunk,
         rlp_source = (ch_source chunk = MissionSdLatestFlight),
         rlp_end_of_file = ch_end_of_file chunk, rlp_offset = ch_offset chunk,
         rlp_data_length = ch_data_length chunk, rlp_data = ch_data chunk\<rparr>
      in case encode packet of
           Inr frame \<Rightarrow>
             (case try_send (lora_ops ops) (queued_envelope frame SrcRecovery) (bd_recovery_chunks b) of
                (sent, q) \<Rightarrow>
                  let b = b\<lparr>bd_recovery_chunks := q\<rparr>
                  in if sent then (True, b)
                     else (False, count lora_tx_queue_drop_count_update b))
         | Inl _ \<Rightarrow> (False, b))"

definition fail_recovery_transfer ::
  "('l, 'c, 'r, 'g) board_ops \<Rightarrow> command_reason \<Rightarrow> bool \<Rightarrow> ('l, 'c, 'r, 'g) board \<Rightarrow> ('l, 'c, 'r, 'g) board" where
  "fail_recovery_transfer ops reason stop_mission b =
     (case asm_abort (bd_assembler b) of (resume, assembler) \<Rightarrow>
        let b = b\<lparr>bd_assembler := assembler\<rparr>;
            b = (case resume of
                   Some resume \<Rightarrow>
                     if stop_mission
                     then b\<lparr>bd_can_safety_tx := snd (try_send (can_tx_ops ops)
                       \<lparr>ctr_message = TxRecoveryControl
                          \<lparr>rctl_opcode = OpStopLogDump, rctl_source = rsm_source resume,
                           rctl_transfer_id = rsm_transfer_id resume,
                           rctl_offset = rsm_offset resume, rctl_length = 0\<rparr>\<rparr>
                       (bd_can_safety_tx b))\<rparr>
                     else b
                 | None \<Rightarrow> b);
            detail = (case resume of None \<Rightarrow> 0 | Some resume \<Rightarrow> rsm_offset resume)
        in (case session_fail (bd_session b) reason detail of (result, session) \<Rightarrow>
              let b = b\<lparr>bd_session := session\<rparr>
              in (case result of
                    Some result \<Rightarrow> queue_command_result ops (packet_of_result result) b
                  | None \<Rightarrow> b)))"

subsection \<open>Received frames\<close>

definition report_result ::
  "('l, 'c, 'r, 'g) board_ops \<Rightarrow> command_result option \<Rightarrow> ('l, 'c, 'r, 'g) board \<Rightarrow> ('l, 'c, 'r, 'g) board" where
  "report_result ops result b =
     (case result of None \<Rightarrow> b | Some result \<Rightarrow> queue_command_result ops (packet_of_result result) b)"

definition receive_command_result ::
  "('l, 'c, 'r, 'g) board_ops \<Rightarrow> command_result \<Rightarrow> ('l, 'c, 'r, 'g) board \<Rightarrow> ('l, 'c, 'r, 'g) board" where
  "receive_command_result ops result b =
     (case apply_result (bd_tracker b) result of (matched, tracker) \<Rightarrow>
        let b = b\<lparr>bd_tracker := tracker\<rparr>
        in if prioritize_untracked_emergency_result matched (cr_command result)
           then queue_emergency_result ops result b
           else queue_command_result ops (packet_of_result result) b)"

definition apply_session_status ::
  "('l, 'c, 'r, 'g) board_ops \<Rightarrow> recovery_status \<Rightarrow> ('l, 'c, 'r, 'g) board \<Rightarrow> ('l, 'c, 'r, 'g) board" where
  "apply_session_status ops status b =
     (case apply_status (bd_session b) status of (result, session) \<Rightarrow>
        let b = b\<lparr>bd_session := session\<rparr>
        in (case result of
              None \<Rightarrow> b
            | Some result \<Rightarrow>
                let b = (if cr_command result = LOCAL_EXIT_RECOVERY_COMMAND
                            \<and> cr_phase result = Completed \<and> cr_reason result = NoReason
                         then signal_control_roll (b\<lparr>bd_recovery_beacon_active := False\<rparr>)
                         else b)
                in queue_command_result ops (packet_of_result result) b))"

definition receive_recovery_status ::
  "('l, 'c, 'r, 'g) board_ops \<Rightarrow> recovery_status \<Rightarrow> ('l, 'c, 'r, 'g) board \<Rightarrow> ('l, 'c, 'r, 'g) board" where
  "receive_recovery_status ops status b =
     (let b = b\<lparr>bd_assembler := set_total_size (bd_assembler b) (rs_transfer_id status) (rs_total_size status)\<rparr>
      in if rs_status status = RsComplete
         then (case finish (bd_assembler b) (rs_transfer_id status) of (final_chunk, assembler) \<Rightarrow>
                 let b = b\<lparr>bd_assembler := assembler\<rparr>
                 in (case final_chunk of
                       None \<Rightarrow> apply_session_status ops status b
                     | Some chunk \<Rightarrow>
                         (case queue_recovery_chunk ops chunk b of (queued, b) \<Rightarrow>
                            if queued then apply_session_status ops status b
                            else fail_recovery_transfer ops InternalError True b)))
         else apply_session_status ops status b)"

definition receive_recovery_log_data ::
  "('l, 'c, 'r, 'g) board_ops \<Rightarrow> recovery_log_data \<Rightarrow> ('l, 'c, 'r, 'g) board \<Rightarrow> ('l, 'c, 'r, 'g) board" where
  "receive_recovery_log_data ops fragment b =
     (case push (bd_assembler b) fragment of (assembly, assembler) \<Rightarrow>
        let b = b\<lparr>bd_assembler := assembler\<rparr>
        in (case assembly of
              Inr (Some chunk) \<Rightarrow>
                (case queue_recovery_chunk ops chunk b of (queued, b) \<Rightarrow>
                   if queued then b else fail_recovery_transfer ops InternalError True b)
            | Inr None \<Rightarrow> b
            | Inl _ \<Rightarrow> fail_recovery_transfer ops ProtocolErrorReason True b))"

definition signals_control_roll :: "can_rx_message \<Rightarrow> can_cache \<Rightarrow> bool" where
  "signals_control_roll message c =
     (case message of
        RxControlRollV2 current \<Rightarrow>
          roll_flags current AND REFERENCE_CAPTURED_SINCE_PREVIOUS_FRAME \<noteq> 0
          \<or> (case lt_value (cc_control_roll_v2 c) of
               None \<Rightarrow> False
             | Some previous \<Rightarrow> status_signature previous \<noteq> status_signature current)
      | _ \<Rightarrow> False)"

definition apply_received_message ::
  "('l, 'c, 'r, 'g) board_ops \<Rightarrow> can_rx_message \<Rightarrow> u64 \<Rightarrow> u8 option \<Rightarrow> ('l, 'c, 'r, 'g) board \<Rightarrow>
   u8 option \<times> ('l, 'c, 'r, 'g) board" where
  "apply_received_message ops message received_ms previous_time_request_id b =
     (let signal = signals_control_roll message (bd_cache b)
      in case update_cache message received_ms (bd_cache b) of (update, cache) \<Rightarrow>
        let b = b\<lparr>bd_cache := cache\<rparr>;
            b = (if signal then signal_control_roll b else b)
        in (case update of
              UpCommandResult result \<Rightarrow> (previous_time_request_id, receive_command_result ops result b)
            | UpTimeRequest request_id \<Rightarrow>
                queue_ground_time_request ops request_id previous_time_request_id b
            | UpMissionEvent event new_flags \<Rightarrow> (previous_time_request_id, b)
            | UpDuplicateMissionEvent \<Rightarrow> (previous_time_request_id, b)
            | UpRecoveryStatus status \<Rightarrow> (previous_time_request_id, receive_recovery_status ops status b)
            | UpRecoveryLogData fragment \<Rightarrow>
                (previous_time_request_id, receive_recovery_log_data ops fragment b)
            | UpTelemetry \<Rightarrow> (previous_time_request_id, b)))"

definition handle_recovery_mode_command ::
  "bytes \<Rightarrow> ('l, 'c, 'r, 'g) board \<Rightarrow> bool option \<times> ('l, 'c, 'r, 'g) board" where
  "handle_recovery_mode_command data b =
     (if length data \<noteq> 3 \<or> data ! 1 \<noteq> 1 \<or> 3 < data ! 2 then (None, b)
      else let was_active = bd_recovery_beacon_active b
           in (Some (\<not> was_active),
               b\<lparr>bd_recovery_beacon_active := True, bd_recovery_enter_sent := True\<rparr>))"

text \<open>\<open>received_at_ms.min(u32::MAX as u64) as u32\<close>, at least 1.\<close>

definition invalid_status_time :: "u64 \<Rightarrow> u32" where
  "invalid_status_time received_ms = max (ucast (min received_ms 0xffffffff)) 1"

definition log_raw_frame ::
  "('l, 'c, 'r, 'g) board_ops \<Rightarrow> u16 \<Rightarrow> bytes \<Rightarrow> u64 \<Rightarrow> ('l, 'c, 'r, 'g) board \<Rightarrow> ('l, 'c, 'r, 'g) board" where
  "log_raw_frame ops identifier data received_ms b =
     (let raw = \<lparr>raw_received_at_ms = received_ms, raw_identifier = identifier,
                 raw_data_length = of_nat (length data), raw_data = copy_into (replicate 8 0) 0 data\<rparr>
      in case try_send (raw_ops ops) raw (bd_raw_can_log b) of (sent, q) \<Rightarrow>
           let b = b\<lparr>bd_raw_can_log := q\<rparr>
           in if sent then b else count raw_can_log_dropped_count_update b)"

definition handle_received_frame ::
  "('l, 'c, 'r, 'g) board_ops \<Rightarrow> twai_frame \<Rightarrow> u64 \<Rightarrow> u8 option \<Rightarrow> ('l, 'c, 'r, 'g) board \<Rightarrow>
   u8 option \<times> ('l, 'c, 'r, 'g) board" where
  "handle_received_frame ops frame received_ms previous b =
     (case fr_id frame of
        ExtendedId _ \<Rightarrow> (previous, count can_rx_error_count_update b)
      | StandardId identifier \<Rightarrow>
          let b = log_raw_frame ops identifier (fr_data frame) received_ms b
          in if identifier = 0x014
             then (case handle_recovery_mode_command (fr_data frame) b of (entered, b) \<Rightarrow>
                     (previous,
                      case entered of
                        Some True \<Rightarrow>
                          signal_control_roll
                            (b\<lparr>bd_cache := clear_recovery_power_snapshot (bd_cache b)\<rparr>)
                      | Some False \<Rightarrow> b
                      | None \<Rightarrow> count can_rx_error_count_update b))
             else if identifier = FRAME_DEVICE_HEALTH
             then (previous,
                   case decode_device_health (fr_data frame) of
                     Some health \<Rightarrow> cache_device_health health b
                   | None \<Rightarrow> count can_rx_error_count_update b)
             else (case decode_standard identifier (fr_data frame) of
                     Inr message \<Rightarrow>
                       let b = (if identifier = 0x102 then b\<lparr>bd_mission_status_invalid_at_ms := 0\<rparr> else b)
                       in apply_received_message ops message received_ms previous b
                   | Inl _ \<Rightarrow>
                       (previous,
                        count can_rx_error_count_update
                          (if identifier = 0x102
                           then b\<lparr>bd_mission_status_invalid_at_ms := invalid_status_time received_ms\<rparr>
                           else b))))"

subsection \<open>Transmission\<close>

definition transmit_succeeded ::
  "('l, 'c, 'r, 'g) board_ops \<Rightarrow> can_tx_message \<Rightarrow> can_task \<times> ('l, 'c, 'r, 'g) board \<Rightarrow>
   can_task \<times> ('l, 'c, 'r, 'g) board" where
  "transmit_succeeded ops message s =
     (case s of (t, b) \<Rightarrow>
        let b = count can_tx_success_count_update b;
            t = t\<lparr>ct_consecutive_tx_errors := 0,
                  ct_runtime_state := fst (transition_runtime (ct_runtime_state t) TransmitSucceeded)\<rparr>;
            b = (case message of
                   TxGenericCommandRequest generic \<Rightarrow>
                     if req_command generic = 0x01
                     then b\<lparr>bd_logging_requested := True,
                            bd_gnss_commands := snd (try_send (gnss_ops ops) GnssTurnOn (bd_gnss_commands b))\<rparr>
                     else b
                 | _ \<Rightarrow> b)
        in (t, b))"

text \<open>The answer to the ground when a request could not be sent to the Mission board.\<close>

definition report_transmit_failure ::
  "('l, 'c, 'r, 'g) board_ops \<Rightarrow> can_tx_message \<Rightarrow> ('l, 'c, 'r, 'g) board \<Rightarrow> ('l, 'c, 'r, 'g) board" where
  "report_transmit_failure ops message b =
     (case emergency_failure_result message of
        Some result \<Rightarrow> queue_emergency_result ops result b
      | None \<Rightarrow>
          (case message of
             TxGenericCommandRequest generic \<Rightarrow>
               let result = \<lparr>cr_transaction_id = req_transaction_id generic,
                             cr_command = req_command generic, cr_phase = Failed,
                             cr_reason = Timeout, cr_detail = 0\<rparr>
               in (case apply_result (bd_tracker b) result of (matched, tracker) \<Rightarrow>
                     let b = b\<lparr>bd_tracker := tracker\<rparr>
                     in if matched then queue_command_result ops (packet_of_result result) b else b)
           | TxRecoveryControl control \<Rightarrow>
               (case fail_matching (bd_session b) (rctl_transfer_id control) Timeout 0 of
                  (result, session) \<Rightarrow>
                    let b = b\<lparr>bd_session := session\<rparr>
                    in (case result of
                          Some result \<Rightarrow>
                            queue_command_result ops (packet_of_result result)
                              (b\<lparr>bd_assembler := snd (asm_abort (bd_assembler b))\<rparr>)
                        | None \<Rightarrow> b))
           | _ \<Rightarrow> b))"

definition transmit_failed ::
  "('l, 'c, 'r, 'g) board_ops \<Rightarrow> can_tx_message \<Rightarrow> can_tx_error \<Rightarrow> can_task \<times> ('l, 'c, 'r, 'g) board \<Rightarrow>
   can_task \<times> ('l, 'c, 'r, 'g) board" where
  "transmit_failed ops message error s =
     (case s of (t, b) \<Rightarrow>
        let b = count can_tx_error_count_update b;
            t = t\<lparr>ct_consecutive_tx_errors := saturating_add (ct_consecutive_tx_errors t) 1\<rparr>;
            b = report_transmit_failure ops message b;
            t = (if error = TxBusOff \<or> error = TimedOutUnknownState
                 then enter_recovering (if error = TxBusOff then EventBusOff else EventTimedOut) t
                 else t)
        in (t, b))"

text \<open>
  The inner loop: after each transmission the task goes on with the next safety request without
  waiting. The script gives, for each transmission, what the other tasks do to the board while
  it runs and its outcome; a script that is too short leaves the loop unfinished (\<open>None\<close>).
\<close>

type_synonym ('l, 'c, 'r, 'g) tx_script = "((('l, 'c, 'r, 'g) board \<Rightarrow> ('l, 'c, 'r, 'g) board) \<times> twai_outcome) list"

fun transmit_loop ::
  "can_driver \<Rightarrow> ('l, 'c, 'r, 'g) board_ops \<Rightarrow> ('l, 'c, 'r, 'g) tx_script \<Rightarrow> can_tx_request \<Rightarrow>
   can_task \<times> ('l, 'c, 'r, 'g) board \<Rightarrow> (can_task \<times> ('l, 'c, 'r, 'g) board) option" where
  "transmit_loop drv ops [] request s = None"
| "transmit_loop drv ops ((others, outcome) # script) request (t, b) =
     (let message = ctr_message request;
          s = (case transmit_message_with_timeout drv message outcome of
                 Inr _ \<Rightarrow> transmit_succeeded ops message (t, others b)
               | Inl error \<Rightarrow> transmit_failed ops message error (t, others b))
      in case s of (t, b) \<Rightarrow>
           case try_receive (can_tx_ops ops) (bd_can_safety_tx b) of (next_safety, q) \<Rightarrow>
             let b = b\<lparr>bd_can_safety_tx := q\<rparr>
             in (case next_safety of
                   None \<Rightarrow> Some (t, b)
                 | Some request \<Rightarrow> transmit_loop drv ops script request (t, b)))"

text \<open>\<open>select\<close> polls the safety queue first.\<close>

definition receive_request ::
  "('l, 'c, 'r, 'g) board_ops \<Rightarrow> ('l, 'c, 'r, 'g) board \<Rightarrow> can_tx_request option \<times> ('l, 'c, 'r, 'g) board" where
  "receive_request ops b =
     (case try_receive (can_tx_ops ops) (bd_can_safety_tx b) of (safety, q) \<Rightarrow>
        let b = b\<lparr>bd_can_safety_tx := q\<rparr>
        in (case safety of
              Some request \<Rightarrow> (Some request, b)
            | None \<Rightarrow>
                (case try_receive (can_tx_ops ops) (bd_can_tx b) of (request, q) \<Rightarrow>
                   (request, b\<lparr>bd_can_tx := q\<rparr>))))"

subsection \<open>The main loop\<close>

text \<open>What the three-way \<open>select3\<close> of an iteration completes with.\<close>

datatype ('l, 'c, 'r, 'g) wakeup =
  HealthTick can_reading
| RequestReady "('l, 'c, 'r, 'g) tx_script"
| FrameReceived twai_frame u64
| ReceiveFailed twai_error

definition initial_can_task :: can_task where
  "initial_can_task =
     \<lparr>ct_runtime_state = AwaitingTraffic, ct_consecutive_tx_errors = 0, ct_consecutive_rx_errors = 0,
      ct_observed = new_observed_stats, ct_health_ticks = 0, ct_previous_time_request_id = None,
      ct_restarts = 0\<rparr>"

definition start_can_task :: "can_reading \<Rightarrow> ('l, 'c, 'r, 'g) board \<Rightarrow> can_task \<times> ('l, 'c, 'r, 'g) board" where
  "start_can_task r b =
     (case publish_health r b of (initial_health, b) \<Rightarrow>
        (initial_can_task, publish_fallback_health (ct_runtime_state initial_can_task) initial_health b))"

fun handle_wakeup ::
  "can_driver \<Rightarrow> ('l, 'c, 'r, 'g) board_ops \<Rightarrow> ('l, 'c, 'r, 'g) wakeup \<Rightarrow>
   can_task \<times> ('l, 'c, 'r, 'g) board \<Rightarrow> (can_task \<times> ('l, 'c, 'r, 'g) board) option" where
  "handle_wakeup drv ops (RequestReady script) (t, b) =
     (case receive_request ops b of (request, b) \<Rightarrow>
        (case request of None \<Rightarrow> None | Some request \<Rightarrow> transmit_loop drv ops script request (t, b)))"
| "handle_wakeup drv ops (FrameReceived frame received_ms) (t, b) =
     (let t = (case fr_id frame of
                 StandardId ident \<Rightarrow> t\<lparr>ct_observed := observe ident (fr_data frame) (ct_observed t)\<rparr>
               | ExtendedId _ \<Rightarrow> t);
          b = count can_rx_success_count_update b;
          t = t\<lparr>ct_consecutive_rx_errors := 0,
                ct_runtime_state := fst (transition_runtime (ct_runtime_state t) ReceiveSucceeded)\<rparr>
      in case handle_received_frame ops frame received_ms (ct_previous_time_request_id t) b of
           (previous, b) \<Rightarrow> Some (t\<lparr>ct_previous_time_request_id := previous\<rparr>, b))"
| "handle_wakeup drv ops (ReceiveFailed error) (t, b) =
     (let b = count can_rx_error_count_update b;
          t = t\<lparr>ct_consecutive_rx_errors := saturating_add (ct_consecutive_rx_errors t) 1\<rparr>;
          t = (if error = TwaiBusOff then enter_recovering EventBusOff t else t)
      in Some (t, b))"
| "handle_wakeup drv ops (HealthTick r) (t, b) =
     (let t = t\<lparr>ct_health_ticks := saturating_add (ct_health_ticks t) 1\<rparr>;
          t = (if ct_health_ticks t = 100 then t\<lparr>ct_health_ticks := 0\<rparr> else t)
      in case publish_health r b of (health, b) \<Rightarrow>
           Some (if health = HealthBusOff then enter_recovering EventBusOff t else t, b))"

text \<open>The end of an iteration, with a reading and the time of that moment.\<close>

definition finish_iteration ::
  "can_reading \<Rightarrow> u64 \<Rightarrow> can_task \<times> ('l, 'c, 'r, 'g) board \<Rightarrow> can_task \<times> ('l, 'c, 'r, 'g) board" where
  "finish_iteration r now_ms s =
     (case s of (t, b) \<Rightarrow>
        (case publish_health r b of (health, b) \<Rightarrow>
           let b = publish_fallback_health (ct_runtime_state t) health b;
               mission_status_fresh =
                 freshness_of (cc_mission_status (bd_cache b)) now_ms FRESHNESS_10_HZ_MS = Fresh
           in (t, publish_error_state (ct_runtime_state t) health (ct_consecutive_tx_errors t)
                    (ct_consecutive_rx_errors t) mission_status_fresh b)))"

definition can_iteration ::
  "can_driver \<Rightarrow> ('l, 'c, 'r, 'g) board_ops \<Rightarrow> ('l, 'c, 'r, 'g) wakeup \<Rightarrow> can_reading \<Rightarrow> u64 \<Rightarrow>
   can_task \<times> ('l, 'c, 'r, 'g) board \<Rightarrow> (can_task \<times> ('l, 'c, 'r, 'g) board) option" where
  "can_iteration drv ops wakeup r now_ms s =
     (case handle_wakeup drv ops wakeup s of
        None \<Rightarrow> None
      | Some s \<Rightarrow> Some (finish_iteration r now_ms s))"

end
