(* ===== verification/CanQueues.thy ===== *)
theory CanQueues
  imports CanTask
begin

section \<open>What the CAN task puts in the queues\<close>

text \<open>
  The CAN task against the contract of the channels: safety requests go first and all of them
  are attempted; the queue of ground time requests keeps the newest; a request that cannot be
  sent is answered. The packets are read back as the ground reads them. The collection
  \<open>untouched\<close> holds the fields that each operation leaves alone.
\<close>

subsection \<open>Safety requests\<close>

text \<open>
  Reporting a failure leaves the CAN queues and the counts of transmissions alone; \<open>attempts\<close> is
  the number of transmissions, successful or not.
\<close>

definition attempts :: "('l, 'c, 'r, 'g) board \<Rightarrow> u32" where
  "attempts b = can_tx_success_count (bd_counters b) + can_tx_error_count (bd_counters b)"

named_theorems untouched "fields an operation leaves alone"

lemma queue_command_result_untouched [untouched]:
  "bd_can_safety_tx (queue_command_result ops p b) = bd_can_safety_tx b"
  "bd_can_tx (queue_command_result ops p b) = bd_can_tx b"
  "attempts (queue_command_result ops p b) = attempts b"
  "bd_emergency_results (queue_command_result ops p b) = bd_emergency_results b"
  "bd_recovery_chunks (queue_command_result ops p b) = bd_recovery_chunks b"
  "bd_recovery_beacon_active (queue_command_result ops p b) = bd_recovery_beacon_active b"
  "bd_tracker (queue_command_result ops p b) = bd_tracker b"
  "bd_session (queue_command_result ops p b) = bd_session b"
  "bd_assembler (queue_command_result ops p b) = bd_assembler b"
  by (auto simp: queue_command_result_def attempts_def Let_def split: sum.split prod.split)

lemma queue_emergency_result_untouched [untouched]:
  "bd_can_safety_tx (queue_emergency_result ops r b) = bd_can_safety_tx b"
  "bd_can_tx (queue_emergency_result ops r b) = bd_can_tx b"
  "attempts (queue_emergency_result ops r b) = attempts b"
  "bd_command_results (queue_emergency_result ops r b) = bd_command_results b"
  "bd_recovery_beacon_active (queue_emergency_result ops r b) = bd_recovery_beacon_active b"
  "bd_tracker (queue_emergency_result ops r b) = bd_tracker b"
  by (auto simp: queue_emergency_result_def attempts_def Let_def split: sum.split prod.split)

lemma attempts_update [simp]:
  "attempts (b\<lparr>bd_tracker := x1\<rparr>) = attempts b" "attempts (b\<lparr>bd_session := x2\<rparr>) = attempts b"
  "attempts (b\<lparr>bd_assembler := x3\<rparr>) = attempts b" "attempts (b\<lparr>bd_can_safety_tx := x4\<rparr>) = attempts b"
  "attempts (b\<lparr>bd_can_tx := x5\<rparr>) = attempts b" "attempts (b\<lparr>bd_logging_requested := x6\<rparr>) = attempts b"
  "attempts (b\<lparr>bd_gnss_commands := x7\<rparr>) = attempts b"
  "attempts (b\<lparr>bd_counters := can_tx_success_count_update (\<lambda>n. n + 1) (bd_counters b)\<rparr>) = attempts b + 1"
  "attempts (b\<lparr>bd_counters := can_tx_error_count_update (\<lambda>n. n + 1) (bd_counters b)\<rparr>) = attempts b + 1"
  by (simp_all add: attempts_def)

lemma report_transmit_failure_untouched [untouched]:
  "bd_can_safety_tx (report_transmit_failure ops m b) = bd_can_safety_tx b"
  "bd_can_tx (report_transmit_failure ops m b) = bd_can_tx b"
  "attempts (report_transmit_failure ops m b) = attempts b"
  by (auto simp: report_transmit_failure_def untouched Let_def
      split: option.split can_tx_message.split prod.split)

lemma after_transmission:
  "transmit_succeeded ops m (t, b) = (t', b') \<Longrightarrow>
   bd_can_safety_tx b' = bd_can_safety_tx b \<and> bd_can_tx b' = bd_can_tx b \<and> attempts b' = attempts b + 1"
  "transmit_failed ops m error (t, b) = (t', b') \<Longrightarrow>
   bd_can_safety_tx b' = bd_can_safety_tx b \<and> bd_can_tx b' = bd_can_tx b \<and> attempts b' = attempts b + 1"
  by (auto simp: transmit_succeeded_def transmit_failed_def untouched Let_def split: can_tx_message.split)

lemma log_raw_frame_untouched [untouched]:
  "bd_recovery_chunks (log_raw_frame ops i d now b) = bd_recovery_chunks b"
  "bd_assembler (log_raw_frame ops i d now b) = bd_assembler b"
  "bd_session (log_raw_frame ops i d now b) = bd_session b"
  "bd_recovery_beacon_active (log_raw_frame ops i d now b) = bd_recovery_beacon_active b"
  by (simp_all add: log_raw_frame_def Let_def split: prod.split)

text \<open>The other tasks leave the CAN queues alone while a transmission runs.\<close>

definition undisturbed :: "('l, 'c, 'r, 'g) tx_script \<Rightarrow> bool" where
  "undisturbed script \<longleftrightarrow> (\<forall>(others, outcome) \<in> set script. \<forall>b.
     bd_can_safety_tx (others b) = bd_can_safety_tx b \<and> bd_can_tx (others b) = bd_can_tx b \<and>
     attempts (others b) = attempts b)"

text \<open>
  Requests sent in turn, each with its own script entry: the others move, the request's own message
  is transmitted and its success or failure noted, and the next safety request leaves the queue.
\<close>

definition send_one ::
  "can_driver \<Rightarrow> ('l, 'c, 'r, 'g) board_ops \<Rightarrow> can_tx_request \<Rightarrow> (('l, 'c, 'r, 'g) board \<Rightarrow> ('l, 'c, 'r, 'g) board) \<times> twai_outcome \<Rightarrow>
   can_task \<times> ('l, 'c, 'r, 'g) board \<Rightarrow> can_task \<times> ('l, 'c, 'r, 'g) board" where
  "send_one drv ops request e s =
     (case transmit_message_with_timeout drv (ctr_message request) (snd e) of
        Inr _ \<Rightarrow> transmit_succeeded ops (ctr_message request) (fst s, fst e (snd s))
      | Inl error \<Rightarrow> transmit_failed ops (ctr_message request) error (fst s, fst e (snd s)))"

definition pop_safety ::
  "('l, 'c, 'r, 'g) board_ops \<Rightarrow> can_task \<times> ('l, 'c, 'r, 'g) board \<Rightarrow> can_task \<times> ('l, 'c, 'r, 'g) board" where
  "pop_safety ops s =
     (fst s, (snd s)\<lparr>bd_can_safety_tx := snd (try_receive (can_tx_ops ops) (bd_can_safety_tx (snd s)))\<rparr>)"

fun send_in_turn ::
  "can_driver \<Rightarrow> ('l, 'c, 'r, 'g) board_ops \<Rightarrow> can_tx_request list \<Rightarrow> ('l, 'c, 'r, 'g) tx_script \<Rightarrow>
   can_task \<times> ('l, 'c, 'r, 'g) board \<Rightarrow> can_task \<times> ('l, 'c, 'r, 'g) board" where
  "send_in_turn drv ops (request # requests) (e # script) s =
     send_in_turn drv ops requests script (pop_safety ops (send_one drv ops request e s))"
| "send_in_turn drv ops _ _ s = s"

lemma transmit_loop_in_turn:
  assumes chan: "fifo_channel (can_tx_ops ops) contents capacity"
  shows "undisturbed script \<Longrightarrow> transmit_loop drv ops script request (t, b) =
    (if length script \<le> length (contents (bd_can_safety_tx b)) then None
     else Some (send_in_turn drv ops (request # contents (bd_can_safety_tx b)) script (t, b)))"
proof (induction script arbitrary: request t b)
  case (Cons e script)
  obtain others outcome where e: "e = (others, outcome)" by (cases e)
  with Cons.prems have others: "bd_can_safety_tx (others b) = bd_can_safety_tx b"
    and rest: "undisturbed script" by (auto simp: undisturbed_def)
  obtain u c where u: "send_one drv ops request e (t, b) = (u, c)" by (metis surj_pair)
  then have c: "bd_can_safety_tx c = bd_can_safety_tx b"
    by (auto simp: send_one_def e others dest!: after_transmission split: sum.splits)
  obtain next_safety q where q: "try_receive (can_tx_ops ops) (bd_can_safety_tx b) = (next_safety, q)"
    by (cases "try_receive (can_tx_ops ops) (bd_can_safety_tx b)")
  have step: "transmit_loop drv ops (e # script) request (t, b) =
      (case next_safety of
         None \<Rightarrow> Some (u, c\<lparr>bd_can_safety_tx := q\<rparr>)
       | Some r \<Rightarrow> transmit_loop drv ops script r (u, c\<lparr>bd_can_safety_tx := q\<rparr>))"
    using q c u [unfolded send_one_def e fst_conv snd_conv] by (simp add: e Let_def)
  have popped: "pop_safety ops (send_one drv ops request e (t, b)) = (u, c\<lparr>bd_can_safety_tx := q\<rparr>)"
    by (simp add: pop_safety_def u c q)
  have items: "next_safety = (case contents (bd_can_safety_tx b) of [] \<Rightarrow> None | r # _ \<Rightarrow> Some r)"
    "contents q = tl (contents (bd_can_safety_tx b))"
    using fifo_channel.receive_item [OF chan] fifo_channel.receive_contents [OF chan] q
    by (metis fst_conv, metis snd_conv)
  show ?case
  proof (cases "contents (bd_can_safety_tx b)")
    case Nil
    with items step popped show ?thesis by simp
  next
    case (Cons r rs)
    with Cons.IH [OF rest, where request = r and t = u and b = "c\<lparr>bd_can_safety_tx := q\<rparr>"] items step popped show ?thesis
      by simp
  qed
qed simp

lemma transmit_loop_drains:
  assumes chan: "fifo_channel (can_tx_ops ops) contents capacity"
  shows "undisturbed script \<Longrightarrow>
    (case transmit_loop drv ops script request (t, b) of
       None \<Rightarrow> length script \<le> length (contents (bd_can_safety_tx b))
     | Some (t', b') \<Rightarrow> length (contents (bd_can_safety_tx b)) < length script \<and>
         contents (bd_can_safety_tx b') = [] \<and> bd_can_tx b' = bd_can_tx b \<and>
         attempts b' = attempts b + of_nat (Suc (length (contents (bd_can_safety_tx b)))))"
proof (induction script arbitrary: request t b)
  case (Cons e script)
  obtain others outcome where e: "e = (others, outcome)" by (cases e)
  with Cons.prems have others: "bd_can_safety_tx (others b) = bd_can_safety_tx b"
    "bd_can_tx (others b) = bd_can_tx b" "attempts (others b) = attempts b"
    and rest: "undisturbed script" by (auto simp: undisturbed_def)
  define s where "s = (case transmit_message_with_timeout drv (ctr_message request) outcome of
      Inr _ \<Rightarrow> transmit_succeeded ops (ctr_message request) (t, others b)
    | Inl error \<Rightarrow> transmit_failed ops (ctr_message request) error (t, others b))"
  obtain u c where u: "s = (u, c)" by (cases s)
  then have c: "bd_can_safety_tx c = bd_can_safety_tx b" "bd_can_tx c = bd_can_tx b"
    "attempts c = attempts b + 1"
    by (auto simp: s_def others dest!: after_transmission split: sum.splits)
  obtain next_safety q where q: "try_receive (can_tx_ops ops) (bd_can_safety_tx b) = (next_safety, q)"
    by (cases "try_receive (can_tx_ops ops) (bd_can_safety_tx b)")
  have step: "transmit_loop drv ops (e # script) request (t, b) =
      (case next_safety of
         None \<Rightarrow> Some (u, c\<lparr>bd_can_safety_tx := q\<rparr>)
       | Some r \<Rightarrow> transmit_loop drv ops script r (u, c\<lparr>bd_can_safety_tx := q\<rparr>))"
    using q c(1) u by (simp add: e s_def [symmetric] Let_def)
  have items: "next_safety = (case contents (bd_can_safety_tx b) of [] \<Rightarrow> None | r # _ \<Rightarrow> Some r)"
    "contents q = tl (contents (bd_can_safety_tx b))"
    using fifo_channel.receive_item [OF chan] fifo_channel.receive_contents [OF chan] q
    by (metis fst_conv, metis snd_conv)
  show ?case
  proof (cases "contents (bd_can_safety_tx b)")
    case Nil
    with items c step show ?thesis by simp
  next
    case (Cons r rs)
    with Cons.IH [OF rest, where request = r and t = u and b = "c\<lparr>bd_can_safety_tx := q\<rparr>"] items c step show ?thesis
      by (auto split: option.splits)
  qed
qed simp

text \<open>
  C31. Safety requests go first and none is left behind. When a request is ready, and as long as the
  other tasks leave the two queues alone, the requests due are all those of the safety queue, or the
  oldest normal request if there is none. The task transmits just these, in this order, each once
  and each as its own message, and notes the success or failure of each; then the safety queue is
  empty, the other normal requests still wait, and the loop has ended. Only a script with fewer
  outcomes than requests due leaves it unfinished.
\<close>

theorem safety_requests_first:
  assumes "fifo_channel (can_tx_ops ops) contents capacity"
    and "contents (bd_can_safety_tx b) \<noteq> [] \<or> contents (bd_can_tx b) \<noteq> []" and "undisturbed script"
  defines "due \<equiv> (if contents (bd_can_safety_tx b) = [] then [hd (contents (bd_can_tx b))] else contents (bd_can_safety_tx b))"
    and "taken \<equiv> (if contents (bd_can_safety_tx b) = []
      then b\<lparr>bd_can_safety_tx := snd (try_receive (can_tx_ops ops) (bd_can_safety_tx b)),
             bd_can_tx := snd (try_receive (can_tx_ops ops) (bd_can_tx b))\<rparr>
      else b\<lparr>bd_can_safety_tx := snd (try_receive (can_tx_ops ops) (bd_can_safety_tx b))\<rparr>)"
  shows "handle_wakeup drv ops (RequestReady script) (t, b) =
      (if length script < length due then None else Some (send_in_turn drv ops due script (t, taken))) \<and>
    (case handle_wakeup drv ops (RequestReady script) (t, b) of
      None \<Rightarrow> True
    | Some (t', b') \<Rightarrow> attempts b' = attempts b + of_nat (length due) \<and>
        contents (bd_can_safety_tx b') = [] \<and>
        contents (bd_can_tx b') = (if contents (bd_can_safety_tx b) = [] then tl (contents (bd_can_tx b))
                                   else contents (bd_can_tx b)))"
proof -
  note laws = fifo_channel.receive_item [OF assms(1)] fifo_channel.receive_contents [OF assms(1)]
  obtain safety q where q: "try_receive (can_tx_ops ops) (bd_can_safety_tx b) = (safety, q)"
    by (cases "try_receive (can_tx_ops ops) (bd_can_safety_tx b)")
  obtain normal p where p: "try_receive (can_tx_ops ops) (bd_can_tx b) = (normal, p)"
    by (cases "try_receive (can_tx_ops ops) (bd_can_tx b)")
  have items: "safety = (case contents (bd_can_safety_tx b) of [] \<Rightarrow> None | r # _ \<Rightarrow> Some r)"
    "contents q = tl (contents (bd_can_safety_tx b))"
    "normal = (case contents (bd_can_tx b) of [] \<Rightarrow> None | r # _ \<Rightarrow> Some r)"
    "contents p = tl (contents (bd_can_tx b))"
    using laws q p by (metis fst_conv, metis snd_conv, metis fst_conv, metis snd_conv)
  show ?thesis
  proof (cases "contents (bd_can_safety_tx b)")
    case Nil
    with assms(2) obtain r rs where "contents (bd_can_tx b) = r # rs" by (cases "contents (bd_can_tx b)") auto
    with Nil items q p transmit_loop_drains [OF assms(1,3), where drv = drv and request = r and t = t and
          b = "b\<lparr>bd_can_safety_tx := q, bd_can_tx := p\<rparr>"]
      transmit_loop_in_turn [OF assms(1,3), where drv = drv and request = r and t = t and
          b = "b\<lparr>bd_can_safety_tx := q, bd_can_tx := p\<rparr>"]
    show ?thesis by (auto simp: due_def taken_def receive_request_def split: option.splits)
  next
    case (Cons r rs)
    with items q transmit_loop_drains [OF assms(1,3), where drv = drv and request = r and t = t and
          b = "b\<lparr>bd_can_safety_tx := q\<rparr>"]
      transmit_loop_in_turn [OF assms(1,3), where drv = drv and request = r and t = t and
          b = "b\<lparr>bd_can_safety_tx := q\<rparr>"]
    show ?thesis by (auto simp: due_def taken_def receive_request_def split: option.splits)
  qed
qed

subsection \<open>Ground time requests\<close>

text \<open>The envelope of an encodable packet, and what the ground reads in it.\<close>

definition envelope :: "application_packet \<Rightarrow> lora_tx_source \<Rightarrow> lora_tx_envelope" where
  "envelope packet source = queued_envelope (projr (encode packet)) source"

definition ground_reads :: "lora_tx_envelope \<Rightarrow> application_packet option" where
  "ground_reads e = ground_decode (drop 3 (as_bytes (env_frame e)))"

lemma encode_in_range:
  "packet_typed p \<Longrightarrow> in_range p \<Longrightarrow> encode p = Inr (projr (encode p))"
  using encode_is_ok_iff [of p] by (auto simp: is_ok_iff)

lemma ground_reads_envelope:
  assumes "packet_typed p" "in_range p"
  shows "ground_reads (envelope p source) = Some p"
  using ground_decode_frame [OF assms(1) encode_in_range [OF assms]]
  by (simp add: ground_reads_def envelope_def queued_envelope_def)

lemma ground_time_encodes: "encode (PGroundTimeRequest k) = Inr (projr (encode (PGroundTimeRequest k)))"
  by (rule encode_in_range) (simp_all add: packet_typed_def)

definition ground_time_envelope :: "u8 \<Rightarrow> lora_tx_envelope" where
  "ground_time_envelope k = envelope (PGroundTimeRequest k) SrcGroundTimeRequest"

fun run_time_requests ::
  "('l, 'c, 'r, 'g) board_ops \<Rightarrow> u8 list \<Rightarrow> u8 option \<times> ('l, 'c, 'r, 'g) board \<Rightarrow>
   u8 option \<times> ('l, 'c, 'r, 'g) board" where
  "run_time_requests ops [] s = s"
| "run_time_requests ops (k # ks) (previous, b) =
     run_time_requests ops ks (queue_ground_time_request ops k previous b)"

text \<open>The requests that are not repetitions of the one before, and the newest elements of a list.\<close>

fun fresh_requests :: "u8 option \<Rightarrow> u8 list \<Rightarrow> u8 list" where
  "fresh_requests previous [] = []"
| "fresh_requests previous (k # ks) =
     (if previous = Some k then fresh_requests previous ks else k # fresh_requests (Some k) ks)"

definition newest_of :: "nat \<Rightarrow> 'a list \<Rightarrow> 'a list" where
  "newest_of n xs = drop (length xs - n) xs"

lemma newest_of_newest: "newest_of n (newest_of n xs @ ys) = newest_of n (xs @ ys)"
proof (cases "length xs \<le> n")
  case False
  then show ?thesis by (simp add: newest_of_def) (simp add: algebra_simps)
qed (simp add: newest_of_def)

lemma length_newest_of: "length (newest_of n xs) = min n (length xs)"
  by (auto simp: newest_of_def)

lemma queue_fresh_request:
  assumes chan: "fifo_channel (lora_ops ops) contents capacity"
    and room: "0 < capacity (bd_ground_time_requests b)"
    and bounded: "length (contents (bd_ground_time_requests b)) \<le> capacity (bd_ground_time_requests b)"
    and fresh: "previous \<noteq> Some k"
  shows "\<exists>q. queue_ground_time_request ops k previous b =
     (Some k, (if is_full (lora_ops ops) (bd_ground_time_requests b)
       then count lora_ground_time_request_drop_count_update
              (count lora_tx_queue_drop_count_update (b\<lparr>bd_ground_time_requests := q\<rparr>))
       else b\<lparr>bd_ground_time_requests := q\<rparr>)) \<and>
     contents q = newest_of (capacity (bd_ground_time_requests b))
        (contents (bd_ground_time_requests b) @ [ground_time_envelope k]) \<and>
     capacity q = capacity (bd_ground_time_requests b)"
proof -
  let ?q = "bd_ground_time_requests b" and ?e = "ground_time_envelope k"
  define q where "q = fifo_channel.replace_oldest (lora_ops ops) ?e ?q"
  note q = fifo_channel.replace_oldest_contents [OF chan bounded room, of ?e]
  have unfolded: "q = snd (try_send (lora_ops ops) ?e
      (if is_full (lora_ops ops) ?q then snd (try_receive (lora_ops ops) ?q) else ?q))"
    unfolding q_def by (rule fifo_channel.replace_oldest_def [OF chan])
  have env: "queued_envelope (projr (encode (PGroundTimeRequest k))) SrcGroundTimeRequest = ?e"
    by (simp add: ground_time_envelope_def envelope_def)
  have enc: "\<exists>f. encode (PGroundTimeRequest k) = Inr f \<and> queued_envelope f SrcGroundTimeRequest = ?e"
    using ground_time_encodes env by metis
  have sent: "fst (try_send (lora_ops ops) ?e
      (if is_full (lora_ops ops) ?q then snd (try_receive (lora_ops ops) ?q) else ?q))"
    using room bounded by (cases "contents ?q") (auto simp: fifo_channel.laws [OF chan])
  have taken: "is_full (lora_ops ops) ?q \<Longrightarrow> fst (try_receive (lora_ops ops) ?q) \<noteq> None"
    using room by (cases "contents ?q") (simp_all add: fifo_channel.laws [OF chan])
  have "queue_ground_time_request ops k previous b =
     (Some k, (if is_full (lora_ops ops) ?q
       then count lora_ground_time_request_drop_count_update
              (count lora_tx_queue_drop_count_update (b\<lparr>bd_ground_time_requests := q\<rparr>))
       else b\<lparr>bd_ground_time_requests := q\<rparr>))"
    using enc sent taken fresh unfolding unfolded
    by (auto simp: queue_ground_time_request_def ground_time_queue_action_def Let_def split_beta)
  with q show ?thesis by (auto simp: q_def newest_of_def intro!: exI [of _ q])
qed

lemma queue_repeated_request:
  "queue_ground_time_request ops k (Some k) b =
     (Some k, count lora_ground_time_request_duplicate_count_update b)"
  by (simp add: queue_ground_time_request_def ground_time_queue_action_def)

lemma length_fresh_requests: "length (fresh_requests previous ks) \<le> length ks"
  by (induction previous ks rule: fresh_requests.induct) auto

lemma run_time_requests_newest:
  assumes chan: "fifo_channel (lora_ops ops) contents capacity"
  shows "0 < n \<Longrightarrow> capacity (bd_ground_time_requests b) = n \<Longrightarrow>
    length (contents (bd_ground_time_requests b)) \<le> n \<Longrightarrow>
    run_time_requests ops ks (previous, b) = (previous', b') \<Longrightarrow>
    all = contents (bd_ground_time_requests b) @ map ground_time_envelope (fresh_requests previous ks) \<Longrightarrow>
    contents (bd_ground_time_requests b') = newest_of n all \<and>
    lora_ground_time_request_drop_count (bd_counters b') =
      lora_ground_time_request_drop_count (bd_counters b) + of_nat (length all - n) \<and>
    lora_ground_time_request_duplicate_count (bd_counters b') =
      lora_ground_time_request_duplicate_count (bd_counters b)
      + of_nat (length ks - length (fresh_requests previous ks))"
proof (induction ks arbitrary: previous b all)
  case Nil
  then show ?case by (simp add: newest_of_def)
next
  case (Cons k ks)
  let ?c = "contents (bd_ground_time_requests b)"
  show ?case
  proof (cases "previous = Some k")
    case True
    with Cons.prems Cons.IH [where previous = "Some k" and
        b = "count lora_ground_time_request_duplicate_count_update b" and all = all]
    show ?thesis
      using length_fresh_requests [of "Some k" ks] by (simp add: queue_repeated_request Suc_diff_le)
  next
    case False
    define full where "full = is_full (lora_ops ops) (bd_ground_time_requests b)"
    from queue_fresh_request [OF chan, of b previous k] Cons.prems False
    obtain q where q: "queue_ground_time_request ops k previous b =
        (Some k, (if full
          then count lora_ground_time_request_drop_count_update
                 (count lora_tx_queue_drop_count_update (b\<lparr>bd_ground_time_requests := q\<rparr>))
          else b\<lparr>bd_ground_time_requests := q\<rparr>))"
      "contents q = newest_of n (?c @ [ground_time_envelope k])" "capacity q = n"
      by (auto simp: full_def)
    define c where "c = snd (queue_ground_time_request ops k previous b)"
    have full: "full \<longleftrightarrow> length ?c = n"
      using Cons.prems by (auto simp: full_def fifo_channel.full_iff [OF chan])
    have c: "bd_ground_time_requests c = q"
      "lora_ground_time_request_drop_count (bd_counters c) =
         lora_ground_time_request_drop_count (bd_counters b) + (if full then 1 else 0)"
      "lora_ground_time_request_duplicate_count (bd_counters c) =
         lora_ground_time_request_duplicate_count (bd_counters b)"
      by (simp_all add: c_def q)
    have run: "run_time_requests ops ks (Some k, c) = (previous', b')"
      using Cons.prems(4) by (simp add: c_def q)
    have len: "length (contents q) = (if full then n else Suc (length ?c))"
      using Cons.prems full by (auto simp: q length_newest_of)
    let ?rest = "map ground_time_envelope (fresh_requests (Some k) ks)"
    have all: "all = ?c @ ground_time_envelope k # ?rest" using Cons.prems(5) False by simp
    have ih: "contents (bd_ground_time_requests b') = newest_of n (contents q @ ?rest)"
      "lora_ground_time_request_drop_count (bd_counters b') =
         lora_ground_time_request_drop_count (bd_counters c) + of_nat (length (contents q @ ?rest) - n)"
      "lora_ground_time_request_duplicate_count (bd_counters b') =
         lora_ground_time_request_duplicate_count (bd_counters c)
         + of_nat (length ks - length (fresh_requests (Some k) ks))"
      using Cons.IH [OF Cons.prems(1) _ _ run refl] q(3) len c(1) full Cons.prems(3) by auto
    have "newest_of n (contents q @ ?rest) = newest_of n all"
      using newest_of_newest [of n "?c @ [ground_time_envelope k]" ?rest] by (simp add: q(2) all)
    moreover have "length all - n = (if full then 1 else 0) + (length (contents q @ ?rest) - n)"
      using full Cons.prems(3) by (simp add: all len)
    ultimately show ?thesis
      using ih c(2,3) False by (simp add: add.assoc)
  qed
qed

text \<open>
  Ground time requests of the Mission board: after any sequence of them, with nothing sent
  meanwhile, the queue to the radio holds the newest requests that fit, oldest first, without
  immediate repetitions; each is a packet that the ground reads as that request; what was
  dropped and what was ignored as a repetition is counted.
\<close>

theorem newest_time_requests_kept:
  assumes "fifo_channel (lora_ops ops) contents capacity"
    and "0 < capacity (bd_ground_time_requests b)"
    and "length (contents (bd_ground_time_requests b)) \<le> capacity (bd_ground_time_requests b)"
    and "run_time_requests ops ks (previous, b) = (previous', b')"
  defines "all \<equiv> contents (bd_ground_time_requests b) @ map ground_time_envelope (fresh_requests previous ks)"
    and "n \<equiv> capacity (bd_ground_time_requests b)"
  shows "contents (bd_ground_time_requests b') = newest_of n all \<and>
    ground_reads (ground_time_envelope k) = Some (PGroundTimeRequest k) \<and>
    lora_ground_time_request_drop_count (bd_counters b') =
       lora_ground_time_request_drop_count (bd_counters b) + of_nat (length all - n) \<and>
    lora_ground_time_request_duplicate_count (bd_counters b') =
       lora_ground_time_request_duplicate_count (bd_counters b)
       + of_nat (length ks - length (fresh_requests previous ks))"
  using run_time_requests_newest [OF assms(1,2) refl assms(3,4) refl]
    ground_reads_envelope [of "PGroundTimeRequest k" SrcGroundTimeRequest]
  unfolding all_def n_def ground_time_envelope_def by (simp add: packet_typed_def)

subsection \<open>Answers to the ground\<close>

text \<open>
  \<open>queued_or_counted\<close>: an envelope is appended to its queue, or, when the queue is full, the
  queue stays as it is and the loss is counted.
\<close>

definition queued_or_counted ::
  "('q \<Rightarrow> 'e list) \<Rightarrow> ('q \<Rightarrow> nat) \<Rightarrow> 'e \<Rightarrow> 'q \<times> u32 \<Rightarrow> 'q \<times> u32 \<Rightarrow> bool" where
  "queued_or_counted contents capacity e before after \<longleftrightarrow>
     (if length (contents (fst before)) < capacity (fst before)
      then contents (fst after) = contents (fst before) @ [e] \<and> snd after = snd before
      else contents (fst after) = contents (fst before) \<and> snd after = snd before + 1)"

text \<open>The two queues of results with the count of envelopes lost.\<close>

definition results_of :: "('l, 'c, 'r, 'g) board \<Rightarrow> 'l \<times> u32" where
  "results_of b = (bd_command_results b, lora_tx_queue_drop_count (bd_counters b))"

definition emergencies_of :: "('l, 'c, 'r, 'g) board \<Rightarrow> 'l \<times> u32" where
  "emergencies_of b = (bd_emergency_results b, lora_tx_queue_drop_count (bd_counters b))"

definition result_envelope :: "command_result \<Rightarrow> lora_tx_source \<Rightarrow> lora_tx_envelope" where
  "result_envelope r source = envelope (PCommandResult (packet_of_result r)) source"

text \<open>The ground gets the result \<open>r\<close>, by the ordinary queue or by the one for emergencies.\<close>

definition answered ::
  "('l \<Rightarrow> lora_tx_envelope list) \<Rightarrow> ('l \<Rightarrow> nat) \<Rightarrow> ('l, 'c, 'r, 'g) board \<Rightarrow> ('l, 'c, 'r, 'g) board \<Rightarrow>
   command_result \<Rightarrow> bool" where
  "answered contents capacity b b' r \<longleftrightarrow>
     queued_or_counted contents capacity (result_envelope r SrcCommandResult) (results_of b) (results_of b') \<and>
     ground_reads (result_envelope r SrcCommandResult) = Some (PCommandResult (packet_of_result r))"

definition alarmed ::
  "('l \<Rightarrow> lora_tx_envelope list) \<Rightarrow> ('l \<Rightarrow> nat) \<Rightarrow> ('l, 'c, 'r, 'g) board \<Rightarrow> ('l, 'c, 'r, 'g) board \<Rightarrow>
   command_result \<Rightarrow> bool" where
  "alarmed contents capacity b b' r \<longleftrightarrow>
     queued_or_counted contents capacity (result_envelope r SrcEmergencyResult) (emergencies_of b) (emergencies_of b') \<and>
     ground_reads (result_envelope r SrcEmergencyResult) = Some (PCommandResult (packet_of_result r))"

lemma result_encodes:
  "cr_transaction_id r \<noteq> 0 \<Longrightarrow>
   \<exists>f. encode (PCommandResult (packet_of_result r)) = Inr f \<and> queued_envelope f source = result_envelope r source"
proof -
  assume "cr_transaction_id r \<noteq> 0"
  then have "encode (PCommandResult (packet_of_result r)) = Inr (projr (encode (PCommandResult (packet_of_result r))))"
    by (intro encode_in_range) (simp_all add: packet_typed_def packet_of_result_def)
  then show ?thesis by (metis result_envelope_def envelope_def)
qed

lemma ground_reads_result:
  "cr_transaction_id r \<noteq> 0 \<Longrightarrow>
   ground_reads (result_envelope r source) = Some (PCommandResult (packet_of_result r))"
  unfolding result_envelope_def
  by (rule ground_reads_envelope) (simp_all add: packet_typed_def packet_of_result_def)

lemma queue_command_result_effect:
  assumes chan: "fifo_channel (lora_ops ops) contents capacity" and r: "cr_transaction_id r \<noteq> 0"
  shows "queued_or_counted contents capacity (result_envelope r SrcCommandResult)
     (results_of b) (results_of (queue_command_result ops (packet_of_result r) b))"
  using result_encodes [OF r, of SrcCommandResult]
  by (auto simp: queue_command_result_def results_of_def queued_or_counted_def Let_def split_beta
      fifo_channel.laws [OF chan])

lemma queue_emergency_result_effect:
  assumes chan: "fifo_channel (lora_ops ops) contents capacity" and r: "cr_transaction_id r \<noteq> 0"
  shows "queued_or_counted contents capacity (result_envelope r SrcEmergencyResult)
     (emergencies_of b) (emergencies_of (queue_emergency_result ops r b))"
  using result_encodes [OF r, of SrcEmergencyResult]
  by (auto simp: queue_emergency_result_def emergencies_of_def queued_or_counted_def Let_def split_beta
      fifo_channel.laws [OF chan])

lemma results_of_update [simp]:
  "results_of (b\<lparr>bd_tracker := x1\<rparr>) = results_of b" "results_of (b\<lparr>bd_session := x2\<rparr>) = results_of b"
  "results_of (b\<lparr>bd_assembler := x3\<rparr>) = results_of b"
  by (simp_all add: results_of_def)

definition timed_out :: "u8 \<Rightarrow> u8 \<Rightarrow> command_result" where
  "timed_out transaction_id command =
     \<lparr>cr_transaction_id = transaction_id, cr_command = command, cr_phase = Failed,
      cr_reason = Timeout, cr_detail = 0\<rparr>"

lemma session_fail_matching:
  "fail_matching s k reason detail =
     (case rec_pending s of
        Some p \<Rightarrow> if prec_transaction_id p = k
                  then (Some \<lparr>cr_transaction_id = k, cr_command = prec_command p, cr_phase = Failed,
                              cr_reason = reason, cr_detail = detail\<rparr>, s\<lparr>rec_pending := None\<rparr>)
                  else (None, s)
      | None \<Rightarrow> (None, s))"
  by (auto simp: fail_matching_def session_fail_def split: option.split)

text \<open>
  C30. A request that cannot be sent to the Mission board is answered. An emergency stop and a
  liftoff stop get a Failed/Timeout result in the emergency queue; a forwarded command that is
  still pending is closed in the tracker with that result cached, and the ground gets it; a
  recovery request that the session waits for ends the session and the dump in progress, and
  the ground gets it. Every answer is queued or its loss counted, and the ground reads it.
\<close>

theorem transmit_failure_answered:
  fixes message :: can_tx_message
  assumes "fifo_channel (lora_ops ops) contents capacity" and "tracker_inv (bd_tracker b)"
  defines "b' \<equiv> report_transmit_failure ops message b"
  shows "case message of
      ActuatorEmergencyStop k \<Rightarrow> k \<noteq> 0 \<longrightarrow> alarmed contents capacity b b' (timed_out k ACTUATOR_EMERGENCY_RESULT)
    | LiftoffEmergencyStop k \<Rightarrow> k \<noteq> 0 \<longrightarrow> alarmed contents capacity b b' (timed_out k LIFTOFF_EMERGENCY_RESULT)
    | TxGenericCommandRequest r \<Rightarrow>
        pending_of (bd_tracker b) (req_transaction_id r) = Some r \<longrightarrow> req_transaction_id r \<noteq> 0 \<longrightarrow>
        pending_of (bd_tracker b') = (pending_of (bd_tracker b))(req_transaction_id r := None) \<and>
        cached_of (bd_tracker b') (req_transaction_id r) =
          Some (r, timed_out (req_transaction_id r) (req_command r)) \<and>
        answered contents capacity b b' (timed_out (req_transaction_id r) (req_command r))
    | TxRecoveryControl c \<Rightarrow>
        (case rec_pending (bd_session b) of
           None \<Rightarrow> b' = b
         | Some p \<Rightarrow>
             if prec_transaction_id p = rctl_transfer_id c
             then (rctl_transfer_id c \<noteq> 0 \<longrightarrow> answered contents capacity b b' (timed_out (rctl_transfer_id c) (prec_command p))) \<and>
                  rec_pending (bd_session b') = None \<and> \<not> asm_active (bd_assembler b')
             else b' = b)
    | TxTimeResponse _ _ _ _ \<Rightarrow> b' = b"
proof (cases message)
  case (ActuatorEmergencyStop k)
  then have "b' = queue_emergency_result ops (timed_out k ACTUATOR_EMERGENCY_RESULT) b"
    by (simp add: b'_def report_transmit_failure_def emergency_failure_result_def timed_out_def Let_def)
  then show ?thesis
    using queue_emergency_result_effect [OF assms(1)] ground_reads_result
    by (simp add: ActuatorEmergencyStop alarmed_def timed_out_def)
next
  case (LiftoffEmergencyStop k)
  then have "b' = queue_emergency_result ops (timed_out k LIFTOFF_EMERGENCY_RESULT) b"
    by (simp add: b'_def report_transmit_failure_def emergency_failure_result_def timed_out_def Let_def)
  then show ?thesis
    using queue_emergency_result_effect [OF assms(1)] ground_reads_result
    by (simp add: LiftoffEmergencyStop alarmed_def timed_out_def)
next
  case (TxGenericCommandRequest r)
  let ?k = "req_transaction_id r" and ?res = "timed_out (req_transaction_id r) (req_command r)"
  show ?thesis
  proof (cases "pending_of (bd_tracker b) ?k = Some r \<and> ?k \<noteq> 0")
    case True
    then have m: "matches (bd_tracker b) ?res r" by (simp add: matches_def timed_out_def)
    note e = apply_result_effect [OF assms(2) m]
    have "fst (apply_result (bd_tracker b) ?res)" using e(1) by simp
    then have b': "b' = queue_command_result ops (packet_of_result ?res)
        (b\<lparr>bd_tracker := snd (apply_result (bd_tracker b) ?res)\<rparr>)"
      by (simp add: b'_def report_transmit_failure_def emergency_failure_result_def timed_out_def
          Let_def TxGenericCommandRequest split_beta)
    have "answered contents capacity b b' ?res"
      using queue_command_result_effect [OF assms(1), of ?res
          "b\<lparr>bd_tracker := snd (apply_result (bd_tracker b) ?res)\<rparr>"] ground_reads_result [of ?res] True
      by (simp add: answered_def b' timed_out_def)
    then show ?thesis using e
      by (simp add: TxGenericCommandRequest b' untouched timed_out_def is_final_def)
  qed (auto simp: TxGenericCommandRequest)
next
  case (TxRecoveryControl c)
  show ?thesis
  proof (cases "rec_pending (bd_session b)")
    case (Some p)
    let ?res = "timed_out (rctl_transfer_id c) (prec_command p)"
    let ?b = "b\<lparr>bd_session := (bd_session b)\<lparr>rec_pending := None\<rparr>,
      bd_assembler := snd (asm_abort (bd_assembler b))\<rparr>"
    have "b' = (if prec_transaction_id p = rctl_transfer_id c
        then queue_command_result ops (packet_of_result ?res) ?b else b)"
      by (simp add: b'_def report_transmit_failure_def emergency_failure_result_def session_fail_matching
          TxRecoveryControl Some timed_out_def Let_def)
    then show ?thesis
      using queue_command_result_effect [OF assms(1), of ?res ?b] ground_reads_result [of ?res]
      by (simp add: TxRecoveryControl Some answered_def untouched asm_abort_def timed_out_def)
  qed (simp add: b'_def report_transmit_failure_def emergency_failure_result_def session_fail_matching
      TxRecoveryControl Let_def)
qed (simp add: b'_def report_transmit_failure_def emergency_failure_result_def Let_def)

subsection \<open>Concrete queues\<close>

definition demo_queues :: list_board where
  "demo_queues = list_start\<lparr>bd_can_safety_tx := (8, [\<lparr>ctr_message = ActuatorEmergencyStop 3\<rparr>,
       \<lparr>ctr_message = LiftoffEmergencyStop 4\<rparr>]), bd_can_tx := (8, [\<lparr>ctr_message = TxTimeResponse 9 TimeGnss 5 6\<rparr>])\<rparr>"

lemma safety_requests_first_witness:
  "case handle_wakeup reference_driver list_ops
        (RequestReady [(\<lambda>b. b, TwaiDone), (\<lambda>b. b, TwaiDone)]) (initial_can_task, demo_queues) of
     None \<Rightarrow> False
   | Some (t, b) \<Rightarrow> attempts b = 2 \<and> snd (bd_can_safety_tx b) = [] \<and> snd (bd_can_tx b) = snd (bd_can_tx demo_queues)"
proof -
  let ?script = "[(\<lambda>b. b, TwaiDone), (\<lambda>b. b, TwaiDone)] ::
    (lora_tx_envelope list_queue, can_tx_request list_queue, raw_can_record list_queue, gnss_command list_queue) tx_script"
  have ready: "snd (bd_can_safety_tx demo_queues) \<noteq> [] \<or> snd (bd_can_tx demo_queues) \<noteq> []"
    "length (snd (bd_can_safety_tx demo_queues)) = 2" "attempts demo_queues = 0"
    by (simp_all add: demo_queues_def list_start_def initial_board_def attempts_def zero_counters_def)
  have "undisturbed ?script" by (simp add: undisturbed_def)
  moreover have "fifo_channel (can_tx_ops list_ops) snd fst" by (simp add: list_channel_fifo)
  ultimately show ?thesis
    using safety_requests_first [OF _ ready(1), of list_ops fst ?script reference_driver initial_can_task] ready
    by (auto simp del: handle_wakeup.simps split: option.splits)
qed

lemma newest_time_requests_kept_witness:
  "map ground_reads (snd (bd_ground_time_requests (snd (run_time_requests list_ops [5, 5, 6] (None, list_start))))) =
     [Some (PGroundTimeRequest 5), Some (PGroundTimeRequest 6)]"
proof -
  have room: "0 < fst (bd_ground_time_requests list_start)"
    "length (snd (bd_ground_time_requests list_start)) \<le> fst (bd_ground_time_requests list_start)"
    by (simp_all add: list_start_def initial_board_def)
  obtain p b where run: "run_time_requests list_ops [5, 5, 6] (None, list_start) = (p, b)"
    by (cases "run_time_requests list_ops [5, 5, 6] (None, list_start)")
  have "fifo_channel (lora_ops list_ops) snd fst" by (simp add: list_channel_fifo)
  note kept = newest_time_requests_kept [OF this room run]
  from kept have "snd (bd_ground_time_requests b) = [ground_time_envelope 5, ground_time_envelope 6]"
    by (simp add: list_start_def initial_board_def newest_of_def)
  with kept show ?thesis by (simp add: run del: run_time_requests.simps)
qed

definition demo_command :: generic_command_request where
  "demo_command = \<lparr>req_transaction_id = 7, req_command = 3, req_args = [0, 0, 0, 0, 0, 0]\<rparr>"

lemma transmit_failure_answered_witness:
  "let b = list_start\<lparr>bd_tracker := snd (register new_tracker demo_command)\<rparr>;
       b' = report_transmit_failure list_ops (TxGenericCommandRequest demo_command) b
   in pending_of (bd_tracker b') 7 = None \<and> answered snd fst b b' (timed_out 7 3)"
proof -
  let ?b = "list_start\<lparr>bd_tracker := snd (register new_tracker demo_command)\<rparr>"
  have inv: "tracker_inv (bd_tracker ?b)" by (simp add: register_inv tracker_inv_new)
  have "pending_of (bd_tracker ?b) 7 = Some demo_command" by code_simp
  then show ?thesis
    using transmit_failure_answered [OF _ inv, of list_ops snd fst "TxGenericCommandRequest demo_command"]
    by (simp add: list_channel_fifo demo_command_def Let_def)
qed

end
