(* ===== verification/CanOutage.thy ===== *)
theory CanOutage
  imports CanTask
begin

section \<open>Runs of the CAN task through an outage\<close>

text \<open>
  A run is a list of iterations with what woke them. During an outage, however long and
  whatever is reported, the controller is restarted at most once.
\<close>

subsection \<open>Restarts of the controller\<close>

text \<open>
  The controller counts as up before the first traffic and in normal operation. Only there an
  error event restarts it, and only a successful transmission or reception leads back.
\<close>

definition runtime_up :: "can_runtime_state \<Rightarrow> bool" where
  "runtime_up s \<longleftrightarrow> s = AwaitingTraffic \<or> s = RuntimeNormal"

text \<open>\<open>quiet n t t'\<close>: \<open>t'\<close> follows \<open>t\<close> with at most one restart, none if \<open>t\<close> was already down.\<close>

definition quiet :: "can_task \<Rightarrow> can_task \<Rightarrow> bool" where
  "quiet t t' \<longleftrightarrow>
     (if runtime_up (ct_runtime_state t)
      then ct_restarts t' = ct_restarts t + (if runtime_up (ct_runtime_state t') then 0 else 1)
      else \<not> runtime_up (ct_runtime_state t') \<and> ct_restarts t' = ct_restarts t)"

lemma quiet_refl [simp]: "quiet t t"
  by (simp add: quiet_def)

lemma quiet_trans: "quiet t u \<Longrightarrow> quiet u v \<Longrightarrow> quiet t v"
  by (auto simp: quiet_def split: if_splits)

lemma quiet_same: "ct_runtime_state t' = ct_runtime_state t \<Longrightarrow> ct_restarts t' = ct_restarts t \<Longrightarrow> quiet t t'"
  by (simp add: quiet_def)

lemma quiet_error: "event \<in> {EventBusOff, EventTimedOut} \<Longrightarrow> quiet t (enter_recovering event t)"
  by (cases "ct_runtime_state t") (auto simp: enter_recovering_def quiet_def runtime_up_def)

lemma quiet_recover:
  "ct_runtime_state u = ct_runtime_state t \<Longrightarrow> ct_restarts u = ct_restarts t \<Longrightarrow>
   event \<in> {EventBusOff, EventTimedOut} \<Longrightarrow> quiet t (enter_recovering event u)"
  using quiet_trans [OF quiet_same quiet_error] by metis

lemma quiet_transmit_failed: "transmit_failed ops message error (t, b) = (t', b') \<Longrightarrow> quiet t t'"
  by (cases error) (auto simp: transmit_failed_def Let_def intro: quiet_recover quiet_same)

lemma transmit_not_done: "outcome \<noteq> TwaiDone \<Longrightarrow> transmit_message_with_timeout drv m outcome \<noteq> Inr ()"
  by (cases outcome rule: transmit_frame_with_timeout.cases)
    (auto simp: transmit_message_with_timeout_def split: sum.splits)

lemma quiet_transmit_loop:
  "transmit_loop drv ops script request (t, b) = Some (t', b') \<Longrightarrow> \<forall>e \<in> set script. snd e \<noteq> TwaiDone \<Longrightarrow>
   quiet t t'"
proof (induction script arbitrary: request t b)
  case (Cons e script)
  obtain others outcome where e: "e = (others, outcome)" by (cases e)
  with Cons.prems(2) transmit_not_done [of outcome drv "ctr_message request"]
  obtain error where out: "transmit_message_with_timeout drv (ctr_message request) outcome = Inl error"
    by (cases "transmit_message_with_timeout drv (ctr_message request) outcome") auto
  obtain u c where fail: "transmit_failed ops (ctr_message request) error (t, others b) = (u, c)"
    by (cases "transmit_failed ops (ctr_message request) error (t, others b)")
  from quiet_transmit_failed [OF fail] have tu: "quiet t u" .
  obtain next_safety q where "try_receive (can_tx_ops ops) (bd_can_safety_tx c) = (next_safety, q)"
    by (cases "try_receive (can_tx_ops ops) (bd_can_safety_tx c)")
  with Cons.prems(1) e out fail
  have "t' = u \<or> (\<exists>r. transmit_loop drv ops script r (u, c\<lparr>bd_can_safety_tx := q\<rparr>) = Some (t', b'))"
    by (auto simp: Let_def split: option.splits)
  with Cons.IH [of _ u] Cons.prems(2) tu show ?case by (auto intro: quiet_trans)
qed simp

text \<open>A run of the task: iterations with what woke them, the closing reading and the time.\<close>

type_synonym ('l, 'c, 'r, 'g) can_schedule = "(('l, 'c, 'r, 'g) wakeup \<times> can_reading \<times> u64) list"

fun can_run ::
  "can_driver \<Rightarrow> ('l, 'c, 'r, 'g) board_ops \<Rightarrow> ('l, 'c, 'r, 'g) can_schedule \<Rightarrow>
   can_task \<times> ('l, 'c, 'r, 'g) board \<Rightarrow> (can_task \<times> ('l, 'c, 'r, 'g) board) option" where
  "can_run drv ops [] s = Some s"
| "can_run drv ops ((wakeup, r, now_ms) # rest) s =
     Option.bind (can_iteration drv ops wakeup r now_ms s) (can_run drv ops rest)"

fun silent :: "('l, 'c, 'r, 'g) wakeup \<Rightarrow> bool" where
  "silent (RequestReady script) \<longleftrightarrow> list_all (\<lambda>e. snd e \<noteq> TwaiDone) script"
| "silent (FrameReceived frame received_ms) \<longleftrightarrow> False"
| "silent (HealthTick r) \<longleftrightarrow> True"
| "silent (ReceiveFailed error) \<longleftrightarrow> True"

lemma quiet_iteration:
  assumes run: "can_iteration drv ops wakeup r now_ms (t, b) = Some (t', b')" and silent: "silent wakeup"
  shows "quiet t t'"
proof -
  from run obtain c where wake: "handle_wakeup drv ops wakeup (t, b) = Some (t', c)"
    by (auto simp: can_iteration_def finish_iteration_def Let_def split: option.splits prod.splits)
  show ?thesis
  proof (cases wakeup)
    case (HealthTick r)
    with wake show ?thesis
      by (auto simp: Let_def publish_health_def intro: quiet_recover quiet_same split: if_splits)
  next
    case (RequestReady script)
    with wake silent show ?thesis
      by (auto simp: list_all_iff split: option.splits prod.splits intro: quiet_transmit_loop)
  next
    case (FrameReceived frame received_ms)
    with silent show ?thesis by simp
  next
    case (ReceiveFailed error)
    with wake show ?thesis
      by (cases error) (auto simp: Let_def intro: quiet_recover quiet_same)
  qed
qed

text \<open>
  C32. An outage restarts the controller once: over any run of the task in which nothing is
  received and no transmission succeeds, with any number of bus-off reports, timeouts and failed
  transmissions, \<open>can.stop().start()\<close> is called at most once, and not at all when the task had
  already noticed the outage.
\<close>

theorem one_restart_per_outage:
  assumes "can_run drv ops schedule (t, b) = Some (t', b')" "list_all (\<lambda>(wakeup, _). silent wakeup) schedule"
  shows "ct_restarts t' \<le> ct_restarts t + 1 \<and>
    (runtime_up (ct_runtime_state t) \<or> ct_restarts t' = ct_restarts t) \<and>
    (ct_restarts t' \<noteq> ct_restarts t \<longrightarrow> \<not> runtime_up (ct_runtime_state t'))"
proof -
  have "quiet t t'" using assms
  proof (induction schedule arbitrary: t b)
    case (Cons step rest)
    obtain wakeup r now_ms where step: "step = (wakeup, r, now_ms)" by (cases step)
    with Cons.prems(1) obtain u c where u: "can_iteration drv ops wakeup r now_ms (t, b) = Some (u, c)"
      "can_run drv ops rest (u, c) = Some (t', b')" by (auto simp: bind_eq_Some_conv)
    with Cons.IH [OF u(2)] Cons.prems(2) step quiet_iteration [OF u(1)] show ?case
      by (auto intro: quiet_trans)
  qed simp
  then show ?thesis by (auto simp: quiet_def split: if_splits)
qed

subsection \<open>A concrete outage\<close>

text \<open>
  A command waits when the bus is found dead: two health ticks report bus-off, the transmission
  times out, the receiver reports bus-off again.
\<close>

definition demo_outage :: "(lora_tx_envelope list_queue, can_tx_request list_queue,
    raw_can_record list_queue, gnss_command list_queue) can_schedule" where
  "demo_outage =
     (let dead = \<lparr>rd_tec = 255, rd_rec = 0, rd_bus_off = True\<rparr>
      in [(HealthTick dead, dead, 100), (HealthTick dead, dead, 200),
          (RequestReady [(\<lambda>b. b, TwaiTimedOut)], dead, 220), (ReceiveFailed TwaiBusOff, dead, 230)])"

definition demo_waiting :: list_board where
  "demo_waiting = list_start\<lparr>bd_can_tx := (8, [\<lparr>ctr_message = LiftoffEmergencyStop 7\<rparr>])\<rparr>"

lemma one_restart_per_outage_witness:
  "case can_run reference_driver list_ops demo_outage (initial_can_task, demo_waiting) of
     None \<Rightarrow> False
   | Some (t, b) \<Rightarrow> ct_restarts t = 1 \<and> ct_restarts t \<le> ct_restarts initial_can_task + 1"
proof -
  have run: "case can_run reference_driver list_ops demo_outage (initial_can_task, demo_waiting) of
      None \<Rightarrow> False | Some (t, b) \<Rightarrow> ct_restarts t = 1"
    and silent: "list_all (\<lambda>(wakeup, _). silent wakeup) demo_outage"
    by code_simp+
  from run obtain t b where "can_run reference_driver list_ops demo_outage (initial_can_task, demo_waiting) = Some (t, b)"
    "ct_restarts t = 1" by (auto split: option.splits)
  with one_restart_per_outage [OF this(1) silent] show ?thesis by simp
qed

end
