(* ===== verification/CanDump.thy ===== *)
theory CanDump
  imports CanQueues
begin

section \<open>A recovery dump from the CAN bus to the radio queue\<close>

text \<open>
  The assembler of src/can/recovery.rs, the frame handler and the queue of the radio composed:
  the chunks that leave the board carry exactly the dumped bytes.
\<close>

subsection \<open>A dump on its way to the radio\<close>

text \<open>
  While a dump is received the radio task takes chunks from the queue. A run is a sequence of
  received fragments, each a CAN frame with its time, and of chunks taken; the first component
  of the state is what the radio has taken so far.
\<close>

datatype dump_event = FragmentArrives recovery_log_data u64 | RadioTakes

definition frame_of :: "can_rx_message \<Rightarrow> twai_frame" where
  "frame_of m = \<lparr>fr_id = StandardId (fst (wire_rx m)), fr_data = snd (wire_rx m)\<rparr>"

definition deliver ::
  "('l, 'c, 'r, 'g) board_ops \<Rightarrow> can_rx_message \<Rightarrow> u64 \<Rightarrow> ('l, 'c, 'r, 'g) board \<Rightarrow> ('l, 'c, 'r, 'g) board" where
  "deliver ops m now b = snd (handle_received_frame ops (frame_of m) now None b)"

fun run_dump ::
  "('l, 'c, 'r, 'g) board_ops \<Rightarrow> dump_event list \<Rightarrow> lora_tx_envelope list \<times> ('l, 'c, 'r, 'g) board \<Rightarrow>
   lora_tx_envelope list \<times> ('l, 'c, 'r, 'g) board" where
  "run_dump ops [] s = s"
| "run_dump ops (FragmentArrives f now # events) (taken, b) =
     run_dump ops events (taken, deliver ops (RxRecoveryLogData f) now b)"
| "run_dump ops (RadioTakes # events) (taken, b) =
     (case try_receive (lora_ops ops) (bd_recovery_chunks b) of (e, q) \<Rightarrow>
        run_dump ops events
          (case e of None \<Rightarrow> taken | Some e \<Rightarrow> taken @ [e], b\<lparr>bd_recovery_chunks := q\<rparr>))"

text \<open>The radio keeps up: the queue has room whenever a fragment arrives and at the end.\<close>

fun keeps_up ::
  "('l, 'c, 'r, 'g) board_ops \<Rightarrow> dump_event list \<Rightarrow> ('l, 'c, 'r, 'g) board \<Rightarrow> bool" where
  "keeps_up ops [] b \<longleftrightarrow> \<not> is_full (lora_ops ops) (bd_recovery_chunks b)"
| "keeps_up ops (FragmentArrives f now # events) b \<longleftrightarrow>
     \<not> is_full (lora_ops ops) (bd_recovery_chunks b) \<and>
     keeps_up ops events (deliver ops (RxRecoveryLogData f) now b)"
| "keeps_up ops (RadioTakes # events) b \<longleftrightarrow>
     keeps_up ops events (b\<lparr>bd_recovery_chunks := snd (try_receive (lora_ops ops) (bd_recovery_chunks b))\<rparr>)"

fun fragments :: "dump_event list \<Rightarrow> recovery_log_data list" where
  "fragments [] = []"
| "fragments (FragmentArrives f _ # events) = f # fragments events"
| "fragments (RadioTakes # events) = fragments events"

definition chunk_packet :: "recovery_chunk \<Rightarrow> application_packet" where
  "chunk_packet c = PRecoveryLogData
     \<lparr>rlp_transfer_id = ch_transfer_id c, rlp_source = (ch_source c = MissionSdLatestFlight),
      rlp_end_of_file = ch_end_of_file c, rlp_offset = ch_offset c,
      rlp_data_length = ch_data_length c, rlp_data = ch_data c\<rparr>"

definition chunk_envelope :: "recovery_chunk \<Rightarrow> lora_tx_envelope" where
  "chunk_envelope c = envelope (chunk_packet c) SrcRecovery"

definition chunk_fits :: "recovery_chunk \<Rightarrow> bool" where
  "chunk_fits c \<longleftrightarrow> packet_typed (chunk_packet c) \<and> in_range (chunk_packet c)"

lemma queue_recovery_chunk_room:
  assumes chan: "fifo_channel (lora_ops ops) contents capacity"
    and fits: "chunk_fits c" and room: "\<not> is_full (lora_ops ops) (bd_recovery_chunks b)"
  obtains q where "queue_recovery_chunk ops c b = (True, b\<lparr>bd_recovery_chunks := q\<rparr>)"
    "contents q = contents (bd_recovery_chunks b) @ [envelope (chunk_packet c) SrcRecovery]"
    "capacity q = capacity (bd_recovery_chunks b)"
proof -
  let ?e = "envelope (chunk_packet c) SrcRecovery" and ?q = "bd_recovery_chunks b"
  obtain f where f: "encode (chunk_packet c) = Inr f"
    using encode_in_range fits by (auto simp: chunk_fits_def)
  then have e: "queued_envelope f SrcRecovery = ?e" by (simp add: envelope_def)
  have "fst (try_send (lora_ops ops) ?e ?q)"
    "contents (snd (try_send (lora_ops ops) ?e ?q)) = contents ?q @ [?e]"
    "capacity (snd (try_send (lora_ops ops) ?e ?q)) = capacity ?q"
    using room by (simp_all add: fifo_channel.laws [OF chan])
  with f e that [of "snd (try_send (lora_ops ops) ?e ?q)"] show ?thesis
    by (simp add: queue_recovery_chunk_def chunk_packet_def [symmetric] split_beta)
qed

lemma fail_recovery_transfer_effect:
  "bd_recovery_chunks (fail_recovery_transfer ops reason stop b) = bd_recovery_chunks b"
  "\<not> asm_active (bd_assembler (fail_recovery_transfer ops reason stop b))"
  "asm_transfer_id (bd_assembler (fail_recovery_transfer ops reason stop b)) = asm_transfer_id (bd_assembler b)"
  by (auto simp: fail_recovery_transfer_def asm_abort_def untouched Let_def
      split: option.split prod.split)

lemma deliver_fragment:
  assumes "length (rl_data f) = 6"
  obtains b1 where "deliver ops (RxRecoveryLogData f) now b = receive_recovery_log_data ops f b1"
    "bd_recovery_chunks b1 = bd_recovery_chunks b" "bd_assembler b1 = bd_assembler b"
proof -
  let ?m = "RxRecoveryLogData f"
  have "decode_standard 0x106 (snd (wire_rx ?m)) = Inr ?m"
    using decode_recovery_log_data_wire [of "snd (wire_rx ?m)" ?m] assms by simp
  then have "deliver ops ?m now b = receive_recovery_log_data ops f
      ((log_raw_frame ops 0x106 (snd (wire_rx ?m)) now b)\<lparr>bd_cache := snd (update_cache ?m now
          (bd_cache (log_raw_frame ops 0x106 (snd (wire_rx ?m)) now b)))\<rparr>)"
    by (simp add: deliver_def frame_of_def handle_received_frame_def apply_received_message_def
        signals_control_roll_def Let_def)
  with that show ?thesis by (simp add: untouched)
qed

lemma deliver_status:
  obtains b1 where "deliver ops (RxRecoveryStatus s) now b = receive_recovery_status ops s b1"
    "bd_recovery_chunks b1 = bd_recovery_chunks b" "bd_assembler b1 = bd_assembler b"
proof -
  let ?m = "RxRecoveryStatus s"
  have "decode_standard 0x105 (snd (wire_rx ?m)) = Inr ?m"
    using decode_recovery_status_wire [of "snd (wire_rx ?m)" ?m] by simp
  then have "deliver ops ?m now b = receive_recovery_status ops s
      ((log_raw_frame ops 0x105 (snd (wire_rx ?m)) now b)\<lparr>bd_cache := snd (update_cache ?m now
          (bd_cache (log_raw_frame ops 0x105 (snd (wire_rx ?m)) now b)))\<rparr>)"
    by (simp add: deliver_def frame_of_def handle_received_frame_def apply_received_message_def
        signals_control_roll_def Let_def)
  with that show ?thesis by (simp add: untouched)
qed

lemma push_loop_transfer_id:
  "push_loop data len source emitted a = (c, a') \<Longrightarrow> asm_transfer_id a' = asm_transfer_id a"
proof (induction data len source emitted a rule: push_loop.induct)
  case (1 data len source emitted a)
  show ?case
  proof (cases "source < len")
    case False
    with "1.prems" show ?thesis by (subst (asm) push_loop.simps) simp
  next
    case True
    from "1.prems" show ?thesis
      apply (subst (asm) push_loop.simps)
      using "1.IH" [OF True refl refl refl refl] True
      by (auto simp: Let_def take_chunk_def split: if_splits)
  qed
qed

lemma push_transfer_id: "push a f = (r, a') \<Longrightarrow> asm_transfer_id a' = asm_transfer_id a"
  by (auto simp: push_def take_chunk_def Let_def split: if_splits prod.splits
      dest: push_loop_transfer_id)

lemma asm_abort_untouched: "asm_transfer_id (snd (asm_abort a)) = asm_transfer_id a" "\<not> asm_active (snd (asm_abort a))"
  by (simp_all add: asm_abort_def)

text \<open>What is queued and what is still to come do not change when a fragment is delivered.\<close>

lemma deliver_fragment_step:
  assumes chan: "fifo_channel (lora_ops ops) contents capacity"
    and f: "length (rl_data f) = 6" and room: "\<not> is_full (lora_ops ops) (bd_recovery_chunks b)"
    and fits: "\<forall>c \<in> set (receive (bd_assembler b) (f # fs)). chunk_fits c"
    and b': "b' = deliver ops (RxRecoveryLogData f) now b"
  shows "contents (bd_recovery_chunks b') @ map chunk_envelope (receive (bd_assembler b') fs) =
      contents (bd_recovery_chunks b) @ map chunk_envelope (receive (bd_assembler b) (f # fs))"
    "asm_transfer_id (bd_assembler b') = asm_transfer_id (bd_assembler b)"
    "\<forall>c \<in> set (receive (bd_assembler b') fs). chunk_fits c"
proof -
  obtain b1 where b1: "b' = receive_recovery_log_data ops f b1"
    "bd_recovery_chunks b1 = bd_recovery_chunks b" "bd_assembler b1 = bd_assembler b"
    using deliver_fragment [OF f, of ops now b] b' by metis
  obtain r a' where p: "push (bd_assembler b) f = (r, a')" by (cases "push (bd_assembler b) f")
  note tid = push_transfer_id [OF p]
  have "contents (bd_recovery_chunks b') @ map chunk_envelope (receive (bd_assembler b') fs) =
      contents (bd_recovery_chunks b) @ map chunk_envelope (receive (bd_assembler b) (f # fs)) \<and>
    asm_transfer_id (bd_assembler b') = asm_transfer_id (bd_assembler b) \<and>
    (\<forall>c \<in> set (receive (bd_assembler b') fs). chunk_fits c)"
  proof (cases r)
    case (Inl e)
    with p b1 have "b' = fail_recovery_transfer ops ProtocolErrorReason True (b1\<lparr>bd_assembler := a'\<rparr>)"
      by (simp add: receive_recovery_log_data_def)
    with b1(2,3) p Inl tid show ?thesis by (simp add: fail_recovery_transfer_effect receive_inactive)
  next
    case (Inr emitted)
    show ?thesis
    proof (cases emitted)
      case None
      with Inr p b1 tid fits show ?thesis by (simp add: receive_recovery_log_data_def)
    next
      case (Some c)
      with Inr p fits have c: "chunk_fits c" by simp
      have "\<not> is_full (lora_ops ops) (bd_recovery_chunks (b1\<lparr>bd_assembler := a'\<rparr>))"
        using room b1 by simp
      from queue_recovery_chunk_room [OF chan c this] obtain q where
        "queue_recovery_chunk ops c (b1\<lparr>bd_assembler := a'\<rparr>) =
           (True, b1\<lparr>bd_assembler := a', bd_recovery_chunks := q\<rparr>)"
        "contents q = contents (bd_recovery_chunks b) @ [chunk_envelope c]"
        using b1 by (auto simp: chunk_envelope_def)
      with Some Inr p b1 tid fits show ?thesis by (simp add: receive_recovery_log_data_def)
    qed
  qed
  then show "contents (bd_recovery_chunks b') @ map chunk_envelope (receive (bd_assembler b') fs) =
      contents (bd_recovery_chunks b) @ map chunk_envelope (receive (bd_assembler b) (f # fs))"
    "asm_transfer_id (bd_assembler b') = asm_transfer_id (bd_assembler b)"
    "\<forall>c \<in> set (receive (bd_assembler b') fs). chunk_fits c"
    by blast+
qed

lemma apply_session_status_untouched [untouched]:
  "bd_recovery_chunks (apply_session_status ops s b) = bd_recovery_chunks b"
  "bd_assembler (apply_session_status ops s b) = bd_assembler b"
  by (simp_all add: apply_session_status_def untouched Let_def split: prod.split option.split)

lemma deliver_complete:
  assumes chan: "fifo_channel (lora_ops ops) contents capacity"
    and s: "rs_status s = RsComplete" "rs_transfer_id s = asm_transfer_id (bd_assembler b)"
    and room: "\<not> is_full (lora_ops ops) (bd_recovery_chunks b)"
    and fits: "\<forall>c \<in> set (receive (bd_assembler b) []). chunk_fits c"
    and b': "b' = deliver ops (RxRecoveryStatus s) now b"
  shows "contents (bd_recovery_chunks b') =
    contents (bd_recovery_chunks b) @ map chunk_envelope (receive (bd_assembler b) [])"
proof -
  obtain b1 where b1: "b' = receive_recovery_status ops s b1"
    "bd_recovery_chunks b1 = bd_recovery_chunks b" "bd_assembler b1 = bd_assembler b"
    using deliver_status [of ops s now b] b' by metis
  define a where "a = set_total_size (bd_assembler b) (rs_transfer_id s) (rs_total_size s)"
  have same: "fst (finish a (rs_transfer_id s)) = fst (finish (bd_assembler b) (asm_transfer_id (bd_assembler b)))"
    by (simp add: a_def s set_total_size_def finish_def take_chunk_def)
  obtain r a' where fin: "finish a (rs_transfer_id s) = (r, a')" by (cases "finish a (rs_transfer_id s)")
  have fin1: "finish (set_total_size (bd_assembler b1) (rs_transfer_id s) (rs_total_size s)) (rs_transfer_id s) = (r, a')"
    using fin by (simp add: a_def b1(3))
  have r: "receive (bd_assembler b) [] = (case r of None \<Rightarrow> [] | Some c \<Rightarrow> [c])"
    using same fin by (cases "finish (bd_assembler b) (asm_transfer_id (bd_assembler b))")
      (auto split: option.split)
  show ?thesis
  proof (cases r)
    case None
    with b1(1,2) s(1) fin1 r show ?thesis
      by (simp add: receive_recovery_status_def untouched del: receive.simps)
  next
    case (Some c)
    with fits r have c: "chunk_fits c" by (simp del: receive.simps)
    have "\<not> is_full (lora_ops ops) (bd_recovery_chunks (b1\<lparr>bd_assembler := a'\<rparr>))"
      using room b1 by simp
    from queue_recovery_chunk_room [OF chan c this] obtain q where
      "queue_recovery_chunk ops c (b1\<lparr>bd_assembler := a'\<rparr>) =
         (True, b1\<lparr>bd_assembler := a', bd_recovery_chunks := q\<rparr>)"
      "contents q = contents (bd_recovery_chunks b) @ [chunk_envelope c]"
      using b1 by (auto simp: chunk_envelope_def)
    with Some b1(1,2) s(1) fin1 r show ?thesis
      by (simp add: receive_recovery_status_def untouched del: receive.simps)
  qed
qed

lemma run_dump_queue:
  assumes chan: "fifo_channel (lora_ops ops) contents capacity"
  shows "\<forall>f \<in> set (fragments events). length (rl_data f) = 6 \<Longrightarrow> keeps_up ops events b \<Longrightarrow>
    \<forall>c \<in> set (receive (bd_assembler b) (fragments events)). chunk_fits c \<Longrightarrow>
    run_dump ops events (taken, b) = (taken', b1) \<Longrightarrow>
    taken' @ contents (bd_recovery_chunks b1) @ map chunk_envelope (receive (bd_assembler b1) []) =
      taken @ contents (bd_recovery_chunks b) @ map chunk_envelope (receive (bd_assembler b) (fragments events)) \<and>
    asm_transfer_id (bd_assembler b1) = asm_transfer_id (bd_assembler b) \<and>
    \<not> is_full (lora_ops ops) (bd_recovery_chunks b1) \<and>
    (\<forall>c \<in> set (receive (bd_assembler b1) []). chunk_fits c)"
proof (induction events arbitrary: b taken)
  case (Cons event events)
  show ?case
  proof (cases event)
    case (FragmentArrives f now)
    let ?b = "deliver ops (RxRecoveryLogData f) now b"
    from Cons.prems FragmentArrives
    have prems: "length (rl_data f) = 6" "\<not> is_full (lora_ops ops) (bd_recovery_chunks b)"
      "\<forall>c \<in> set (receive (bd_assembler b) (f # fragments events)). chunk_fits c"
      "keeps_up ops events ?b" "run_dump ops events (taken, ?b) = (taken', b1)"
      "\<forall>f \<in> set (fragments events). length (rl_data f) = 6"
      by simp_all
    note step = deliver_fragment_step [OF chan prems(1-3) refl, of now]
    from Cons.IH [OF prems(6,4) step(3) prems(5)] step(1,2) FragmentArrives show ?thesis
      by (simp del: receive.simps)
  next
    case RadioTakes
    let ?q = "bd_recovery_chunks b"
    obtain e q where q: "try_receive (lora_ops ops) ?q = (e, q)" by (cases "try_receive (lora_ops ops) ?q")
    have items: "e = (case contents ?q of [] \<Rightarrow> None | x # _ \<Rightarrow> Some x)" "contents q = tl (contents ?q)"
      using fifo_channel.receive_item [OF chan, of ?q] fifo_channel.receive_contents [OF chan, of ?q] q
      by simp_all
    let ?taken = "case e of None \<Rightarrow> taken | Some e \<Rightarrow> taken @ [e]"
    have "?taken @ contents q = taken @ contents ?q"
      using items by (cases "contents ?q") simp_all
    with Cons.IH [of "b\<lparr>bd_recovery_chunks := q\<rparr>" ?taken] Cons.prems RadioTakes q show ?thesis
      by (simp del: receive.simps)
  qed
qed (simp del: receive.simps)

lemma carries_fits:
  "carries tid src off bs cs \<Longrightarrow> off + length bs < 2 ^ 24 \<Longrightarrow> c \<in> set cs \<Longrightarrow> chunk_fits c"
proof (induction cs arbitrary: off bs)
  case (Cons d cs)
  have head: "unat (ch_data_length d) \<le> 16" "unat (ch_offset d) < 2 ^ 24" "length (ch_data d) = 16"
    using Cons.prems(1,2) by (auto simp: Let_def)
  then have "ch_data_length d \<le> 16" "ch_offset d \<le> 0xffffff"
    by (simp_all add: word_le_nat_alt)
  with head have d: "chunk_fits d" by (simp add: chunk_fits_def chunk_packet_def packet_typed_def)
  show ?case
  proof (cases "c = d")
    case False
    with Cons.prems have cs: "c \<in> set cs" "carries tid src (off + 16) (drop 16 bs) cs" "16 \<le> length bs"
      by (auto simp: Let_def split: if_splits)
    with Cons.IH [OF cs(2) _ cs(1)] Cons.prems(2) show ?thesis by simp
  qed (use d in simp)
qed simp

lemma consecutive_lengths:
  "consecutive tid s fs \<Longrightarrow> (\<forall>f \<in> set fs. length (rl_data f) = 6) \<and> length (concat (map rl_data fs)) = 6 * length fs"
  by (induction fs arbitrary: s) auto

text \<open>
  C26. A dump reaches the radio: the fragments of a transfer arrive in sequence as CAN frames,
  with the radio task taking chunks at any moments and the queue never full when a frame
  arrives, and the Mission board's Complete status ends it. Then what the radio took followed by
  what is still queued is what was queued before followed by the chunks of the transfer, and
  they carry exactly the dumped bytes, contiguous from the requested offset and up to the
  requested length; the ground reads every chunk out of its packet.
\<close>

theorem dump_reaches_radio:
  assumes "fifo_channel (lora_ops ops) contents capacity"
    and "bd_assembler b = asm_start a tid src offset requested"
    and "consecutive tid s (fragments events)" and "unat offset + 6 * length (fragments events) < 2 ^ 24"
    and "keeps_up ops events b" and "run_dump ops events ([], b) = (taken, b1)"
    and "rs_status status = RsComplete" and "rs_transfer_id status = tid"
    and "b2 = deliver ops (RxRecoveryStatus status) now b1"
  defines "dumped \<equiv> concat (map rl_data (fragments events))"
  shows "\<exists>chunks. taken @ contents (bd_recovery_chunks b2) =
        contents (bd_recovery_chunks b) @ map chunk_envelope chunks \<and>
      carries tid src (unat offset) (if requested = 0 then dumped else take (unat requested) dumped) chunks \<and>
      (\<forall>c \<in> set chunks. ground_reads (chunk_envelope c) = Some (chunk_packet c))"
proof -
  let ?bytes = "if requested = 0 then dumped else take (unat requested) dumped"
  let ?chunks = "receive (bd_assembler b) (fragments events)"
  have len: "length dumped = 6 * length (fragments events)" "\<forall>f \<in> set (fragments events). length (rl_data f) = 6"
    using consecutive_lengths [OF assms(3)] by (auto simp: dumped_def)
  have carries: "carries tid src (unat offset) ?bytes ?chunks"
    unfolding dumped_def assms(2) by (rule start_carries [OF assms(3)]) (use assms(4) in simp)
  have "unat offset + length ?bytes < 2 ^ 24" using assms(4) len(1) by (simp add: min_def)
  with carries_fits [OF carries] have fits: "\<forall>c \<in> set ?chunks. chunk_fits c" by blast
  note run = run_dump_queue [OF assms(1) len(2) assms(5) fits assms(6)]
  have "asm_transfer_id (bd_assembler b1) = tid" using run assms(2) by (simp add: asm_start_def del: receive.simps)
  with deliver_complete [OF assms(1,7) _ _ _ assms(9)] run assms(8)
  have "taken @ contents (bd_recovery_chunks b2) = contents (bd_recovery_chunks b) @ map chunk_envelope ?chunks"
    by (simp del: receive.simps)
  moreover have "ground_reads (chunk_envelope c) = Some (chunk_packet c)" if "c \<in> set ?chunks" for c
    using fits that ground_reads_envelope by (auto simp: chunk_fits_def chunk_envelope_def)
  ultimately show ?thesis using carries by blast
qed

subsection \<open>A concrete dump\<close>

definition demo_dump :: "dump_event list" where
  "demo_dump = [FragmentArrives (demo_fragment 254) 10, FragmentArrives (demo_fragment 255) 20,
     FragmentArrives (demo_fragment 0) 30, RadioTakes, FragmentArrives (demo_fragment 1) 40]"

definition demo_dump_board :: list_board where
  "demo_dump_board = list_start\<lparr>bd_assembler := asm_start new_assembler 5 InternalFlash 100 0\<rparr>"

definition demo_complete :: recovery_status where
  "demo_complete = \<lparr>rs_opcode = OpStartLogDump, rs_transfer_id = 5, rs_status = RsComplete,
     rs_source = InternalFlash, rs_total_size = 24\<rparr>"

lemma dump_reaches_radio_witness:
  "case run_dump list_ops demo_dump ([], demo_dump_board) of (taken, b) \<Rightarrow>
     length taken = 1 \<and>
     (\<exists>chunks. taken @ snd (bd_recovery_chunks (deliver list_ops (RxRecoveryStatus demo_complete) 50 b)) =
        map chunk_envelope chunks \<and>
        carries 5 InternalFlash 100 (concat (map rl_data (fragments demo_dump))) chunks)"
proof -
  obtain taken b where run: "run_dump list_ops demo_dump ([], demo_dump_board) = (taken, b)"
    by (cases "run_dump list_ops demo_dump ([], demo_dump_board)")
  have facts: "keeps_up list_ops demo_dump demo_dump_board" "consecutive 5 254 (fragments demo_dump)"
    "length (fst (run_dump list_ops demo_dump ([], demo_dump_board))) = 1"
    by code_simp+
  have start: "bd_assembler demo_dump_board = asm_start new_assembler 5 InternalFlash 100 0"
    "snd (bd_recovery_chunks demo_dump_board) = []" "unat (100 :: u32) + 6 * length (fragments demo_dump) < 2 ^ 24"
    by (simp_all add: demo_dump_board_def list_start_def initial_board_def demo_dump_def)
  have "fifo_channel (lora_ops list_ops) snd fst" by (simp add: list_channel_fifo)
  from dump_reaches_radio [OF this start(1) facts(2) start(3) facts(1) run _ _ refl, of demo_complete 50] start(2)
  have "\<exists>chunks. taken @ snd (bd_recovery_chunks (deliver list_ops (RxRecoveryStatus demo_complete) 50 b)) =
        map chunk_envelope chunks \<and>
      carries 5 InternalFlash 100 (concat (map rl_data (fragments demo_dump))) chunks"
    by (simp add: demo_complete_def) blast
  with facts(3) show ?thesis by (simp add: run)
qed

end
