(* ===== verification/CanStatus.thy ===== *)
theory CanStatus
  imports CanQueues
begin

section \<open>The recovery beacon and the published error state\<close>

text \<open>
  Which received frames switch the recovery beacon, and what the error flag and the health
  code that the board publishes say about the link.
\<close>

subsection \<open>The recovery beacon\<close>

lemma apply_session_status_beacon:
  "bd_recovery_beacon_active (apply_session_status ops s b) =
     (bd_recovery_beacon_active b \<and>
      \<not> (\<exists>r. fst (apply_status (bd_session b) s) = Some r \<and> cr_command r = LOCAL_EXIT_RECOVERY_COMMAND \<and>
           cr_phase r = Completed \<and> cr_reason r = NoReason))"
  by (auto simp: apply_session_status_def untouched Let_def split_beta split: option.split)

lemma queue_recovery_chunk_untouched [untouched]:
  "bd_recovery_beacon_active (snd (queue_recovery_chunk ops c b)) = bd_recovery_beacon_active b"
  "bd_session (snd (queue_recovery_chunk ops c b)) = bd_session b"
  by (simp_all add: queue_recovery_chunk_def Let_def split_beta split: sum.split)

lemma fail_recovery_transfer_beacon [untouched]:
  "bd_recovery_beacon_active (fail_recovery_transfer ops reason stop b) = bd_recovery_beacon_active b"
  by (auto simp: fail_recovery_transfer_def untouched Let_def split_beta split: option.split)

lemma receive_recovery_status_beacon:
  "bd_recovery_beacon_active (receive_recovery_status ops s b) \<noteq> bd_recovery_beacon_active b \<Longrightarrow>
   bd_recovery_beacon_active b \<and> (\<exists>r. fst (apply_status (bd_session b) s) = Some r \<and>
     cr_command r = LOCAL_EXIT_RECOVERY_COMMAND \<and> cr_phase r = Completed \<and> cr_reason r = NoReason)"
  by (auto simp: receive_recovery_status_def apply_session_status_beacon untouched Let_def split_beta
      split: option.splits if_splits)

lemma receive_recovery_log_data_beacon [untouched]:
  "bd_recovery_beacon_active (receive_recovery_log_data ops f b) = bd_recovery_beacon_active b"
  by (auto simp: receive_recovery_log_data_def untouched Let_def split_beta split: sum.split option.split)

lemma receive_command_result_beacon [untouched]:
  "bd_recovery_beacon_active (receive_command_result ops r b) = bd_recovery_beacon_active b"
  by (simp add: receive_command_result_def untouched Let_def split_beta)

lemma queue_ground_time_request_beacon [untouched]:
  "bd_recovery_beacon_active (snd (queue_ground_time_request ops k previous b)) = bd_recovery_beacon_active b"
  by (simp add: queue_ground_time_request_def Let_def split_beta split: sum.split)

lemma apply_received_message_beacon:
  "bd_recovery_beacon_active (snd (apply_received_message ops m now previous b)) \<noteq> bd_recovery_beacon_active b \<Longrightarrow>
   bd_recovery_beacon_active b \<and> (\<exists>s r. m = RxRecoveryStatus s \<and> fst (apply_status (bd_session b) s) = Some r \<and>
     cr_command r = LOCAL_EXIT_RECOVERY_COMMAND \<and> cr_phase r = Completed \<and> cr_reason r = NoReason)"
proof (cases m)
  case (RxRecoveryStatus s)
  then show "bd_recovery_beacon_active (snd (apply_received_message ops m now previous b)) \<noteq> bd_recovery_beacon_active b \<Longrightarrow> ?thesis"
    using receive_recovery_status_beacon [of ops s "b\<lparr>bd_cache := snd (update_cache m now (bd_cache b))\<rparr>"]
    by (simp add: apply_received_message_def signals_control_roll_def)
qed (auto simp: apply_received_message_def signals_control_roll_def untouched Let_def split: if_splits)

lemma apply_status_completed:
  assumes "fst (apply_status session s) = Some r" "cr_phase r = Completed"
  obtains p where "rec_pending session = Some p" "prec_command p = cr_command r"
    "prec_transaction_id p = rs_transfer_id s" "prec_opcode p = rs_opcode s" "prec_source p = rs_source s"
    "rs_status s \<in> {RsReady, RsComplete} \<or> rs_status s = RsAborted \<and> rs_opcode s = OpStopLogDump"
  using assms by (cases "rs_status s")
    (auto simp: apply_status_def split: option.splits if_splits)

text \<open>
  What switches the recovery beacon: a received frame turns it on only if it is a
  well-formed EnterRecoveryBeacon command (identifier 0x014, mode 1, reason at most 3), and off
  only if it is a RecoveryStatus that reports success for the pending ExitRecovery command of
  the ground. No other frame changes it.
\<close>

theorem beacon_switched_only_by:
  assumes "bd_recovery_beacon_active (snd (handle_received_frame ops frame now previous b)) \<noteq>
      bd_recovery_beacon_active b"
  shows "if bd_recovery_beacon_active b
    then \<exists>s p. fr_id frame = StandardId CAN_ID_RECOVERY_STATUS \<and>
        decode_standard CAN_ID_RECOVERY_STATUS (fr_data frame) = Inr (RxRecoveryStatus s) \<and>
        rec_pending (bd_session b) = Some p \<and> prec_command p = LOCAL_EXIT_RECOVERY_COMMAND \<and>
        prec_transaction_id p = rs_transfer_id s \<and> prec_opcode p = rs_opcode s \<and>
        (rs_status s \<in> {RsReady, RsComplete} \<or> rs_status s = RsAborted \<and> rs_opcode s = OpStopLogDump)
    else \<exists>sequence reason. frame = \<lparr>fr_id = StandardId 0x014, fr_data = [sequence, 1, reason]\<rparr> \<and> reason \<le> 3"
proof (cases "fr_id frame")
  case (ExtendedId w)
  with assms show ?thesis by (simp add: handle_received_frame_def)
next
  case (StandardId w)
  show ?thesis
  proof (cases "w = 0x014")
    case True
    have mode: "bd_recovery_beacon_active b1 = bd_recovery_beacon_active b \<Longrightarrow>
        bd_recovery_beacon_active
          (case handle_recovery_mode_command (fr_data frame) b1 of (entered, b) \<Rightarrow>
             case entered of
               Some True \<Rightarrow> signal_control_roll (b\<lparr>bd_cache := clear_recovery_power_snapshot (bd_cache b)\<rparr>)
             | Some False \<Rightarrow> b
             | None \<Rightarrow> count can_rx_error_count_update b) \<noteq> bd_recovery_beacon_active b \<Longrightarrow>
        \<not> bd_recovery_beacon_active b \<and> length (fr_data frame) = 3 \<and> fr_data frame ! 1 = 1 \<and>
          fr_data frame ! 2 \<le> 3" for b1
      by (auto simp: handle_recovery_mode_command_def split: if_splits bool.splits)
    from assms StandardId True
    have "\<not> bd_recovery_beacon_active b \<and> length (fr_data frame) = 3 \<and> fr_data frame ! 1 = 1 \<and>
        fr_data frame ! 2 \<le> 3"
      by (intro mode [of "log_raw_frame ops 0x014 (fr_data frame) now b"])
        (auto simp: handle_received_frame_def untouched Let_def split_beta)
    moreover from this obtain x y z where "fr_data frame = [x, y, z]"
      by (auto simp: eval_nat_numeral length_Suc_conv)
    ultimately have "\<not> bd_recovery_beacon_active b" "fr_data frame = [x, 1, z]" "z \<le> 3" by simp_all
    then show ?thesis
      using StandardId True by (metis twai_frame.surjective old.unit.exhaust)
  next
    case False
    define b1 where "b1 = log_raw_frame ops w (fr_data frame) now b"
    have b1: "bd_recovery_beacon_active b1 = bd_recovery_beacon_active b" "bd_session b1 = bd_session b"
      by (simp_all add: b1_def untouched)
    define b2 where "b2 = (if w = 0x102 then b1\<lparr>bd_mission_status_invalid_at_ms := 0\<rparr> else b1)"
    have b2: "bd_recovery_beacon_active b2 = bd_recovery_beacon_active b" "bd_session b2 = bd_session b"
      using b1 by (simp_all add: b2_def)
    from False assms StandardId b1 obtain m where m: "decode_standard w (fr_data frame) = Inr m"
      "bd_recovery_beacon_active (snd (apply_received_message ops m now previous b2)) \<noteq> bd_recovery_beacon_active b2"
      unfolding b2(1)
      by (auto simp: handle_received_frame_def b1_def [symmetric] b2_def cache_device_health_def Let_def
          split: if_splits sum.splits option.splits)
    from apply_received_message_beacon [OF m(2)] b2
    obtain s r where "bd_recovery_beacon_active b" and s: "m = RxRecoveryStatus s"
      and r: "fst (apply_status (bd_session b) s) = Some r" "cr_command r = LOCAL_EXIT_RECOVERY_COMMAND"
        "cr_phase r = Completed" by auto
    moreover have "w = CAN_ID_RECOVERY_STATUS"
      using m(1) s by (auto simp: decode_standard_def decode_command_result_def Let_def split: if_splits)
    ultimately show ?thesis
      using StandardId m(1) s apply_status_completed [OF r(1,3)] r(2) by metis
  qed
qed

subsection \<open>The published error state\<close>

text \<open>
  What the board reports about the CAN link is exact: after an iteration of the task the
  error flag is clear exactly when the driver is in normal operation, the error counters are
  below the warning threshold and the controller is not bus-off, fewer than three transmissions
  and fewer than three receptions in a row have failed, and a MissionStatus of the last 300 ms
  is in the cache; a clear flag always comes with the health code 1 that the A8 packet sends.
\<close>

theorem error_flag_exact:
  assumes "can_iteration drv ops wakeup r now_ms s = Some (t, b)"
  shows "(\<not> bd_is_can_error b \<longleftrightarrow>
      ct_runtime_state t = RuntimeNormal \<and> \<not> rd_bus_off r \<and> rd_tec r < 96 \<and> rd_rec r < 96 \<and>
      ct_consecutive_tx_errors t < 3 \<and> ct_consecutive_rx_errors t < 3 \<and>
      (\<exists>v. lt_value (cc_mission_status (bd_cache b)) = Some v) \<and>
      lt_received_at_ms (cc_mission_status (bd_cache b)) \<le> now_ms \<and>
      now_ms - lt_received_at_ms (cc_mission_status (bd_cache b)) \<le> 300) \<and>
    (bd_is_can_error b \<or> bd_can_fallback_health b = 1) \<and>
    bd_can_tec b = rd_tec r \<and> bd_can_rec b = rd_rec r"
proof -
  have less: "\<not> (96 \<le> max x y) \<longleftrightarrow> x < 96 \<and> y < (96 :: u8)" "128 \<le> max x y \<Longrightarrow> 96 \<le> max x (y :: u8)" for x y
    by (auto simp: not_le max_def word_le_nat_alt word_less_nat_alt split: if_splits)
  have active: "classify_can_health tec rec bus_off = HealthActive \<longleftrightarrow> \<not> bus_off \<and> tec < 96 \<and> rec < 96"
    for tec rec bus_off
    using less [of tec rec]
    by (auto simp: classify_can_health_def CAN_ERROR_WARNING_THRESHOLD_def CAN_ERROR_PASSIVE_THRESHOLD_def Let_def)
  have fresh: "freshness_of l now_ms 300 = Fresh \<longleftrightarrow>
      (\<exists>v. lt_value l = Some v) \<and> lt_received_at_ms l \<le> now_ms \<and> now_ms - lt_received_at_ms l \<le> 300"
    for l :: "mission_status_telemetry latest"
    by (auto simp: freshness_of_def split: option.splits)
  let ?health = "classify_can_health (rd_tec r) (rd_rec r) (rd_bus_off r)"
  from assms obtain c where b: "b = publish_error_state (ct_runtime_state t) ?health
      (ct_consecutive_tx_errors t) (ct_consecutive_rx_errors t)
      (freshness_of (cc_mission_status (bd_cache c)) now_ms FRESHNESS_10_HZ_MS = Fresh)
      (publish_fallback_health (ct_runtime_state t) ?health
        (c\<lparr>bd_can_tec := rd_tec r, bd_can_rec := rd_rec r, bd_can_health := can_health_code ?health\<rparr>))"
    by (auto simp: can_iteration_def finish_iteration_def publish_health_def publish_fallback_health_def Let_def
        split: option.splits)
  have flag: "bd_is_can_error b \<longleftrightarrow> ct_runtime_state t \<noteq> RuntimeNormal \<or> ?health \<noteq> HealthActive \<or>
      3 \<le> ct_consecutive_tx_errors t \<or> 3 \<le> ct_consecutive_rx_errors t \<or>
      freshness_of (cc_mission_status (bd_cache b)) now_ms 300 \<noteq> Fresh"
    by (simp add: b publish_error_state_def publish_fallback_health_def FRESHNESS_10_HZ_MS_def)
  have "bd_can_fallback_health b = fallback_health_code (ct_runtime_state t) ?health"
    "bd_can_tec b = rd_tec r" "bd_can_rec b = rd_rec r"
    by (simp_all add: b publish_error_state_def publish_fallback_health_def)
  moreover have "bd_is_can_error b \<or> fallback_health_code (ct_runtime_state t) ?health = 1"
    unfolding flag by (cases ?health) auto
  ultimately show ?thesis
    unfolding flag active fresh not_le de_Morgan_disj not_not by simp
qed

subsection \<open>Concrete frames\<close>

definition enter_beacon :: twai_frame where
  "enter_beacon = \<lparr>fr_id = StandardId 0x014, fr_data = [16, 1, 2]\<rparr>"

lemma beacon_switched_only_by_witness:
  "bd_recovery_beacon_active (snd (handle_received_frame list_ops enter_beacon 5 None list_start)) \<noteq>
     bd_recovery_beacon_active list_start \<and>
   (\<exists>sequence reason. enter_beacon = \<lparr>fr_id = StandardId 0x014, fr_data = [sequence, 1, reason]\<rparr> \<and> reason \<le> 3)"
proof -
  have switched: "bd_recovery_beacon_active (snd (handle_received_frame list_ops enter_beacon 5 None list_start)) \<noteq>
      bd_recovery_beacon_active list_start" "\<not> bd_recovery_beacon_active list_start"
    by code_simp+
  with beacon_switched_only_by [OF switched(1)] show ?thesis by auto
qed

lemma error_flag_exact_witness:
  "case can_iteration reference_driver list_ops (ReceiveFailed TwaiOtherError)
        \<lparr>rd_tec = 3, rd_rec = 130, rd_bus_off = False\<rparr> 77 (initial_can_task, list_start) of
     None \<Rightarrow> False
   | Some (t, b) \<Rightarrow> bd_is_can_error b \<and> bd_can_rec b = 130"
proof -
  let ?r = "\<lparr>rd_tec = 3, rd_rec = 130, rd_bus_off = False\<rparr>"
  have run: "case can_iteration reference_driver list_ops (ReceiveFailed TwaiOtherError) ?r 77
      (initial_can_task, list_start) of None \<Rightarrow> False | Some (t, b) \<Rightarrow> True"
    by code_simp
  then obtain t b where "can_iteration reference_driver list_ops (ReceiveFailed TwaiOtherError) ?r 77
      (initial_can_task, list_start) = Some (t, b)" by (auto split: option.splits)
  with error_flag_exact [OF this] show ?thesis by simp
qed

end
