(* ===== verification/CommandTask.thy ===== *)
theory CommandTask
  imports CanQueues
begin

section \<open>The command task (src/tasks/lora\_task.rs)\<close>

text \<open>
  The task takes the commands decoded from the uplink one by one: commands for the Mission board
  go through the transaction tracker, local ones are executed here, ground time responses are
  passed on. A blocking \<open>send\<close> to a channel suspends the task until there is room:
  \<open>command_wait\<close> says what it waits for, which answer it queues once it goes on, and whether it
  keeps the lock of the transaction tracker meanwhile. Rust keeps the guard of
  \<open>match COMMAND_TRACKER.lock().await.register(request)\<close> until the end of the \<open>match\<close>, and with it
  over the \<open>send(..).await\<close> of the Forward arm. \<open>poll_wait\<close> is one poll of a suspended task.
\<close>

datatype local_command =
  LcStartLogging | LcStopLogging | LcGnssOn | LcGnssOff | LcWake | LcDumpInternalFlash
| LcDumpMissionSd | LcStopDump | LcExitRecovery

fun local_command_code :: "local_command \<Rightarrow> u8" where
  "local_command_code LcStartLogging = 0x6c"
| "local_command_code LcStopLogging = 0x6d"
| "local_command_code LcGnssOn = 0x67"
| "local_command_code LcGnssOff = 0x68"
| "local_command_code LcWake = 0x77"
| "local_command_code LcDumpInternalFlash = 0x66"
| "local_command_code LcDumpMissionSd = 0x73"
| "local_command_code LcStopDump = 0x78"
| "local_command_code LcExitRecovery = LOCAL_EXIT_RECOVERY_COMMAND"

definition local_command_decode :: "u8 \<Rightarrow> local_command option" where
  "local_command_decode raw =
     (if raw = 0x6c then Some LcStartLogging
      else if raw = 0x6d then Some LcStopLogging
      else if raw = 0x67 then Some LcGnssOn
      else if raw = 0x68 then Some LcGnssOff
      else if raw = 0x77 then Some LcWake
      else if raw = 0x66 then Some LcDumpInternalFlash
      else if raw = 0x73 then Some LcDumpMissionSd
      else if raw = 0x78 then Some LcStopDump
      else if raw = LOCAL_EXIT_RECOVERY_COMMAND then Some LcExitRecovery
      else None)"

interpretation local_command: wire_enum local_command_code local_command_decode
proof
  show "local_command_decode (local_command_code x) = Some x" for x
    by (cases x) (simp_all add: local_command_decode_def)
  show "local_command_decode raw = Some x \<Longrightarrow> local_command_code x = raw" for raw x
    by (auto simp: local_command_decode_def split: if_splits)
qed

datatype command_wait =
  Finished
| SendingCan can_tx_message "command_result_packet option" bool
| SendingGnss gnss_command "command_result_packet option"

definition queue_command_packet ::
  "('l, 'c, 'r, 'g) board_ops \<Rightarrow> command_result_packet \<Rightarrow> ('l, 'c, 'r, 'g) board \<Rightarrow> ('l, 'c, 'r, 'g) board" where
  "queue_command_packet ops packet b =
     (case encode (PCommandResult packet) of
        Inl _ \<Rightarrow> b
      | Inr frame \<Rightarrow>
          (case try_send (lora_ops ops) (queued_envelope frame SrcCommandResult) (bd_command_results b) of
             (sent, q) \<Rightarrow>
               let b = b\<lparr>bd_command_results := q\<rparr>
               in if sent then b else count lora_tx_queue_drop_count_update b))"

definition plain_result :: "u8 \<Rightarrow> u8 \<Rightarrow> command_phase \<Rightarrow> command_reason \<Rightarrow> command_result_packet" where
  "plain_result transaction_id command phase reason =
     \<lparr>crp_transaction_id = transaction_id, crp_command = command, crp_phase = phase,
      crp_reason = reason, crp_detail = 0\<rparr>"

definition queue_result ::
  "('l, 'c, 'r, 'g) board_ops \<Rightarrow> u8 \<Rightarrow> u8 \<Rightarrow> command_phase \<Rightarrow> command_reason \<Rightarrow>
   ('l, 'c, 'r, 'g) board \<Rightarrow> ('l, 'c, 'r, 'g) board" where
  "queue_result ops transaction_id command phase reason b =
     queue_command_packet ops (plain_result transaction_id command phase reason) b"

definition process_generic ::
  "('l, 'c, 'r, 'g) board_ops \<Rightarrow> generic_command_request \<Rightarrow> ('l, 'c, 'r, 'g) board \<Rightarrow>
   command_wait \<times> ('l, 'c, 'r, 'g) board" where
  "process_generic ops request b =
     (case register (bd_tracker b) request of (answer, tracker) \<Rightarrow>
        let b = b\<lparr>bd_tracker := tracker\<rparr>
        in (case answer of
              Forward \<Rightarrow> (SendingCan (TxGenericCommandRequest request) None True, b)
            | DuplicatePending \<Rightarrow> (Finished, b)
            | Replay result \<Rightarrow> (Finished, queue_command_packet ops (packet_of_result result) b)
            | ProtocolError \<Rightarrow>
                (Finished, queue_result ops (req_transaction_id request) (req_command request)
                             Rejected ProtocolErrorReason b)
            | Busy \<Rightarrow>
                (Finished, queue_result ops (req_transaction_id request) (req_command request)
                             Rejected ReasonBusy b)))"

definition process_recovery ::
  "('l, 'c, 'r, 'g) board_ops \<Rightarrow> u8 \<Rightarrow> u8 \<Rightarrow> bytes \<Rightarrow> local_command \<Rightarrow> ('l, 'c, 'r, 'g) board \<Rightarrow>
   command_wait \<times> ('l, 'c, 'r, 'g) board" where
  "process_recovery ops transaction_id command args command_value b =
     (if command_value = LcExitRecovery \<and> \<not> bd_recovery_beacon_active b
      then (Finished, queue_result ops transaction_id command Rejected InvalidState b)
      else
        let opcode = (case command_value of
                        LcWake \<Rightarrow> OpWake
                      | LcStopDump \<Rightarrow> OpStopLogDump
                      | LcExitRecovery \<Rightarrow> OpExitRecovery
                      | _ \<Rightarrow> OpStartLogDump);
            source = (if command_value = LcDumpMissionSd then MissionSdLatestFlight
                      else if command_value = LcStopDump
                      then (case active_source (bd_session b) of None \<Rightarrow> InternalFlash | Some s \<Rightarrow> s)
                      else InternalFlash);
            offset = u32_from_le (args ! 0) (args ! 1) (args ! 2) 0;
            len = u32_from_le (args ! 3) (args ! 4) (args ! 5) 0;
            pending = \<lparr>prec_transaction_id = transaction_id, prec_command = command,
                       prec_opcode = opcode, prec_source = source\<rparr>;
            (started, interrupted, session) =
              (if command_value = LcStopDump
               then (case interrupt_with_stop (bd_session b) pending of
                       (interrupted, session) \<Rightarrow> (True, interrupted, session))
               else (case session_start (bd_session b) pending of
                       (started, session) \<Rightarrow> (started, None, session)));
            b = b\<lparr>bd_session := session\<rparr>
        in if \<not> started
           then (Finished, queue_result ops transaction_id command Rejected ReasonBusy b)
           else
             let b = (case interrupted of
                        Some result \<Rightarrow>
                          queue_result ops (cr_transaction_id result) (cr_command result)
                            (cr_phase result) (cr_reason result) b
                      | None \<Rightarrow> b);
                 b = (if command_value = LcStopDump
                      then b\<lparr>bd_assembler := snd (asm_abort (bd_assembler b))\<rparr> else b);
                 b = (if opcode = OpStartLogDump
                      then b\<lparr>bd_assembler := asm_start (bd_assembler b) transaction_id source offset len\<rparr>
                      else b)
             in (SendingCan
                   (TxRecoveryControl \<lparr>rctl_opcode = opcode, rctl_source = source,
                      rctl_transfer_id = transaction_id, rctl_offset = offset, rctl_length = len\<rparr>)
                   (Some (plain_result transaction_id command Accepted NoReason)) False, b))"

definition process_local ::
  "('l, 'c, 'r, 'g) board_ops \<Rightarrow> u8 \<Rightarrow> u8 \<Rightarrow> bytes \<Rightarrow> ('l, 'c, 'r, 'g) board \<Rightarrow>
   command_wait \<times> ('l, 'c, 'r, 'g) board" where
  "process_local ops transaction_id command args b =
     (case local_command_decode command of
        None \<Rightarrow> (Finished, queue_result ops transaction_id command Rejected NotSupported b)
      | Some command_value \<Rightarrow>
          let recovery_dump = command_value = LcDumpInternalFlash \<or> command_value = LcDumpMissionSd;
              completed = plain_result transaction_id command Completed NoReason
          in if \<not> recovery_dump \<and> list_ex (\<lambda>value. value \<noteq> 0) args
             then (Finished, queue_result ops transaction_id command Rejected InvalidArgument b)
             else (case command_value of
                 LcStartLogging \<Rightarrow>
                   (Finished, queue_command_packet ops completed (b\<lparr>bd_logging_requested := True\<rparr>))
               | LcStopLogging \<Rightarrow>
                   (Finished, queue_command_packet ops completed
                      (b\<lparr>bd_logging_requested := False, bd_sd_flush_signals := bd_sd_flush_signals b + 1\<rparr>))
               | LcGnssOn \<Rightarrow> (SendingGnss GnssTurnOn (Some completed), b)
               | LcGnssOff \<Rightarrow> (SendingGnss GnssTurnOff (Some completed), b)
               | _ \<Rightarrow> process_recovery ops transaction_id command args command_value b))"

definition process_command ::
  "('l, 'c, 'r, 'g) board_ops \<Rightarrow> uplink_command \<Rightarrow> ('l, 'c, 'r, 'g) board \<Rightarrow>
   command_wait \<times> ('l, 'c, 'r, 'g) board" where
  "process_command ops command b =
     (case command of
        UpMissionGeneric request \<Rightarrow> process_generic ops request b
      | UpActuatorEmergency _ \<Rightarrow> (Finished, b)
      | UpLiftoffDetectionEmergency _ \<Rightarrow> (Finished, b)
      | UpComBoardLocal transaction_id command args \<Rightarrow> process_local ops transaction_id command args b
      | UpGroundTimeResponse request_id source unix_seconds milliseconds \<Rightarrow>
          (SendingCan (TxTimeResponse request_id source unix_seconds milliseconds) None False, b))"

definition queue_due ::
  "('l, 'c, 'r, 'g) board_ops \<Rightarrow> command_result_packet option \<Rightarrow> ('l, 'c, 'r, 'g) board \<Rightarrow> ('l, 'c, 'r, 'g) board" where
  "queue_due ops due b = (case due of None \<Rightarrow> b | Some packet \<Rightarrow> queue_command_packet ops packet b)"

fun poll_wait ::
  "('l, 'c, 'r, 'g) board_ops \<Rightarrow> command_wait \<times> ('l, 'c, 'r, 'g) board \<Rightarrow>
   command_wait \<times> ('l, 'c, 'r, 'g) board" where
  "poll_wait ops (Finished, b) = (Finished, b)"
| "poll_wait ops (SendingCan message due locked, b) =
     (case try_send (can_tx_ops ops) \<lparr>ctr_message = message\<rparr> (bd_can_tx b) of (sent, q) \<Rightarrow>
        let b = b\<lparr>bd_can_tx := q\<rparr>
        in if sent then (Finished, queue_due ops due b) else (SendingCan message due locked, b))"
| "poll_wait ops (SendingGnss command due, b) =
     (case try_send (gnss_ops ops) command (bd_gnss_commands b) of (sent, q) \<Rightarrow>
        let b = b\<lparr>bd_gnss_commands := q\<rparr>
        in if sent then (Finished, queue_due ops due b) else (SendingGnss command due, b))"

text \<open>One command as long as the task is not suspended: it starts and is polled at once.\<close>

definition run_command ::
  "('l, 'c, 'r, 'g) board_ops \<Rightarrow> uplink_command \<Rightarrow> ('l, 'c, 'r, 'g) board \<Rightarrow>
   command_wait \<times> ('l, 'c, 'r, 'g) board" where
  "run_command ops command b = poll_wait ops (process_command ops command b)"

lemma queue_command_packet_eq: "queue_command_packet ops packet b = queue_command_result ops packet b"
  by (simp add: queue_command_packet_def queue_command_result_def)


subsection \<open>Local commands\<close>

text \<open>The phase and reason the ground is told first, from the table of local commands.\<close>

definition local_answer :: "('l, 'c, 'r, 'g) board \<Rightarrow> u8 \<Rightarrow> bytes \<Rightarrow> command_phase \<times> command_reason" where
  "local_answer b command args =
     (if command \<notin> {0x6c, 0x6d, 0x67, 0x68, 0x77, 0x66, 0x73, 0x78, 0x65} then (Rejected, NotSupported)
      else if command \<notin> {0x66, 0x73} \<and> args \<noteq> [0, 0, 0, 0, 0, 0] then (Rejected, InvalidArgument)
      else if command \<in> {0x6c, 0x6d, 0x67, 0x68} then (Completed, NoReason)
      else if command = 0x65 \<and> \<not> bd_recovery_beacon_active b then (Rejected, InvalidState)
      else if command \<noteq> 0x78 \<and> rec_pending (bd_session b) \<noteq> None then (Rejected, ReasonBusy)
      else (Accepted, NoReason))"

definition local_result :: "u8 \<Rightarrow> u8 \<Rightarrow> command_phase \<times> command_reason \<Rightarrow> command_result" where
  "local_result transaction_id command answer =
     \<lparr>cr_transaction_id = transaction_id, cr_command = command, cr_phase = fst answer,
      cr_reason = snd answer, cr_detail = 0\<rparr>"

definition opcode_of :: "u8 \<Rightarrow> recovery_opcode" where
  "opcode_of command =
     (if command = 0x77 then OpWake else if command = 0x78 then OpStopLogDump
      else if command = 0x65 then OpExitRecovery else OpStartLogDump)"

lemma plain_result_eq: "plain_result k c ph re = packet_of_result (local_result k c (ph, re))"
  by (simp add: plain_result_def packet_of_result_def local_result_def)

lemma queue_room:
  assumes chan: "fifo_channel (lora_ops ops) contents capacity" and k: "cr_transaction_id r \<noteq> 0"
    and room: "length (contents (bd_command_results b)) < capacity (bd_command_results b)"
  obtains q where "queue_command_packet ops (packet_of_result r) b = b\<lparr>bd_command_results := q\<rparr>"
    "contents q = contents (bd_command_results b) @ [result_envelope r SrcCommandResult]"
    "capacity q = capacity (bd_command_results b)"
proof -
  obtain f where f: "encode (PCommandResult (packet_of_result r)) = Inr f"
    "queued_envelope f SrcCommandResult = result_envelope r SrcCommandResult"
    using result_encodes [OF k] by blast
  from f room that [of "snd (try_send (lora_ops ops) (result_envelope r SrcCommandResult) (bd_command_results b))"]
  show ?thesis
    by (simp add: queue_command_packet_def split_beta Let_def fifo_channel.laws [OF chan])
qed

lemma u24_small: "u32_from_le x y z 0 < 16777216"
proof -
  have "\<not> bit (u32_from_le x y z 0) n" if "24 \<le> n" for n
    using that by (auto simp: u32_from_le_def bit_simps bit_u8_out)
  then have "take_bit 24 (u32_from_le x y z 0) = u32_from_le x y z 0"
    by (intro bit_word_eqI) (metis bit_take_bit_iff not_le)
  moreover have "take_bit 24 (u32_from_le x y z 0) < 16777216"
    using take_bit_nat_less_exp [of 24 "unat (u32_from_le x y z 0)"]
    by (simp add: word_less_nat_alt unsigned_take_bit_eq)
  ultimately show ?thesis by simp
qed

text \<open>
  The request an accepted recovery command sends, written from the table of commands: the source is
  the card of the Mission board for 0x73, the source of the running dump for a stop, the internal
  flash otherwise; offset and length are the first and the second three argument bytes, little
  endian.
\<close>

definition u24_of :: "u8 \<Rightarrow> u8 \<Rightarrow> u8 \<Rightarrow> nat" where
  "u24_of x y z = unat x + 256 * unat y + 65536 * unat z"

definition recovery_request :: "u8 \<Rightarrow> u8 \<Rightarrow> bytes \<Rightarrow> ('l, 'c, 'r, 'g) board \<Rightarrow> recovery_control" where
  "recovery_request k command args b =
     \<lparr>rctl_opcode = opcode_of command,
      rctl_source = (if command = 0x73 then MissionSdLatestFlight
        else if command = 0x78 then (case rec_pending (bd_session b) of None \<Rightarrow> InternalFlash | Some p \<Rightarrow> prec_source p)
        else InternalFlash),
      rctl_transfer_id = k,
      rctl_offset = of_nat (u24_of (args ! 0) (args ! 1) (args ! 2)),
      rctl_length = of_nat (u24_of (args ! 3) (args ! 4) (args ! 5))\<rparr>"

text \<open>The assembler at the start of a dump, empty and with the end of the dump if a length is given.\<close>

definition dump_assembler :: "recovery_control \<Rightarrow> recovery_assembler" where
  "dump_assembler c =
     \<lparr>asm_active = True, asm_transfer_id = rctl_transfer_id c, asm_source = rctl_source c,
      asm_offset = rctl_offset c,
      asm_total_size = (if rctl_length c = 0 then None else Some (rctl_offset c + rctl_length c)),
      asm_expected = None, asm_data = replicate 16 0, asm_length = 0\<rparr>"

text \<open>What an accepted recovery command leaves behind, given room in the queues.\<close>

definition recovery_started ::
  "('c \<Rightarrow> can_tx_request list) \<Rightarrow> u8 \<Rightarrow> u8 \<Rightarrow> bytes \<Rightarrow> ('l, 'c, 'r, 'g) board \<Rightarrow> ('l, 'c, 'r, 'g) board \<Rightarrow> bool" where
  "recovery_started can_contents k command args b b' \<longleftrightarrow>
     (let c = recovery_request k command args b
      in can_contents (bd_can_tx b') = can_contents (bd_can_tx b) @ [\<lparr>ctr_message = TxRecoveryControl c\<rparr>] \<and>
        encodable_tx (TxRecoveryControl c) \<and>
        rec_pending (bd_session b') = Some \<lparr>prec_transaction_id = k, prec_command = command,
          prec_opcode = opcode_of command, prec_source = rctl_source c\<rparr> \<and>
        (if opcode_of command = OpStartLogDump then bd_assembler b' = dump_assembler c
         else if opcode_of command = OpStopLogDump then \<not> asm_active (bd_assembler b')
         else bd_assembler b' = bd_assembler b))"

lemma u24_of_le: "u32_from_le x y z 0 = of_nat (u24_of x y z)"
proof -
  have small: "unat x < 256" "unat y < 256" "unat z < 256"
    using unat_below [of x] unat_below [of y] unat_below [of z] by simp_all
  have w: "unat (of_nat (u24_of x y z) :: u32) = u24_of x y z"
  proof -
    have "u24_of x y z < 4294967296" using small unfolding u24_of_def by linarith
    then show ?thesis by (simp add: unat_of_nat)
  qed
  have byte: "(ucast (drop_bit n v) :: u8) = b" if "unat v div 2 ^ n mod 256 = unat b" for v :: u32 and n b
    using that by (simp add: word_unat_eq_iff unsigned_ucast_eq take_bit_eq_mod unat_drop_bit_eq) (simp add: drop_bit_eq_div)
  have e: "u24_of x y z = unat x + 256 * (unat y + 256 * unat z)" by (simp add: u24_of_def)
  have q: "(a + 256 * n) mod 256 = a" "(a + 256 * n) div 256 = n" if "a < 256" for a n :: nat
    using that by simp_all
  have d: "n div 65536 = n div 256 div 256" "n div 16777216 = n div 256 div 256 div 256" for n :: nat
    by (simp_all add: div_mult2_eq [symmetric])
  have "(u24_of x y z) mod 256 = unat x" "u24_of x y z div 256 mod 256 = unat y"
    "u24_of x y z div 65536 mod 256 = unat z" "u24_of x y z div 16777216 = 0"
    unfolding d e by (simp_all only: q [OF small(1)] q [OF small(2)] mod_less [OF small(3)] div_less [OF small(3)])
  then have "u32_to_le (of_nat (u24_of x y z)) = [x, y, z, 0]"
    using byte [of "of_nat (u24_of x y z)" 0 x] byte [of "of_nat (u24_of x y z)" 8 y]
      byte [of "of_nat (u24_of x y z)" 16 z] byte [of "of_nat (u24_of x y z)" 24 0]
    unfolding w by (simp add: u32_to_le_def)
  then show ?thesis by (simp add: u32_of_le_eq)
qed

lemma u24_sum: "of_nat (u24_of x y z) + (of_nat (u24_of x' y' z') :: u32) =
    saturating_add (of_nat (u24_of x y z)) (of_nat (u24_of x' y' z'))"
proof -
  have "unat (of_nat (u24_of x y z) :: u32) < 16777216" for x y z
    using u24_small [of x y z] by (simp add: u24_of_le word_less_nat_alt)
  from this [of x y z] this [of x' y' z'] show ?thesis by (simp add: saturating_add_def)
qed

text \<open>A stop command interrupts the pending recovery command, whose Failed result comes first.\<close>

definition interrupted_results :: "u8 \<Rightarrow> ('l, 'c, 'r, 'g) board \<Rightarrow> command_result list" where
  "interrupted_results command b =
     (case rec_pending (bd_session b) of
        Some p \<Rightarrow> if command = 0x78
                  then [local_result (prec_transaction_id p) (prec_command p) (Failed, InterruptedByEmergency)]
                  else []
      | None \<Rightarrow> [])"

lemma decode_local_cases:
  "local_command_decode command = None \<longleftrightarrow> command \<notin> range local_command_code"
  "local_command_decode command = Some c \<longleftrightarrow> command = local_command_code c"
  by (rule local_command.decode_None_iff, rule local_command.decode_iff)

lemma args_zero: "length args = 6 \<Longrightarrow> list_ex (\<lambda>value. value \<noteq> (0 :: u8)) args \<longleftrightarrow> args \<noteq> [0, 0, 0, 0, 0, 0]"
  by (auto simp: xs6)

lemma local_command_codes: "range local_command_code = {0x6c, 0x6d, 0x67, 0x68, 0x77, 0x66, 0x73, 0x78, 0x65}"
proof
  show "range local_command_code \<subseteq> {0x6c, 0x6d, 0x67, 0x68, 0x77, 0x66, 0x73, 0x78, 0x65}"
  proof
    fix x assume "x \<in> range local_command_code"
    then obtain c where "x = local_command_code c" by blast
    then show "x \<in> {0x6c, 0x6d, 0x67, 0x68, 0x77, 0x66, 0x73, 0x78, 0x65}" by (cases c) simp_all
  qed
  have "x \<in> range local_command_code" if "local_command_code c = x" for x c using that by blast
  from this [of LcStartLogging] this [of LcStopLogging] this [of LcGnssOn] this [of LcGnssOff]
    this [of LcWake] this [of LcDumpInternalFlash] this [of LcDumpMissionSd] this [of LcStopDump]
    this [of LcExitRecovery]
  show "{0x6c, 0x6d, 0x67, 0x68, 0x77, 0x66, 0x73, 0x78, 0x65} \<subseteq> range local_command_code" by simp
qed

lemma started_recovery:
  fixes b :: "('l, 'c, 'r, 'g) board" and k :: u8 and args :: bytes
  assumes lora: "fifo_channel (lora_ops ops) lc lcap"
    and k: "\<forall>p. rec_pending (bd_session b) = Some p \<longrightarrow> prec_transaction_id p \<noteq> 0"
    and room: "length (lc (bd_command_results b)) < lcap (bd_command_results b)"
    and cmd: "command = local_command_code c" "c \<in> {LcWake, LcDumpInternalFlash, LcDumpMissionSd, LcStopDump, LcExitRecovery}"
    and ok: "c = LcExitRecovery \<Longrightarrow> bd_recovery_beacon_active b" "c \<noteq> LcStopDump \<Longrightarrow> rec_pending (bd_session b) = None"
  defines "ctl \<equiv> recovery_request k command args b"
  obtains b2 where
    "process_recovery ops k command args c b =
       (SendingCan (TxRecoveryControl ctl) (Some (packet_of_result (local_result k command (Accepted, NoReason)))) False, b2)"
    "encodable_tx (TxRecoveryControl ctl)"
    "bd_session b2 = (bd_session b)\<lparr>rec_pending := Some \<lparr>prec_transaction_id = k, prec_command = command,
       prec_opcode = opcode_of command, prec_source = rctl_source ctl\<rparr>\<rparr>"
    "if opcode_of command = OpStartLogDump then bd_assembler b2 = dump_assembler ctl
     else if opcode_of command = OpStopLogDump then \<not> asm_active (bd_assembler b2)
     else bd_assembler b2 = bd_assembler b"
    "bd_can_tx b2 = bd_can_tx b" "lcap (bd_command_results b2) = lcap (bd_command_results b)"
    "lc (bd_command_results b2) = lc (bd_command_results b) @
       map (\<lambda>r. result_envelope r SrcCommandResult) (interrupted_results command b)"
    "bd_gnss_commands b2 = bd_gnss_commands b" "bd_logging_requested b2 = bd_logging_requested b"
    "bd_sd_flush_signals b2 = bd_sd_flush_signals b"
proof -
  have ctl: "ctl = \<lparr>rctl_opcode = opcode_of command, rctl_source = rctl_source ctl, rctl_transfer_id = k,
      rctl_offset = u32_from_le (args ! 0) (args ! 1) (args ! 2) 0,
      rctl_length = u32_from_le (args ! 3) (args ! 4) (args ! 5) 0\<rparr>"
    by (simp add: ctl_def recovery_request_def u24_of_le)
  have fits: "encodable_tx (TxRecoveryControl ctl)"
    by (subst ctl) (simp add: u24_small)
  show thesis
  proof (cases "c = LcStopDump")
    case False
    have src: "rctl_source ctl = (if c = LcDumpMissionSd then MissionSdLatestFlight else InternalFlash)"
      using cmd False by (auto simp: ctl_def recovery_request_def)
    have opc: "opcode_of command = (case c of LcWake \<Rightarrow> OpWake | LcExitRecovery \<Rightarrow> OpExitRecovery | _ \<Rightarrow> OpStartLogDump)"
      using cmd False by (auto simp: opcode_of_def)
    have dump: "asm_start a k (rctl_source ctl) (rctl_offset ctl) (rctl_length ctl) = dump_assembler ctl" for a
      by (simp add: asm_start_def dump_assembler_def ctl_def recovery_request_def u24_sum)
    define b2 where "b2 = b\<lparr>bd_session := (bd_session b)\<lparr>rec_pending := Some \<lparr>prec_transaction_id = k,
        prec_command = command, prec_opcode = opcode_of command, prec_source = rctl_source ctl\<rparr>\<rparr>,
      bd_assembler := if opcode_of command = OpStartLogDump then dump_assembler ctl else bd_assembler b\<rparr>"
    have "process_recovery ops k command args c b =
         (SendingCan (TxRecoveryControl ctl) (Some (packet_of_result (local_result k command (Accepted, NoReason)))) False, b2)"
      using cmd ok False dump [of "bd_assembler b"] src
      by (subst ctl, cases c)
        (auto simp: process_recovery_def session_start_def plain_result_eq b2_def opcode_of_def ctl_def
          recovery_request_def u24_of_le Let_def)
    moreover have "interrupted_results command b = []"
      using cmd False ok(2) by (auto simp: interrupted_results_def)
    moreover have "opcode_of command \<noteq> OpStopLogDump" using False cmd(2) by (auto simp: opc)
    ultimately show thesis using fits by (intro that [of b2]) (simp_all add: b2_def)
  next
    case True
    then have command: "command = 0x78" "opcode_of command = OpStopLogDump" using cmd by (simp_all add: opcode_of_def)
    define src where "src = rctl_source ctl"
    have stop: "ctl = \<lparr>rctl_opcode = OpStopLogDump, rctl_source = src, rctl_transfer_id = k,
        rctl_offset = u32_from_le (args ! 0) (args ! 1) (args ! 2) 0,
        rctl_length = u32_from_le (args ! 3) (args ! 4) (args ! 5) 0\<rparr>"
      unfolding src_def command(2) [symmetric] by (rule ctl)
    have source: "(case active_source (bd_session b) of None \<Rightarrow> InternalFlash | Some s \<Rightarrow> s) = src"
      by (simp add: src_def ctl_def recovery_request_def command active_source_def split: option.split)
    define b1 where "b1 = b\<lparr>bd_session := (bd_session b)\<lparr>rec_pending := Some \<lparr>prec_transaction_id = k,
        prec_command = command, prec_opcode = OpStopLogDump, prec_source = src\<rparr>\<rparr>\<rparr>"
    obtain q where q: "lcap q = lcap (bd_command_results b)"
      "lc q = lc (bd_command_results b) @ map (\<lambda>r. result_envelope r SrcCommandResult) (interrupted_results command b)"
      and due: "(case rec_pending (bd_session b) of None \<Rightarrow> b1
        | Some p \<Rightarrow> queue_result ops (prec_transaction_id p) (prec_command p) Failed InterruptedByEmergency b1) =
        b1\<lparr>bd_command_results := q\<rparr>"
    proof (cases "rec_pending (bd_session b)")
      case None
      then show thesis
        using that [of "bd_command_results b"] by (simp add: interrupted_results_def b1_def)
    next
      case (Some p)
      let ?r = "local_result (prec_transaction_id p) (prec_command p) (Failed, InterruptedByEmergency)"
      have "cr_transaction_id ?r \<noteq> 0" using k Some by (simp add: local_result_def)
      moreover have "length (lc (bd_command_results b1)) < lcap (bd_command_results b1)"
        using room by (simp add: b1_def)
      ultimately obtain q where "queue_command_packet ops (packet_of_result ?r) b1 = b1\<lparr>bd_command_results := q\<rparr>"
        "lc q = lc (bd_command_results b1) @ [result_envelope ?r SrcCommandResult]"
        "lcap q = lcap (bd_command_results b1)"
        by (rule queue_room [OF lora])
      with that [of q] Some show thesis
        by (simp add: interrupted_results_def command queue_result_def plain_result_eq b1_def)
    qed
    define b2 where "b2 = b1\<lparr>bd_command_results := q, bd_assembler := snd (asm_abort (bd_assembler b))\<rparr>"
    have "process_recovery ops k command args c b =
         (SendingCan (TxRecoveryControl ctl) (Some (packet_of_result (local_result k command (Accepted, NoReason)))) False, b2)"
      unfolding stop using True due source
      by (cases "rec_pending (bd_session b)")
        (auto simp: process_recovery_def interrupt_with_stop_def session_fail_def plain_result_eq
          b2_def b1_def command Let_def)
    then show thesis
    proof (rule that [OF _ fits])
      show "bd_session b2 = (bd_session b)\<lparr>rec_pending := Some \<lparr>prec_transaction_id = k, prec_command = command,
          prec_opcode = opcode_of command, prec_source = rctl_source ctl\<rparr>\<rparr>"
        by (simp add: b2_def b1_def command(2) src_def)
      have "\<not> asm_active (bd_assembler b2)" by (simp add: b2_def asm_abort_def)
      then show "if opcode_of command = OpStartLogDump then bd_assembler b2 = dump_assembler ctl
          else if opcode_of command = OpStopLogDump then \<not> asm_active (bd_assembler b2)
          else bd_assembler b2 = bd_assembler b" by (simp add: command(2))
    qed (use q in \<open>simp_all add: b2_def b1_def\<close>)
  qed
qed

text \<open>
  What the board shows when a local command is done: the answers, the switch of a Completed command
  (0x6c and 0x6d for the log, 0x67 and 0x68 for the receiver) and the start of an Accepted one.
\<close>

definition local_switched ::
  "('g \<Rightarrow> gnss_command list) \<Rightarrow> u8 \<Rightarrow> command_phase \<times> command_reason \<Rightarrow>
   ('l, 'c, 'r, 'g) board \<Rightarrow> ('l, 'c, 'r, 'g) board \<Rightarrow> bool" where
  "local_switched gc command answer b b' \<longleftrightarrow>
     bd_logging_requested b' = (if answer = (Completed, NoReason) \<and> command \<in> {0x6c, 0x6d} then command = 0x6c
       else bd_logging_requested b) \<and>
     bd_sd_flush_signals b' = bd_sd_flush_signals b + (if answer = (Completed, NoReason) \<and> command = 0x6d then 1 else 0) \<and>
     gc (bd_gnss_commands b') = gc (bd_gnss_commands b) @
       (if answer = (Completed, NoReason) \<and> command = 0x67 then [GnssTurnOn]
        else if answer = (Completed, NoReason) \<and> command = 0x68 then [GnssTurnOff] else [])"

definition local_done ::
  "('l \<Rightarrow> lora_tx_envelope list) \<Rightarrow> ('c \<Rightarrow> can_tx_request list) \<Rightarrow> ('g \<Rightarrow> gnss_command list) \<Rightarrow>
   u8 \<Rightarrow> u8 \<Rightarrow> bytes \<Rightarrow> command_phase \<times> command_reason \<Rightarrow>
   ('l, 'c, 'r, 'g) board \<Rightarrow> ('l, 'c, 'r, 'g) board \<Rightarrow> bool" where
  "local_done lc cc gc k command args answer b b' \<longleftrightarrow>
     lc (bd_command_results b') = lc (bd_command_results b) @
       map (\<lambda>r. result_envelope r SrcCommandResult)
         ((if answer = (Accepted, NoReason) then interrupted_results command b else []) @
          [local_result k command answer]) \<and>
     local_switched gc command answer b b' \<and>
     (if answer = (Accepted, NoReason) then recovery_started cc k command args b b'
      else bd_session b' = bd_session b \<and> bd_assembler b' = bd_assembler b \<and> bd_can_tx b' = bd_can_tx b)"

lemma local_immediate:
  assumes lora: "fifo_channel (lora_ops ops) lc lcap" and k: "k \<noteq> 0"
    and room: "length (lc (bd_command_results b)) < lcap (bd_command_results b)"
    and start: "process_local ops k command args b =
        (Finished, queue_command_packet ops (packet_of_result (local_result k command answer)) b1)"
    and answer: "answer \<noteq> (Accepted, NoReason)" and switched: "local_switched gc command answer b b1"
    and same: "bd_command_results b1 = bd_command_results b" "bd_session b1 = bd_session b"
      "bd_assembler b1 = bd_assembler b" "bd_can_tx b1 = bd_can_tx b"
  shows "\<exists>b'. run_command ops (UpComBoardLocal k command args) b = (Finished, b') \<and>
    local_done lc cc gc k command args answer b b'"
proof -
  have "cr_transaction_id (local_result k command answer) \<noteq> 0" using k by (simp add: local_result_def)
  from queue_room [OF lora this, of b1] room same(1) obtain q where
    "queue_command_packet ops (packet_of_result (local_result k command answer)) b1 = b1\<lparr>bd_command_results := q\<rparr>"
    "lc q = lc (bd_command_results b) @ [result_envelope (local_result k command answer) SrcCommandResult]"
    by auto
  moreover from this switched have "local_switched gc command answer b (b1\<lparr>bd_command_results := q\<rparr>)"
    by (simp add: local_switched_def)
  ultimately show ?thesis using start answer same
    by (auto simp: run_command_def process_command_def local_done_def)
qed

lemma local_to_gnss:
  assumes lora: "fifo_channel (lora_ops ops) lc lcap" and gnss: "fifo_channel (gnss_ops ops) gc gcap"
    and k: "k \<noteq> 0" and room: "length (lc (bd_command_results b)) < lcap (bd_command_results b)"
      "length (gc (bd_gnss_commands b)) < gcap (bd_gnss_commands b)"
    and start: "process_local ops k command args b =
        (SendingGnss g (Some (packet_of_result (local_result k command (Completed, NoReason)))), b)"
    and g: "command = 0x67 \<and> g = GnssTurnOn \<or> command = 0x68 \<and> g = GnssTurnOff"
  shows "\<exists>b'. run_command ops (UpComBoardLocal k command args) b = (Finished, b') \<and>
    local_done lc cc gc k command args (Completed, NoReason) b b'"
proof -
  let ?r = "local_result k command (Completed, NoReason)"
    and ?b = "b\<lparr>bd_gnss_commands := snd (try_send (gnss_ops ops) g (bd_gnss_commands b))\<rparr>"
  have "cr_transaction_id ?r \<noteq> 0" using k by (simp add: local_result_def)
  from queue_room [OF lora this, of ?b] room(1) obtain q where q:
    "queue_command_packet ops (packet_of_result ?r) ?b = ?b\<lparr>bd_command_results := q\<rparr>"
    "lc q = lc (bd_command_results b) @ [result_envelope ?r SrcCommandResult]"
    by auto
  have taken: "fst (try_send (gnss_ops ops) g (bd_gnss_commands b))"
    "gc (bd_gnss_commands ?b) = gc (bd_gnss_commands b) @ [g]"
    using room(2) by (simp_all add: fifo_channel.laws [OF gnss])
  then have "local_switched gc command (Completed, NoReason) b (?b\<lparr>bd_command_results := q\<rparr>)"
    using g by (auto simp: local_switched_def)
  with q taken start show ?thesis
    by (auto simp: run_command_def process_command_def queue_due_def split_beta Let_def local_done_def)
qed

definition recovery_answer :: "('l, 'c, 'r, 'g) board \<Rightarrow> local_command \<Rightarrow> command_phase \<times> command_reason" where
  "recovery_answer b c =
     (if c = LcExitRecovery \<and> \<not> bd_recovery_beacon_active b then (Rejected, InvalidState)
      else if c \<noteq> LcStopDump \<and> rec_pending (bd_session b) \<noteq> None then (Rejected, ReasonBusy)
      else (Accepted, NoReason))"

lemma recovery_refused:
  "recovery_answer b c \<noteq> (Accepted, NoReason) \<Longrightarrow> process_recovery ops k command args c b =
     (Finished, queue_command_packet ops (packet_of_result (local_result k command (recovery_answer b c))) b)"
  by (auto simp: recovery_answer_def process_recovery_def queue_result_def plain_result_eq session_start_def
      Let_def split: if_splits)

lemma recovery_accepted:
  assumes lora: "fifo_channel (lora_ops ops) lc lcap" and can: "fifo_channel (can_tx_ops ops) cc ccap"
    and k: "k \<noteq> 0" "\<forall>p. rec_pending (bd_session b) = Some p \<longrightarrow> prec_transaction_id p \<noteq> 0"
    and room: "length (lc (bd_command_results b)) + 2 \<le> lcap (bd_command_results b)"
      "length (cc (bd_can_tx b)) < ccap (bd_can_tx b)"
    and cmd: "command = local_command_code c" "c \<in> {LcWake, LcDumpInternalFlash, LcDumpMissionSd, LcStopDump, LcExitRecovery}"
    and start: "process_local ops k command args b = process_recovery ops k command args c b"
    and accepted: "recovery_answer b c = (Accepted, NoReason)"
  shows "\<exists>b'. run_command ops (UpComBoardLocal k command args) b = (Finished, b') \<and>
    local_done lc cc gc k command args (Accepted, NoReason) b b'"
proof -
  let ?r = "local_result k command (Accepted, NoReason)"
  let ?ctl = "recovery_request k command args b"
  have room1: "length (lc (bd_command_results b)) < lcap (bd_command_results b)" using room(1) by simp
  have ok: "c = LcExitRecovery \<Longrightarrow> bd_recovery_beacon_active b" "c \<noteq> LcStopDump \<Longrightarrow> rec_pending (bd_session b) = None"
    using accepted unfolding recovery_answer_def by (auto split: if_splits)
  obtain b2 where eff: "process_recovery ops k command args c b =
       (SendingCan (TxRecoveryControl ?ctl) (Some (packet_of_result ?r)) False, b2)"
    "encodable_tx (TxRecoveryControl ?ctl)"
    "bd_session b2 = (bd_session b)\<lparr>rec_pending := Some \<lparr>prec_transaction_id = k, prec_command = command,
       prec_opcode = opcode_of command, prec_source = rctl_source ?ctl\<rparr>\<rparr>"
    "if opcode_of command = OpStartLogDump then bd_assembler b2 = dump_assembler ?ctl
     else if opcode_of command = OpStopLogDump then \<not> asm_active (bd_assembler b2)
     else bd_assembler b2 = bd_assembler b"
    "bd_can_tx b2 = bd_can_tx b" "lcap (bd_command_results b2) = lcap (bd_command_results b)"
    "lc (bd_command_results b2) = lc (bd_command_results b) @
       map (\<lambda>r. result_envelope r SrcCommandResult) (interrupted_results command b)"
    "bd_gnss_commands b2 = bd_gnss_commands b" "bd_logging_requested b2 = bd_logging_requested b"
    "bd_sd_flush_signals b2 = bd_sd_flush_signals b"
    using started_recovery [where k = k and args = args, OF lora k(2) room1 cmd ok] by blast
  let ?e = "\<lparr>ctr_message = TxRecoveryControl ?ctl\<rparr>"
  define b3 where "b3 = b2\<lparr>bd_can_tx := snd (try_send (can_tx_ops ops) ?e (bd_can_tx b2))\<rparr>"
  have sent: "fst (try_send (can_tx_ops ops) ?e (bd_can_tx b2))" "cc (bd_can_tx b3) = cc (bd_can_tx b) @ [?e]"
    using room(2) by (simp_all add: b3_def eff(5) fifo_channel.laws [OF can])
  have "length (interrupted_results command b) \<le> 1"
    by (simp add: interrupted_results_def split: option.split)
  then have "length (lc (bd_command_results b3)) < lcap (bd_command_results b3)"
    using room(1) by (simp add: b3_def eff(6,7))
  moreover have "cr_transaction_id ?r \<noteq> 0" using k(1) by (simp add: local_result_def)
  ultimately obtain q where q: "queue_command_packet ops (packet_of_result ?r) b3 = b3\<lparr>bd_command_results := q\<rparr>"
    "lc q = lc (bd_command_results b3) @ [result_envelope ?r SrcCommandResult]"
    using queue_room [OF lora] by metis
  have "run_command ops (UpComBoardLocal k command args) b = (Finished, b3\<lparr>bd_command_results := q\<rparr>)"
    using start eff(1) sent(1) q(1)
    by (simp add: run_command_def process_command_def queue_due_def split_beta Let_def b3_def [symmetric])
  moreover have "recovery_started cc k command args b (b3\<lparr>bd_command_results := q\<rparr>)"
    unfolding recovery_started_def Let_def using sent(2) eff(2-4) by (simp add: b3_def)
  moreover have "local_switched gc command (Accepted, NoReason) b (b3\<lparr>bd_command_results := q\<rparr>)"
    by (simp add: local_switched_def b3_def eff(8-10))
  ultimately show ?thesis using q(2) by (simp add: eff(7) b3_def local_done_def)
qed

text \<open>The branches of \<open>process_local\<close> and the table of answers, command by command.\<close>

lemma process_local_unknown:
  "local_command_decode command = None \<Longrightarrow>
   process_local ops k command args b =
     (Finished, queue_command_packet ops (packet_of_result (local_result k command (Rejected, NotSupported))) b) \<and>
   local_answer b command args = (Rejected, NotSupported)"
  using decode_local_cases(1) [of command]
  by (simp add: local_answer_def local_command_codes process_local_def queue_result_def plain_result_eq)

lemma process_local_arguments:
  "length args = 6 \<Longrightarrow> c \<notin> {LcDumpInternalFlash, LcDumpMissionSd} \<Longrightarrow> args \<noteq> [0, 0, 0, 0, 0, 0] \<Longrightarrow>
   command = local_command_code c \<Longrightarrow>
   process_local ops k command args b =
     (Finished, queue_command_packet ops (packet_of_result (local_result k command (Rejected, InvalidArgument))) b) \<and>
   local_answer b command args = (Rejected, InvalidArgument)"
proof -
  assume len: "length args = 6" and c: "c \<notin> {LcDumpInternalFlash, LcDumpMissionSd}"
    and args: "args \<noteq> [0, 0, 0, 0, 0, 0]" and command: "command = local_command_code c"
  have decode: "local_command_decode command = Some c" by (simp add: command local_command.decode_code)
  have "command \<in> {0x6c, 0x6d, 0x67, 0x68, 0x77, 0x66, 0x73, 0x78, 0x65}"
    by (simp only: command local_command_codes [symmetric] rangeI)
  moreover have "command \<notin> {0x66, 0x73}" using c by (cases c) (simp_all add: command)
  moreover have "list_ex (\<lambda>value. value \<noteq> 0) args" using args_zero [OF len] args by simp
  ultimately show ?thesis
    using c args unfolding local_answer_def
    by (simp only: process_local_def decode queue_result_def plain_result_eq Let_def option.simps if_True if_False
        insert_iff empty_iff simp_thms)
qed

lemma process_local_valid:
  fixes k :: u8
  assumes "length args = 6" "c \<in> {LcDumpInternalFlash, LcDumpMissionSd} \<or> args = [0, 0, 0, 0, 0, 0]"
    and command: "command = local_command_code c"
  defines "completed \<equiv> packet_of_result (local_result k command (Completed, NoReason))"
  shows "process_local ops k command args b =
    (case c of
       LcStartLogging \<Rightarrow> (Finished, queue_command_packet ops completed (b\<lparr>bd_logging_requested := True\<rparr>))
     | LcStopLogging \<Rightarrow> (Finished, queue_command_packet ops completed
         (b\<lparr>bd_logging_requested := False, bd_sd_flush_signals := bd_sd_flush_signals b + 1\<rparr>))
     | LcGnssOn \<Rightarrow> (SendingGnss GnssTurnOn (Some completed), b)
     | LcGnssOff \<Rightarrow> (SendingGnss GnssTurnOff (Some completed), b)
     | _ \<Rightarrow> process_recovery ops k command args c b)"
    "local_answer b command args =
      (if c \<in> {LcStartLogging, LcStopLogging, LcGnssOn, LcGnssOff} then (Completed, NoReason)
       else recovery_answer b c)"
proof -
  note args = args_zero [OF assms(1)]
  have decode: "local_command_decode command = Some c" by (simp add: command local_command.decode_code)
  show "process_local ops k command args b =
    (case c of
       LcStartLogging \<Rightarrow> (Finished, queue_command_packet ops completed (b\<lparr>bd_logging_requested := True\<rparr>))
     | LcStopLogging \<Rightarrow> (Finished, queue_command_packet ops completed
         (b\<lparr>bd_logging_requested := False, bd_sd_flush_signals := bd_sd_flush_signals b + 1\<rparr>))
     | LcGnssOn \<Rightarrow> (SendingGnss GnssTurnOn (Some completed), b)
     | LcGnssOff \<Rightarrow> (SendingGnss GnssTurnOff (Some completed), b)
     | _ \<Rightarrow> process_recovery ops k command args c b)"
    using assms(2) by (cases c) (auto simp: process_local_def decode args plain_result_eq completed_def Let_def)
  have "command \<in> {0x6c, 0x6d, 0x67, 0x68, 0x77, 0x66, 0x73, 0x78, 0x65}"
    by (simp only: command local_command_codes [symmetric] rangeI)
  moreover have "\<not> (command \<notin> {0x66, 0x73} \<and> args \<noteq> [0, 0, 0, 0, 0, 0])"
    using assms(2) by (cases c) (auto simp: command)
  moreover have "command \<in> {0x6c, 0x6d, 0x67, 0x68} \<longleftrightarrow> c \<in> {LcStartLogging, LcStopLogging, LcGnssOn, LcGnssOff}"
    "command = 0x65 \<longleftrightarrow> c = LcExitRecovery" "command = 0x78 \<longleftrightarrow> c = LcStopDump"
    by (cases c; simp add: command)+
  ultimately show "local_answer b command args =
      (if c \<in> {LcStartLogging, LcStopLogging, LcGnssOn, LcGnssOff} then (Completed, NoReason)
       else recovery_answer b c)"
    unfolding local_answer_def recovery_answer_def by (simp only: if_False simp_thms)
qed

text \<open>
  C29. Every local command of the ground is answered, by the table of answers: unknown codes are
  NotSupported, arguments where none are allowed InvalidArgument, ExitRecovery outside recovery
  InvalidState, a second recovery command Busy, logging and GNSS commands Completed, recovery
  commands Accepted. A Completed command, and only that, switches the log or the receiver. An
  accepted recovery command, and only that, opens the session and sends one request that fits a
  CAN frame to the Mission board, with the source, offset and length that command and arguments
  stand for; it starts the assembler for a dump with just these and ends it for a stop, whose
  interrupted predecessor is reported as Failed before. All this holds when the queues have room:
  two places in that of the results, one in that of the CAN requests and one in that of the
  receiver's commands.
\<close>

theorem local_command_contract:
  assumes lora: "fifo_channel (lora_ops ops) lc lcap" and can: "fifo_channel (can_tx_ops ops) cc ccap"
    and gnss: "fifo_channel (gnss_ops ops) gc gcap"
    and k: "k \<noteq> 0" "length args = 6"
      "\<forall>p. rec_pending (bd_session b) = Some p \<longrightarrow> prec_transaction_id p \<noteq> 0"
    and room: "length (lc (bd_command_results b)) + 2 \<le> lcap (bd_command_results b)"
      "length (cc (bd_can_tx b)) < ccap (bd_can_tx b)"
      "length (gc (bd_gnss_commands b)) < gcap (bd_gnss_commands b)"
  shows "\<exists>b'. run_command ops (UpComBoardLocal k command args) b = (Finished, b') \<and>
    local_done lc cc gc k command args (local_answer b command args) b b'"
proof -
  have room1: "length (lc (bd_command_results b)) < lcap (bd_command_results b)" using room(1) by simp
  note immediate = local_immediate [OF lora k(1) room1]
  show ?thesis
  proof (cases "local_command_decode command")
    case None
    with process_local_unknown [OF this, of ops k args b] show ?thesis
      by (intro immediate) (auto simp: local_switched_def)
  next
    case (Some c)
    then have command: "command = local_command_code c" by (simp add: decode_local_cases)
    show ?thesis
    proof (cases "c \<in> {LcDumpInternalFlash, LcDumpMissionSd} \<or> args = [0, 0, 0, 0, 0, 0]")
      case False
      with process_local_arguments [OF k(2) _ _ command, of ops k b] show ?thesis
        by (intro immediate) (auto simp: local_switched_def)
    next
      case True
      note valid = process_local_valid(1) [OF k(2) True command, of ops k b]
        process_local_valid(2) [OF k(2) True command, of b]
      consider (log) "c = LcStartLogging" | (stop) "c = LcStopLogging" | (switch) "c = LcGnssOn \<or> c = LcGnssOff"
        | (rec) "c \<in> {LcWake, LcDumpInternalFlash, LcDumpMissionSd, LcStopDump, LcExitRecovery}"
        by (cases c) auto
      then show ?thesis
      proof cases
        case log
        with valid command show ?thesis
          by (intro immediate [where ?b1.0 = "b\<lparr>bd_logging_requested := True\<rparr>"]) (auto simp: local_switched_def)
      next
        case stop
        with valid command show ?thesis
          by (intro immediate [where ?b1.0 = "b\<lparr>bd_logging_requested := False,
              bd_sd_flush_signals := bd_sd_flush_signals b + 1\<rparr>"]) (auto simp: local_switched_def)
      next
        case switch
        with valid command local_to_gnss [OF lora gnss k(1) room1 room(3)] show ?thesis by auto
      next
        case rec
        then have answer: "local_answer b command args = recovery_answer b c"
          and start: "process_local ops k command args b = process_recovery ops k command args c b"
          using valid by auto
        show ?thesis
        proof (cases "recovery_answer b c = (Accepted, NoReason)")
          case True
          from recovery_accepted [OF lora can k(1,3) room(1,2) command rec start True] show ?thesis
            by (simp add: answer True)
        next
          case False
          from recovery_refused [OF this] False show ?thesis
            by (intro immediate) (auto simp: answer start local_switched_def recovery_answer_def)
        qed
      qed
    qed
  qed
qed

subsection \<open>Commands for the Mission board\<close>

text \<open>\<open>requests_for k\<close> selects the requests of transaction \<open>k\<close> among those for the CAN bus.\<close>

definition requests_for :: "u8 \<Rightarrow> can_tx_request list \<Rightarrow> can_tx_request list" where
  "requests_for k rs = filter (\<lambda>r. case ctr_message r of
     TxGenericCommandRequest g \<Rightarrow> req_transaction_id g = k | _ \<Rightarrow> False) rs"

lemma queue_command_packet_untouched [untouched]:
  "bd_can_tx (queue_command_packet ops p b) = bd_can_tx b"
  "bd_tracker (queue_command_packet ops p b) = bd_tracker b"
  by (simp_all add: queue_command_packet_eq untouched)

lemma queue_due_untouched [untouched]:
  "bd_can_tx (queue_due ops due b) = bd_can_tx b" "bd_tracker (queue_due ops due b) = bd_tracker b"
  by (simp_all add: queue_due_def untouched split: option.split)

lemma queue_result_untouched [untouched]:
  "bd_can_tx (queue_result ops k c ph re b) = bd_can_tx b"
  "bd_tracker (queue_result ops k c ph re b) = bd_tracker b"
  by (simp_all add: queue_result_def untouched)

lemma process_recovery_untouched [untouched]:
  "bd_can_tx (snd (process_recovery ops k c args v b)) = bd_can_tx b"
  "bd_tracker (snd (process_recovery ops k c args v b)) = bd_tracker b"
  by (simp_all add: process_recovery_def untouched Let_def split: prod.split option.split)

lemma process_local_untouched [untouched]:
  "bd_can_tx (snd (process_local ops k c args b)) = bd_can_tx b"
  "bd_tracker (snd (process_local ops k c args b)) = bd_tracker b"
  by (simp_all add: process_local_def untouched Let_def split: option.split local_command.split)

text \<open>The request a suspended task still has to queue, and what a step adds to the queue.\<close>

definition waits_for :: "command_wait \<Rightarrow> can_tx_request list" where
  "waits_for w = (case w of SendingCan m _ _ \<Rightarrow> [\<lparr>ctr_message = m\<rparr>] | _ \<Rightarrow> [])"

definition added ::
  "('c \<Rightarrow> can_tx_request list) \<Rightarrow> ('l, 'c, 'r, 'g) board \<Rightarrow> ('l, 'c, 'r, 'g) board \<Rightarrow> can_tx_request list" where
  "added cc b b' = drop (length (cc (bd_can_tx b))) (cc (bd_can_tx b'))"

lemma poll_wait_adds:
  assumes can: "fifo_channel (can_tx_ops ops) cc ccap" and run: "poll_wait ops (w, b) = (w', b')"
  shows "added cc b b' @ waits_for w' = waits_for w \<and> bd_tracker b' = bd_tracker b"
proof (cases w)
  case (SendingCan m due locked)
  let ?e = "\<lparr>ctr_message = m\<rparr> :: can_tx_request"
  obtain sent q where q: "try_send (can_tx_ops ops) ?e (bd_can_tx b) = (sent, q)" by fastforce
  have "cc q = cc (bd_can_tx b) @ (if sent then [?e] else [])"
    using fifo_channel.send_taken [OF can, of ?e "bd_can_tx b"] fifo_channel.send_contents [OF can, of ?e "bd_can_tx b"]
    by (simp add: q)
  with run show ?thesis
    by (auto simp: SendingCan q added_def waits_for_def untouched Let_def split: if_splits)
next
  case (SendingGnss g due)
  with run show ?thesis by (auto simp: added_def waits_for_def untouched Let_def split: prod.splits if_splits)
qed (use run in \<open>simp add: waits_for_def added_def\<close>)

lemma process_local_waits:
  "\<forall>r \<in> set (waits_for (fst (process_local ops k c args b))). \<exists>ctl. r = \<lparr>ctr_message = TxRecoveryControl ctl\<rparr>"
  by (auto simp: process_local_def process_recovery_def waits_for_def Let_def
      split: option.splits local_command.splits prod.splits if_splits)

lemma register_forward:
  assumes "tracker_inv t" "register t request = (answer, t')"
  shows "tracker_inv t'" "answer \<noteq> Forward \<Longrightarrow> t' = t"
    "answer = Forward \<Longrightarrow> pending_of t (req_transaction_id request) = None \<and>
       pending_of t' = (pending_of t)(req_transaction_id request \<mapsto> request)"
  using assms(2) register_pending_store [OF assms(1), of _ request] assms(1)
  by (auto simp: register_cases [OF assms(1)] split: option.splits prod.splits if_splits)

text \<open>A command that is taken: what it goes on to request for transaction \<open>k\<close>, and whether \<open>k\<close> is then pending.\<close>

lemma command_requests:
  assumes inv: "tracker_inv (bd_tracker b)" and start: "process_command ops c b = (w, b')"
  shows "bd_can_tx b' = bd_can_tx b \<and> tracker_inv (bd_tracker b') \<and>
    (case pending_of (bd_tracker b) k of
       Some r \<Rightarrow> requests_for k (waits_for w) = [] \<and> pending_of (bd_tracker b') k = Some r
     | None \<Rightarrow> length (requests_for k (waits_for w)) \<le> 1 \<and>
         (requests_for k (waits_for w) = [] \<or> pending_of (bd_tracker b') k \<noteq> None))"
proof (cases c)
  case (UpMissionGeneric request)
  obtain answer t' where reg: "register (bd_tracker b) request = (answer, t')"
    by (cases "register (bd_tracker b) request")
  note regs = register_forward [OF inv reg]
  have b': "bd_can_tx b' = bd_can_tx b" "bd_tracker b' = t'"
    "waits_for w = (if answer = Forward then [\<lparr>ctr_message = TxGenericCommandRequest request\<rparr>] else [])"
    using start reg
    by (auto simp: UpMissionGeneric process_command_def process_generic_def waits_for_def untouched
        Let_def split: register_result.splits)
  then have "requests_for k (waits_for w) = (if answer = Forward \<and> req_transaction_id request = k
      then [\<lparr>ctr_message = TxGenericCommandRequest request\<rparr>] else [])"
    by (simp add: requests_for_def)
  with b' regs show ?thesis by (cases "answer = Forward") (auto split: option.splits)
next
  case (UpComBoardLocal tid command args)
  then have "bd_can_tx b' = bd_can_tx b" "bd_tracker b' = bd_tracker b"
    and "\<forall>r \<in> set (waits_for w). \<exists>ctl. r = \<lparr>ctr_message = TxRecoveryControl ctl\<rparr>"
    using start process_local_untouched [of ops tid command args b] process_local_waits [of ops tid command args b]
    by (simp_all add: process_command_def)
  moreover from this have "requests_for k (waits_for w) = []" by (auto simp: requests_for_def filter_empty_conv)
  ultimately show ?thesis using inv by (auto split: option.split)
qed (use start inv in \<open>auto simp: process_command_def waits_for_def requests_for_def split: option.split\<close>)

text \<open>
  The command task among all the others. It takes the next command when it is idle, and is polled
  while it waits for room. Between its steps anything may happen to the board, the CAN queue
  included, as long as the transaction tracker stays well formed and no answer for \<open>k\<close> changes
  what is pending under \<open>k\<close>. A step is labelled with the requests the task adds to the CAN queue.
\<close>

inductive command_step ::
  "('l, 'c, 'r, 'g) board_ops \<Rightarrow> ('c \<Rightarrow> can_tx_request list) \<Rightarrow> u8 \<Rightarrow> command_wait \<times> ('l, 'c, 'r, 'g) board \<Rightarrow>
   can_tx_request list \<Rightarrow> command_wait \<times> ('l, 'c, 'r, 'g) board \<Rightarrow> bool"
  for ops cc k where
  takes: "process_command ops c b = (w, b') \<Longrightarrow> command_step ops cc k (Finished, b) (added cc b b') (w, b')"
| polled: "poll_wait ops (w, b) = (w', b') \<Longrightarrow> command_step ops cc k (w, b) (added cc b b') (w', b')"
| others: "tracker_inv (bd_tracker b') \<Longrightarrow> pending_of (bd_tracker b') k = pending_of (bd_tracker b) k \<Longrightarrow>
    command_step ops cc k (w, b) [] (w, b')"

inductive command_run ::
  "('l, 'c, 'r, 'g) board_ops \<Rightarrow> ('c \<Rightarrow> can_tx_request list) \<Rightarrow> u8 \<Rightarrow> command_wait \<times> ('l, 'c, 'r, 'g) board \<Rightarrow>
   can_tx_request list \<Rightarrow> command_wait \<times> ('l, 'c, 'r, 'g) board \<Rightarrow> bool"
  for ops cc k start where
  command_start: "command_run ops cc k start [] start"
| command_next: "command_run ops cc k start sent s \<Longrightarrow> command_step ops cc k s new s' \<Longrightarrow>
    command_run ops cc k start (sent @ new) s'"

lemma requests_for_append [simp]: "requests_for k (xs @ ys) = requests_for k xs @ requests_for k ys"
  by (simp add: requests_for_def)

lemma command_run_inv:
  assumes can: "fifo_channel (can_tx_ops ops) cc ccap"
    and start: "tracker_inv (bd_tracker b0)"
  shows "command_run ops cc k (Finished, b0) sent s \<Longrightarrow> tracker_inv (bd_tracker (snd s)) \<and>
    length (requests_for k (sent @ waits_for (fst s))) \<le> (if pending_of (bd_tracker b0) k = None then 1 else 0) \<and>
    (requests_for k (sent @ waits_for (fst s)) = [] \<and> pending_of (bd_tracker b0) k = None \<or>
     pending_of (bd_tracker (snd s)) k \<noteq> None)"
proof (induction rule: command_run.induct)
  case command_start
  show ?case using start
    by (cases "pending_of (bd_tracker b0) k") (simp_all add: waits_for_def requests_for_def)
next
  case (command_next sent s new s')
  from command_next.hyps(2) command_next.IH show ?case
  proof (induction rule: command_step.induct)
    case (takes c b w b')
    have idle: "waits_for Finished = []" by (simp add: waits_for_def)
    have "tracker_inv (bd_tracker b)" using takes.prems by simp
    note taken = command_requests [OF this takes.hyps, of k]
    then have "added cc b b' = []" by (simp add: added_def)
    then show ?case
      using takes.prems taken by (auto simp: idle split: option.splits if_splits)
  next
    case (polled w b w' b')
    note polled' = poll_wait_adds [OF can polled.hyps]
    have "requests_for k ((sent @ added cc b b') @ waits_for w') = requests_for k (sent @ waits_for w)"
      using polled' by (metis append_assoc)
    then show ?case using polled.prems polled' by (simp only: fst_conv snd_conv)
  qed simp
qed

text \<open>
  C27. The Mission board gets a command at most once. In any run of the command task, whatever
  commands the ground sends and repeats, however long the task waits for room in the CAN queue and
  whatever the other tasks do meanwhile, as long as no answer ends the pending transaction \<open>k\<close>, the
  task queues at most one request with that transaction, the one it still waits to queue included,
  and none if it was pending already.
\<close>

theorem command_sent_at_most_once:
  assumes "fifo_channel (can_tx_ops ops) cc ccap" and "tracker_inv (bd_tracker b0)"
    and "command_run ops cc k (Finished, b0) sent (w, b)"
  shows "length (requests_for k (sent @ waits_for w)) \<le> (if pending_of (bd_tracker b0) k = None then 1 else 0)"
  using command_run_inv [OF assms] by simp

subsection \<open>The requests fit a frame\<close>

text \<open>
  The command task never builds a request the CAN driver would reject: whatever frame of the
  ground was decoded and in whatever state the board is, the message the task goes on to send
  is well typed and within the ranges of its frame, so \<open>create_frame_from_message\<close> gives a frame
  with the identifier of the message and at most eight bytes.
\<close>

theorem queued_requests_are_frames:
  assumes "twai_constructors drv"
    and "decode_uplink [b0, b1, b2, b3, b4, b5, b6, b7, b8, b9, b10] = Inr c"
    and "process_command ops c b = (SendingCan m due locked, b')"
  shows "wf_tx m \<and> encodable_tx m \<and>
    (\<exists>data. create_frame_from_message drv m = Inr \<lparr>fr_id = StandardId (can_tx_id m), fr_data = data\<rparr> \<and>
       length data = dlc m)"
proof -
  have valid: "valid_uplink c" using decode_uplink_sound(1) [OF assms(2)] .
  have ok: "wf_tx m \<and> encodable_tx m"
  proof (cases c)
    case (UpMissionGeneric request)
    with assms(3) valid show ?thesis
      by (auto simp: process_command_def process_generic_def Let_def split: prod.splits register_result.splits)
  next
    case (UpComBoardLocal k command args)
    with assms(3) show ?thesis
      by (auto simp: process_command_def process_local_def process_recovery_def Let_def u24_small
          split: option.splits local_command.splits prod.splits if_splits)
  next
    case (UpGroundTimeResponse k source secs ms)
    with assms(3) valid show ?thesis by (auto simp: process_command_def word_le_nat_alt word_less_nat_alt)
  qed (use assms(3) in \<open>simp_all add: process_command_def\<close>)
  have "\<exists>payload. encode_payload m = Inr (payload, dlc m) \<and> length payload = 8"
  proof (cases m)
    case (TxGenericCommandRequest r)
    with ok show ?thesis by (simp add: encode_payload_tx)
  qed (use ok in \<open>auto simp: encode_payload_tx\<close>)
  then obtain payload where p: "encode_payload m = Inr (payload, dlc m)" "length payload = 8" by blast
  moreover have "dlc m \<le> 8" by (cases m) simp_all
  ultimately show ?thesis
    using ok twai_constructors.create_frame_iff [OF assms(1), of m] by auto
qed

subsection \<open>Concrete commands\<close>

text \<open>A stop of the dump 4 that is pending on an otherwise empty board.\<close>

definition demo_dumping :: list_board where
  "demo_dumping = list_start\<lparr>bd_session := \<lparr>rec_pending = Some \<lparr>prec_transaction_id = 4, prec_command = 0x66,
     prec_opcode = OpStartLogDump, prec_source = InternalFlash\<rparr>\<rparr>\<rparr>"

lemma local_command_contract_witness:
  "\<exists>b'. run_command list_ops (UpComBoardLocal 5 0x78 [0, 0, 0, 0, 0, 0]) demo_dumping = (Finished, b') \<and>
     map ground_reads (snd (bd_command_results b')) =
       [Some (PCommandResult (packet_of_result (local_result 4 0x66 (Failed, InterruptedByEmergency)))),
        Some (PCommandResult (packet_of_result (local_result 5 0x78 (Accepted, NoReason))))] \<and>
     recovery_started snd 5 0x78 [0, 0, 0, 0, 0, 0] demo_dumping b'"
proof -
  have chans: "fifo_channel (lora_ops list_ops) snd fst" "fifo_channel (can_tx_ops list_ops) snd fst"
    "fifo_channel (gnss_ops list_ops) snd fst" by (simp_all add: list_channel_fifo)
  have room: "\<forall>p. rec_pending (bd_session demo_dumping) = Some p \<longrightarrow> prec_transaction_id p \<noteq> 0"
    "length (snd (bd_command_results demo_dumping)) + 2 \<le> fst (bd_command_results demo_dumping)"
    "length (snd (bd_can_tx demo_dumping)) < fst (bd_can_tx demo_dumping)"
    "length (snd (bd_gnss_commands demo_dumping)) < fst (bd_gnss_commands demo_dumping)"
    by (simp_all add: demo_dumping_def list_start_def initial_board_def)
  have answer: "local_answer demo_dumping 0x78 [0, 0, 0, 0, 0, 0] = (Accepted, NoReason)"
    by (simp add: local_answer_def)
  have interrupted: "interrupted_results 0x78 demo_dumping = [local_result 4 0x66 (Failed, InterruptedByEmergency)]"
    "snd (bd_command_results demo_dumping) = []"
    by (simp_all add: interrupted_results_def demo_dumping_def list_start_def initial_board_def)
  have reads: "ground_reads (result_envelope (local_result k c a) SrcCommandResult) =
      Some (PCommandResult (packet_of_result (local_result k c a)))" if "k \<noteq> 0" for k c a
    using that by (intro ground_reads_result) (simp add: local_result_def)
  from local_command_contract [OF chans _ _ room, where k = 5 and args = "[0, 0, 0, 0, 0, 0]" and command = "0x78"]
  obtain b' where "run_command list_ops (UpComBoardLocal 5 0x78 [0, 0, 0, 0, 0, 0]) demo_dumping = (Finished, b')"
    "local_done snd snd snd 5 0x78 [0, 0, 0, 0, 0, 0] (Accepted, NoReason) demo_dumping b'"
    by (auto simp: answer)
  then show ?thesis by (auto simp: local_done_def interrupted reads)
qed

text \<open>
  A command of the ground finds the CAN queue full, waits, is polled in vain, and is queued when
  there is room; its repetition is dropped.
\<close>

datatype command_move = TakeCommand uplink_command | PollTask | MakeRoom

fun command_do :: "command_move \<Rightarrow> command_wait \<times> list_board \<Rightarrow> (command_wait \<times> list_board) option" where
  "command_do (TakeCommand c) (Finished, b) = Some (process_command list_ops c b)"
| "command_do (TakeCommand c) _ = None"
| "command_do PollTask s = Some (poll_wait list_ops s)"
| "command_do MakeRoom (w, b) = Some (w, b\<lparr>bd_can_tx := (8, [])\<rparr>)"

fun command_play ::
  "command_move list \<Rightarrow> can_tx_request list \<times> command_wait \<times> list_board \<Rightarrow>
   (can_tx_request list \<times> command_wait \<times> list_board) option" where
  "command_play [] s = Some s"
| "command_play (move # moves) (sent, s) =
     (case command_do move s of
        None \<Rightarrow> None
      | Some s' \<Rightarrow> command_play moves (sent @ (if move = MakeRoom then [] else added snd (snd s) (snd s')), s'))"

lemma command_do_step:
  assumes "tracker_inv (bd_tracker (snd s))" "command_do move s = Some s'"
  shows "command_step list_ops snd k s (if move = MakeRoom then [] else added snd (snd s) (snd s')) s'"
  using assms
proof (induction move s rule: command_do.induct)
  case (1 c b)
  then show ?case by (cases "process_command list_ops c b") (auto intro: command_step.takes)
next
  case (3 s)
  then show ?case by (cases s; cases "poll_wait list_ops s") (auto intro: command_step.polled)
qed (auto intro: command_step.others)

lemma command_play_run:
  "command_play moves (sent, s) = Some (sent', s') \<Longrightarrow> tracker_inv (bd_tracker b0) \<Longrightarrow>
   command_run list_ops snd k (Finished, b0) sent s \<Longrightarrow> command_run list_ops snd k (Finished, b0) sent' s'"
proof (induction moves arbitrary: sent s)
  case (Cons move moves)
  obtain s1 where s1: "command_do move s = Some s1"
    "command_play moves (sent @ (if move = MakeRoom then [] else added snd (snd s) (snd s1)), s1) = Some (sent', s')"
    using Cons.prems(1) by (auto split: option.splits)
  have "fifo_channel (can_tx_ops list_ops) snd fst" by (simp add: list_channel_fifo)
  from command_run_inv [OF this Cons.prems(2,3)] command_do_step [OF _ s1(1), of k]
  have "command_run list_ops snd k (Finished, b0)
      (sent @ (if move = MakeRoom then [] else added snd (snd s) (snd s1))) s1"
    by (blast intro: command_run.command_next [OF Cons.prems(3)])
  with Cons.IH [OF s1(2) Cons.prems(2)] show ?case by blast
qed simp

definition demo_full :: list_board where
  "demo_full = list_start\<lparr>bd_can_tx := (1, [\<lparr>ctr_message = TxTimeResponse 2 TimeGround 60 500\<rparr>])\<rparr>"

lemma demo_repeated:
  "case command_play [TakeCommand (UpMissionGeneric demo_command), PollTask, MakeRoom, PollTask, TakeCommand (UpMissionGeneric demo_command)]
      ([], Finished, demo_full) of
     None \<Rightarrow> False
   | Some (sent, w, b) \<Rightarrow> sent = [\<lparr>ctr_message = TxGenericCommandRequest demo_command\<rparr>] \<and> w = Finished"
  by code_simp

lemma command_sent_at_most_once_witness:
  "\<exists>sent w b. command_run list_ops snd 7 (Finished, demo_full) sent (w, b) \<and>
     sent = [\<lparr>ctr_message = TxGenericCommandRequest demo_command\<rparr>] \<and> length (requests_for 7 (sent @ waits_for w)) \<le> 1"
proof -
  have inv: "tracker_inv (bd_tracker demo_full)" 
    by (simp add: demo_full_def list_start_def initial_board_def tracker_inv_new)
  obtain sent w b where played: "command_play [TakeCommand (UpMissionGeneric demo_command), PollTask, MakeRoom, PollTask,
      TakeCommand (UpMissionGeneric demo_command)] ([], Finished, demo_full) = Some (sent, w, b)"
    "sent = [\<lparr>ctr_message = TxGenericCommandRequest demo_command\<rparr>]"
    using demo_repeated by (auto split: option.splits)
  note run = command_play_run [OF played(1) inv command_run.command_start]
  have "fifo_channel (can_tx_ops list_ops) snd fst" by (simp add: list_channel_fifo)
  note once = command_sent_at_most_once [OF this inv run, of 7]
  have "(if pending_of (bd_tracker demo_full) 7 = None then 1 else 0) \<le> (1 :: nat)" by simp
  from order_trans [OF once this] played(2) run [of 7] show ?thesis by blast
qed

lemma queued_requests_are_frames_witness:
  "\<exists>data. create_frame_from_message reference_driver (TxTimeResponse 2 TimeGround 60 500) =
     Inr \<lparr>fr_id = StandardId 0x013, fr_data = data\<rparr> \<and> length data = 8"
proof -
  have drv: "twai_constructors reference_driver" by unfold_locales
  have decode: "decode_uplink [0x55, 4, 2, 2, 60, 0, 0, 0, 0xf4, 1, 0x98] =
      Inr (UpGroundTimeResponse 2 TimeGround 60 500)"
    by code_simp
  have "process_command list_ops (UpGroundTimeResponse 2 TimeGround 60 500) list_start =
      (SendingCan (TxTimeResponse 2 TimeGround 60 500) None False, list_start)"
    by (simp add: process_command_def)
  from queued_requests_are_frames [OF drv decode this] show ?thesis by auto
qed

end
