(* ===== verification/TwoTasks.thy ===== *)
theory TwoTasks
  imports CommandTask CanStatus
begin

section \<open>The CAN task and the command task together\<close>

text \<open>
  The two tasks share the transaction tracker behind a mutex and the queue of CAN requests, which
  the command task fills and only the CAN task empties. The executor runs one task at a time
  until it waits. A state is what the command task waits for, the place at which the CAN task
  waits (\<open>can_place\<close>), and the states of the tasks. \<open>select3\<close> and \<open>select\<close> poll their futures in
  order, so a received frame is taken only when no request is queued. What a blocked handler has
  done before it asks for the lock is accounted to the step with which it goes on.
\<close>

datatype can_place =
  AtSelect
| Transmitting can_tx_request
| WaitsToReport can_tx_message can_tx_error
| WaitsToApply twai_frame u64

definition holds_tracker :: "command_wait \<Rightarrow> bool" where
  "holds_tracker w = (case w of SendingCan _ _ locked \<Rightarrow> locked | _ \<Rightarrow> False)"

text \<open>The two places at which the CAN task locks the tracker.\<close>

definition frame_needs_tracker :: "twai_frame \<Rightarrow> bool" where
  "frame_needs_tracker frame =
     (case fr_id frame of
        ExtendedId _ \<Rightarrow> False
      | StandardId ident \<Rightarrow>
          ident \<noteq> 0x014 \<and> ident \<noteq> FRAME_DEVICE_HEALTH \<and>
          (case decode_standard ident (fr_data frame) of Inr (RxCommandResult _) \<Rightarrow> True | _ \<Rightarrow> False))"

definition failure_needs_tracker :: "can_tx_message \<Rightarrow> bool" where
  "failure_needs_tracker message = (case message of TxGenericCommandRequest _ \<Rightarrow> True | _ \<Rightarrow> False)"

text \<open>After a transmission: the next safety request, or the end of the iteration.\<close>

definition after_transmission ::
  "('l, 'c, 'r, 'g) board_ops \<Rightarrow> can_reading \<Rightarrow> u64 \<Rightarrow> can_task \<times> ('l, 'c, 'r, 'g) board \<Rightarrow>
   can_place \<times> can_task \<times> ('l, 'c, 'r, 'g) board" where
  "after_transmission ops r now_ms s =
     (case s of (t, b) \<Rightarrow>
        case try_receive (can_tx_ops ops) (bd_can_safety_tx b) of (next_safety, q) \<Rightarrow>
          let b = b\<lparr>bd_can_safety_tx := q\<rparr>
          in (case next_safety of
                None \<Rightarrow> (AtSelect, finish_iteration r now_ms (t, b))
              | Some request \<Rightarrow> (Transmitting request, t, b)))"

fun takes_no_request :: "('l, 'c, 'r, 'g) wakeup \<Rightarrow> bool" where
  "takes_no_request (RequestReady _) = False"
| "takes_no_request _ = True"

fun polled_after_requests :: "('l, 'c, 'r, 'g) wakeup \<Rightarrow> bool" where
  "polled_after_requests (HealthTick _) = False"
| "polled_after_requests _ = True"

fun wakeup_needs_tracker :: "('l, 'c, 'r, 'g) wakeup \<Rightarrow> bool" where
  "wakeup_needs_tracker (FrameReceived frame _) = frame_needs_tracker frame"
| "wakeup_needs_tracker _ = False"

definition request_queued :: "('l, 'c, 'r, 'g) board_ops \<Rightarrow> ('l, 'c, 'r, 'g) board \<Rightarrow> bool" where
  "request_queued ops b = (fst (receive_request ops b) \<noteq> None)"

type_synonym ('l, 'c, 'r, 'g) two_tasks =
  "command_wait \<times> can_place \<times> can_task \<times> ('l, 'c, 'r, 'g) board"

inductive task_step ::
  "can_driver \<Rightarrow> ('l, 'c, 'r, 'g) board_ops \<Rightarrow> ('l, 'c, 'r, 'g) two_tasks \<Rightarrow> ('l, 'c, 'r, 'g) two_tasks \<Rightarrow> bool"
  for drv ops where
  take_command: "run_command ops c b = (w, b') \<Longrightarrow>
    task_step drv ops (Finished, p, t, b) (w, p, t, b')"
| poll_command: "poll_wait ops (w, b) = (w', b') \<Longrightarrow>
    task_step drv ops (w, p, t, b) (w', p, t, b')"
| can_takes_request: "receive_request ops b = (Some request, b') \<Longrightarrow>
    task_step drv ops (w, AtSelect, t, b) (w, Transmitting request, t, b')"
| can_wakes: "takes_no_request wakeup \<Longrightarrow> polled_after_requests wakeup \<longrightarrow> \<not> request_queued ops b \<Longrightarrow>
    \<not> (holds_tracker w \<and> wakeup_needs_tracker wakeup) \<Longrightarrow>
    can_iteration drv ops wakeup r now_ms (t, b) = Some s \<Longrightarrow>
    task_step drv ops (w, AtSelect, t, b) (w, AtSelect, s)"
| frame_blocks: "\<not> request_queued ops b \<Longrightarrow> holds_tracker w \<Longrightarrow> frame_needs_tracker frame \<Longrightarrow>
    task_step drv ops (w, AtSelect, t, b) (w, WaitsToApply frame received_ms, t, b)"
| frame_resumes: "\<not> holds_tracker w \<Longrightarrow>
    can_iteration drv ops (FrameReceived frame received_ms) r now_ms (t, b) = Some s \<Longrightarrow>
    task_step drv ops (w, WaitsToApply frame received_ms, t, b) (w, AtSelect, s)"
| sent: "transmit_message_with_timeout drv (ctr_message request) outcome = Inr () \<Longrightarrow>
    task_step drv ops (w, Transmitting request, t, b)
      (w, after_transmission ops r now_ms (transmit_succeeded ops (ctr_message request) (t, b)))"
| not_sent: "transmit_message_with_timeout drv (ctr_message request) outcome = Inl error \<Longrightarrow>
    \<not> (holds_tracker w \<and> failure_needs_tracker (ctr_message request)) \<Longrightarrow>
    task_step drv ops (w, Transmitting request, t, b)
      (w, after_transmission ops r now_ms (transmit_failed ops (ctr_message request) error (t, b)))"
| failure_blocks: "transmit_message_with_timeout drv (ctr_message request) outcome = Inl error \<Longrightarrow>
    holds_tracker w \<Longrightarrow> failure_needs_tracker (ctr_message request) \<Longrightarrow>
    task_step drv ops (w, Transmitting request, t, b) (w, WaitsToReport (ctr_message request) error, t, b)"
| failure_resumes: "\<not> holds_tracker w \<Longrightarrow>
    task_step drv ops (w, WaitsToReport message error, t, b)
      (w, after_transmission ops r now_ms (transmit_failed ops message error (t, b)))"

inductive_cases task_stepE: "task_step drv ops (w, p, t, b) s"

subsection \<open>The steps refine the iterations\<close>

definition alone :: "('l, 'c, 'r, 'g) tx_script \<Rightarrow> bool" where
  "alone script \<longleftrightarrow> (\<forall>(others, _) \<in> set script. others = id)"

lemma transmit_loop_steps:
  assumes "alone script" "\<not> holds_tracker w" "transmit_loop drv ops script request (t, b) = Some s"
  shows "(task_step drv ops)\<^sup>*\<^sup>* (w, Transmitting request, t, b) (w, AtSelect, finish_iteration r now_ms s)"
  using assms
proof (induction script arbitrary: request t b)
  case (Cons e script)
  obtain others outcome where e: "e = (others, outcome)" by (cases e)
  with Cons.prems have others: "others = id" and script: "alone script"
    by (auto simp: alone_def)
  let ?m = "ctr_message request"
  obtain u c where uc: "(case transmit_message_with_timeout drv ?m outcome of
      Inr _ \<Rightarrow> transmit_succeeded ops ?m (t, others b)
    | Inl error \<Rightarrow> transmit_failed ops ?m error (t, others b)) = (u, c)"
    by (metis surj_pair)
  obtain safety q where q: "try_receive (can_tx_ops ops) (bd_can_safety_tx c) = (safety, q)"
    by (metis surj_pair)
  have step: "task_step drv ops (w, Transmitting request, t, b) (w, after_transmission ops r now_ms (u, c))"
    using uc others sent [of drv request outcome ops w t b r now_ms] Cons.prems(2)
      not_sent [of drv request outcome _ w ops t b r now_ms]
    by (cases "transmit_message_with_timeout drv ?m outcome") auto
  have loop: "transmit_loop drv ops (e # script) request (t, b) =
      (case safety of None \<Rightarrow> Some (u, c\<lparr>bd_can_safety_tx := q\<rparr>)
       | Some following \<Rightarrow> transmit_loop drv ops script following (u, c\<lparr>bd_can_safety_tx := q\<rparr>))"
    by (simp add: e uc q Let_def)
  show ?case
  proof (cases safety)
    case None
    with Cons.prems(3) loop q step show ?thesis
      by (auto simp: after_transmission_def)
  next
    case (Some following)
    have "(task_step drv ops)\<^sup>*\<^sup>* (w, Transmitting following, u, c\<lparr>bd_can_safety_tx := q\<rparr>)
        (w, AtSelect, finish_iteration r now_ms s)"
      by (rule Cons.IH [OF script Cons.prems(2)])
        (use Cons.prems(3) loop Some in simp)
    moreover have "after_transmission ops r now_ms (u, c) = (Transmitting following, u, c\<lparr>bd_can_safety_tx := q\<rparr>)"
      using q Some by (simp add: after_transmission_def)
    ultimately show ?thesis using step by (simp add: converse_rtranclp_into_rtranclp)
  qed
qed simp

text \<open>
  Every iteration of the CAN task in which no other task interferes, and which respects the
  polling order, is a run of the steps: the model of single steps has all the behaviour of the
  model of iterations, on which the other theorems about the CAN task rest.
\<close>

lemma iteration_steps:
  assumes "\<not> holds_tracker w" "can_iteration drv ops wakeup r now_ms (t, b) = Some s"
    and "\<forall>script. wakeup = RequestReady script \<longrightarrow> alone script"
    and "takes_no_request wakeup \<and> polled_after_requests wakeup \<longrightarrow> \<not> request_queued ops b"
  shows "(task_step drv ops)\<^sup>*\<^sup>* (w, AtSelect, t, b) (w, AtSelect, s)"
proof (cases wakeup)
  case (RequestReady script)
  with assms(2) obtain request c s' where c: "receive_request ops b = (Some request, c)"
    "transmit_loop drv ops script request (t, c) = Some s'" "s = finish_iteration r now_ms s'"
    by (auto simp: can_iteration_def split: option.splits prod.splits)
  with transmit_loop_steps [OF _ assms(1) c(2)] assms(3) RequestReady
    task_step.can_takes_request [OF c(1), of drv w t]
  show ?thesis by (auto intro: converse_rtranclp_into_rtranclp)
qed (use assms task_step.can_wakes [of wakeup ops b w drv r now_ms t s] in auto)

subsection \<open>The deadlock\<close>

text \<open>
  The command task waits for room in a full queue of CAN requests with the tracker locked, the
  CAN task for the tracker.
\<close>

definition deadlocked ::
  "('c \<Rightarrow> can_tx_request list) \<Rightarrow> ('c \<Rightarrow> nat) \<Rightarrow> ('l, 'c, 'r, 'g) two_tasks \<Rightarrow> bool" where
  "deadlocked cc ccap s = (case s of (w, p, t, b) \<Rightarrow>
     (case w of SendingCan _ _ locked \<Rightarrow> locked | _ \<Rightarrow> False) \<and>
     (case p of WaitsToReport _ _ \<Rightarrow> True | WaitsToApply _ _ \<Rightarrow> True | _ \<Rightarrow> False) \<and>
     ccap (bd_can_tx b) \<le> length (cc (bd_can_tx b)))"

lemma deadlocked_step:
  assumes can: "fifo_channel (can_tx_ops ops) cc ccap" and dead: "deadlocked cc ccap s"
    and step: "task_step drv ops s s'"
  shows "deadlocked cc ccap s' \<and> fst s' = fst s \<and> fst (snd s') = fst (snd s) \<and>
    cc (bd_can_tx (snd (snd (snd s')))) = cc (bd_can_tx (snd (snd (snd s))))"
proof -
  obtain w p t b where s: "s = (w, p, t, b)" by (cases s)
  with dead obtain m due where w: "w = SendingCan m due True"
    and p: "case p of WaitsToReport _ _ \<Rightarrow> True | WaitsToApply _ _ \<Rightarrow> True | _ \<Rightarrow> False"
    and full: "ccap (bd_can_tx b) \<le> length (cc (bd_can_tx b))"
    by (auto simp: deadlocked_def split: command_wait.splits)
  let ?q = "snd (try_send (can_tx_ops ops) \<lparr>ctr_message = m\<rparr> (bd_can_tx b))"
  have refused: "\<not> fst (try_send (can_tx_ops ops) \<lparr>ctr_message = m\<rparr> (bd_can_tx b))"
    "cc ?q = cc (bd_can_tx b)" "ccap ?q = ccap (bd_can_tx b)"
    using full by (simp_all add: fifo_channel.laws [OF can])
  from step have "s' = (w, p, t, b\<lparr>bd_can_tx := ?q\<rparr>)"
    unfolding s w using refused(1) p
    by (elim task_stepE) (simp_all add: holds_tracker_def split_beta Let_def)
  with s w p full refused show ?thesis by (simp add: deadlocked_def)
qed

text \<open>
  C28. The lock of the tracker is held across a wait. Once the command task waits for room in a
  full queue of CAN requests with the tracker locked, and the CAN task waits for the tracker to
  report a failed transmission, no step of either task ever ends it: neither task goes on and
  the queue keeps its requests for ever.
\<close>

theorem tracker_deadlock:
  assumes "fifo_channel (can_tx_ops ops) cc ccap" and "deadlocked cc ccap s"
    and "(task_step drv ops)\<^sup>*\<^sup>* s s'"
  shows "deadlocked cc ccap s' \<and> fst s' = fst s \<and> fst (snd s') = fst (snd s) \<and>
    cc (bd_can_tx (snd (snd (snd s')))) = cc (bd_can_tx (snd (snd (snd s))))"
  using assms(3)
proof (induction rule: rtranclp_induct)
  case (step y z)
  with deadlocked_step [OF assms(1) _ step(2)] show ?case by auto
qed (simp add: assms(2))

subsection \<open>The deadlock is reachable\<close>

text \<open>A schedule as a list of moves, and its run.\<close>

datatype move = Take uplink_command | StartSend | SendFails

fun drive ::
  "can_driver \<Rightarrow> ('l, 'c, 'r, 'g) board_ops \<Rightarrow> move list \<Rightarrow> ('l, 'c, 'r, 'g) two_tasks \<Rightarrow>
   ('l, 'c, 'r, 'g) two_tasks option" where
  "drive drv ops [] s = Some s"
| "drive drv ops (Take c # moves) (w, p, t, b) =
     (case w of
        Finished \<Rightarrow> (case run_command ops c b of (w, b) \<Rightarrow> drive drv ops moves (w, p, t, b))
      | _ \<Rightarrow> None)"
| "drive drv ops (StartSend # moves) (w, p, t, b) =
     (case p of
        AtSelect \<Rightarrow>
          (case receive_request ops b of
             (None, b) \<Rightarrow> None
           | (Some request, b) \<Rightarrow> drive drv ops moves (w, Transmitting request, t, b))
      | _ \<Rightarrow> None)"
| "drive drv ops (SendFails # moves) (w, p, t, b) =
     (case p of
        Transmitting request \<Rightarrow>
          (case transmit_message_with_timeout drv (ctr_message request) TwaiTimedOut of
             Inr _ \<Rightarrow> None
           | Inl error \<Rightarrow>
               if holds_tracker w \<and> failure_needs_tracker (ctr_message request)
               then drive drv ops moves (w, WaitsToReport (ctr_message request) error, t, b) else None)
      | _ \<Rightarrow> None)"

lemma drive_steps: "drive drv ops moves s = Some s' \<Longrightarrow> (task_step drv ops)\<^sup>*\<^sup>* s s'"
proof (induction drv ops moves s rule: drive.induct)
  case (2 drv ops c moves w p t b)
  then obtain w' b' where "w = Finished" "run_command ops c b = (w', b')"
    "drive drv ops moves (w', p, t, b') = Some s'"
    by (auto split: command_wait.splits prod.splits)
  with "2.IH" show ?case by (auto intro: converse_rtranclp_into_rtranclp task_step.take_command)
next
  case (3 drv ops moves w p t b)
  then obtain request b' where "p = AtSelect" "receive_request ops b = (Some request, b')"
    "drive drv ops moves (w, Transmitting request, t, b') = Some s'"
    by (auto split: can_place.splits option.splits prod.splits)
  with "3.IH" show ?case by (auto intro: converse_rtranclp_into_rtranclp task_step.can_takes_request)
next
  case (4 drv ops moves w p t b)
  then obtain request error where p: "p = Transmitting request"
    "transmit_message_with_timeout drv (ctr_message request) TwaiTimedOut = Inl error"
    "holds_tracker w" "failure_needs_tracker (ctr_message request)"
    "drive drv ops moves (w, WaitsToReport (ctr_message request) error, t, b) = Some s'"
    by (auto split: can_place.splits sum.splits if_splits)
  with "4.IH" show ?case by (auto intro: converse_rtranclp_into_rtranclp task_step.failure_blocks)
qed simp

text \<open>
  A command of the ground for the Mission board is being transmitted when nine more arrive, one
  more than the queue of CAN requests holds, and the transmission times out.
\<close>

definition ground_command :: "u8 \<Rightarrow> move" where
  "ground_command k = Take (UpMissionGeneric
     \<lparr>req_transaction_id = k, req_command = 3, req_args = [0, 0, 0, 0, 0, 0]\<rparr>)"

definition ten_commands :: "move list" where
  "ten_commands = [ground_command 1, StartSend] @ map ground_command [2, 3, 4, 5, 6, 7, 8, 9, 10] @ [SendFails]"

lemma ten_commands_run:
  "case drive reference_driver list_ops ten_commands (Finished, AtSelect, initial_can_task, list_start) of
     None \<Rightarrow> False | Some s \<Rightarrow> deadlocked snd fst s"
  by code_simp

lemma tracker_deadlock_witness:
  "\<exists>s. (task_step reference_driver list_ops)\<^sup>*\<^sup>* (Finished, AtSelect, initial_can_task, list_start) s \<and>
     deadlocked snd fst s \<and>
     {s'. (task_step reference_driver list_ops)\<^sup>*\<^sup>* s s'} \<subseteq> {s'. deadlocked snd fst s'}"
proof -
  obtain s where s: "drive reference_driver list_ops ten_commands
      (Finished, AtSelect, initial_can_task, list_start) = Some s" "deadlocked snd fst s"
    using ten_commands_run by (auto split: option.splits)
  have "fifo_channel (can_tx_ops list_ops) snd fst" by (simp add: list_channel_fifo)
  from tracker_deadlock [OF this s(2)] drive_steps [OF s(1)] s(2) show ?thesis by blast
qed

end
