(* ===== verification/RecoveryPower.thy ===== *)
theory RecoveryPower
  imports Board
begin

section \<open>The power values of the recovery beacon (src/tasks/recovery\_power\_task.rs)\<close>

text \<open>
  While the recovery beacon is active the Mission board sends its power values only when it
  wakes. Every 100 ms this task puts the last received values back into the cache with a new
  time, so that the telemetry packets take them as fresh; values older than 30 s are replaced by
  codes for stale values. \<open>power_task\<close> is the local state of the task, \<open>power_tick\<close> one
  iteration of its loop at the time \<open>now_ms\<close>.
\<close>

definition RECOVERY_POWER_FRESHNESS_MS :: u64 where "RECOVERY_POWER_FRESHNESS_MS = 30000"
definition BATTERY_STALE_RAW :: u8 where "BATTERY_STALE_RAW = 253"
definition BATTERY_UNAVAILABLE_RAW :: u8 where "BATTERY_UNAVAILABLE_RAW = 255"
definition TIME_UNAVAILABLE_RAW :: u16 where "TIME_UNAVAILABLE_RAW = 0xfff1"
definition TIME_STALE_RAW :: u16 where "TIME_STALE_RAW = 0xfffa"

definition unavailable_snapshot :: power_time_telemetry where
  "unavailable_snapshot =
     \<lparr>pt_sequence = 0, pt_logic_voltage = BATTERY_UNAVAILABLE_RAW,
      pt_motor_voltage = BATTERY_UNAVAILABLE_RAW, pt_descent_elapsed = TIME_UNAVAILABLE_RAW,
      pt_recovery_elapsed = TIME_UNAVAILABLE_RAW, pt_flags = 0\<rparr>"

definition stale_snapshot :: "power_time_telemetry \<Rightarrow> power_time_telemetry" where
  "stale_snapshot previous =
     \<lparr>pt_sequence = pt_sequence previous, pt_logic_voltage = BATTERY_STALE_RAW,
      pt_motor_voltage = BATTERY_STALE_RAW, pt_descent_elapsed = pt_descent_elapsed previous,
      pt_recovery_elapsed = TIME_STALE_RAW, pt_flags = pt_flags previous\<rparr>"

record power_task =
  pw_active_previous :: bool
  pw_snapshot :: power_time_telemetry
  pw_source_received_at_ms :: "u64 option"
  pw_last_refresh_received_at_ms :: "u64 option"

definition new_power_task :: power_task where
  "new_power_task = \<lparr>pw_active_previous = False, pw_snapshot = unavailable_snapshot,
     pw_source_received_at_ms = None, pw_last_refresh_received_at_ms = None\<rparr>"

text \<open>The branch of an iteration in which the beacon was active before and still is.\<close>

definition refresh_power :: "u64 \<Rightarrow> power_task \<times> can_cache \<Rightarrow> power_task \<times> can_cache" where
  "refresh_power now_ms s =
     (case s of (t, c) \<Rightarrow>
        let current = lt_value (cc_power_time c);
            current_received_at_ms = received_at_ms (cc_power_time c);
            externally_updated = current \<noteq> None \<and> current_received_at_ms \<noteq> None \<and>
              current_received_at_ms \<noteq> pw_last_refresh_received_at_ms t;
            t = (if externally_updated
                 then t\<lparr>pw_snapshot := the current, pw_source_received_at_ms := current_received_at_ms\<rparr>
                 else t);
            source_age_ms = Option.bind (pw_source_received_at_ms t) (checked_sub now_ms);
            t = (if (case source_age_ms of None \<Rightarrow> False | Some age \<Rightarrow> RECOVERY_POWER_FRESHNESS_MS < age)
                 then t\<lparr>pw_snapshot := stale_snapshot (pw_snapshot t), pw_source_received_at_ms := None\<rparr>
                 else t)
        in (t\<lparr>pw_last_refresh_received_at_ms := Some now_ms\<rparr>,
            c\<lparr>cc_power_time := latest_update (pw_snapshot t) now_ms (cc_power_time c)\<rparr>))"

definition power_tick ::
  "u64 \<Rightarrow> power_task \<times> ('l, 'c, 'r, 'g) board \<Rightarrow> power_task \<times> ('l, 'c, 'r, 'g) board" where
  "power_tick now_ms s =
     (case s of (t, b) \<Rightarrow>
        let active = bd_recovery_beacon_active b;
            (t, c) =
              (if active \<and> \<not> pw_active_previous t
               then (t\<lparr>pw_snapshot := unavailable_snapshot, pw_source_received_at_ms := None,
                       pw_last_refresh_received_at_ms := Some now_ms\<rparr>,
                     (bd_cache b)\<lparr>cc_power_time :=
                       latest_update unavailable_snapshot now_ms (cc_power_time (bd_cache b))\<rparr>)
               else if \<not> active \<and> pw_active_previous t
               then (t\<lparr>pw_source_received_at_ms := None, pw_last_refresh_received_at_ms := None\<rparr>,
                     clear_recovery_power_snapshot (bd_cache b))
               else if active then refresh_power now_ms (t, bd_cache b)
               else (t, bd_cache b))
        in (t\<lparr>pw_active_previous := active\<rparr>, b\<lparr>bd_cache := c\<rparr>))"

subsection \<open>What the beacon shows\<close>

text \<open>
  A history while the beacon is active: ticks of this task and power frames that the CAN task
  puts into the cache, each with its time.
\<close>

datatype power_event = PowerTick u64 | PowerFrame power_time_telemetry u64

fun power_step ::
  "power_event \<Rightarrow> power_task \<times> ('l, 'c, 'r, 'g) board \<Rightarrow> power_task \<times> ('l, 'c, 'r, 'g) board" where
  "power_step (PowerTick now_ms) s = power_tick now_ms s"
| "power_step (PowerFrame v at) (t, b) = (t, b\<lparr>bd_cache := snd (update_cache (RxPowerTime v) at (bd_cache b))\<rparr>)"

definition power_run ::
  "power_event list \<Rightarrow> power_task \<times> ('l, 'c, 'r, 'g) board \<Rightarrow> power_task \<times> ('l, 'c, 'r, 'g) board" where
  "power_run events s = fold power_step events s"

text \<open>The times of a history never run backwards.\<close>

fun in_order :: "nat \<Rightarrow> power_event list \<Rightarrow> bool" where
  "in_order clock [] = True"
| "in_order clock (PowerTick now_ms # events) \<longleftrightarrow> clock \<le> unat now_ms \<and> in_order (unat now_ms) events"
| "in_order clock (PowerFrame v at # events) \<longleftrightarrow> clock \<le> unat at \<and> in_order (unat at) events"

text \<open>
  The newest frame the task can tell from its own refresh: one received in the very millisecond of
  the tick before it carries the time of that refresh and goes unnoticed.
\<close>

fun last_seen ::
  "u64 \<Rightarrow> (power_time_telemetry \<times> u64) option \<Rightarrow> power_event list \<Rightarrow> (power_time_telemetry \<times> u64) option" where
  "last_seen tick f [] = f"
| "last_seen tick f (PowerTick now_ms # events) = last_seen now_ms f events"
| "last_seen tick f (PowerFrame v at # events) = last_seen tick (if at = tick then f else Some (v, at)) events"

fun last_tick :: "u64 \<Rightarrow> power_event list \<Rightarrow> u64" where
  "last_tick tick [] = tick"
| "last_tick tick (PowerTick now_ms # events) = last_tick now_ms events"
| "last_tick tick (PowerFrame v at # events) = last_tick tick events"

text \<open>The values shown, with the codes of the interface for stale and for unavailable ones.\<close>

definition shown_power :: "u64 \<Rightarrow> (power_time_telemetry \<times> u64) option \<Rightarrow> power_time_telemetry" where
  "shown_power now_ms f =
     (case f of
        None \<Rightarrow> \<lparr>pt_sequence = 0, pt_logic_voltage = 255, pt_motor_voltage = 255,
          pt_descent_elapsed = 0xfff1, pt_recovery_elapsed = 0xfff1, pt_flags = 0\<rparr>
      | Some (v, at) \<Rightarrow>
          if unat at + 30000 < unat now_ms
          then v\<lparr>pt_logic_voltage := 253, pt_motor_voltage := 253, pt_recovery_elapsed := 0xfffa\<rparr>
          else v)"

lemma shown_power_codes:
  "shown_power now_ms None = unavailable_snapshot"
  "shown_power now_ms (Some (v, at)) = (if unat at + 30000 < unat now_ms then stale_snapshot v else v)"
  by (simp_all add: shown_power_def unavailable_snapshot_def stale_snapshot_def BATTERY_UNAVAILABLE_RAW_def
      TIME_UNAVAILABLE_RAW_def BATTERY_STALE_RAW_def TIME_STALE_RAW_def)

text \<open>The state after a history: since the last tick no frame that shows, or one newer than that tick.\<close>

definition power_inv ::
  "u64 \<Rightarrow> (power_time_telemetry \<times> u64) option \<Rightarrow> nat \<Rightarrow> power_task \<times> ('l, 'c, 'r, 'g) board \<Rightarrow> bool" where
  "power_inv r f clock s = (case s of (t, b) \<Rightarrow>
     bd_recovery_beacon_active b \<and> pw_active_previous t \<and>
     pw_last_refresh_received_at_ms t = Some r \<and> unat r \<le> clock \<and>
     (received_at_ms (cc_power_time (bd_cache b)) = Some r \<and>
        pw_snapshot t = shown_power r f \<and>
        (case pw_source_received_at_ms t of
           Some at \<Rightarrow> (\<exists>v. f = Some (v, at)) \<and> unat at \<le> unat r \<and> unat r \<le> unat at + 30000
         | None \<Rightarrow> (case f of None \<Rightarrow> True | Some (v, at) \<Rightarrow> unat at + 30000 < unat r))
      \<or> (\<exists>v at. f = Some (v, at) \<and> r < at \<and> unat at \<le> clock \<and>
           lt_value (cc_power_time (bd_cache b)) = Some v \<and>
           received_at_ms (cc_power_time (bd_cache b)) = Some at)))"

lemma received_at_update [simp]:
  "received_at_ms (latest_update v at l) = Some at" "lt_value (latest_update v at l) = Some v"
  by (simp_all add: received_at_ms_def latest_update_def)

lemma power_inv_frame:
  assumes "power_inv r f clock (t, b)" "clock \<le> unat at"
  shows "power_inv r (if at = r then f else Some (v, at)) (unat at) (power_step (PowerFrame v at) (t, b))"
proof (cases "at = r")
  case True
  have "\<not> (r < at' \<and> unat at' \<le> unat at)" for at' using True by (simp add: word_less_nat_alt)
  then show ?thesis using assms True by (auto simp: power_inv_def)
next
  case False
  then have "r < at" using assms by (auto simp: power_inv_def word_less_nat_alt word_unat_eq_iff)
  with False assms show ?thesis by (auto simp: power_inv_def)
qed

lemma source_age_stale:
  "(case checked_sub now_ms at of None \<Rightarrow> False | Some age \<Rightarrow> RECOVERY_POWER_FRESHNESS_MS < age) \<longleftrightarrow>
     unat at + 30000 < unat now_ms"
  by (auto simp: checked_sub_def RECOVERY_POWER_FRESHNESS_MS_def word_less_nat_alt word_le_nat_alt
      unat_diff_le split: if_splits)

text \<open>The two ways in which a tick finds the cache, and what it puts there.\<close>

definition aged :: "u64 \<Rightarrow> power_time_telemetry \<Rightarrow> u64 \<Rightarrow> power_time_telemetry \<times> u64 option" where
  "aged now_ms v at =
     (if unat at + 30000 < unat now_ms then (stale_snapshot v, None) else (v, Some at))"

definition refreshed ::
  "u64 \<Rightarrow> power_time_telemetry \<times> u64 option \<Rightarrow> power_task \<times> can_cache \<Rightarrow> power_task \<times> can_cache" where
  "refreshed now_ms r s = (case s of (t, c) \<Rightarrow>
     (t\<lparr>pw_snapshot := fst r, pw_source_received_at_ms := snd r, pw_last_refresh_received_at_ms := Some now_ms\<rparr>,
      c\<lparr>cc_power_time := latest_update (fst r) now_ms (cc_power_time c)\<rparr>))"

lemma refresh_from_frame:
  "lt_value (cc_power_time c) = Some v \<Longrightarrow> received_at_ms (cc_power_time c) = Some at \<Longrightarrow>
   pw_last_refresh_received_at_ms t \<noteq> Some at \<Longrightarrow>
   refresh_power now_ms (t, c) = refreshed now_ms (aged now_ms v at) (t, c)"
  by (auto simp: refresh_power_def refreshed_def aged_def Let_def source_age_stale)

lemma refresh_again:
  "received_at_ms (cc_power_time c) = pw_last_refresh_received_at_ms t \<Longrightarrow>
   refresh_power now_ms (t, c) = refreshed now_ms
     (case pw_source_received_at_ms t of None \<Rightarrow> (pw_snapshot t, None)
      | Some at \<Rightarrow> aged now_ms (pw_snapshot t) at) (t, c)"
  by (cases "pw_source_received_at_ms t")
    (auto simp: refresh_power_def refreshed_def aged_def Let_def source_age_stale)

lemma aged_shown: "aged now_ms v at = (shown_power now_ms (Some (v, at)),
    if unat at + 30000 < unat now_ms then None else Some at)"
  by (simp add: aged_def shown_power_codes)

lemma shown_stays:
  "(case f of None \<Rightarrow> True | Some (v, at) \<Rightarrow> unat at + 30000 < unat r) \<Longrightarrow> unat r \<le> unat now_ms \<Longrightarrow>
   shown_power r f = shown_power now_ms f"
  by (auto simp: shown_power_def split: option.splits)

lemma refresh_shows:
  assumes inv: "power_inv r f clock (t, b)" and now: "clock \<le> unat now_ms"
  shows "\<exists>src. refresh_power now_ms (t, bd_cache b) = refreshed now_ms (shown_power now_ms f, src) (t, bd_cache b) \<and>
    (case src of
       Some at \<Rightarrow> (\<exists>v. f = Some (v, at)) \<and> unat at \<le> unat now_ms \<and> unat now_ms \<le> unat at + 30000
     | None \<Rightarrow> (case f of None \<Rightarrow> True | Some (v, at) \<Rightarrow> unat at + 30000 < unat now_ms))"
proof -
  have r: "pw_last_refresh_received_at_ms t = Some r" using inv by (auto simp: power_inv_def)
  let ?l = "cc_power_time (bd_cache b)"
  consider (old) "received_at_ms ?l = Some r" "pw_snapshot t = shown_power r f" "unat r \<le> unat now_ms"
      "case pw_source_received_at_ms t of
         Some at \<Rightarrow> (\<exists>v. f = Some (v, at)) \<and> unat at \<le> unat r \<and> unat r \<le> unat at + 30000
       | None \<Rightarrow> (case f of None \<Rightarrow> True | Some (v, at) \<Rightarrow> unat at + 30000 < unat r)"
    | (frame) v at where "f = Some (v, at)" "r < at" "unat at \<le> unat now_ms" "lt_value ?l = Some v"
        "received_at_ms ?l = Some at"
    using inv now r unfolding power_inv_def by auto
  then show ?thesis
  proof cases
    case old
    note again = refresh_again [of "bd_cache b" t now_ms]
    show ?thesis
    proof (cases "pw_source_received_at_ms t")
      case None
      with old(4) shown_stays [OF _ old(3)] have "shown_power r f = shown_power now_ms f" by simp
      with None again old r show ?thesis
        by (intro exI [of _ None]) (auto split: option.splits)
    next
      case (Some at)
      with old(4) obtain v where f: "f = Some (v, at)" "unat at \<le> unat r" "unat r \<le> unat at + 30000" by auto
      then have "pw_snapshot t = v" using old(2) by (simp add: shown_power_def)
      then show ?thesis using again old(1,3) f r Some
        by (intro exI [of _ "if unat at + 30000 < unat now_ms then None else Some at"])
          (simp add: aged_shown)
    qed
  next
    case frame
    have "pw_last_refresh_received_at_ms t \<noteq> Some at" using frame(2) r by simp
    from refresh_from_frame [OF frame(4,5) this, of now_ms] show ?thesis
      unfolding aged_shown frame(1)
      by (intro exI [of _ "if unat at + 30000 < unat now_ms then None else Some at"])
        (use frame(3) in \<open>auto simp: shown_power_def\<close>)
  qed
qed

lemma power_inv_tick:
  assumes inv: "power_inv r f clock (t, b)" and now: "clock \<le> unat now_ms"
  shows "power_inv now_ms f (unat now_ms) (power_tick now_ms (t, b)) \<and>
    cc_power_time (bd_cache (snd (power_tick now_ms (t, b)))) =
      \<lparr>lt_value = Some (shown_power now_ms f), lt_received_at_ms = now_ms\<rparr>"
proof -
  have on: "bd_recovery_beacon_active b" "pw_active_previous t" using inv by (auto simp: power_inv_def)
  obtain src where "refresh_power now_ms (t, bd_cache b) = refreshed now_ms (shown_power now_ms f, src) (t, bd_cache b)"
    "case src of Some at \<Rightarrow> (\<exists>v. f = Some (v, at)) \<and> unat at \<le> unat now_ms \<and> unat now_ms \<le> unat at + 30000
     | None \<Rightarrow> (case f of None \<Rightarrow> True | Some (v, at) \<Rightarrow> unat at + 30000 < unat now_ms)"
    using refresh_shows [OF inv now] by blast
  with on show ?thesis by (simp add: power_inv_def power_tick_def refreshed_def latest_update_def received_at_ms_def)
qed

lemma power_inv_run:
  "power_inv r f clock s \<Longrightarrow> in_order clock events \<Longrightarrow>
   \<exists>now. power_inv (last_tick r events) (last_seen r f events) now (power_run events s) \<and>
     (\<forall>now_ms. in_order clock (events @ [PowerTick now_ms]) \<longrightarrow> now \<le> unat now_ms)"
proof (induction events arbitrary: r f clock s)
  case (Cons e events)
  obtain t b where s: "s = (t, b)" by (cases s)
  show ?case
  proof (cases e)
    case (PowerTick now_ms)
    with Cons.prems s have "power_inv now_ms f (unat now_ms) (power_step e s)" "in_order (unat now_ms) events"
      using power_inv_tick [of r f clock t b now_ms] by auto
    from Cons.IH [OF this] PowerTick show ?thesis by (auto simp: power_run_def)
  next
    case (PowerFrame v at)
    with Cons.prems s have "power_inv r (if at = r then f else Some (v, at)) (unat at) (power_step e s)"
      "in_order (unat at) events"
      using power_inv_frame [of r f clock t b at v] by auto
    from Cons.IH [OF this] PowerFrame show ?thesis by (auto simp: power_run_def)
  qed
qed (auto simp: power_run_def)

text \<open>
  C33. What the recovery beacon shows: from the tick after the beacon was switched on, whatever
  power frames arrive and however the ticks fall, as long as the times of ticks and frames do not
  run backwards, a tick leaves in the cache, with its own time, the values of the newest frame as
  they were received, their battery and recovery time replaced by the codes 253 and 0xfffa as soon
  as the frame is more than 30 s old; before the first frame, the codes 255 and 0xfff1. Frames that
  were received in the very millisecond of the tick before them do not count: the task takes them
  for its own refresh. Nothing is extrapolated, and nothing that was received before the beacon
  was switched on is shown.
\<close>

theorem beacon_power_shown:
  assumes "bd_recovery_beacon_active b" and "\<not> pw_active_previous t"
    and "in_order (unat start) (events @ [PowerTick now_ms])"
  shows "cc_power_time (bd_cache (snd (power_run (PowerTick start # events @ [PowerTick now_ms]) (t, b)))) =
    \<lparr>lt_value = Some (shown_power now_ms (last_seen start None events)), lt_received_at_ms = now_ms\<rparr>"
proof -
  have first: "power_inv start None (unat start) (power_step (PowerTick start) (t, b))"
    using assms(1,2) by (simp add: power_inv_def power_tick_def shown_power_codes)
  have order: "in_order (unat start) events"
    using assms(3) by (induction events rule: in_order.induct) auto
  obtain now where inv: "power_inv (last_tick start events) (last_seen start None events) now
      (power_run events (power_step (PowerTick start) (t, b)))" "now \<le> unat now_ms"
    using power_inv_run [OF first order] assms(3) by blast
  obtain u d where u: "power_run events (power_step (PowerTick start) (t, b)) = (u, d)" by (metis surj_pair)
  from power_inv_tick [OF inv(1) [unfolded u] inv(2)] u show ?thesis
    by (simp add: power_run_def)
qed

definition demo_power :: power_time_telemetry where
  "demo_power = \<lparr>pt_sequence = 9, pt_logic_voltage = 100, pt_motor_voltage = 120,
     pt_descent_elapsed = 77, pt_recovery_elapsed = 12, pt_flags = 0x85\<rparr>"

lemma beacon_power_shown_witness:
  "lt_value (cc_power_time (bd_cache (snd (power_run
       [PowerTick 1000, PowerFrame demo_power 1050, PowerTick 1100, PowerTick 31050]
       (new_power_task, list_start\<lparr>bd_recovery_beacon_active := True\<rparr>))))) = Some demo_power \<and>
   lt_value (cc_power_time (bd_cache (snd (power_run
       [PowerTick 1000, PowerFrame demo_power 1050, PowerTick 1100, PowerTick 31051]
       (new_power_task, list_start\<lparr>bd_recovery_beacon_active := True\<rparr>))))) =
     Some \<lparr>pt_sequence = 9, pt_logic_voltage = 253, pt_motor_voltage = 253,
       pt_descent_elapsed = 77, pt_recovery_elapsed = 0xfffa, pt_flags = 0x85\<rparr>"
  using beacon_power_shown [of "list_start\<lparr>bd_recovery_beacon_active := True\<rparr>" new_power_task 1000
      "[PowerFrame demo_power 1050, PowerTick 1100]" 31050]
    beacon_power_shown [of "list_start\<lparr>bd_recovery_beacon_active := True\<rparr>" new_power_task 1000
      "[PowerFrame demo_power 1050, PowerTick 1100]" 31051]
  by (simp add: new_power_task_def shown_power_def demo_power_def)

text \<open>
  A frame received in the millisecond of the last tick is taken for the task's own refresh and
  overwritten by the next tick.
\<close>

lemma same_millisecond_frame_lost:
  assumes "bd_recovery_beacon_active b" "pw_active_previous t" "pw_source_received_at_ms t = None"
    and "pw_last_refresh_received_at_ms t = Some now_ms"
  shows "lt_value (cc_power_time (bd_cache (snd (power_run [PowerFrame v now_ms, PowerTick later] (t, b))))) =
    Some (pw_snapshot t)"
  using assms by (simp add: power_run_def power_tick_def refresh_again refreshed_def)

text \<open>When the beacon goes off, its values leave the cache with it.\<close>

lemma beacon_power_cleared:
  assumes "\<not> bd_recovery_beacon_active b" "pw_active_previous t"
  shows "lt_value (cc_power_time (bd_cache (snd (power_tick now_ms (t, b))))) = None \<and>
    \<not> pw_active_previous (fst (power_tick now_ms (t, b)))"
  using assms by (simp add: power_tick_def clear_recovery_power_snapshot_def latest_clear_def)

end
