(* ===== verification/GnssSettings.thy ===== *)
theory GnssSettings
  imports Prelude "HOL-Library.Sublist"
begin

section \<open>Configuration of the GNSS receiver (src/gnss/settings.rs)\<close>

text \<open>
  Nine UBX commands are written to the receiver; each but the last, which changes the baud rate,
  must be acknowledged within a second. The UART driver is outside the repository: what its
  operations return is a script of events, in the order of the calls. An operation that never
  returns, or a driver that claims to have written more than it was given, leaves the run
  unfinished (\<open>None\<close>).
\<close>

definition GLL_DELETE :: bytes where
  "GLL_DELETE = [0xB5, 0x62, 0x06, 0x01, 0x08, 0x00, 0xF0, 0x01, 0x00, 0x00, 0x00, 0x00, 0x00, 0x00, 0x00, 0x2A]"

definition GSA_DELETE :: bytes where
  "GSA_DELETE = [0xB5, 0x62, 0x06, 0x01, 0x08, 0x00, 0xF0, 0x02, 0x00, 0x00, 0x00, 0x00, 0x00, 0x00, 0x01, 0x31]"

definition GSV_DELETE :: bytes where
  "GSV_DELETE = [0xB5, 0x62, 0x06, 0x01, 0x08, 0x00, 0xF0, 0x03, 0x00, 0x00, 0x00, 0x00, 0x00, 0x00, 0x02, 0x38]"

definition VTG_DELETE :: bytes where
  "VTG_DELETE = [0xB5, 0x62, 0x06, 0x01, 0x08, 0x00, 0xF0, 0x05, 0x00, 0x00, 0x00, 0x00, 0x00, 0x00, 0x04, 0x46]"

definition MEAS_RATE :: bytes where
  "MEAS_RATE = [0xB5, 0x62, 0x06, 0x08, 0x06, 0x00, 0x64, 0x00, 0x01, 0x00, 0x01, 0x00, 0x7A, 0x12]"

definition QZSS_L1S_ENABLE :: bytes where
  "QZSS_L1S_ENABLE = [0xB5, 0x62, 0x06, 0x8A, 0x09, 0x00, 0x00, 0x01, 0x00, 0x00, 0x14, 0x00, 0x31, 0x10, 0x01, 0xF0, 0x49]"

definition GST_ENABLE_UART1 :: bytes where
  "GST_ENABLE_UART1 = [0xB5, 0x62, 0x06, 0x01, 0x08, 0x00, 0xF0, 0x07, 0x00, 0x01, 0x00, 0x00, 0x00, 0x00, 0x07, 0x59]"

definition DYNAMIC_MODEL_AIRBORNE_4G :: bytes where
  "DYNAMIC_MODEL_AIRBORNE_4G =
     [0xB5, 0x62, 0x06, 0x24, 0x24, 0x00, 0xFF, 0xFF, 0x08, 0x03, 0x00, 0x00, 0x00, 0x00, 0x10, 0x27,
      0x00, 0x00, 0x0A, 0x00, 0xFA, 0x00, 0xFA, 0x00, 0x64, 0x00, 0x5E, 0x01, 0x00, 0x3C, 0x00, 0x00,
      0x00, 0x00, 0x00, 0x00, 0x00, 0x00, 0x00, 0x00, 0x00, 0x00, 0x8B, 0xC4]"

definition UART_BAUD :: bytes where
  "UART_BAUD =
     [0xB5, 0x62, 0x06, 0x00, 0x14, 0x00, 0x01, 0x00, 0x00, 0x00, 0xD0, 0x08, 0x00, 0x00, 0x00, 0xC2,
      0x01, 0x00, 0x03, 0x00, 0x03, 0x00, 0x00, 0x00, 0x00, 0x00, 0xBC, 0x5E]"

definition INIT_COMMANDS :: "bytes list" where
  "INIT_COMMANDS = [GLL_DELETE, GSA_DELETE, GSV_DELETE, VTG_DELETE, MEAS_RATE, QZSS_L1S_ENABLE,
     DYNAMIC_MODEL_AIRBORNE_4G, GST_ENABLE_UART1, UART_BAUD]"

lemmas init_commands = INIT_COMMANDS_def GLL_DELETE_def GSA_DELETE_def GSV_DELETE_def VTG_DELETE_def
  MEAS_RATE_def QZSS_L1S_ENABLE_def DYNAMIC_MODEL_AIRBORNE_4G_def GST_ENABLE_UART1_def UART_BAUD_def

datatype ('t, 'r) uart_event =
  Written nat | WriteFailed 't | Flushed | FlushFailed 't
| Received bytes | ReadFailed 'r | Elapsed

text \<open>The result, the bytes on the wire and the events left.\<close>

fun send_cmd :: "('t, 'r) uart_event list \<Rightarrow> bytes \<Rightarrow> (('t + bool) \<times> bytes \<times> ('t, 'r) uart_event list) option" where
  "send_cmd events [] = Some (Inr True, [], events)"
| "send_cmd (Written n # events) data =
     (if n = 0 then Some (Inr False, [], events)
      else if length data < n then None
      else map_option (\<lambda>(r, out, rest). (r, take n data @ out, rest)) (send_cmd events (drop n data)))"
| "send_cmd (WriteFailed e # events) data = Some (Inl e, [], events)"
| "send_cmd _ data = None"

datatype ack_outcome = Ack | Nak

record ack_parser =
  ap_bytes :: bytes
  ap_length :: nat

definition new_ack_parser :: ack_parser where
  "new_ack_parser = \<lparr>ap_bytes = replicate 10 0, ap_length = 0\<rparr>"

definition push_ack :: "u8 \<Rightarrow> u8 \<Rightarrow> u8 \<Rightarrow> ack_parser \<Rightarrow> ack_outcome option \<times> ack_parser" where
  "push_ack byte expected_class expected_id p =
     (if ap_length p = 0 \<and> byte \<noteq> 0xb5 then (None, p)
      else if ap_length p = 1 \<and> byte \<noteq> 0x62
      then (None, \<lparr>ap_bytes = (ap_bytes p)[0 := byte], ap_length = (if byte = 0xb5 then 1 else 0)\<rparr>)
      else
        let bytes = (ap_bytes p)[ap_length p := byte];
            len = ap_length p + 1
        in if len < length bytes then (None, \<lparr>ap_bytes = bytes, ap_length = len\<rparr>)
           else
             let p = \<lparr>ap_bytes = bytes, ap_length = 0\<rparr>;
                 (checksum_a, checksum_b) =
                   foldl (\<lambda>(a, b) v. let a = a + v in (a, b + a)) (0, 0) (slice bytes 2 8)
             in if bytes ! 2 \<noteq> 0x05 \<or> \<not> (bytes ! 3 = 0x00 \<or> bytes ! 3 = 0x01)
                  \<or> slice bytes 4 6 \<noteq> [0x02, 0x00] \<or> bytes ! 6 \<noteq> expected_class
                  \<or> bytes ! 7 \<noteq> expected_id \<or> bytes ! 8 \<noteq> checksum_a \<or> bytes ! 9 \<noteq> checksum_b
                then (None, p)
                else (Some (if bytes ! 3 = 0x01 then Ack else Nak), p))"

text \<open>The loop over the bytes of one read.\<close>

fun push_until_ack :: "u8 \<Rightarrow> u8 \<Rightarrow> ack_parser \<Rightarrow> bytes \<Rightarrow> ack_outcome option \<times> ack_parser" where
  "push_until_ack expected_class expected_id p [] = (None, p)"
| "push_until_ack expected_class expected_id p (byte # bytes) =
     (case push_ack byte expected_class expected_id p of
        (Some outcome, p) \<Rightarrow> (Some outcome, p)
      | (None, p) \<Rightarrow> push_until_ack expected_class expected_id p bytes)"

text \<open>\<open>wait_for_ack\<close> under the timeout of its caller.\<close>

datatype 'r ack_wait = Answered ack_outcome | ReadError 'r | AckTimedOut

fun wait_for_ack ::
  "u8 \<Rightarrow> u8 \<Rightarrow> ack_parser \<Rightarrow> ('t, 'r) uart_event list \<Rightarrow> ('r ack_wait \<times> ('t, 'r) uart_event list) option" where
  "wait_for_ack expected_class expected_id p (Received bytes # events) =
     (case push_until_ack expected_class expected_id p bytes of
        (Some outcome, _) \<Rightarrow> Some (Answered outcome, events)
      | (None, p) \<Rightarrow> wait_for_ack expected_class expected_id p events)"
| "wait_for_ack expected_class expected_id p (ReadFailed e # events) = Some (ReadError e, events)"
| "wait_for_ack expected_class expected_id p (Elapsed # events) = Some (AckTimedOut, events)"
| "wait_for_ack expected_class expected_id p _ = None"

datatype ('t, 'r) gnss_setting_error =
  NoWriteProgress | Transmit 't | Receive 'r | AckTimeout u8 u8 | NegativeAck u8 u8

record gnss_setting_report =
  acknowledged_commands :: u8
  final_baud_ack_unverified :: bool

text \<open>One round of the loop of \<open>gnss_setting\<close>: the command and, unless it is the last, its answer.\<close>

definition setting_round ::
  "bool \<Rightarrow> bytes \<Rightarrow> ('t, 'r) uart_event list \<Rightarrow>
   ((('t, 'r) gnss_setting_error + u8) \<times> bytes \<times> ('t, 'r) uart_event list) option" where
  "setting_round final cmd events =
     (case send_cmd events cmd of
        None \<Rightarrow> None
      | Some (Inl e, out, events) \<Rightarrow> Some (Inl (Transmit e), out, events)
      | Some (Inr False, out, events) \<Rightarrow> Some (Inl NoWriteProgress, out, events)
      | Some (Inr True, out, events) \<Rightarrow>
          (case events of
             FlushFailed e # events \<Rightarrow> Some (Inl (Transmit e), out, events)
           | Flushed # events \<Rightarrow>
               if final then Some (Inr 0, out, events)
               else
                 let cls = cmd ! 2; ident = cmd ! 3
                 in (case wait_for_ack cls ident new_ack_parser events of
                       None \<Rightarrow> None
                     | Some (Answered Ack, events) \<Rightarrow> Some (Inr 1, out, events)
                     | Some (Answered Nak, events) \<Rightarrow> Some (Inl (NegativeAck cls ident), out, events)
                     | Some (ReadError e, events) \<Rightarrow> Some (Inl (Receive e), out, events)
                     | Some (AckTimedOut, events) \<Rightarrow> Some (Inl (AckTimeout cls ident), out, events))
           | _ \<Rightarrow> None))"

fun setting_loop ::
  "bytes list \<Rightarrow> u8 \<Rightarrow> ('t, 'r) uart_event list \<Rightarrow>
   ((('t, 'r) gnss_setting_error + u8) \<times> bytes \<times> ('t, 'r) uart_event list) option" where
  "setting_loop [] acknowledged events = Some (Inr acknowledged, [], events)"
| "setting_loop (cmd # cmds) acknowledged events =
     (case setting_round (cmds = []) cmd events of
        None \<Rightarrow> None
      | Some (Inl e, out, events) \<Rightarrow> Some (Inl e, out, events)
      | Some (Inr n, out, events) \<Rightarrow>
          map_option (\<lambda>(r, more, rest). (r, out @ more, rest))
            (setting_loop cmds (saturating_add acknowledged n) events))"

definition gnss_setting ::
  "('t, 'r) uart_event list \<Rightarrow>
   ((('t, 'r) gnss_setting_error + gnss_setting_report) \<times> bytes \<times> ('t, 'r) uart_event list) option" where
  "gnss_setting events =
     map_option (\<lambda>(r, out, rest).
       (case r of
          Inl e \<Rightarrow> Inl e
        | Inr n \<Rightarrow> Inr \<lparr>acknowledged_commands = n, final_baud_ack_unverified = True\<rparr>, out, rest))
       (setting_loop INIT_COMMANDS 0 events)"

subsection \<open>The commands\<close>

text \<open>The checksum of a UBX message, and the message of a cls, an identifier and a payload.\<close>

definition ubx_checksum :: "bytes \<Rightarrow> bytes" where
  "ubx_checksum body = (case foldl (\<lambda>(a, b) v. let a = a + v in (a, b + a)) (0, 0) body of (a, b) \<Rightarrow> [a, b])"

definition ubx_frame :: "u8 \<Rightarrow> u8 \<Rightarrow> bytes \<Rightarrow> bytes" where
  "ubx_frame cls ident payload =
     (let body = [cls, ident] @ u16_to_le (of_nat (length payload)) @ payload
      in [0xb5, 0x62] @ body @ ubx_checksum body)"

lemma init_commands_valid:
  "list_all (\<lambda>cmd. \<exists>payload. cmd = ubx_frame (cmd ! 2) (cmd ! 3) payload) INIT_COMMANDS"
proof -
  have "list_all (\<lambda>cmd. cmd = ubx_frame (cmd ! 2) (cmd ! 3) (slice cmd 6 (length cmd - 2))) INIT_COMMANDS"
    by code_simp
  then show ?thesis by (auto simp: list_all_iff)
qed

subsection \<open>Acknowledgements\<close>

definition ack_frame :: "ack_outcome \<Rightarrow> u8 \<Rightarrow> u8 \<Rightarrow> bytes" where
  "ack_frame outcome cls ident = ubx_frame 0x05 (if outcome = Ack then 1 else 0) [cls, ident]"

lemma ack_frame_bytes:
  "ack_frame outcome cls ident =
     (let k = (if outcome = Ack then 1 else 0); body = [0x05, k, 0x02, 0x00, cls, ident]
      in [0xb5, 0x62] @ body @ ubx_checksum body)"
proof -
  have "u16_to_le 2 = [2, 0]" by code_simp
  then show ?thesis by (simp add: ack_frame_def ubx_frame_def Let_def)
qed

text \<open>The parser holds the last bytes received, from the synchronisation bytes on.\<close>

definition ack_inv :: "bytes \<Rightarrow> ack_parser \<Rightarrow> bool" where
  "ack_inv seen p \<longleftrightarrow> length (ap_bytes p) = 10 \<and> ap_length p < 10 \<and>
     suffix (take (ap_length p) (ap_bytes p)) seen \<and>
     (0 < ap_length p \<longrightarrow> ap_bytes p ! 0 = 0xb5) \<and> (1 < ap_length p \<longrightarrow> ap_bytes p ! 1 = 0x62)"

lemma ack_inv_new: "ack_inv seen new_ack_parser"
  by (simp add: ack_inv_def new_ack_parser_def)

lemma xs10: "length bs = 10 \<Longrightarrow> bs = [bs ! 0, bs ! 1, bs ! 2, bs ! 3, bs ! 4, bs ! 5, bs ! 6, bs ! 7, bs ! 8, bs ! 9]"
  by (rule nth_equalityI) (auto simp: less_Suc_eq numeral_eq_Suc)

lemma ack_accepts:
  assumes "length bs = 10" "bs ! 0 = 0xb5" "bs ! 1 = 0x62" "bs ! 2 = 0x05" "bs ! 3 = 0x00 \<or> bs ! 3 = 0x01"
    "slice bs 4 6 = [0x02, 0x00]" "bs ! 6 = cls" "bs ! 7 = ident"
    "foldl (\<lambda>(a, b) v. let a = a + v in (a, b + a)) (0, 0) (slice bs 2 8) = (bs ! 8, bs ! 9)"
  shows "bs = ack_frame (if bs ! 3 = 0x01 then Ack else Nak) cls ident"
proof -
  obtain b0 b1 b2 b3 b4 b5 b6 b7 b8 b9 where bs: "bs = [b0, b1, b2, b3, b4, b5, b6, b7, b8, b9]"
    using xs10 [OF assms(1)] by blast
  with assms(2-) show ?thesis
    by (auto simp: ack_frame_bytes ubx_checksum_def slice_def Let_def numeral_eq_Suc)
qed

lemma push_ack_full:
  assumes "length (ap_bytes p) = 10" "ap_length p = 9" and push: "push_ack byte cls ident p = (r, p')"
    and sync: "(ap_bytes p)[9 := byte] ! 0 = 0xb5" "(ap_bytes p)[9 := byte] ! 1 = 0x62"
  shows "p' = \<lparr>ap_bytes = (ap_bytes p)[9 := byte], ap_length = 0\<rparr> \<and>
    (\<forall>outcome. r = Some outcome \<longrightarrow> (ap_bytes p)[9 := byte] = ack_frame outcome cls ident)"
proof -
  define bs where "bs = (ap_bytes p)[9 := byte]"
  have len: "length bs = 10" by (simp add: bs_def assms(1))
  obtain a c where sum: "foldl (\<lambda>(a, b) v. let a = a + v in (a, b + a)) (0, 0) (slice bs 2 8) = (a, c)"
    by (rule prod.exhaust)
  have "push_ack byte cls ident p =
      (if bs ! 2 \<noteq> 0x05 \<or> \<not> (bs ! 3 = 0x00 \<or> bs ! 3 = 0x01) \<or> slice bs 4 6 \<noteq> [0x02, 0x00]
         \<or> bs ! 6 \<noteq> cls \<or> bs ! 7 \<noteq> ident \<or> bs ! 8 \<noteq> a \<or> bs ! 9 \<noteq> c
       then (None, \<lparr>ap_bytes = bs, ap_length = 0\<rparr>)
       else (Some (if bs ! 3 = 0x01 then Ack else Nak), \<lparr>ap_bytes = bs, ap_length = 0\<rparr>))"
    using assms(1,2) sum len by (simp add: push_ack_def bs_def [symmetric] Let_def)
  then have eq: "(r, p') = (if bs ! 2 \<noteq> 0x05 \<or> \<not> (bs ! 3 = 0x00 \<or> bs ! 3 = 0x01) \<or> slice bs 4 6 \<noteq> [0x02, 0x00]
         \<or> bs ! 6 \<noteq> cls \<or> bs ! 7 \<noteq> ident \<or> bs ! 8 \<noteq> a \<or> bs ! 9 \<noteq> c
       then (None, \<lparr>ap_bytes = bs, ap_length = 0\<rparr>)
       else (Some (if bs ! 3 = 0x01 then Ack else Nak), \<lparr>ap_bytes = bs, ap_length = 0\<rparr>))"
    using push by simp
  show ?thesis
  proof (cases "bs ! 2 = 0x05 \<and> (bs ! 3 = 0x00 \<or> bs ! 3 = 0x01) \<and> slice bs 4 6 = [0x02, 0x00]
      \<and> bs ! 6 = cls \<and> bs ! 7 = ident \<and> bs ! 8 = a \<and> bs ! 9 = c")
    case True
    have "bs = ack_frame (if bs ! 3 = 0x01 then Ack else Nak) cls ident"
      by (rule ack_accepts) (use True sum sync [folded bs_def] len in auto)
    moreover have "r = Some (if bs ! 3 = 0x01 then Ack else Nak)" "p' = \<lparr>ap_bytes = bs, ap_length = 0\<rparr>"
      using eq True by (simp_all split: if_splits)
    ultimately show ?thesis unfolding bs_def [symmetric] by (metis option.inject)
  next
    case False
    with eq have "r = None" "p' = \<lparr>ap_bytes = bs, ap_length = 0\<rparr>" by (simp_all split: if_splits)
    then show ?thesis by (simp add: bs_def)
  qed
qed

lemma push_ack_inv:
  assumes inv: "ack_inv seen p" and push: "push_ack byte cls ident p = (r, p')"
  shows "ack_inv (seen @ [byte]) p' \<and>
    (\<forall>outcome. r = Some outcome \<longrightarrow> suffix (ack_frame outcome cls ident) (seen @ [byte]))"
proof -
  let ?n = "ap_length p"
  let ?bs = "(ap_bytes p)[?n := byte]"
  have n: "?n < 10" "length (ap_bytes p) = 10" "suffix (take ?n (ap_bytes p)) seen" using inv by (auto simp: ack_inv_def)
  have "take (Suc ?n) ?bs = take ?n (ap_bytes p) @ [byte]"
    using n by (simp add: take_Suc_conv_app_nth)
  with n(3) have suf: "suffix (take (Suc ?n) ?bs) (seen @ [byte])" by (auto simp: suffix_def)
  consider (skip) "?n = 0" "byte \<noteq> 0xb5" | (resync) "?n = 1" "byte \<noteq> 0x62"
    | (store) "?n = 0 \<longrightarrow> byte = 0xb5" "?n = 1 \<longrightarrow> byte = 0x62" by (cases "?n = 0"; cases "?n = 1") auto
  then show ?thesis
  proof cases
    case skip
    with push inv show ?thesis by (auto simp: push_ack_def ack_inv_def)
  next
    case resync
    with push n show ?thesis
      by (cases "byte = 0xb5") (auto simp: push_ack_def ack_inv_def take_Suc_conv_app_nth suffix_def)
  next
    case store
    have sync: "?bs ! 0 = 0xb5" "0 < ?n \<longrightarrow> ?bs ! 1 = 0x62"
      using inv store n by (auto simp: ack_inv_def nth_list_update)
    show ?thesis
    proof (cases "Suc ?n < 10")
      case True
      then have "r = None" "p' = \<lparr>ap_bytes = ?bs, ap_length = Suc ?n\<rparr>"
        using push store n by (auto simp: push_ack_def Let_def)
      with True n suf sync show ?thesis by (simp add: ack_inv_def)
    next
      case False
      with n have last: "?n = 9" by simp
      with suf n have bs: "suffix ?bs (seen @ [byte])" by simp
      have eq: "?bs = (ap_bytes p)[9 := byte]" and "?bs ! 1 = 0x62" using last sync(2) by simp_all
      with push_ack_full [OF n(2) last push, folded eq] sync(1)
      have "p' = \<lparr>ap_bytes = ?bs, ap_length = 0\<rparr>"
        "\<forall>outcome. r = Some outcome \<longrightarrow> ?bs = ack_frame outcome cls ident"
        by blast+
      with n bs show ?thesis by (auto simp: ack_inv_def)
    qed
  qed
qed

lemma push_until_ack_inv:
  "ack_inv seen p \<Longrightarrow> push_until_ack cls ident p bs = (r, p') \<Longrightarrow>
   (r = None \<longrightarrow> ack_inv (seen @ bs) p') \<and>
   (\<forall>outcome. r = Some outcome \<longrightarrow> (\<exists>x y. seen @ bs = x @ ack_frame outcome cls ident @ y))"
proof (induction bs arbitrary: seen p)
  case (Cons byte bs)
  obtain o1 p1 where push: "push_ack byte cls ident p = (o1, p1)" by (cases "push_ack byte cls ident p")
  from push_ack_inv [OF Cons.prems(1) this] have step: "ack_inv (seen @ [byte]) p1"
    "\<forall>outcome. o1 = Some outcome \<longrightarrow> suffix (ack_frame outcome cls ident) (seen @ [byte])" by blast+
  show ?case
  proof (cases o1)
    case None
    with Cons.prems(2) push Cons.IH [OF step(1)] show ?thesis by simp
  next
    case (Some outcome)
    with step(2) obtain x where "seen @ [byte] = x @ ack_frame outcome cls ident" by (auto simp: suffix_def)
    then have "seen @ byte # bs = x @ ack_frame outcome cls ident @ bs"
      by (metis append.assoc append_Cons append_Nil)
    then have "\<exists>x y. seen @ byte # bs = x @ ack_frame outcome cls ident @ y" by blast
    with Some Cons.prems(2) push show ?thesis by auto
  qed
qed simp

subsection \<open>The whole configuration\<close>

definition received :: "('t, 'r) uart_event list \<Rightarrow> bytes" where
  "received events = concat (map (\<lambda>e. case e of Received bytes \<Rightarrow> bytes | _ \<Rightarrow> []) events)"

lemma received_simps [simp]:
  "received [] = []" "received (xs @ ys) = received xs @ received ys"
  "received (Received bytes # xs) = bytes @ received xs"
  "received (Written n # xs) = received xs" "received (WriteFailed e # xs) = received xs"
  "received (Flushed # xs) = received xs" "received (FlushFailed e # xs) = received xs"
  "received (ReadFailed d # xs) = received xs" "received (Elapsed # xs) = received xs"
  by (simp_all add: received_def)

lemma send_cmd_used:
  "send_cmd events data = Some (r, out, rest) \<Longrightarrow>
   \<exists>used. events = used @ rest \<and> received used = [] \<and> prefix out data \<and> (r = Inr True \<longrightarrow> out = data)"
proof (induction events data arbitrary: out rule: send_cmd.induct)
  case (2 n events v vs)
  show ?case
  proof (cases "n = 0")
    case True
    with 2 show ?thesis by (intro exI [of _ "[Written n]"]) auto
  next
    case False
    let ?data = "v # vs"
    from False 2 obtain more where more: "n \<le> length ?data" "send_cmd events (drop n ?data) = Some (r, more, rest)"
      "out = take n ?data @ more" by (auto split: if_splits)
    with 2(1) [OF False _ more(2)] obtain used where "events = used @ rest" "received used = []"
      "prefix more (drop n ?data)" "r = Inr True \<longrightarrow> more = drop n ?data" by auto
    moreover from this have "prefix (take n ?data @ more) (take n ?data @ drop n ?data)"
      by (simp only: same_prefix_prefix)
    ultimately show ?thesis using more(3)
      by (intro exI [of _ "Written n # used"]) (auto simp only: append_take_drop_id received_simps append_Cons)
  qed
next
  case (3 e events v vs)
  then show ?case by (intro exI [of _ "[WriteFailed e]"]) auto
qed auto

lemma wait_for_ack_used:
  "wait_for_ack cls ident p events = Some (w, rest) \<Longrightarrow> ack_inv seen p \<Longrightarrow>
   \<exists>used. events = used @ rest \<and>
     (\<forall>outcome. w = Answered outcome \<longrightarrow> sublist (ack_frame outcome cls ident) (seen @ received used))"
proof (induction cls ident p events arbitrary: seen rule: wait_for_ack.induct)
  case (1 cls ident p bytes events)
  obtain r p' where push: "push_until_ack cls ident p bytes = (r, p')" by (cases "push_until_ack cls ident p bytes")
  note inv = push_until_ack_inv [OF 1(3) this]
  show ?case
  proof (cases r)
    case None
    with 1(2) push have "wait_for_ack cls ident p' events = Some (w, rest)" by simp
    with 1(1) [OF push [symmetric] None, of "seen @ bytes"] inv None obtain used where
      "events = used @ rest"
      "\<forall>outcome. w = Answered outcome \<longrightarrow> sublist (ack_frame outcome cls ident) (seen @ bytes @ received used)" by auto
    then show ?thesis by (intro exI [of _ "Received bytes # used"]) simp
  next
    case (Some outcome)
    with inv 1(2) push show ?thesis
      by (intro exI [of _ "[Received bytes]"]) (auto simp: sublist_def)
  qed
next
  case (2 cls ident p e events)
  then show ?case by (intro exI [of _ "[ReadFailed e]"]) auto
next
  case (3 cls ident p events)
  then show ?case by (intro exI [of _ "[Elapsed]"]) auto
qed auto

text \<open>What a round did: the bytes it wrote and the ones it received justify its result.\<close>

definition round_done :: "bool \<Rightarrow> bytes \<Rightarrow> (('t, 'r) gnss_setting_error + u8) \<Rightarrow> bytes \<Rightarrow> bytes \<Rightarrow> bool" where
  "round_done final cmd r out answer \<longleftrightarrow>
     (case r of
        Inr n \<Rightarrow> out = cmd \<and>
          (if final then n = 0 \<and> answer = [] else n = 1 \<and> sublist (ack_frame Ack (cmd ! 2) (cmd ! 3)) answer)
      | Inl (NegativeAck cls ident) \<Rightarrow> \<not> final \<and> out = cmd \<and> cls = cmd ! 2 \<and> ident = cmd ! 3 \<and>
          sublist (ack_frame Nak cls ident) answer
      | Inl (AckTimeout cls ident) \<Rightarrow> \<not> final \<and> out = cmd \<and> cls = cmd ! 2 \<and> ident = cmd ! 3
      | Inl (Receive _) \<Rightarrow> \<not> final \<and> out = cmd
      | Inl _ \<Rightarrow> prefix out cmd \<and> answer = [])"

lemma setting_round_done:
  assumes "setting_round final cmd events = Some (r, out, rest)"
  shows "\<exists>used. events = used @ rest \<and> round_done final cmd r out (received used)"
proof -
  obtain sent o1 events1 where send: "send_cmd events cmd = Some (sent, o1, events1)"
    using assms by (auto simp: setting_round_def split: option.splits)
  from send_cmd_used [OF this] obtain used where used: "events = used @ events1" "received used = []"
    "prefix o1 cmd" "sent = Inr True \<longrightarrow> o1 = cmd" by blast
  show ?thesis
  proof (cases "\<exists>events2. sent = Inr True \<and> events1 = Flushed # events2 \<and> \<not> final")
    case False
    with assms send used show ?thesis
      by (cases sent; cases events1; auto simp: setting_round_def round_done_def
          split: bool.splits uart_event.splits if_splits
          intro: exI [of _ "used @ [Flushed]"] exI [of _ "used @ [FlushFailed e]" for e] exI [of _ used])
  next
    case True
    then obtain events2 where flush: "sent = Inr True" "events1 = Flushed # events2" "\<not> final" by blast
    with assms send obtain w where wait: "wait_for_ack (cmd ! 2) (cmd ! 3) new_ack_parser events2 = Some (w, rest)"
      "out = o1" and r: "r = (case w of Answered Ack \<Rightarrow> Inr 1 | Answered Nak \<Rightarrow> Inl (NegativeAck (cmd ! 2) (cmd ! 3))
        | ReadError e \<Rightarrow> Inl (Receive e) | AckTimedOut \<Rightarrow> Inl (AckTimeout (cmd ! 2) (cmd ! 3)))"
      by (auto simp: setting_round_def Let_def split: option.splits ack_wait.splits ack_outcome.splits)
    from wait_for_ack_used [OF wait(1) ack_inv_new, of "[]"] obtain more where more: "events2 = more @ rest"
      "\<forall>outcome. w = Answered outcome \<longrightarrow> sublist (ack_frame outcome (cmd ! 2) (cmd ! 3)) (received more)" by auto
    show ?thesis
      by (intro exI [of _ "used @ Flushed # more"])
        (use flush used more wait(2) r in \<open>auto simp: round_done_def split: ack_wait.splits ack_outcome.splits\<close>)
  qed
qed

text \<open>The receiver acknowledged the commands one after the other.\<close>

fun answered :: "bytes list \<Rightarrow> bytes \<Rightarrow> bool" where
  "answered [] bytes \<longleftrightarrow> bytes = []"
| "answered (cmd # cmds) bytes \<longleftrightarrow>
     (\<exists>x y. bytes = x @ y \<and> sublist (ack_frame Ack (cmd ! 2) (cmd ! 3)) x \<and> answered cmds y)"

lemma setting_loop_done:
  "setting_loop cmds n events = Some (r, out, rest) \<Longrightarrow> unat n + length cmds < 256 \<Longrightarrow>
   \<exists>used. events = used @ rest \<and>
     (case r of
        Inr m \<Rightarrow> m = n + of_nat (length (butlast cmds)) \<and> out = concat cmds \<and> answered (butlast cmds) (received used)
      | Inl e \<Rightarrow> \<exists>before cmd after part x y. cmds = before @ cmd # after \<and> out = concat before @ part \<and>
          received used = x @ y \<and> answered before x \<and> round_done (after = []) cmd (Inl e) part y)"
proof (induction cmds arbitrary: n events out)
  case (Cons cmd cmds)
  obtain r1 o1 events1 where round: "setting_round (cmds = []) cmd events = Some (r1, o1, events1)"
    using Cons.prems(1) by (auto split: option.splits)
  from setting_round_done [OF this] obtain used where used: "events = used @ events1"
    "round_done (cmds = []) cmd r1 o1 (received used)" by blast
  show ?case
  proof (cases r1)
    case (Inl e)
    with Cons.prems(1) round have r: "r = Inl e" "out = o1" "rest = events1" by auto
    have "\<exists>before c after part x y. cmd # cmds = before @ c # after \<and> out = concat before @ part \<and>
        received used = x @ y \<and> answered before x \<and> round_done (after = []) c (Inl e) part y"
      by (rule exI [of _ "[]"], rule exI [of _ cmd], rule exI [of _ cmds], rule exI [of _ o1],
          rule exI [of _ "[]"], rule exI [of _ "received used"]) (use used r Inl in simp)
    with used(1) r show ?thesis by auto
  next
    case (Inr k)
    with Cons.prems(1) round obtain more where more: "setting_loop cmds (saturating_add n k) events1 = Some (r, more, rest)"
      "out = o1 @ more" by auto
    have k: "o1 = cmd" "if cmds = [] then k = 0 \<and> received used = []
        else k = 1 \<and> sublist (ack_frame Ack (cmd ! 2) (cmd ! 3)) (received used)"
      using used(2) Inr by (auto simp: round_done_def split: if_splits)
    have sum: "saturating_add n k = n + k" "unat (n + k) + length cmds < 256"
      using k(2) Cons.prems(2) by (auto simp: saturating_add_def unat_word_ariths split: if_splits)
    from Cons.IH [OF more(1) [unfolded sum(1)] sum(2)] obtain used' where IH: "events1 = used' @ rest"
      "case r of
        Inr m \<Rightarrow> m = n + k + of_nat (length (butlast cmds)) \<and> more = concat cmds \<and> answered (butlast cmds) (received used')
      | Inl e \<Rightarrow> \<exists>before cmd after part x y. cmds = before @ cmd # after \<and> more = concat before @ part \<and>
          received used' = x @ y \<and> answered before x \<and> round_done (after = []) cmd (Inl e) part y" by blast
    show ?thesis
    proof (cases r)
      case (Inr m)
      have "1 + word_of_nat (length cmds - Suc 0) = (word_of_nat (length cmds) :: u8)" if "cmds \<noteq> []"
        using that by (cases cmds) auto
      with Inr IH more k used(1) show ?thesis
        by (intro exI [of _ "used @ used'"]) (auto split: if_splits)
    next
      case (Inl e)
      with IH(2) obtain before c after part x y where f: "cmds = before @ c # after" "more = concat before @ part"
        "received used' = x @ y" "answered before x" "round_done (after = []) c (Inl e) part y" by auto
      with k have ans: "answered (cmd # before) (received used @ x)" by auto
      have "\<exists>before c after part x y. cmd # cmds = before @ c # after \<and> out = concat before @ part \<and>
          received (used @ used') = x @ y \<and> answered before x \<and> round_done (after = []) c (Inl e) part y"
        by (rule exI [of _ "cmd # before"], rule exI [of _ c], rule exI [of _ after], rule exI [of _ part],
            rule exI [of _ "received used @ x"], rule exI [of _ y])
          (use ans f more(2) k(1) in \<open>simp del: answered.simps\<close>)
      with IH(1) used(1) Inl show ?thesis by (intro exI [of _ "used @ used'"]) simp
    qed
  qed
qed auto

text \<open>
  C34. Configuring the receiver does what it reports. Every command is a valid UBX message. On
  success exactly the nine commands were written in order, and for each of the first eight, one
  after the other, an acknowledgement of its class and identifier with a valid checksum was
  among the bytes received while the task waited for it; the report counts eight and leaves the
  last, the change of the baud rate, unverified. On failure exactly the commands before some
  command were written and acknowledged, and the error is that command's: a negative
  acknowledgement was received for it, or none in time, or a driver error, and nothing beyond
  that command was written.
\<close>

theorem gnss_setting_justified:
  assumes "gnss_setting events = Some (r, out, rest)"
  shows "\<exists>used. events = used @ rest \<and>
    (case r of
       Inr report \<Rightarrow> report = \<lparr>acknowledged_commands = 8, final_baud_ack_unverified = True\<rparr> \<and>
         out = concat INIT_COMMANDS \<and> answered (take 8 INIT_COMMANDS) (received used)
     | Inl e \<Rightarrow> \<exists>before cmd after part x y. INIT_COMMANDS = before @ cmd # after \<and>
         out = concat before @ part \<and> received used = x @ y \<and> answered before x \<and>
         round_done (after = []) cmd (Inl e) part y) \<and>
    (\<forall>cmd \<in> set INIT_COMMANDS. \<exists>payload. cmd = ubx_frame (cmd ! 2) (cmd ! 3) payload)"
proof -
  from assms obtain r1 where loop: "setting_loop INIT_COMMANDS 0 events = Some (r1, out, rest)"
    and r: "r = (case r1 of Inl e \<Rightarrow> Inl e
      | Inr n \<Rightarrow> Inr \<lparr>acknowledged_commands = n, final_baud_ack_unverified = True\<rparr>)"
    by (auto simp: gnss_setting_def)
  have commands: "butlast INIT_COMMANDS = take 8 INIT_COMMANDS" "length INIT_COMMANDS = 9"
    by (simp_all add: INIT_COMMANDS_def)
  show ?thesis
    using setting_loop_done [OF loop] r commands init_commands_valid
    by (cases r1) (auto simp: list_all_iff)
qed

text \<open>
  A receiver that writes in two parts and answers each command after some NMEA text; and one that
  rejects the second command.
\<close>

definition demo_round :: "ack_outcome \<Rightarrow> bytes \<Rightarrow> (nat, nat) uart_event list" where
  "demo_round outcome cmd = [Written 5, Written (length cmd - 5), Flushed, Received [0x24, 0x47, 0x50],
     Received (0x0a # ack_frame outcome (cmd ! 2) (cmd ! 3))]"

definition demo_accepting :: "(nat, nat) uart_event list" where
  "demo_accepting = concat (map (demo_round Ack) (take 8 INIT_COMMANDS)) @ [Written 28, Flushed]"

definition demo_rejecting :: "(nat, nat) uart_event list" where
  "demo_rejecting = demo_round Ack GLL_DELETE @ demo_round Nak GSA_DELETE"

lemma demo_runs:
  "gnss_setting demo_accepting =
     Some (Inr \<lparr>acknowledged_commands = 8, final_baud_ack_unverified = True\<rparr>, concat INIT_COMMANDS, [])"
  "gnss_setting demo_rejecting = Some (Inl (NegativeAck 0x06 0x01), GLL_DELETE @ GSA_DELETE, [])"
  by code_simp+

lemma gnss_setting_justified_witness:
  "answered (take 8 INIT_COMMANDS) (received demo_accepting) \<and>
   (\<exists>before cmd after part x y. INIT_COMMANDS = before @ cmd # after \<and>
      GLL_DELETE @ GSA_DELETE = concat before @ part \<and> received demo_rejecting = x @ y \<and> answered before x \<and>
      round_done (after = []) cmd (Inl (NegativeAck 0x06 0x01) :: (nat, nat) gnss_setting_error + u8) part y)"
  using gnss_setting_justified [OF demo_runs(1)] gnss_setting_justified [OF demo_runs(2)] by simp

end
