(* ===== verification/Nmea.thy ===== *)
theory Nmea
  imports GnssTime
begin

section \<open>Position sentences and their encoding (src/gnss/nmea.rs, src/gnss/telemetry.rs)\<close>

text \<open>
  Floating point numbers are an argument: \<open>float_ops\<close> holds the parsing, the arithmetic, the
  comparisons and the saturating conversions of Rust's \<open>f64\<close> and \<open>f32\<close> that the code uses, on
  arbitrary types. No law of arithmetic is assumed of them. \<open>lit m k\<close> is the literal \<open>m / 10\<^sup>k\<close>.
  The UTF-8 check before a number is parsed is part of the parsing operations: both failures
  give the same error.
\<close>

type_synonym i32 = "32 word"

record ('d, 'f) float_ops =
  f64_parse :: "bytes \<Rightarrow> 'd option"
  f64_lit :: "int \<Rightarrow> nat \<Rightarrow> 'd"
  f64_of_i32 :: "i32 \<Rightarrow> 'd"
  f64_to_i32 :: "'d \<Rightarrow> i32"
  f64_add :: "'d \<Rightarrow> 'd \<Rightarrow> 'd"
  f64_sub :: "'d \<Rightarrow> 'd \<Rightarrow> 'd"
  f64_mul :: "'d \<Rightarrow> 'd \<Rightarrow> 'd"
  f64_div :: "'d \<Rightarrow> 'd \<Rightarrow> 'd"
  f64_neg :: "'d \<Rightarrow> 'd"
  f64_less :: "'d \<Rightarrow> 'd \<Rightarrow> bool"
  f64_less_eq :: "'d \<Rightarrow> 'd \<Rightarrow> bool"
  f64_equal :: "'d \<Rightarrow> 'd \<Rightarrow> bool"
  f32_parse :: "bytes \<Rightarrow> 'f option"
  f32_lit :: "int \<Rightarrow> nat \<Rightarrow> 'f"
  f32_to_i32 :: "'f \<Rightarrow> i32"
  f32_add :: "'f \<Rightarrow> 'f \<Rightarrow> 'f"
  f32_sub :: "'f \<Rightarrow> 'f \<Rightarrow> 'f"
  f32_mul :: "'f \<Rightarrow> 'f \<Rightarrow> 'f"
  f32_div :: "'f \<Rightarrow> 'f \<Rightarrow> 'f"
  f32_less :: "'f \<Rightarrow> 'f \<Rightarrow> bool"
  f32_less_eq :: "'f \<Rightarrow> 'f \<Rightarrow> bool"
  f32_is_finite :: "'f \<Rightarrow> bool"

datatype gga_parse_error =
  GgaInvalidStart | GgaMissingField | GgaInvalidChecksum | GgaParseFailed | GgaInvalidTalker
| GgaInvalidHemisphere | GgaInvalidUnit

datatype fix_quality = FixInvalid | FixGps | FixDgps | FixUnknown nat

definition fix_quality_from :: "nat \<Rightarrow> fix_quality" where
  "fix_quality_from v = (if v = 0 then FixInvalid else if v = 1 then FixGps
     else if v = 2 then FixDgps else FixUnknown v)"

record 'f utc_time =
  utc_hour :: nat
  utc_minute :: nat
  utc_second :: 'f

record 'f gga_data =
  gga_utc_time :: "'f utc_time option"
  gga_latitude :: "i32 option"
  gga_longitude :: "i32 option"
  gga_fix_quality :: fix_quality
  gga_satellites :: nat
  gga_altitude :: "'f option"
  gga_geoid_sep :: "'f option"

definition ellipsoid_height :: "('d, 'f) float_ops \<Rightarrow> 'f gga_data \<Rightarrow> 'f option" where
  "ellipsoid_height fl data =
     (case (gga_altitude data, gga_geoid_sep data) of
        (Some alt, Some geoid) \<Rightarrow> Some (f32_add fl alt geoid)
      | _ \<Rightarrow> None)"

definition parse_number :: "(bytes \<Rightarrow> 'n option) \<Rightarrow> bytes \<Rightarrow> gga_parse_error + 'n" where
  "parse_number parse field = ok_or (parse field) GgaParseFailed"

definition parse_optional :: "(bytes \<Rightarrow> 'n option) \<Rightarrow> bytes \<Rightarrow> gga_parse_error + 'n option" where
  "parse_optional parse field =
     (if field = [] then Inr None else and_then (parse_number parse field) (\<lambda>v. Inr (Some v)))"

definition parse_utc_time :: "('d, 'f) float_ops \<Rightarrow> bytes \<Rightarrow> gga_parse_error + 'f utc_time" where
  "parse_utc_time fl field =
     (if length field < 6 then Inl GgaParseFailed
      else
        and_then (parse_number (from_str_radix 10 255) (slice field 0 2)) (\<lambda>hour.
        and_then (parse_number (from_str_radix 10 255) (slice field 2 4)) (\<lambda>minute.
        and_then (parse_number (f32_parse fl) (drop 4 field)) (\<lambda>second.
          if 24 \<le> hour \<or> 60 \<le> minute
             \<or> \<not> (f32_less_eq fl (f32_lit fl 0 0) second \<and> f32_less fl second (f32_lit fl 60 0))
          then Inl GgaParseFailed
          else Inr \<lparr>utc_hour = hour, utc_minute = minute, utc_second = second\<rparr>))))"

definition nmea_to_decimal :: "('d, 'f) float_ops \<Rightarrow> 'd \<Rightarrow> u8 \<Rightarrow> gga_parse_error + 'd" where
  "nmea_to_decimal fl nmea_val hemisphere =
     (let degrees = f64_of_i32 fl (f64_to_i32 fl (f64_div fl nmea_val (f64_lit fl 100 0)));
          minutes = f64_sub fl nmea_val (f64_mul fl degrees (f64_lit fl 100 0))
      in and_then
           (if hemisphere = 0x4e \<or> hemisphere = 0x53 then Inr (f64_lit fl 90 0)
            else if hemisphere = 0x45 \<or> hemisphere = 0x57 then Inr (f64_lit fl 180 0)
            else Inl GgaInvalidHemisphere) (\<lambda>maximum_degrees.
           if f64_less fl nmea_val (f64_lit fl 0 0)
              \<or> \<not> (f64_less_eq fl (f64_lit fl 0 0) minutes \<and> f64_less fl minutes (f64_lit fl 60 0))
              \<or> f64_less fl maximum_degrees degrees
              \<or> (f64_equal fl degrees maximum_degrees \<and> \<not> f64_equal fl minutes (f64_lit fl 0 0))
           then Inl GgaParseFailed
           else
             let decimal = f64_add fl degrees (f64_div fl minutes (f64_lit fl 60 0))
             in if hemisphere = 0x4e \<or> hemisphere = 0x45 then Inr decimal
                else if hemisphere = 0x53 \<or> hemisphere = 0x57 then Inr (f64_neg fl decimal)
                else Inl GgaInvalidHemisphere))"

definition f64_to_gps_i32 :: "('d, 'f) float_ops \<Rightarrow> 'd \<Rightarrow> i32" where
  "f64_to_gps_i32 fl degrees =
     (let scaled = f64_mul fl degrees (f64_lit fl 10000000 0)
      in if f64_less_eq fl (f64_lit fl 0 0) scaled then f64_to_i32 fl (f64_add fl scaled (f64_lit fl 5 1))
         else f64_to_i32 fl (f64_sub fl scaled (f64_lit fl 5 1)))"

definition verify_sentence :: "bytes \<Rightarrow> gga_parse_error + nat" where
  "verify_sentence sentence =
     (if sentence = [] \<or> sentence ! 0 \<noteq> 0x24 then Inl GgaInvalidStart
      else and_then (ok_or (position (\<lambda>c. c = 0x2a) sentence) GgaMissingField) (\<lambda>star_idx.
        if length sentence < star_idx + 3 then Inl GgaParseFailed
        else and_then (ok_or (from_str_radix 16 255 (slice sentence (star_idx + 1) (star_idx + 3))) GgaParseFailed)
          (\<lambda>expected.
             if unat (xor_checksum (slice sentence 1 star_idx)) \<noteq> expected then Inl GgaInvalidChecksum
             else Inr star_idx)))"

text \<open>The fields of a sentence with a valid checksum and the talker's type.\<close>

definition sentence_fields :: "bytes \<Rightarrow> bytes \<Rightarrow> gga_parse_error + bytes list" where
  "sentence_fields kind sentence =
     and_then (verify_sentence sentence) (\<lambda>star_idx.
       let fields = split_on 0x2c (slice sentence 1 star_idx);
           talker = hd fields
       in if length talker < 5 \<or> drop (length talker - 3) talker \<noteq> kind then Inl GgaInvalidTalker
          else Inr fields)"

definition parse_coordinate :: "('d, 'f) float_ops \<Rightarrow> bytes \<Rightarrow> bytes \<Rightarrow> gga_parse_error + i32 option" where
  "parse_coordinate fl field hemisphere =
     (if field \<noteq> [] \<and> hemisphere \<noteq> []
      then and_then (parse_number (f64_parse fl) field) (\<lambda>raw.
           and_then (nmea_to_decimal fl raw (hemisphere ! 0)) (\<lambda>decimal.
             Inr (Some (f64_to_gps_i32 fl decimal))))
      else Inr None)"

definition parse_gga :: "('d, 'f) float_ops \<Rightarrow> bytes \<Rightarrow> gga_parse_error + 'f gga_data" where
  "parse_gga fl sentence =
     and_then (sentence_fields [0x47, 0x47, 0x41] sentence) (\<lambda>fields.
       if length fields < 12 then Inl GgaMissingField
       else if fields ! 10 \<noteq> [] \<and> fields ! 10 \<noteq> [0x4d] then Inl GgaInvalidUnit
       else
         and_then (if fields ! 1 = [] then Inr None
                   else and_then (parse_utc_time fl (fields ! 1)) (\<lambda>t. Inr (Some t))) (\<lambda>utc_time.
         and_then (parse_coordinate fl (fields ! 2) (fields ! 3)) (\<lambda>latitude.
         and_then (parse_coordinate fl (fields ! 4) (fields ! 5)) (\<lambda>longitude.
         and_then (if fields ! 6 = [] then Inr FixInvalid
                   else and_then (parse_number (from_str_radix 10 255) (fields ! 6)) (\<lambda>v.
                     Inr (fix_quality_from v))) (\<lambda>fix_quality.
         and_then (if fields ! 7 = [] then Inr 0
                   else parse_number (from_str_radix 10 255) (fields ! 7)) (\<lambda>satellites.
         and_then (parse_optional (f32_parse fl) (fields ! 9)) (\<lambda>altitude.
         and_then (parse_optional (f32_parse fl) (fields ! 11)) (\<lambda>geoid_sep.
           Inr \<lparr>gga_utc_time = utc_time, gga_latitude = latitude, gga_longitude = longitude,
                gga_fix_quality = fix_quality, gga_satellites = satellites,
                gga_altitude = altitude, gga_geoid_sep = geoid_sep\<rparr>))))))))"

record 'f rmc_data =
  rmc_speed_kmh :: "'f option"
  rmc_true_course :: "'f option"

definition parse_rmc_movement :: "('d, 'f) float_ops \<Rightarrow> bytes \<Rightarrow> gga_parse_error + 'f rmc_data" where
  "parse_rmc_movement fl sentence =
     and_then (sentence_fields [0x52, 0x4d, 0x43] sentence) (\<lambda>fields.
       if length fields < 3 then Inl GgaMissingField
       else if fields ! 2 \<noteq> [0x41] then Inl GgaParseFailed
       else if length fields < 9 then Inl GgaMissingField
       else
         and_then (parse_optional (f32_parse fl) (fields ! 7)) (\<lambda>speed_knots.
         and_then (parse_optional (f32_parse fl) (fields ! 8)) (\<lambda>true_course.
           Inr \<lparr>rmc_speed_kmh = map_option (\<lambda>v. f32_mul fl v (f32_lit fl 1852 3)) speed_knots,
                rmc_true_course = true_course\<rparr>)))"

record 'f gst_data =
  gst_range_rms :: "'f option"
  gst_std_major :: "'f option"
  gst_std_minor :: "'f option"
  gst_orient :: "'f option"
  gst_std_lat :: "'f option"
  gst_std_long :: "'f option"
  gst_std_alt :: "'f option"

definition parse_gst :: "('d, 'f) float_ops \<Rightarrow> bytes \<Rightarrow> gga_parse_error + 'f gst_data" where
  "parse_gst fl sentence =
     and_then (sentence_fields [0x47, 0x53, 0x54] sentence) (\<lambda>fields.
       if length fields < 9 then Inl GgaMissingField
       else
         and_then (parse_optional (f32_parse fl) (fields ! 2)) (\<lambda>range_rms.
         and_then (parse_optional (f32_parse fl) (fields ! 3)) (\<lambda>std_major.
         and_then (parse_optional (f32_parse fl) (fields ! 4)) (\<lambda>std_minor.
         and_then (parse_optional (f32_parse fl) (fields ! 5)) (\<lambda>orient.
         and_then (parse_optional (f32_parse fl) (fields ! 6)) (\<lambda>std_lat.
         and_then (parse_optional (f32_parse fl) (fields ! 7)) (\<lambda>std_long.
         and_then (parse_optional (f32_parse fl) (fields ! 8)) (\<lambda>std_alt.
           Inr \<lparr>gst_range_rms = range_rms, gst_std_major = std_major, gst_std_minor = std_minor,
                gst_orient = orient, gst_std_lat = std_lat, gst_std_long = std_long,
                gst_std_alt = std_alt\<rparr>))))))))"

subsection \<open>Encoding of a position\<close>

definition REFERENCE_LATITUDE_E7 :: i32 where "REFERENCE_LATITUDE_E7 = 402428650"
definition REFERENCE_LONGITUDE_E7 :: i32 where "REFERENCE_LONGITUDE_E7 = 1400104500"
definition GNSS_COORDINATE_UNAVAILABLE :: u16 where "GNSS_COORDINATE_UNAVAILABLE = 0x8000"
definition GNSS_COORDINATE_NO_FIX :: u16 where "GNSS_COORDINATE_NO_FIX = 0x8001"
definition GNSS_COORDINATE_STALE :: u16 where "GNSS_COORDINATE_STALE = 0x8002"
definition GNSS_COORDINATE_OUT_OF_RANGE :: u16 where "GNSS_COORDINATE_OUT_OF_RANGE = 0x8003"
definition GNSS_COORDINATE_INVALID :: u16 where "GNSS_COORDINATE_INVALID = 0x8004"
definition GNSS_COORDINATE_RECEIVER_ERROR :: u16 where "GNSS_COORDINATE_RECEIVER_ERROR = 0x8005"
definition GNSS_HEIGHT_UNAVAILABLE :: u16 where "GNSS_HEIGHT_UNAVAILABLE = 496"
definition GNSS_HEIGHT_NO_FIX :: u16 where "GNSS_HEIGHT_NO_FIX = 497"
definition GNSS_HEIGHT_STALE :: u16 where "GNSS_HEIGHT_STALE = 498"
definition GNSS_HEIGHT_OUT_OF_RANGE :: u16 where "GNSS_HEIGHT_OUT_OF_RANGE = 499"
definition GNSS_HEIGHT_INVALID :: u16 where "GNSS_HEIGHT_INVALID = 500"
definition GNSS_HEIGHT_RECEIVER_ERROR :: u16 where "GNSS_HEIGHT_RECEIVER_ERROR = 501"

lemmas gnss_codes = GNSS_COORDINATE_UNAVAILABLE_def GNSS_COORDINATE_NO_FIX_def GNSS_COORDINATE_STALE_def
  GNSS_COORDINATE_OUT_OF_RANGE_def GNSS_COORDINATE_INVALID_def GNSS_COORDINATE_RECEIVER_ERROR_def
  GNSS_HEIGHT_UNAVAILABLE_def GNSS_HEIGHT_NO_FIX_def GNSS_HEIGHT_STALE_def GNSS_HEIGHT_OUT_OF_RANGE_def
  GNSS_HEIGHT_INVALID_def GNSS_HEIGHT_RECEIVER_ERROR_def

record encoded_position =
  ep_east :: u16
  ep_north :: u16
  ep_height :: u16

definition round_to_i32 :: "('d, 'f) float_ops \<Rightarrow> 'd \<Rightarrow> i32" where
  "round_to_i32 fl v =
     (if f64_less_eq fl (f64_lit fl 0 0) v then f64_to_i32 fl (f64_add fl v (f64_lit fl 5 1))
      else f64_to_i32 fl (f64_sub fl v (f64_lit fl 5 1)))"

definition encode_coordinate :: "i32 \<Rightarrow> u16" where
  "encode_coordinate v =
     (if \<not> (- 32752 \<le> sint v \<and> sint v \<le> 32767) then GNSS_COORDINATE_OUT_OF_RANGE else ucast v)"

definition encode_height :: "('d, 'f) float_ops \<Rightarrow> 'f \<Rightarrow> u16" where
  "encode_height fl value_m =
     (if \<not> f32_is_finite fl value_m then GNSS_HEIGHT_INVALID
      else if \<not> (f32_less_eq fl (f32_lit fl (- 100) 0) value_m \<and> f32_less_eq fl value_m (f32_lit fl 2375 0))
      then GNSS_HEIGHT_OUT_OF_RANGE
      else
        let scaled = f32_div fl (f32_add fl value_m (f32_lit fl 100 0)) (f32_lit fl 5 0);
            raw = (if f32_less_eq fl (f32_lit fl (- 100) 0) value_m
                   then f32_to_i32 fl (f32_add fl scaled (f32_lit fl 5 1))
                   else f32_to_i32 fl (f32_sub fl scaled (f32_lit fl 5 1)))
        in if 0 \<le> sint raw \<and> sint raw \<le> 495 then ucast raw else GNSS_HEIGHT_OUT_OF_RANGE)"

definition encode_position :: "('d, 'f) float_ops \<Rightarrow> i32 \<Rightarrow> i32 \<Rightarrow> 'f \<Rightarrow> encoded_position" where
  "encode_position fl latitude_e7 longitude_e7 height_m =
     (let north = round_to_i32 fl
            (f64_div fl (f64_mul fl (f64_sub fl (f64_of_i32 fl latitude_e7) (f64_of_i32 fl REFERENCE_LATITUDE_E7))
               (f64_lit fl 111039303376 6)) (f64_lit fl 10000000 0));
          east = round_to_i32 fl
            (f64_div fl (f64_mul fl (f64_sub fl (f64_of_i32 fl longitude_e7) (f64_of_i32 fl REFERENCE_LONGITUDE_E7))
               (f64_lit fl 85090557487 6)) (f64_lit fl 10000000 0))
      in \<lparr>ep_east = encode_coordinate east, ep_north = encode_coordinate north,
          ep_height = encode_height fl height_m\<rparr>)"

text \<open>The codes that stand for no value, from 0x8000 to 0x800f.\<close>

definition reserved_coordinate :: "u16 \<Rightarrow> bool" where
  "reserved_coordinate c \<longleftrightarrow> 0x8000 \<le> c \<and> c \<le> 0x800f"

lemma uint_ucast_i32: "uint (ucast (v :: i32) :: u16) = sint v mod 65536"
proof -
  have "take_bit 16 (sint v) = take_bit 16 (uint v)"
    by (simp add: sint_uint take_bit_signed_take_bit)
  then show ?thesis by (simp add: unsigned_ucast_eq take_bit_eq_mod)
qed

lemma sint_u16: "sint (c :: u16) = (if uint c < 32768 then uint c else uint c - 65536)"
proof -
  have "sint c = signed_take_bit 15 (uint c)" by (simp add: sint_uint)
  also have "\<dots> = (if uint c < 32768 then uint c else uint c - 65536)"
  proof (cases "uint c < 32768")
    case True
    moreover have "- 32768 \<le> uint c" using uint_ge_0 [of c] by linarith
    ultimately show ?thesis by (simp add: signed_take_bit_int_eq_self)
  next
    case False
    have "uint c < 65536" using uint_lt2p [of c] by simp
    have "signed_take_bit 15 (uint c) = signed_take_bit 15 (uint c - 65536)"
      by (rule signed_take_bit_eq_iff_take_bit_eq [THEN iffD2]) (simp add: take_bit_eq_mod)
    also have "\<dots> = uint c - 65536"
      using False \<open>uint c < 65536\<close> by (intro signed_take_bit_int_eq_self) auto
    finally show ?thesis using False by simp
  qed
  finally show ?thesis .
qed

text \<open>
  A coordinate in the range of the packet is sent as its two's complement and reads back as
  itself, and its code is never one of the sixteen reserved ones; any other coordinate becomes
  the out-of-range code. A height is a number up to 495, or the code for out of range or invalid.
  This holds for every behaviour of the floating point operations.
\<close>

lemma coordinate_code:
  "if - 32752 \<le> sint v \<and> sint v \<le> 32767
   then sint (encode_coordinate v) = sint v \<and> \<not> reserved_coordinate (encode_coordinate v)
   else encode_coordinate v = GNSS_COORDINATE_OUT_OF_RANGE"
proof -
  have "sint (encode_coordinate v) = sint v \<and> \<not> reserved_coordinate (encode_coordinate v)"
    if "- 32752 \<le> sint v" "sint v \<le> 32767"
  proof -
    have c: "uint (encode_coordinate v) = sint v mod 65536"
      using that by (simp add: encode_coordinate_def uint_ucast_i32)
    have m: "sint v mod 65536 = (if 0 \<le> sint v then sint v else sint v + 65536)"
    proof (cases "0 \<le> sint v")
      case False
      have "sint v mod 65536 = (sint v + 65536) mod 65536" by simp
      also have "\<dots> = sint v + 65536" using False that(1) by (intro mod_pos_pos_trivial) auto
      finally show ?thesis using False by simp
    qed (use that in \<open>simp add: mod_pos_pos_trivial\<close>)
    show ?thesis using that c m
      by (auto simp: sint_u16 reserved_coordinate_def word_le_def)
  qed
  then show ?thesis by (auto simp: encode_coordinate_def)
qed

lemma height_code:
  "encode_height fl h \<le> 495 \<or> encode_height fl h \<in> {GNSS_HEIGHT_OUT_OF_RANGE, GNSS_HEIGHT_INVALID}"
proof -
  have "ucast raw \<le> (495 :: u16)" if "0 \<le> sint raw" "sint raw \<le> 495" for raw :: i32
    using that by (simp add: word_le_def uint_ucast_i32 mod_pos_pos_trivial)
  then show ?thesis by (auto simp: encode_height_def Let_def)
qed

end
