(* ===== verification/GnssTask.thy ===== *)
theory GnssTask
  imports Board Nmea GnssSettings
begin

section \<open>The GNSS tasks (src/tasks/gnss\_task.rs)\<close>

text \<open>
  Three tasks: the manager reads the receiver's UART, assembles sentences and switches the
  receiver on and off; the parser turns sentences into position and time and notices when they
  stop; the third answers the Mission board's time requests. \<open>gnss_statics\<close> are the statics of
  src/state.rs they share, \<open>gnss_manager\<close> the locals of the manager. While the manager switches
  the receiver on it waits several times; \<open>gnss_phase\<close> says where. Each handler takes the time,
  the results of the UART and the operations of the sentence channel.
\<close>

definition GNSS_STALE_TIMEOUT_MS :: u64 where "GNSS_STALE_TIMEOUT_MS = 3000"

record 's gnss_statics =
  gs_telemetry :: gnss_telemetry
  gs_channel :: 's
  gs_time_valid :: bool
  gs_time_unix_seconds :: u32
  gs_time_milliseconds :: u16
  gs_time_updated_at_ms :: u32
  gs_setting_error_count :: u32
  gs_rx_error_count :: u32
  gs_channel_drop_count :: u32

definition initial_gnss :: "'s \<Rightarrow> 's gnss_statics" where
  "initial_gnss q = \<lparr>gs_telemetry = new_gnss_telemetry, gs_channel = q, gs_time_valid = False,
     gs_time_unix_seconds = 0, gs_time_milliseconds = 0, gs_time_updated_at_ms = 0,
     gs_setting_error_count = 0, gs_rx_error_count = 0, gs_channel_drop_count = 0\<rparr>"

definition set_receiver_state :: "gnss_receiver_state \<Rightarrow> u64 \<Rightarrow> 's gnss_statics \<Rightarrow> 's gnss_statics" where
  "set_receiver_state state now_ms g =
     (let telemetry = (gs_telemetry g)\<lparr>gt_state := state\<rparr>;
          telemetry = (if state = GnssStarting then telemetry\<lparr>gt_started_at_ms := Some now_ms\<rparr> else telemetry);
          telemetry = (if state = GnssConfigurationFailed \<or> state = GnssReceiverError
                       then telemetry\<lparr>gt_east := GNSS_COORDINATE_RECEIVER_ERROR,
                                      gt_north := GNSS_COORDINATE_RECEIVER_ERROR,
                                      gt_height := GNSS_HEIGHT_RECEIVER_ERROR\<rparr>
                       else telemetry)
      in g\<lparr>gs_telemetry := telemetry\<rparr>)"

subsection \<open>The manager: lines\<close>

record gnss_manager =
  gm_line_buf :: bytes
  gm_line_length :: nat
  gm_discard_line :: bool
  gm_is_on :: bool

definition new_gnss_manager :: gnss_manager where
  "new_gnss_manager = \<lparr>gm_line_buf = replicate 90 0, gm_line_length = 0, gm_discard_line = False, gm_is_on = False\<rparr>"

text \<open>One byte of the UART: the sentence it completes, if any.\<close>

definition push_letter :: "u8 \<Rightarrow> gnss_manager \<Rightarrow> bytes option \<times> gnss_manager" where
  "push_letter letter m =
     (if letter = 0x24
      then (None, m\<lparr>gm_line_buf := (gm_line_buf m)[0 := letter], gm_line_length := 1, gm_discard_line := False\<rparr>)
      else if letter = 0x0d then (None, m)
      else if letter = 0x0a
      then (if \<not> gm_discard_line m \<and> 0 < gm_line_length m \<and> gm_line_buf m ! 0 = 0x24
            then Some (copy_into (replicate 90 0) 0 (take (gm_line_length m) (gm_line_buf m))) else None,
            m\<lparr>gm_line_length := 0, gm_discard_line := False\<rparr>)
      else if gm_line_length m < length (gm_line_buf m)
      then (None, m\<lparr>gm_line_buf := (gm_line_buf m)[gm_line_length m := letter],
                    gm_line_length := gm_line_length m + 1\<rparr>)
      else (None, m\<lparr>gm_discard_line := True\<rparr>))"

definition sentence_received ::
  "(bytes, 's) channel_ops \<Rightarrow> u64 \<Rightarrow> bytes \<Rightarrow> 's gnss_statics \<Rightarrow> 's gnss_statics" where
  "sentence_received ops now_ms sentence g =
     (let telemetry = (gs_telemetry g)\<lparr>gt_last_receiver_at_ms := Some now_ms\<rparr>;
          telemetry = (if gt_state telemetry = GnssStarting \<or> gt_state telemetry = GnssReceiverError
                       then telemetry\<lparr>gt_state := GnssReceiverDetected\<rparr> else telemetry);
          g = g\<lparr>gs_telemetry := telemetry\<rparr>
      in case try_send ops sentence (gs_channel g) of (sent, q) \<Rightarrow>
           let g = g\<lparr>gs_channel := q\<rparr>
           in if sent then g else g\<lparr>gs_channel_drop_count := gs_channel_drop_count g + 1\<rparr>)"

text \<open>A read of the UART: its bytes, each with the time at which it is looked at.\<close>

definition read_letters ::
  "(bytes, 's) channel_ops \<Rightarrow> (u8 \<times> u64) list \<Rightarrow> gnss_manager \<times> 's gnss_statics \<Rightarrow> gnss_manager \<times> 's gnss_statics" where
  "read_letters ops letters s = fold (\<lambda>(letter, now_ms) (m, g).
     case push_letter letter m of (sentence, m) \<Rightarrow>
       (m, case sentence of None \<Rightarrow> g | Some sentence \<Rightarrow> sentence_received ops now_ms sentence g)) letters s"

definition count_rx_error :: "'s gnss_statics \<Rightarrow> 's gnss_statics" where
  "count_rx_error g = g\<lparr>gs_rx_error_count := gs_rx_error_count g + 1\<rparr>"

subsection \<open>The manager: switching the receiver\<close>

datatype gnss_phase = Serving | StartingUp | Configuring | SettlingBaud

definition configuration_failed :: "u64 \<Rightarrow> 's gnss_statics \<Rightarrow> 's gnss_statics" where
  "configuration_failed now_ms g = set_receiver_state GnssConfigurationFailed now_ms
     (g\<lparr>gs_setting_error_count := gs_setting_error_count g + 1\<rparr>)"

definition turn_on ::
  "bool \<Rightarrow> u64 \<Rightarrow> gnss_manager \<times> 's gnss_statics \<Rightarrow> gnss_phase \<times> gnss_manager \<times> 's gnss_statics" where
  "turn_on baud_applied now_ms s =
     (case s of (m, g) \<Rightarrow>
        if gm_is_on m then (Serving, m, g)
        else
          let g = set_receiver_state GnssStarting now_ms (g\<lparr>gs_time_valid := False\<rparr>)
          in if \<not> baud_applied then (Serving, m, configuration_failed now_ms g) else (StartingUp, m, g))"

text \<open>The startup time is over: the line that was being read is dropped.\<close>

definition startup_over :: "gnss_manager \<Rightarrow> gnss_manager" where
  "startup_over m = m\<lparr>gm_line_length := 0, gm_discard_line := False\<rparr>"

definition configured ::
  "(('t, 'r) gnss_setting_error + gnss_setting_report) \<Rightarrow> u64 \<Rightarrow> gnss_manager \<times> 's gnss_statics \<Rightarrow>
   gnss_phase \<times> gnss_manager \<times> 's gnss_statics" where
  "configured result now_ms s =
     (case s of (m, g) \<Rightarrow>
        (case result of
           Inr _ \<Rightarrow> (SettlingBaud, m, g)
         | Inl _ \<Rightarrow> (Serving, m, configuration_failed now_ms (g\<lparr>gs_time_valid := False\<rparr>))))"

definition baud_settled ::
  "bool \<Rightarrow> u64 \<Rightarrow> gnss_manager \<times> 's gnss_statics \<Rightarrow> gnss_phase \<times> gnss_manager \<times> 's gnss_statics" where
  "baud_settled baud_applied now_ms s =
     (case s of (m, g) \<Rightarrow>
        if \<not> baud_applied then (Serving, m, configuration_failed now_ms (g\<lparr>gs_time_valid := False\<rparr>))
        else (Serving, m\<lparr>gm_is_on := True\<rparr>, g))"

text \<open>\<open>while GNSS_CHANNEL.try_receive().is_ok() {}\<close>; \<open>None\<close> when it never ends.\<close>

partial_function (option) drain :: "(bytes, 's) channel_ops \<Rightarrow> 's \<Rightarrow> 's option" where
  [code]: "drain ops q = (case try_receive ops q of (None, q) \<Rightarrow> Some q | (Some _, q) \<Rightarrow> drain ops q)"

definition turn_off ::
  "(bytes, 's) channel_ops \<Rightarrow> gnss_manager \<times> 's gnss_statics \<Rightarrow> (gnss_manager \<times> 's gnss_statics) option" where
  "turn_off ops s =
     (case s of (m, g) \<Rightarrow>
        let m = m\<lparr>gm_is_on := False\<rparr>;
            g = g\<lparr>gs_time_valid := False,
                  gs_telemetry := (gs_telemetry g)\<lparr>gt_state := GnssOff, gt_east := GNSS_COORDINATE_UNAVAILABLE,
                    gt_north := GNSS_COORDINATE_UNAVAILABLE, gt_height := GNSS_HEIGHT_UNAVAILABLE\<rparr>\<rparr>
        in map_option (\<lambda>q. (m, g\<lparr>gs_channel := q\<rparr>)) (drain ops (gs_channel g)))"

subsection \<open>The parser\<close>

definition is_sentence :: "bytes \<Rightarrow> bytes \<Rightarrow> bool" where
  "is_sentence sentence kind =
     (case position (\<lambda>v. v = 0x2c) sentence of
        None \<Rightarrow> False
      | Some comma \<Rightarrow> 4 \<le> comma \<and> slice sentence (comma - 3) comma = kind)"

definition is_gga :: "bytes \<Rightarrow> bool" where "is_gga sentence = is_sentence sentence [0x47, 0x47, 0x41]"
definition is_rmc :: "bytes \<Rightarrow> bool" where "is_rmc sentence = is_sentence sentence [0x52, 0x4d, 0x43]"

definition ignores_sentences :: "gnss_receiver_state \<Rightarrow> bool" where
  "ignores_sentences state \<longleftrightarrow> state \<in> {GnssOff, GnssStarting, GnssConfigurationFailed}"

definition store_time :: "gnss_date_time \<Rightarrow> u64 \<Rightarrow> 's gnss_statics \<Rightarrow> 's gnss_statics" where
  "store_time time now_ms g =
     g\<lparr>gs_time_unix_seconds := gdt_unix_seconds time, gs_time_milliseconds := gdt_milliseconds time,
       gs_time_updated_at_ms := ucast now_ms, gs_time_valid := True\<rparr>"

definition store_position ::
  "('d, 'f) float_ops \<Rightarrow> gga_parse_error + 'f gga_data \<Rightarrow> u64 \<Rightarrow> gnss_telemetry \<Rightarrow> gnss_telemetry" where
  "store_position fl parsed now_ms telemetry =
     (case parsed of
        Inl _ \<Rightarrow> telemetry\<lparr>gt_state := GnssInvalidSample, gt_east := GNSS_COORDINATE_INVALID,
                   gt_north := GNSS_COORDINATE_INVALID, gt_height := GNSS_HEIGHT_INVALID\<rparr>
      | Inr data \<Rightarrow>
          (case (gga_latitude data, gga_longitude data, gga_altitude data) of
             (Some latitude, Some longitude, Some altitude) \<Rightarrow>
               if gga_fix_quality data \<noteq> FixInvalid
               then
                 let encoded = encode_position fl latitude longitude altitude
                 in telemetry\<lparr>gt_state := GnssValidFix, gt_east := ep_east encoded,
                              gt_north := ep_north encoded, gt_height := ep_height encoded,
                              gt_last_fix_at_ms := Some now_ms\<rparr>
               else telemetry\<lparr>gt_state := GnssNoFix, gt_east := GNSS_COORDINATE_NO_FIX,
                      gt_north := GNSS_COORDINATE_NO_FIX, gt_height := GNSS_HEIGHT_NO_FIX\<rparr>
           | _ \<Rightarrow> telemetry\<lparr>gt_state := GnssNoFix, gt_east := GNSS_COORDINATE_NO_FIX,
                    gt_north := GNSS_COORDINATE_NO_FIX, gt_height := GNSS_HEIGHT_NO_FIX\<rparr>))"

text \<open>A sentence from the channel. The state that decides is the one at the last lock.\<close>

definition parse_sentence ::
  "('d, 'f) float_ops \<Rightarrow> bytes \<Rightarrow> u64 \<Rightarrow> 's gnss_statics \<Rightarrow> 's gnss_statics" where
  "parse_sentence fl sentence now_ms g =
     (if ignores_sentences (gt_state (gs_telemetry g)) then g
      else if is_rmc sentence
      then (case parse_rmc_datetime sentence of Inr time \<Rightarrow> store_time time now_ms g | Inl _ \<Rightarrow> g)
      else if \<not> is_gga sentence then g
      else g\<lparr>gs_telemetry := store_position fl (parse_gga fl sentence) now_ms (gs_telemetry g)\<rparr>)"

definition long_ago :: "u64 \<Rightarrow> u64 \<Rightarrow> bool" where
  "long_ago now_ms seen \<longleftrightarrow> GNSS_STALE_TIMEOUT_MS \<le> saturating_sub now_ms seen"

definition stale_telemetry :: "u64 \<Rightarrow> gnss_telemetry \<Rightarrow> gnss_telemetry" where
  "stale_telemetry now_ms telemetry =
     (let stale = telemetry\<lparr>gt_state := GnssStale, gt_east := GNSS_COORDINATE_STALE,
                            gt_north := GNSS_COORDINATE_STALE, gt_height := GNSS_HEIGHT_STALE\<rparr>
      in case gt_state telemetry of
           GnssStarting \<Rightarrow>
             if (case gt_started_at_ms telemetry of None \<Rightarrow> True | Some seen \<Rightarrow> long_ago now_ms seen)
             then telemetry\<lparr>gt_state := GnssReceiverError, gt_east := GNSS_COORDINATE_RECEIVER_ERROR,
                    gt_north := GNSS_COORDINATE_RECEIVER_ERROR, gt_height := GNSS_HEIGHT_RECEIVER_ERROR\<rparr>
             else telemetry
         | GnssValidFix \<Rightarrow>
             if (case gt_last_fix_at_ms telemetry of None \<Rightarrow> False | Some fixed \<Rightarrow> long_ago now_ms fixed)
             then stale else telemetry
         | state \<Rightarrow>
             if state \<in> {GnssReceiverDetected, GnssNoFix, GnssInvalidSample} \<and>
                (case gt_last_receiver_at_ms telemetry of None \<Rightarrow> False | Some seen \<Rightarrow> long_ago now_ms seen)
             then stale else telemetry)"

definition stale_tick :: "u64 \<Rightarrow> 's gnss_statics \<Rightarrow> 's gnss_statics" where
  "stale_tick now_ms g =
     (let g = g\<lparr>gs_telemetry := stale_telemetry now_ms (gs_telemetry g)\<rparr>
      in if gs_time_valid g \<and> long_ago now_ms (ucast (gs_time_updated_at_ms g))
         then g\<lparr>gs_time_valid := False\<rparr> else g)"

subsection \<open>Answers to time requests\<close>

text \<open>One tick; the answered request is kept with the time at which it was received.\<close>

definition time_response_tick ::
  "('l, 'c, 'r, 'g) board_ops \<Rightarrow> u64 \<Rightarrow> (u8 \<times> u64) option \<times> 's gnss_statics \<times> ('l, 'c, 'r, 'g) board \<Rightarrow>
   (u8 \<times> u64) option \<times> 's gnss_statics \<times> ('l, 'c, 'r, 'g) board" where
  "time_response_tick ops now_ms s =
     (case s of (last_response, g, b) \<Rightarrow>
        let cached = cc_time_request (bd_cache b)
        in case (lt_value cached, received_at_ms cached) of
             (Some request_id, Some request_received_at_ms) \<Rightarrow>
               if last_response = Some (request_id, request_received_at_ms) then s
               else if \<not> gs_time_valid g then s
               else
                 let age_ms = saturating_sub now_ms (ucast (gs_time_updated_at_ms g))
                 in if GNSS_STALE_TIMEOUT_MS < age_ms then (last_response, g\<lparr>gs_time_valid := False\<rparr>, b)
                    else
                      let total_milliseconds = ucast (gs_time_milliseconds g) + age_ms
                      in (case checked_add (gs_time_unix_seconds g) (ucast (total_milliseconds div 1000)) of
                            None \<Rightarrow> (last_response, g\<lparr>gs_time_valid := False\<rparr>, b)
                          | Some unix_seconds \<Rightarrow>
                              let response = \<lparr>ctr_message = TxTimeResponse request_id TimeGnss unix_seconds
                                    (ucast (total_milliseconds mod 1000))\<rparr>
                              in (case try_send (can_tx_ops ops) response (bd_can_tx b) of (sent, q) \<Rightarrow>
                                    (if sent then Some (request_id, request_received_at_ms) else last_response,
                                     g, b\<lparr>bd_can_tx := q\<rparr>)))
           | _ \<Rightarrow> s)"

end
