(* ===== verification/GnssLines.thy ===== *)
theory GnssLines
  imports GnssTask
begin

section \<open>Lines and sentences\<close>

text \<open>
  The line assembler of the manager against a reference that splits the whole input.
\<close>

fun assemble :: "bytes \<Rightarrow> gnss_manager \<Rightarrow> bytes list \<times> gnss_manager" where
  "assemble [] m = ([], m)"
| "assemble (letter # letters) m =
     (case push_letter letter m of (sentence, m) \<Rightarrow>
        case assemble letters m of (sentences, m) \<Rightarrow>
          ((case sentence of None \<Rightarrow> sentences | Some sentence \<Rightarrow> sentence # sentences), m))"

text \<open>
  The reference: a line without its carriage returns, from its last dollar sign on, in a buffer
  of 90 bytes; a line without a dollar sign or too long for the buffer gives nothing.
\<close>

definition from_dollar :: "bytes \<Rightarrow> bytes option" where
  "from_dollar line =
     (if 0x24 \<in> set line then Some (0x24 # rev (takeWhile (\<lambda>b. b \<noteq> 0x24) (rev line))) else None)"

definition line_sentence :: "bytes \<Rightarrow> bytes option" where
  "line_sentence line =
     (case from_dollar (filter (\<lambda>b. b \<noteq> 0x0d) line) of
        None \<Rightarrow> None
      | Some sentence \<Rightarrow>
          if length sentence \<le> 90 then Some (sentence @ replicate (90 - length sentence) 0) else None)"

definition sentences_of :: "bytes \<Rightarrow> bytes list" where
  "sentences_of letters = List.map_filter line_sentence (butlast (split_on 0x0a letters))"

lemma from_dollar_snoc:
  "from_dollar [] = None" "from_dollar (line @ [0x24]) = Some [0x24]"
  "b \<noteq> 0x24 \<Longrightarrow> from_dollar (line @ [b]) = map_option (\<lambda>s. s @ [b]) (from_dollar line)"
  by (simp_all add: from_dollar_def)

lemma from_dollar_head: "from_dollar line = Some s \<Longrightarrow> s \<noteq> [] \<and> hd s = 0x24"
  by (auto simp: from_dollar_def split: if_splits)

text \<open>The buffer of the manager holds the line read so far.\<close>

definition holds_line :: "bytes \<Rightarrow> gnss_manager \<Rightarrow> bool" where
  "holds_line line m \<longleftrightarrow> length (gm_line_buf m) = 90 \<and> gm_line_length m \<le> 90 \<and>
     (case from_dollar (filter (\<lambda>b. b \<noteq> 0x0d) line) of
        None \<Rightarrow> gm_line_length m = 0 \<or> gm_line_buf m ! 0 \<noteq> 0x24
      | Some s \<Rightarrow> take (gm_line_length m) (gm_line_buf m) = take 90 s \<and> (gm_discard_line m \<longleftrightarrow> 90 < length s))"

lemma holds_line_new [simp]: "holds_line [] new_gnss_manager"
  by (simp add: holds_line_def new_gnss_manager_def from_dollar_snoc)

lemma held_length:
  assumes "take n buf = take k (s :: bytes)" "n \<le> k" "length buf = k"
  shows "n = min (length s) k"
proof -
  have "length (take n buf) = length (take k s)" by (simp only: assms(1))
  with assms(2,3) show ?thesis by simp
qed

lemma holds_line_letter:
  assumes "holds_line line m" "letter \<noteq> 0x0a"
  shows "fst (push_letter letter m) = None \<and> holds_line (line @ [letter]) (snd (push_letter letter m))"
proof -
  let ?s = "from_dollar (filter (\<lambda>b. b \<noteq> 0x0d) line)"
  consider (dollar) "letter = 0x24" | (return) "letter = 0x0d" | (other) "letter \<noteq> 0x24" "letter \<noteq> 0x0d" by blast
  then show ?thesis
  proof cases
    case dollar
    with assms show ?thesis
      by (cases "gm_line_buf m") (auto simp: holds_line_def push_letter_def from_dollar_snoc)
  next
    case return
    with assms show ?thesis by (simp add: holds_line_def push_letter_def)
  next
    case other
    show ?thesis
    proof (cases ?s)
      case None
      with assms other show ?thesis
        by (auto simp: holds_line_def push_letter_def from_dollar_snoc nth_list_update)
    next
      case (Some s)
      with assms have t: "take (gm_line_length m) (gm_line_buf m) = take 90 s" "gm_line_length m \<le> 90"
        "length (gm_line_buf m) = 90" by (simp_all add: holds_line_def)
      have "gm_line_length m = min (length s) 90" by (rule held_length [OF t])
      with Some assms other show ?thesis
        by (auto simp: holds_line_def push_letter_def from_dollar_snoc take_Suc_conv_app_nth min_def
            split: if_splits)
    qed
  qed
qed

lemma holds_line_end:
  assumes "holds_line line m"
  shows "fst (push_letter 0x0a m) = line_sentence line \<and> holds_line [] (snd (push_letter 0x0a m))"
proof (cases "from_dollar (filter (\<lambda>b. b \<noteq> 0x0d) line)")
  case None
  with assms show ?thesis by (auto simp: holds_line_def push_letter_def line_sentence_def from_dollar_snoc)
next
  case (Some s)
  with from_dollar_head have s: "s \<noteq> []" "hd s = 0x24" by blast+
  from Some assms have t: "take (gm_line_length m) (gm_line_buf m) = take 90 s" "gm_line_length m \<le> 90"
    "length (gm_line_buf m) = 90" by (simp_all add: holds_line_def)
  have n: "gm_line_length m = min (length s) 90" by (rule held_length [OF t])
  with t s have "gm_line_buf m ! 0 = 0x24" "0 < gm_line_length m"
    by (cases s; cases "gm_line_buf m"; auto simp: min_def split: if_splits)+
  with Some assms n t show ?thesis
    by (auto simp: holds_line_def push_letter_def line_sentence_def from_dollar_snoc copy_into_def)
qed

lemma assemble_lines:
  "holds_line line m \<Longrightarrow> 0x0a \<notin> set line \<Longrightarrow>
   fst (assemble letters m) = List.map_filter line_sentence (butlast (split_on 0x0a (line @ letters)))"
proof (induction letters arbitrary: line m)
  case Nil
  then show ?case by (simp add: split_on_plain map_filter_simps)
next
  case (Cons letter letters)
  show ?case
  proof (cases "letter = 0x0a")
    case True
    from holds_line_end [OF Cons.prems(1)] have push: "fst (push_letter letter m) = line_sentence line"
      "holds_line [] (snd (push_letter letter m))" using True by simp_all
    have "split_on 0x0a (line @ letter # letters) = line # split_on 0x0a letters"
      using Cons.prems(2) True by (simp add: split_on_append)
    with Cons.IH [OF push(2)] push(1) split_on_nonempty [of "0x0a" letters] show ?thesis
      by (auto simp: split_beta map_filter_simps split: option.splits)
  next
    case False
    from holds_line_letter [OF Cons.prems(1) this] Cons.IH [of "line @ [letter]"] Cons.prems(2) False
    show ?thesis by (auto simp: split_beta split: option.splits)
  qed
qed

text \<open>What a run of \<open>read_letters\<close> offers to the channel, with the parser not running.\<close>

lemma read_letters_offers:
  assumes chan: "fifo_channel ops contents capacity"
  defines "room g \<equiv> capacity (gs_channel g) - length (contents (gs_channel g))"
  assumes "length (contents (gs_channel g)) \<le> capacity (gs_channel g)"
  shows "case read_letters ops letters (m, g) of (m', g') \<Rightarrow>
    m' = snd (assemble (map fst letters) m) \<and>
    contents (gs_channel g') = contents (gs_channel g) @ take (room g) (fst (assemble (map fst letters) m)) \<and>
    gs_channel_drop_count g' = gs_channel_drop_count g + of_nat (length (fst (assemble (map fst letters) m)) - room g)"
  using assms(3)
proof (induction letters arbitrary: m g)
  case Nil
  then show ?case by (simp add: read_letters_def)
next
  case (Cons letter letters)
  obtain b now_ms where letter: "letter = (b, now_ms)" by (cases letter)
  obtain sentence m1 where push: "push_letter b m = (sentence, m1)" by (metis surj_pair)
  obtain ss m2 where rest: "assemble (map fst letters) m1 = (ss, m2)" by (metis surj_pair)
  define g1 where "g1 = (case sentence of None \<Rightarrow> g | Some x \<Rightarrow> sentence_received ops now_ms x g)"
  have step: "read_letters ops (letter # letters) (m, g) = read_letters ops letters (m1, g1)"
    by (simp add: read_letters_def letter push g1_def)
  have g1: "contents (gs_channel g1) = contents (gs_channel g) @ take (room g) (case sentence of None \<Rightarrow> [] | Some x \<Rightarrow> [x])"
    "capacity (gs_channel g1) = capacity (gs_channel g)"
    "gs_channel_drop_count g1 = gs_channel_drop_count g + (if sentence = None \<or> 0 < room g then 0 else 1)"
    using Cons.prems
    by (auto simp: g1_def sentence_received_def room_def Let_def split_beta fifo_channel.laws [OF chan]
        split: option.splits)
  have "length (contents (gs_channel g1)) \<le> capacity (gs_channel g1)"
    using g1 Cons.prems by (auto simp: room_def split: option.splits)
  note IH = Cons.IH [OF this, of m1]
  have room: "room g1 = room g - (if sentence = None then 0 else 1)"
    using g1 Cons.prems by (auto simp: room_def split: option.splits)
  show ?case
    unfolding step using IH rest push letter g1 room
    by (cases sentence; cases "room g") (auto simp: split_beta take_Cons')
qed

text \<open>
  C38. The manager assembles the lines of the receiver: whatever the UART delivers, noise and
  interrupted lines included, the sentences passed on are exactly those of the reference, which
  splits the input at line feeds and takes, of each complete line, the bytes from the last dollar
  sign on without carriage returns, if they fit the 90-byte buffer. As long as nobody empties the
  channel it takes them in order up to its capacity and counts each one it could not take.
\<close>

theorem lines_assembled:
  assumes "fifo_channel ops contents capacity" and "gs_channel g = q" and "contents q = []"
    and "read_letters ops letters (new_gnss_manager, g) = (m', g')"
  shows "contents (gs_channel g') = take (capacity q) (sentences_of (map fst letters)) \<and>
    gs_channel_drop_count g' = gs_channel_drop_count g +
      of_nat (length (sentences_of (map fst letters)) - capacity q)"
  using read_letters_offers [OF assms(1), of g letters new_gnss_manager] assms(2-)
    assemble_lines [OF holds_line_new, of "map fst letters"]
  by (simp add: sentences_of_def)

definition demo_uart :: bytes where
  "demo_uart = [0x58, 0x24, 0x47, 0x24, 0x47, 0x50, 0x0d, 0x0a, 0x41, 0x0a, 0x24, 0x42, 0x0a, 0x24]"

lemma lines_assembled_witness:
  "snd (gs_channel (snd (read_letters list_channel (map (\<lambda>b. (b, 5)) demo_uart)
     (new_gnss_manager, initial_gnss (5, []))))) =
   [[0x24, 0x47, 0x50] @ replicate 87 0, [0x24, 0x42] @ replicate 88 0]"
proof -
  have "sentences_of demo_uart = [[0x24, 0x47, 0x50] @ replicate 87 0, [0x24, 0x42] @ replicate 88 0]"
    by code_simp
  moreover have "map fst (map (\<lambda>b. (b, 5 :: u64)) demo_uart) = demo_uart" by (simp add: comp_def)
  moreover obtain m' g' where run: "read_letters list_channel (map (\<lambda>b. (b, 5)) demo_uart)
     (new_gnss_manager, initial_gnss (5, [])) = (m', g')" by (metis surj_pair)
  ultimately show ?thesis
    using lines_assembled [OF list_channel_fifo refl _ run] by (simp add: initial_gnss_def)
qed

end
