(* ===== verification/GnssState.thy ===== *)
theory GnssState
  imports GnssTask
begin

section \<open>The telemetry of the receiver\<close>

text \<open>
  The tasks as a step relation, and what the telemetry shows in every reachable state.
\<close>

lemma drain_empties:
  assumes chan: "fifo_channel ops contents capacity"
  shows "\<exists>q'. drain ops q = Some q' \<and> contents q' = [] \<and> capacity q' = capacity q"
proof (induction "length (contents q)" arbitrary: q)
  case 0
  obtain item q1 where r: "try_receive ops q = (item, q1)" by (metis surj_pair)
  with 0 fifo_channel.laws(4-6) [OF chan, of q] show ?case
    by (subst drain.simps) (simp add: r)
next
  case (Suc n)
  obtain item q1 where r: "try_receive ops q = (item, q1)" by (metis surj_pair)
  with Suc(2) fifo_channel.laws(4-6) [OF chan, of q]
  obtain e where "item = Some e" "contents q1 = tl (contents q)" "capacity q1 = capacity q"
    by (cases "contents q") auto
  with Suc(1) [of q1] Suc(2) r show ?case by (subst drain.simps) simp
qed

text \<open>
  Switching off ends. Whatever sentences wait in the channel, the loop that discards them
  terminates, the channel is empty afterwards, and the board shows the receiver as off, its time
  as invalid and its position as unavailable.
\<close>

theorem turn_off_ends:
  assumes "fifo_channel ops contents capacity"
  shows "\<exists>m' g'. turn_off ops (m, g) = Some (m', g') \<and> contents (gs_channel g') = [] \<and>
    \<not> gm_is_on m' \<and> \<not> gs_time_valid g' \<and> gt_state (gs_telemetry g') = GnssOff \<and>
    gt_east (gs_telemetry g') = 0x8000 \<and> gt_north (gs_telemetry g') = 0x8000 \<and> gt_height (gs_telemetry g') = 496"
proof -
  obtain q' where "drain ops (gs_channel g) = Some q'" "contents q' = []"
    using drain_empties [OF assms] by blast
  then show ?thesis
    by (simp add: turn_off_def GNSS_COORDINATE_UNAVAILABLE_def GNSS_HEIGHT_UNAVAILABLE_def)
qed

lemma turn_off_ends_witness:
  "\<exists>m' g'. turn_off list_channel (new_gnss_manager, initial_gnss (5, [[0x24], [0x42]])) = Some (m', g') \<and>
     snd (gs_channel g') = []"
  using turn_off_ends [OF list_channel_fifo, of new_gnss_manager "initial_gnss (5, [[0x24], [0x42]])"] by blast

inductive gnss_step ::
  "('d, 'f) float_ops \<Rightarrow> (bytes, 's) channel_ops \<Rightarrow> gnss_phase \<times> gnss_manager \<times> 's gnss_statics \<Rightarrow>
   gnss_phase \<times> gnss_manager \<times> 's gnss_statics \<Rightarrow> bool"
  for fl ops where
  reads: "gnss_step fl ops (Serving, s) (Serving, read_letters ops letters s)"
| read_fails: "gnss_step fl ops (Serving, m, g) (Serving, m, count_rx_error g)"
| turns_on: "gnss_step fl ops (Serving, s) (turn_on baud_applied now_ms s)"
| startup_fails: "gnss_step fl ops (StartingUp, m, g) (StartingUp, m, count_rx_error g)"
| startup_ends: "gnss_step fl ops (StartingUp, m, g) (Configuring, startup_over m, g)"
| configures: "gnss_setting (events :: (nat, nat) uart_event list) = Some (result, out, rest) \<Longrightarrow>
    gnss_step fl ops (Configuring, s) (configured result now_ms s)"
| settles: "gnss_step fl ops (SettlingBaud, s) (baud_settled baud_applied now_ms s)"
| turns_off: "turn_off ops s = Some s' \<Longrightarrow> gnss_step fl ops (Serving, s) (Serving, s')"
| parses: "try_receive ops (gs_channel g) = (Some sentence, q) \<Longrightarrow>
    gnss_step fl ops (p, m, g) (p, m, parse_sentence fl sentence now_ms (g\<lparr>gs_channel := q\<rparr>))"
| ticks: "gnss_step fl ops (p, m, g) (p, m, stale_tick now_ms g)"

text \<open>The codes of the states that show no position.\<close>

fun state_code :: "gnss_receiver_state \<Rightarrow> (u16 \<times> u16) option" where
  "state_code GnssOff = Some (GNSS_COORDINATE_UNAVAILABLE, GNSS_HEIGHT_UNAVAILABLE)"
| "state_code GnssNoFix = Some (GNSS_COORDINATE_NO_FIX, GNSS_HEIGHT_NO_FIX)"
| "state_code GnssStale = Some (GNSS_COORDINATE_STALE, GNSS_HEIGHT_STALE)"
| "state_code GnssInvalidSample = Some (GNSS_COORDINATE_INVALID, GNSS_HEIGHT_INVALID)"
| "state_code GnssReceiverError = Some (GNSS_COORDINATE_RECEIVER_ERROR, GNSS_HEIGHT_RECEIVER_ERROR)"
| "state_code GnssConfigurationFailed = Some (GNSS_COORDINATE_RECEIVER_ERROR, GNSS_HEIGHT_RECEIVER_ERROR)"
| "state_code _ = None"

definition shows_code :: "gnss_telemetry \<Rightarrow> u16 \<times> u16 \<Rightarrow> bool" where
  "shows_code t code \<longleftrightarrow> gt_east t = fst code \<and> gt_north t = fst code \<and> gt_height t = snd code"

definition shows_position :: "gnss_telemetry \<Rightarrow> bool" where
  "shows_position t \<longleftrightarrow>
     (\<forall>c \<in> {gt_east t, gt_north t}. reserved_coordinate c \<longrightarrow> c = GNSS_COORDINATE_OUT_OF_RANGE) \<and>
     (gt_height t \<le> 495 \<or> gt_height t \<in> {GNSS_HEIGHT_OUT_OF_RANGE, GNSS_HEIGHT_INVALID})"

definition telemetry_coded :: "gnss_telemetry \<Rightarrow> bool" where
  "telemetry_coded t \<longleftrightarrow>
     (if gt_state t = GnssValidFix then shows_position t
      else case state_code (gt_state t) of
             Some code \<Rightarrow> shows_code t code
           | None \<Rightarrow> \<exists>state code. state_code state = Some code \<and> shows_code t code)"

definition gnss_inv :: "gnss_phase \<times> gnss_manager \<times> 's gnss_statics \<Rightarrow> bool" where
  "gnss_inv s = (case s of (p, m, g) \<Rightarrow>
     telemetry_coded (gs_telemetry g) \<and> (p \<noteq> Serving \<longrightarrow> \<not> gm_is_on m) \<and>
     (p = Serving \<and> \<not> gm_is_on m \<longrightarrow> gt_state (gs_telemetry g) \<in> {GnssOff, GnssConfigurationFailed}))"

lemma coded_state: "state_code (gt_state t) = Some code \<Longrightarrow> shows_code t code \<Longrightarrow> telemetry_coded t"
  by (cases "gt_state t") (auto simp: telemetry_coded_def)

lemma coded_with:
  assumes "state_code state = Some (c, h)"
  shows "telemetry_coded (t\<lparr>gt_state := state, gt_east := c, gt_north := c, gt_height := h\<rparr>)"
  by (rule coded_state [of _ "(c, h)"]) (simp_all add: shows_code_def assms)

lemma coded_waiting:
  assumes "telemetry_coded t" "gt_state t \<noteq> GnssValidFix" "gt_state u \<in> {GnssStarting, GnssReceiverDetected}"
    "gt_east u = gt_east t" "gt_north u = gt_north t" "gt_height u = gt_height t"
  shows "telemetry_coded u"
  using assms by (auto simp: telemetry_coded_def shows_code_def split: option.splits)

lemma coded_same:
  assumes "telemetry_coded t" "gt_state u = gt_state t"
    "gt_east u = gt_east t" "gt_north u = gt_north t" "gt_height u = gt_height t"
  shows "telemetry_coded u"
proof -
  have "shows_code u = shows_code t" "shows_position u = shows_position t"
    using assms(3-) by (simp_all add: fun_eq_iff shows_code_def shows_position_def)
  with assms show ?thesis by (cases "state_code (gt_state t)") (auto simp: telemetry_coded_def)
qed

lemma coded_received:
  assumes "telemetry_coded (gs_telemetry g)"
  shows "telemetry_coded (gs_telemetry (sentence_received ops now_ms sentence g)) \<and>
    (gt_state (gs_telemetry g) \<in> {GnssOff, GnssConfigurationFailed} \<longrightarrow>
       gt_state (gs_telemetry (sentence_received ops now_ms sentence g)) = gt_state (gs_telemetry g))"
proof -
  let ?t = "gs_telemetry g"
  let ?u = "?t\<lparr>gt_last_receiver_at_ms := Some now_ms\<rparr>"
  let ?d = "?u\<lparr>gt_state := GnssReceiverDetected\<rparr>"
  have "telemetry_coded ?u" using assms by (rule coded_same) simp_all
  moreover have "telemetry_coded ?d" if "gt_state ?t \<in> {GnssStarting, GnssReceiverError}"
    by (rule coded_waiting [OF assms]) (use that in auto)
  ultimately show ?thesis
    by (auto simp: sentence_received_def Let_def split_beta)
qed

lemma coded_letters:
  "telemetry_coded (gs_telemetry g) \<Longrightarrow>
   (case read_letters ops letters (m, g) of (m', g') \<Rightarrow>
      telemetry_coded (gs_telemetry g') \<and> gm_is_on m' = gm_is_on m \<and>
      (gt_state (gs_telemetry g) \<in> {GnssOff, GnssConfigurationFailed} \<longrightarrow>
         gt_state (gs_telemetry g') = gt_state (gs_telemetry g)))"
proof (induction letters arbitrary: m g)
  case Nil
  then show ?case by (simp add: read_letters_def)
next
  case (Cons letter letters)
  obtain b now_ms where letter: "letter = (b, now_ms)" by (cases letter)
  obtain sentence m1 where push: "push_letter b m = (sentence, m1)" by (metis surj_pair)
  have on: "gm_is_on m1 = gm_is_on m" using push by (auto simp: push_letter_def split: if_splits)
  define g1 where "g1 = (case sentence of None \<Rightarrow> g | Some x \<Rightarrow> sentence_received ops now_ms x g)"
  have step: "read_letters ops (letter # letters) (m, g) = read_letters ops letters (m1, g1)"
    by (simp add: read_letters_def letter push g1_def)
  have "telemetry_coded (gs_telemetry g1) \<and> (gt_state (gs_telemetry g) \<in> {GnssOff, GnssConfigurationFailed} \<longrightarrow>
       gt_state (gs_telemetry g1) = gt_state (gs_telemetry g))"
    using coded_received [OF Cons.prems] Cons.prems by (auto simp: g1_def split: option.splits)
  with Cons.IH [of g1 m1] on show ?case unfolding step by (auto simp: split_beta)
qed

lemma coded_failed: "telemetry_coded (gs_telemetry (configuration_failed now_ms g)) \<and>
    gt_state (gs_telemetry (configuration_failed now_ms g)) = GnssConfigurationFailed"
proof
  show "gt_state (gs_telemetry (configuration_failed now_ms g)) = GnssConfigurationFailed"
    by (simp add: configuration_failed_def set_receiver_state_def)
  then show "telemetry_coded (gs_telemetry (configuration_failed now_ms g))"
    by (intro coded_state [of _ "(GNSS_COORDINATE_RECEIVER_ERROR, GNSS_HEIGHT_RECEIVER_ERROR)"])
      (simp_all add: configuration_failed_def set_receiver_state_def shows_code_def)
qed

lemma coded_starting:
  assumes "telemetry_coded (gs_telemetry g)" "gt_state (gs_telemetry g) \<noteq> GnssValidFix"
  shows "telemetry_coded (gs_telemetry (set_receiver_state GnssStarting now_ms g))"
  by (rule coded_waiting [OF assms]) (simp_all add: set_receiver_state_def)

lemma encoded_position_shown: "gt_state t = GnssValidFix \<Longrightarrow> gt_east t = encode_coordinate e \<Longrightarrow>
   gt_north t = encode_coordinate n \<Longrightarrow> gt_height t = encode_height fl h \<Longrightarrow> telemetry_coded t"
  using coordinate_code [of e] coordinate_code [of n] height_code [of fl h]
  by (auto simp: telemetry_coded_def shows_position_def split: if_splits)

lemma coded_position: "telemetry_coded (store_position fl parsed now_ms t)"
proof (cases "gt_state (store_position fl parsed now_ms t) = GnssValidFix")
  case True
  then obtain latitude longitude altitude where
    "store_position fl parsed now_ms t =
      (let encoded = encode_position fl latitude longitude altitude
       in t\<lparr>gt_state := GnssValidFix, gt_east := ep_east encoded, gt_north := ep_north encoded,
            gt_height := ep_height encoded, gt_last_fix_at_ms := Some now_ms\<rparr>)"
    by (auto simp: store_position_def split: sum.splits option.splits if_splits)
  then show ?thesis by (auto simp: encode_position_def Let_def intro: encoded_position_shown)
next
  case False
  then show ?thesis
    using coded_with [of GnssInvalidSample _ _ t, OF state_code.simps(4)]
      coded_with [of GnssNoFix _ _ t, OF state_code.simps(2)]
    by (auto simp: store_position_def Let_def split: sum.splits option.splits if_splits)
qed

lemma coded_stale:
  assumes "telemetry_coded t"
  shows "telemetry_coded (stale_telemetry now_ms t) \<and>
    (gt_state t \<in> {GnssOff, GnssConfigurationFailed} \<longrightarrow> stale_telemetry now_ms t = t)"
proof -
  note coded_with [of GnssStale _ _ t, OF state_code.simps(3)]
  moreover note coded_with [of GnssReceiverError _ _ t, OF state_code.simps(5)]
  ultimately show ?thesis
    using assms by (cases "gt_state t") (auto simp: stale_telemetry_def Let_def split: option.splits)
qed

lemma coded_parse:
  assumes "telemetry_coded (gs_telemetry g)"
  shows "telemetry_coded (gs_telemetry (parse_sentence fl sentence now_ms g)) \<and>
    (gt_state (gs_telemetry g) \<in> {GnssOff, GnssConfigurationFailed} \<longrightarrow>
       gs_telemetry (parse_sentence fl sentence now_ms g) = gs_telemetry g)"
  using assms coded_position
  by (auto simp: parse_sentence_def ignores_sentences_def store_time_def split: sum.splits)

lemma gnss_inv_step:
  assumes "gnss_step fl ops s s'" "gnss_inv s"
  shows "gnss_inv s'"
  using assms
proof (induction rule: gnss_step.induct)
  case (reads s letters)
  obtain m g where s: "s = (m, g)" by (cases s)
  from reads coded_letters [where g = g and ops = ops and letters = letters and m = m] show ?case
    by (auto simp: s gnss_inv_def split: prod.splits)
next
  case (turns_on s baud_applied now_ms)
  obtain m g where s: "s = (m, g)" by (cases s)
  let ?g = "g\<lparr>gs_time_valid := False\<rparr>"
  have "telemetry_coded (gs_telemetry (set_receiver_state GnssStarting now_ms ?g))" if "\<not> gm_is_on m"
    using turns_on that by (intro coded_starting) (auto simp: s gnss_inv_def)
  with turns_on coded_failed show ?case by (auto simp: s gnss_inv_def turn_on_def Let_def)
next
  case (configures events result out rest s now_ms)
  obtain m g where s: "s = (m, g)" by (cases s)
  with configures coded_failed show ?case
    by (auto simp: gnss_inv_def configured_def split: sum.splits)
next
  case (settles s baud_applied now_ms)
  obtain m g where s: "s = (m, g)" by (cases s)
  with settles coded_failed show ?case by (auto simp: gnss_inv_def baud_settled_def)
next
  case (turns_off s s')
  obtain m g where s: "s = (m, g)" by (cases s)
  with turns_off(1) have "gt_state (gs_telemetry (snd s')) = GnssOff \<and>
      shows_code (gs_telemetry (snd s')) (GNSS_COORDINATE_UNAVAILABLE, GNSS_HEIGHT_UNAVAILABLE)"
    by (auto simp: turn_off_def Let_def shows_code_def)
  then show ?case by (auto simp: gnss_inv_def intro: coded_state split: prod.splits)
next
  case (parses g sentence q p m now_ms)
  with coded_parse [of "g\<lparr>gs_channel := q\<rparr>" fl sentence now_ms] show ?case
    by (auto simp: gnss_inv_def)
next
  case (ticks p m g now_ms)
  with coded_stale [of "gs_telemetry g" now_ms] show ?case
    by (auto simp: gnss_inv_def stale_tick_def Let_def)
qed (auto simp: gnss_inv_def count_rx_error_def startup_over_def)

lemma gnss_inv_reachable:
  assumes "(gnss_step fl ops)\<^sup>*\<^sup>* (Serving, new_gnss_manager, initial_gnss q) s"
  shows "gnss_inv s"
  using assms
proof (induction rule: rtranclp_induct)
  case base
  have "shows_code new_gnss_telemetry (GNSS_COORDINATE_UNAVAILABLE, GNSS_HEIGHT_UNAVAILABLE)"
    by (simp add: shows_code_def new_gnss_telemetry_def gnss_codes)
  then have "telemetry_coded new_gnss_telemetry"
    by (intro coded_state) (simp_all add: new_gnss_telemetry_def)
  then show ?case
    by (simp add: gnss_inv_def initial_gnss_def new_gnss_manager_def) (simp add: new_gnss_telemetry_def)
qed (rule gnss_inv_step)

text \<open>
  C39. The telemetry never passes a code off as a position. In every reachable state of the GNSS
  tasks, however their steps interleave and whatever the receiver sends, a state without a
  position shows exactly the codes of that state (receiver starting or just detected: those of
  some such state), and only the state ValidFix shows coordinates and a height, each within its
  range or out-of-range. A manager that is not switched on and not switching on shows the receiver
  as off or its configuration as failed.
\<close>

theorem telemetry_always_coded:
  assumes "(gnss_step fl ops)\<^sup>*\<^sup>* (Serving, new_gnss_manager, initial_gnss q) (p, m, g)"
  shows "telemetry_coded (gs_telemetry g) \<and>
    (p = Serving \<and> \<not> gm_is_on m \<longrightarrow> gt_state (gs_telemetry g) \<in> {GnssOff, GnssConfigurationFailed})"
  using gnss_inv_reachable [OF assms] by (simp add: gnss_inv_def)

text \<open>
  A run of the receiver: it is switched on, configured and delivers a position. The floating
  point numbers of the run are fixed point numbers with six decimals.
\<close>

definition fixed_digits :: "bytes \<Rightarrow> int option" where
  "fixed_digits field =
     (if field \<noteq> [] \<and> list_all is_ascii_digit field
      then Some (fold (\<lambda>b n. 10 * n + (uint b - 48)) field 0) else None)"

definition fixed_parse :: "bytes \<Rightarrow> int option" where
  "fixed_parse field =
     (case split_on 0x2e field of
        [whole] \<Rightarrow> map_option (\<lambda>n. n * 1000000) (fixed_digits whole)
      | [whole, fraction] \<Rightarrow>
          Option.bind (fixed_digits whole) (\<lambda>n.
            map_option (\<lambda>d. n * 1000000 + d) (fixed_digits (take 6 (fraction @ replicate 6 0x30))))
      | _ \<Rightarrow> None)"

definition fixed_ops :: "(int, int) float_ops" where
  "fixed_ops = \<lparr>f64_parse = fixed_parse, f64_lit = (\<lambda>m k. m * 10 ^ (6 - k)),
     f64_of_i32 = (\<lambda>v. sint v * 1000000), f64_to_i32 = (\<lambda>v. word_of_int (v div 1000000)),
     f64_add = (+), f64_sub = (-), f64_mul = (\<lambda>a b. a * b div 1000000),
     f64_div = (\<lambda>a b. a * 1000000 div b), f64_neg = uminus,
     f64_less = (<), f64_less_eq = (\<le>), f64_equal = (=),
     f32_parse = fixed_parse, f32_lit = (\<lambda>m k. m * 10 ^ (6 - k)),
     f32_to_i32 = (\<lambda>v. word_of_int (v div 1000000)), f32_add = (+), f32_sub = (-),
     f32_mul = (\<lambda>a b. a * b div 1000000), f32_div = (\<lambda>a b. a * 1000000 div b),
     f32_less = (<), f32_less_eq = (\<le>), f32_is_finite = (\<lambda>_. True)\<rparr>"

datatype gnss_move =
  SwitchOn | EndStartup | Configure "(nat, nat) uart_event list" | Settle | Read bytes | Parse

fun replay ::
  "gnss_move list \<Rightarrow> gnss_phase \<times> gnss_manager \<times> (nat \<times> bytes list) gnss_statics \<Rightarrow>
   (gnss_phase \<times> gnss_manager \<times> (nat \<times> bytes list) gnss_statics) option" where
  "replay [] s = Some s"
| "replay (SwitchOn # moves) (p, s) = (if p = Serving then replay moves (turn_on True 100 s) else None)"
| "replay (EndStartup # moves) (p, m, g) =
     (if p = StartingUp then replay moves (Configuring, startup_over m, g) else None)"
| "replay (Configure events # moves) (p, s) =
     (if p = Configuring
      then (case gnss_setting events of None \<Rightarrow> None | Some (result, _, _) \<Rightarrow> replay moves (configured result 900 s))
      else None)"
| "replay (Settle # moves) (p, s) = (if p = SettlingBaud then replay moves (baud_settled True 950 s) else None)"
| "replay (Read bytes # moves) (p, s) =
     (if p = Serving then replay moves (Serving, read_letters list_channel (map (\<lambda>b. (b, 1000)) bytes) s) else None)"
| "replay (Parse # moves) (p, m, g) =
     (case try_receive list_channel (gs_channel g) of
        (None, _) \<Rightarrow> None
      | (Some sentence, q) \<Rightarrow> replay moves (p, m, parse_sentence fixed_ops sentence 1010 (g\<lparr>gs_channel := q\<rparr>)))"

lemma replay_steps:
  "replay moves s = Some s' \<Longrightarrow> (gnss_step fixed_ops list_channel)\<^sup>*\<^sup>* s s'"
proof (induction moves s rule: replay.induct)
  case (2 moves p s)
  then show ?case
    by (auto intro: converse_rtranclp_into_rtranclp gnss_step.turns_on split: if_splits)
next
  case (3 moves p m g)
  then show ?case
    by (auto intro: converse_rtranclp_into_rtranclp gnss_step.startup_ends split: if_splits)
next
  case (4 events moves p s)
  then obtain result out rest where "p = Configuring" "gnss_setting events = Some (result, out, rest)"
    "replay moves (configured result 900 s) = Some s'" by (auto split: if_splits option.splits)
  with 4(1) gnss_step.configures [of events result out rest fixed_ops list_channel s 900] show ?case
    by (auto intro: converse_rtranclp_into_rtranclp)
next
  case (5 moves p s)
  then show ?case
    by (auto intro: converse_rtranclp_into_rtranclp gnss_step.settles split: if_splits)
next
  case (6 bytes moves p s)
  then show ?case
    by (auto intro: converse_rtranclp_into_rtranclp gnss_step.reads split: if_splits)
next
  case (7 moves p m g)
  then show ?case
    by (auto intro: converse_rtranclp_into_rtranclp gnss_step.parses split: option.splits prod.splits)
qed simp

definition demo_gga :: bytes where
  "demo_gga = [0x24, 0x47, 0x50, 0x47, 0x47, 0x41, 0x2c, 0x31, 0x32, 0x33, 0x35, 0x31, 0x39, 0x2c, 0x34, 0x30,
     0x31, 0x34, 0x2e, 0x35, 0x37, 0x32, 0x2c, 0x4e, 0x2c, 0x31, 0x34, 0x30, 0x30, 0x30, 0x2e, 0x36,
     0x32, 0x37, 0x2c, 0x45, 0x2c, 0x31, 0x2c, 0x30, 0x38, 0x2c, 0x30, 0x2e, 0x39, 0x2c, 0x31, 0x30,
     0x30, 0x2e, 0x30, 0x2c, 0x4d, 0x2c, 0x2c, 0x2c, 0x2c, 0x2a, 0x31, 0x42, 0x0d, 0x0a]"

definition demo_fix :: "gnss_move list" where
  "demo_fix = [SwitchOn, EndStartup, Configure demo_accepting, Settle, Read demo_gga, Parse]"

lemma demo_fix_run:
  "case replay demo_fix (Serving, new_gnss_manager, initial_gnss (5, [])) of
     None \<Rightarrow> False
   | Some (p, m, g) \<Rightarrow> gt_state (gs_telemetry g) = GnssValidFix \<and> gt_height (gs_telemetry g) = 40"
  by code_simp

lemma telemetry_always_coded_witness:
  "\<exists>p m g. (gnss_step fixed_ops list_channel)\<^sup>*\<^sup>* (Serving, new_gnss_manager, initial_gnss (5, [])) (p, m, g) \<and>
     gt_state (gs_telemetry g) = GnssValidFix \<and> gt_height (gs_telemetry g) = 40 \<and> shows_position (gs_telemetry g)"
proof -
  obtain p m g where run: "replay demo_fix (Serving, new_gnss_manager, initial_gnss (5, [])) = Some (p, m, g)"
    "gt_state (gs_telemetry g) = GnssValidFix" "gt_height (gs_telemetry g) = 40"
    using demo_fix_run by (auto split: option.splits)
  note steps = replay_steps [OF run(1)]
  from telemetry_always_coded [OF steps] run(2,3) steps show ?thesis
    by (auto simp: telemetry_coded_def)
qed

end
