(* ===== verification/GnssClock.thy ===== *)
theory GnssClock
  imports GnssTask
begin

section \<open>Time responses\<close>

text \<open>
  When and with which time the requests of the Mission board are answered.
\<close>

text \<open>Whether a tick answers: a request not answered yet, a valid time of at most 3 s, and room.\<close>

definition answer_due ::
  "('c \<Rightarrow> can_tx_request list) \<Rightarrow> ('c \<Rightarrow> nat) \<Rightarrow> u64 \<Rightarrow> (u8 \<times> u64) option \<Rightarrow> 's gnss_statics \<Rightarrow>
   ('l, 'c, 'r, 'g) board \<Rightarrow> bool" where
  "answer_due contents capacity now_ms last_response g b \<longleftrightarrow>
     (let cached = cc_time_request (bd_cache b); age = unat now_ms - unat (gs_time_updated_at_ms g)
      in lt_value cached \<noteq> None \<and> last_response \<noteq> Some (the (lt_value cached), lt_received_at_ms cached) \<and>
         gs_time_valid g \<and> age \<le> 3000 \<and>
         unat (gs_time_unix_seconds g) + (unat (gs_time_milliseconds g) + age) div 1000 < 2 ^ 32 \<and>
         length (contents (bd_can_tx b)) < capacity (bd_can_tx b))"

lemma unat_wider: "unat (ucast (w :: u32) :: u64) = unat w" "unat (ucast (v :: u16) :: u64) = unat v"
proof -
  have "unat w < 2 ^ 64" by (rule order_less_le_trans [OF unat_below]) simp
  moreover have "unat v < 2 ^ 64" by (rule order_less_le_trans [OF unat_below]) simp
  ultimately show "unat (ucast w :: u64) = unat w" "unat (ucast v :: u64) = unat v"
    by (simp_all add: unsigned_ucast_eq take_bit_nat_eq_self [where n = 64])
qed

text \<open>
  A time request is answered once and exactly. A tick answers the cached request if it has
  not been answered, the time is valid and at most 3 s old, the sum fits and there is room; then
  one TimeResponse of that request enters the CAN queue, and its time is the stored time plus the
  age, to the millisecond, with the milliseconds below 1000. In every other case nothing is sent
  and the request stays unanswered.
\<close>

theorem time_response_exact:
  assumes chan: "fifo_channel (can_tx_ops ops) contents capacity"
    and tick: "time_response_tick ops now_ms (last_response, g, b) = (last', g', b')"
  defines "due_ms \<equiv> 1000 * unat (gs_time_unix_seconds g) + unat (gs_time_milliseconds g) +
      (unat now_ms - unat (gs_time_updated_at_ms g))"
  shows "if answer_due contents capacity now_ms last_response g b
    then \<exists>request_id seconds ms. lt_value (cc_time_request (bd_cache b)) = Some request_id \<and>
        contents (bd_can_tx b') = contents (bd_can_tx b) @ [\<lparr>ctr_message = TxTimeResponse request_id TimeGnss seconds ms\<rparr>] \<and>
        1000 * unat seconds + unat ms = due_ms \<and> unat ms < 1000 \<and>
        last' = Some (request_id, lt_received_at_ms (cc_time_request (bd_cache b)))
    else contents (bd_can_tx b') = contents (bd_can_tx b) \<and> last' = last_response"
proof -
  let ?cached = "cc_time_request (bd_cache b)"
  let ?age = "saturating_sub now_ms (ucast (gs_time_updated_at_ms g))"
  let ?total = "ucast (gs_time_milliseconds g) + ?age"
  have age: "unat ?age = unat now_ms - unat (gs_time_updated_at_ms g)"
    by (simp add: unat_saturating_sub unat_wider)
  show ?thesis
  proof (cases "lt_value ?cached \<noteq> None \<and> last_response \<noteq> Some (the (lt_value ?cached), lt_received_at_ms ?cached) \<and>
      gs_time_valid g \<and> unat ?age \<le> 3000")
    case False
    then have "b' = b \<and> last' = last_response"
      using tick by (auto simp: time_response_tick_def Let_def received_at_ms_def GNSS_STALE_TIMEOUT_MS_def
          word_less_nat_alt split: option.splits if_splits)
    moreover have "\<not> answer_due contents capacity now_ms last_response g b"
      using False age by (auto simp: answer_due_def Let_def)
    ultimately show ?thesis by simp
  next
    case True
    then obtain request_id where request: "lt_value ?cached = Some request_id" by auto
    have ms: "unat (gs_time_milliseconds g) < 65536" using unsigned_less [of "gs_time_milliseconds g"] by simp
    have bound: "unat (gs_time_milliseconds g) + unat ?age < 68537" using ms True by linarith
    then have "unat (gs_time_milliseconds g) + unat ?age < 2 ^ 64" by (rule order_less_le_trans) simp
    then have sum: "unat ?total = unat (gs_time_milliseconds g) + unat ?age"
      by (subst unat_add_no_overflow) (simp_all add: unat_wider)
    have "(unat (gs_time_milliseconds g) + unat ?age) div 1000 < 2 ^ 32"
      by (rule order_le_less_trans [OF div_le_dividend]) (rule order_less_le_trans [OF bound], simp)
    note small = take_bit_nat_eq_self [OF this]
    let ?seconds = "checked_add (gs_time_unix_seconds g) (ucast (?total div 1000))"
    have parts: "unat (ucast (?total div 1000) :: u32) = unat ?total div 1000"
      "unat (ucast (?total mod 1000) :: u16) = unat ?total mod 1000"
      using sum small
      by (simp_all add: unsigned_ucast_eq take_bit_nat_eq_self unat_div unat_mod)
    have step: "(last', g', b') =
      (case ?seconds of
         None \<Rightarrow> (last_response, g\<lparr>gs_time_valid := False\<rparr>, b)
       | Some seconds \<Rightarrow>
           let response = \<lparr>ctr_message = TxTimeResponse request_id TimeGnss seconds (ucast (?total mod 1000))\<rparr>;
               (sent, q) = try_send (can_tx_ops ops) response (bd_can_tx b)
           in (if sent then Some (request_id, lt_received_at_ms ?cached) else last_response, g, b\<lparr>bd_can_tx := q\<rparr>))"
      using tick True request
      by (simp add: time_response_tick_def Let_def received_at_ms_def GNSS_STALE_TIMEOUT_MS_def
          word_less_nat_alt not_less split: option.splits)
    show ?thesis
    proof (cases ?seconds)
      case None
      then have "\<not> answer_due contents capacity now_ms last_response g b"
        using parts sum age by (simp add: answer_due_def Let_def checked_add_None)
      with None step show ?thesis by simp
    next
      case (Some seconds)
      then have seconds: "unat seconds = unat (gs_time_unix_seconds g) + unat ?total div 1000"
        using parts by (simp add: checked_add_Some)
      then have due: "1000 * unat seconds + unat (ucast (?total mod 1000) :: u16) = due_ms"
        using parts sum age by (simp add: due_ms_def)
      have "unat seconds < 2 ^ 32" using unat_below [of seconds] by simp
      then have "unat (gs_time_unix_seconds g) + (unat (gs_time_milliseconds g) +
          (unat now_ms - unat (gs_time_updated_at_ms g))) div 1000 < 2 ^ 32"
        using seconds sum age by simp
      then have room: "answer_due contents capacity now_ms last_response g b \<longleftrightarrow>
          length (contents (bd_can_tx b)) < capacity (bd_can_tx b)"
        using True request age by (simp add: answer_due_def Let_def)
      from Some step have "last' = (if length (contents (bd_can_tx b)) < capacity (bd_can_tx b)
            then Some (request_id, lt_received_at_ms ?cached) else last_response) \<and>
          contents (bd_can_tx b') = (if length (contents (bd_can_tx b)) < capacity (bd_can_tx b)
            then contents (bd_can_tx b) @ [\<lparr>ctr_message = TxTimeResponse request_id TimeGnss seconds
              (ucast (?total mod 1000))\<rparr>] else contents (bd_can_tx b))"
        by (simp add: split_beta fifo_channel.laws(1,2) [OF chan])
      moreover have "unat (ucast (?total mod 1000) :: u16) < 1000" using parts by simp
      ultimately show ?thesis
        using room request due by auto
    qed
  qed
qed

text \<open>
  The time of the last sentence is kept in 32 bits. Once the board has been up for 2^32
  milliseconds (49.7 days), a time request is never answered, even in the millisecond in which
  a valid time was stored: its age always looks longer than the timeout.
\<close>

theorem no_time_after_uptime:
  assumes "2 ^ 32 \<le> unat stored_ms" "unat stored_ms \<le> unat now_ms"
    and "time_response_tick ops now_ms (last_response, store_time time stored_ms g, b) = (last', g', b')"
  shows "b' = b \<and> last' = last_response"
proof -
  have "unat (ucast (ucast stored_ms :: u32) :: u64) = unat stored_ms mod 2 ^ 32"
    by (simp add: unat_wider(1)) (simp add: unsigned_ucast_eq take_bit_eq_mod)
  moreover have "unat stored_ms mod 2 ^ 32 \<le> unat stored_ms - 2 ^ 32"
    using le_mod_geq [OF assms(1)] mod_less_eq_dividend [of "unat stored_ms - 2 ^ 32" "2 ^ 32"] by linarith
  ultimately have "2 ^ 32 \<le> unat (saturating_sub now_ms (ucast (ucast stored_ms :: u32)))"
    using assms(1,2) unfolding unat_saturating_sub by linarith
  then have "GNSS_STALE_TIMEOUT_MS < saturating_sub now_ms (ucast (ucast stored_ms :: u32))"
    by (simp add: GNSS_STALE_TIMEOUT_MS_def word_less_nat_alt)
  with assms(3) show ?thesis
    by (auto simp: time_response_tick_def store_time_def Let_def split: option.splits if_splits)
qed

subsection \<open>Concrete answers\<close>

definition demo_request :: list_board where
  "demo_request = list_start\<lparr>bd_cache := snd (update_cache (RxTimeRequest 7) 500 new_cache)\<rparr>"

definition demo_time :: "(nat \<times> bytes list) gnss_statics" where
  "demo_time = store_time \<lparr>gdt_unix_seconds = 1000, gdt_milliseconds = 900\<rparr> 400 (initial_gnss (5, []))"

lemma demo_answer_due: "answer_due snd fst 1550 None demo_time demo_request"
  by (simp add: answer_due_def demo_time_def demo_request_def store_time_def initial_gnss_def new_cache_def
      list_start_def initial_board_def latest_update_def Let_def)

lemma demo_answer:
  "snd (bd_can_tx (snd (snd (time_response_tick list_ops 1550 (None, demo_time, demo_request))))) =
     [\<lparr>ctr_message = TxTimeResponse 7 TimeGnss 1002 50\<rparr>]"
  by code_simp

lemma time_response_exact_witness:
  "\<exists>seconds ms. snd (bd_can_tx (snd (snd (time_response_tick list_ops 1550 (None, demo_time, demo_request))))) =
     [\<lparr>ctr_message = TxTimeResponse 7 TimeGnss seconds ms\<rparr>] \<and>
     1000 * unat seconds + unat ms = 1002050 \<and> unat ms < 1000"
proof -
  obtain last' g' b' where tick: "time_response_tick list_ops 1550 (None, demo_time, demo_request) = (last', g', b')"
    by (metis surj_pair)
  have "fifo_channel (can_tx_ops list_ops) snd fst" by (simp add: list_channel_fifo)
  from time_response_exact [OF this tick] demo_answer_due obtain request_id seconds ms where
    "snd (bd_can_tx b') = snd (bd_can_tx demo_request) @ [\<lparr>ctr_message = TxTimeResponse request_id TimeGnss seconds ms\<rparr>]"
    "1000 * unat seconds + unat ms = 1000 * unat (gs_time_unix_seconds demo_time) +
       unat (gs_time_milliseconds demo_time) + (unat (1550 :: u64) - unat (gs_time_updated_at_ms demo_time))"
    "unat ms < 1000" by auto
  with demo_answer tick show ?thesis
    by (auto simp: demo_time_def store_time_def demo_request_def list_start_def initial_board_def)
qed

lemma no_time_after_uptime_witness:
  "fst (time_response_tick list_ops 4294967800
     (None, store_time \<lparr>gdt_unix_seconds = 1000, gdt_milliseconds = 900\<rparr> 4294967800 (initial_gnss (5 :: nat, [] :: bytes list)),
      demo_request)) = None"
proof -
  obtain last' g' b' where tick: "time_response_tick list_ops 4294967800
     (None, store_time \<lparr>gdt_unix_seconds = 1000, gdt_milliseconds = 900\<rparr> 4294967800 (initial_gnss (5 :: nat, [] :: bytes list)),
      demo_request) = (last', g', b')" by (metis surj_pair)
  from no_time_after_uptime [OF _ _ tick] show ?thesis unfolding tick by simp
qed

end
