(* ===== verification/RadioPackets.thy ===== *)
theory RadioPackets
  imports RecoveryPower CanTask GnssState
begin

section \<open>The periodic packets (src/tasks/lora\_task\_base.rs)\<close>

text \<open>
  What the radio task sends every half second: the packet of the mission state, made from the
  telemetry cache, the GNSS telemetry and the health flags. Values that are too old are replaced
  by the code of a stale value. \<open>radio_statics\<close> holds the statics that only the radio tasks and
  the SD task use, and the GNSS telemetry, whose task is modelled in \<open>GnssTask\<close>; the others
  are fields of \<open>board\<close>. The task runs between two await points without interruption, so a packet
  is a function of the state at one moment. Built without the feature \<open>lora-timing-debug\<close>.
\<close>

record radio_statics =
  rst_gnss_telemetry :: gnss_telemetry
  rst_sd_has_error :: bool
  rst_logging_active :: bool
  rst_has_unflushed_data :: bool
  rst_fallback_sequence :: u8
  rst_rx_activity :: "u64 option"
  rst_tx_success_count :: u32
  rst_rx_success_count :: u32
  rst_rx_byte_count :: u32
  rst_tx_error_count :: u32
  rst_rx_error_count :: u32
  rst_aux_timeout_count :: u32
  rst_command_drop_count :: u32
  rst_periodic_missed_slot_count :: u32

definition initial_radio :: radio_statics where
  "initial_radio = \<lparr>rst_gnss_telemetry = new_gnss_telemetry, rst_sd_has_error = False,
     rst_logging_active = False, rst_has_unflushed_data = False, rst_fallback_sequence = 0,
     rst_rx_activity = None, rst_tx_success_count = 0, rst_rx_success_count = 0,
     rst_rx_byte_count = 0, rst_tx_error_count = 0, rst_rx_error_count = 0,
     rst_aux_timeout_count = 0, rst_command_drop_count = 0, rst_periodic_missed_slot_count = 0\<rparr>"

text \<open>\<open>Option::map_or\<close>, and setting one bit of a status word to a value.\<close>

definition map_or :: "'b \<Rightarrow> ('a \<Rightarrow> 'b) \<Rightarrow> 'a option \<Rightarrow> 'b" where
  [simp]: "map_or d f v = (case v of None \<Rightarrow> d | Some x \<Rightarrow> f x)"

definition put_bit :: "bool \<Rightarrow> nat \<Rightarrow> 'a::len word \<Rightarrow> 'a word" where
  "put_bit b n status = (if b then status OR push_bit n 1 else status AND NOT (push_bit n 1))"

subsection \<open>Ages and freshness\<close>

definition stale_or :: "'a latest \<Rightarrow> u64 \<Rightarrow> u64 \<Rightarrow> 'a option" where
  "stale_or l now_ms maximum_age_ms =
     (if freshness_of l now_ms maximum_age_ms = Fresh then lt_value l else None)"

definition age_tenths :: "u64 \<Rightarrow> u64 option \<Rightarrow> u16" where
  "age_tenths now_ms received_at =
     (case received_at of
        None \<Rightarrow> 0xffff
      | Some t \<Rightarrow> if now_ms < t then 0xffff else ucast (min ((now_ms - t) div 100) 0xfffe))"

definition latest_mission_periodic_at :: "can_cache \<Rightarrow> u64 option" where
  "latest_mission_periodic_at c =
     (let times = List.map_filter id
        [received_at_ms (cc_kinematics c), received_at_ms (cc_control c),
         received_at_ms (cc_mission_status c), received_at_ms (cc_power_time c),
         received_at_ms (cc_descent_core c), received_at_ms (cc_attitude_tilt c),
         received_at_ms (cc_lps c), received_at_ms (cc_airspeed c),
         received_at_ms (cc_control_roll_v2 c)]
      in case times of [] \<Rightarrow> None | t # ts \<Rightarrow> Some (fold max ts t))"

fun gnss_state_code :: "gnss_receiver_state \<Rightarrow> u8" where
  "gnss_state_code GnssOff = 0"
| "gnss_state_code GnssStarting = 1"
| "gnss_state_code GnssReceiverDetected = 2"
| "gnss_state_code GnssConfigurationFailed = 3"
| "gnss_state_code GnssReceiverError = 4"
| "gnss_state_code GnssNoFix = 5"
| "gnss_state_code GnssValidFix = 6"
| "gnss_state_code GnssInvalidSample = 7"
| "gnss_state_code GnssStale = 8"

subsection \<open>The fallback packet\<close>

definition fallback_can_health :: "('l, 'c, 'r, 'g) board \<Rightarrow> u8" where
  "fallback_can_health b = bd_can_fallback_health b"

definition fallback_primary_loss_reason ::
  "u8 \<Rightarrow> bool \<Rightarrow> bool \<Rightarrow> u16 \<Rightarrow> bool \<Rightarrow> u16 \<Rightarrow> u8" where
  "fallback_primary_loss_reason can_health invalid_is_latest mission_ever mission_age
       periodic_ever any_periodic_age =
     (if can_health = 4 then 3
      else if can_health = 5 then 4
      else if can_health = 6 then 7
      else if invalid_is_latest then 5
      else if \<not> mission_ever then 0
      else if mission_age \<noteq> 0xffff \<and> mission_age < 10 then 7
      else if periodic_ever \<and> any_periodic_age \<noteq> 0xffff \<and> any_periodic_age < 10 then 1
      else 2)"

definition fallback_can_status_flags :: "u8 \<Rightarrow> u16" where
  "fallback_can_status_flags can_health =
     bool_bit (1 \<le> can_health \<and> can_health \<le> 3) 13 OR bool_bit (2 \<le> can_health \<and> can_health \<le> 6) 14"

definition mission_link_fallback_packet_with_health ::
  "('l, 'c, 'r, 'g) board \<Rightarrow> can_cache \<Rightarrow> u64 \<Rightarrow> gnss_telemetry \<Rightarrow> u8 \<Rightarrow> radio_statics \<Rightarrow>
   application_packet \<times> radio_statics" where
  "mission_link_fallback_packet_with_health b c now_ms gnss can_health r =
     (let mission_received = received_at_ms (cc_mission_status c);
          any_periodic_received = latest_mission_periodic_at c;
          power_received = received_at_ms (cc_power_time c);
          mission_age = age_tenths now_ms mission_received;
          any_periodic_age = age_tenths now_ms any_periodic_received;
          power_age = age_tenths now_ms power_received;
          mission_ever = mission_received \<noteq> None;
          periodic_ever = any_periodic_received \<noteq> None;
          invalid_at = (ucast (bd_mission_status_invalid_at_ms b) :: u64);
          invalid_is_latest = invalid_at \<noteq> 0 \<and>
            (case mission_received of None \<Rightarrow> True | Some valid_at \<Rightarrow> valid_at < invalid_at);
          primary_loss_reason = fallback_primary_loss_reason can_health invalid_is_latest mission_ever
            mission_age periodic_ever any_periodic_age;
          flags = bool_bit mission_ever 0 OR bool_bit periodic_ever 1
            OR bool_bit (mission_age \<noteq> 0xffff \<and> mission_age < 10) 2
            OR bool_bit (any_periodic_age \<noteq> 0xffff \<and> any_periodic_age < 10) 3
            OR bool_bit (\<not> rst_sd_has_error r) 4 OR bool_bit (bd_logging_requested b) 5
            OR bool_bit (rst_logging_active r) 6 OR bool_bit (rst_has_unflushed_data r) 7
            OR bool_bit (gt_state gnss \<noteq> GnssOff) 8 OR bool_bit (gt_state gnss = GnssValidFix) 9
            OR bool_bit (gt_state gnss = GnssStale) 10 OR bool_bit (power_received \<noteq> None) 11
            OR bool_bit mission_ever 12 OR fallback_can_status_flags can_health;
          last_state = map_or 0xff (\<lambda>status. mission_state_code (ms_state status))
            (lt_value (cc_mission_status c));
          battery = lt_value (cc_power_time c)
      in (PMissionLinkFallback
            \<lparr>mlf_sequence = rst_fallback_sequence r, mlf_primary_loss_reason = primary_loss_reason,
             mlf_status_flags = flags, mlf_last_valid_mission_state = last_state,
             mlf_gnss_state = gnss_state_code (gt_state gnss), mlf_mission_status_age = mission_age,
             mlf_any_mission_periodic_age = any_periodic_age, mlf_power_time_age = power_age,
             mlf_east = gt_east gnss, mlf_north = gt_north gnss, mlf_height = gt_height gnss,
             mlf_logic_voltage = map_or 253 pt_logic_voltage battery,
             mlf_motor_voltage = map_or 253 pt_motor_voltage battery, mlf_can_health = can_health\<rparr>,
          r\<lparr>rst_fallback_sequence := rst_fallback_sequence r + 1\<rparr>))"

definition mission_link_fallback_packet ::
  "('l, 'c, 'r, 'g) board \<Rightarrow> can_cache \<Rightarrow> u64 \<Rightarrow> gnss_telemetry \<Rightarrow> radio_statics \<Rightarrow>
   application_packet \<times> radio_statics" where
  "mission_link_fallback_packet b c now_ms gnss r =
     mission_link_fallback_packet_with_health b c now_ms gnss (fallback_can_health b) r"

subsection \<open>Status words\<close>

definition inject_link_health ::
  "('l, 'c, 'r, 'g) board \<Rightarrow> radio_statics \<Rightarrow> u16 \<Rightarrow> nat \<Rightarrow> nat \<Rightarrow> u16" where
  "inject_link_health b r status sd_bit can_bit =
     put_bit (\<not> bd_is_can_error b) can_bit (put_bit (\<not> rst_sd_has_error r) sd_bit status)"

definition map_command_receive_status ::
  "u16 \<Rightarrow> u8 \<Rightarrow> power_time_telemetry option \<Rightarrow> bool \<Rightarrow> bool \<Rightarrow> bool \<Rightarrow> u32" where
  "map_command_receive_status mission_status config battery lps_fresh airspeed_fresh mission_status_fresh =
     (let status = bool_bit (bit mission_status 2) 0 OR bool_bit lps_fresh 1 OR bool_bit airspeed_fresh 2
        OR bool_bit (mission_status_fresh \<and> \<not> bit mission_status 10) 3 OR bool_bit (bit mission_status 3) 4
        OR bool_bit (bit config 0) 5 OR bool_bit (bit config 1) 6 OR bool_bit (bit config 2) 7;
          status = (case battery of
              None \<Rightarrow> status
            | Some p \<Rightarrow> status OR bool_bit (pt_logic_voltage p \<le> 240) 8 OR bool_bit (pt_motor_voltage p \<le> 240) 9
                OR bool_bit (bit (pt_flags p) 3) 10 OR bool_bit (bit (pt_flags p) 0) 13)
      in status OR bool_bit (bit config 3) 16 OR bool_bit (bit config 4) 18
           OR bool_bit (bit config 5) 21 OR bool_bit (bit config 6) 22)"

definition map_flight_interval_events :: "u16 \<Rightarrow> u16" where
  "map_flight_interval_events events =
     bool_bit (bit events 0) 9 OR bool_bit (bit events 1) 10 OR bool_bit (bit events 2) 11
     OR bool_bit (bit events 3) 12 OR bool_bit (bit events 4) 14"

subsection \<open>The packet of the mission state\<close>

text \<open>The values that are fresh at \<open>now_ms\<close>, and the events, as \<open>periodic_packet\<close> reads them.\<close>

record fresh_values =
  fv_mission :: "mission_status_telemetry option"
  fv_kinematics :: "kinematics_telemetry option"
  fv_control :: "control_telemetry option"
  fv_tilt :: "attitude_tilt_telemetry option"
  fv_lps :: "lps_telemetry option"
  fv_airspeed :: "airspeed_telemetry option"
  fv_power :: "power_time_telemetry option"
  fv_control_roll_v2 :: "control_roll_telemetry_v2 option"

definition fresh_values_at :: "u64 \<Rightarrow> can_cache \<Rightarrow> fresh_values" where
  "fresh_values_at now_ms c =
     \<lparr>fv_mission = stale_or (cc_mission_status c) now_ms FRESHNESS_10_HZ_MS,
      fv_kinematics = stale_or (cc_kinematics c) now_ms FRESHNESS_100_HZ_MS,
      fv_control = stale_or (cc_control c) now_ms FRESHNESS_100_HZ_MS,
      fv_tilt = stale_or (cc_attitude_tilt c) now_ms FRESHNESS_10_HZ_MS,
      fv_lps = stale_or (cc_lps c) now_ms FRESHNESS_25_HZ_MS,
      fv_airspeed = stale_or (cc_airspeed c) now_ms FRESHNESS_100_HZ_MS,
      fv_power = stale_or (cc_power_time c) now_ms FRESHNESS_10_HZ_MS,
      fv_control_roll_v2 = stale_or (cc_control_roll_v2 c) now_ms FRESHNESS_10_HZ_MS\<rparr>"

definition is_flight :: "mission_state \<Rightarrow> bool" where
  "is_flight state \<longleftrightarrow> state \<in> {LiftoffDetection, EngineBurn, MsControl}"

definition control_roll_packet_of :: "control_roll_telemetry_v2 \<Rightarrow> application_packet" where
  "control_roll_packet_of v = PControlRollTelemetryV2
     \<lparr>crv_reference_raw = roll_reference_raw v, crv_deviation_raw = roll_deviation_raw v,
      crv_flags = roll_flags v, crv_capture_event_sequence = roll_capture_event_sequence v\<rparr>"

definition recovery_beacon_of :: "power_time_telemetry option \<Rightarrow> gnss_telemetry \<Rightarrow> application_packet" where
  "recovery_beacon_of battery gnss = PRecoveryBeacon
     \<lparr>rb_logic_voltage = map_or 253 pt_logic_voltage battery,
      rb_motor_voltage = map_or 253 pt_motor_voltage battery,
      rb_east = gt_east gnss, rb_north = gt_north gnss, rb_height = gt_height gnss,
      rb_elapsed = map_or 0xfffa pt_recovery_elapsed battery\<rparr>"

definition command_receive_of ::
  "('l, 'c, 'r, 'g) board \<Rightarrow> fresh_values \<Rightarrow> gnss_telemetry \<Rightarrow> radio_statics \<Rightarrow> application_packet" where
  "command_receive_of b v gnss r =
     (let mission_status = map_or 0 ms_status (fv_mission v);
          config = map_or 0 ms_config (fv_mission v);
          status = map_command_receive_status mission_status config (fv_power v)
            (map_or False (\<lambda>l. lps_pressure l \<le> 2031 \<and> lps_temperature l \<le> 200) (fv_lps v))
            (map_or False (\<lambda>a. air_airspeed a \<le> 245) (fv_airspeed v))
            (fv_mission v \<noteq> None);
          status = put_bit (\<not> rst_sd_has_error r) 11 status;
          status = put_bit (\<not> bd_is_can_error b) 12 status
      in PCommandReceive
        \<lparr>crt_status = status, crt_motor_profile = 0xff,
         crt_tilt_magnitude = map_or 123 tilt_magnitude (fv_tilt v),
         crt_tilt_direction = map_or 0 tilt_direction (fv_tilt v),
         crt_fin_mode = map_or 15 (\<lambda>m. fin_mode_code (ms_fin_mode m)) (fv_mission v),
         crt_para_mode = map_or 15 (\<lambda>m. para_mode_code (ms_para_mode m)) (fv_mission v),
         crt_fin_angle = map_or 249 kin_fin_angle (fv_kinematics v),
         crt_para_angle = map_or 247 ms_para_angle (fv_mission v),
         crt_pressure = map_or 2039 lps_pressure (fv_lps v),
         crt_temperature = map_or 247 lps_temperature (fv_lps v),
         crt_airspeed = map_or 252 air_airspeed (fv_airspeed v),
         crt_logic_voltage = map_or 253 pt_logic_voltage (fv_power v),
         crt_motor_voltage = map_or 253 pt_motor_voltage (fv_power v),
         crt_east = gt_east gnss, crt_north = gt_north gnss, crt_height = gt_height gnss,
         crt_display_roll = map_or 0x8004 kin_roll (fv_kinematics v)\<rparr>)"

definition flight_of ::
  "('l, 'c, 'r, 'g) board \<Rightarrow> mission_state \<Rightarrow> u16 \<Rightarrow> fresh_values \<Rightarrow> gnss_telemetry \<Rightarrow> radio_statics \<Rightarrow>
   application_packet" where
  "flight_of b state interval_events v gnss r =
     (let header = (if state = LiftoffDetection then HLiftoffDetection
            else if state = EngineBurn then HEngineBurn else HControl);
          status = map_or 0 ms_status (fv_mission v);
          status = inject_link_health b r status 7 8;
          status = status OR map_flight_interval_events interval_events
      in PFlight
        \<lparr>ft_header = header, ft_status = status,
         ft_roll = map_or 0x8004 kin_roll (fv_kinematics v),
         ft_roll_rate = map_or 0x8004 kin_roll_rate (fv_kinematics v),
         ft_tilt_magnitude = map_or 123 tilt_magnitude (fv_tilt v),
         ft_tilt_direction = map_or 0 tilt_direction (fv_tilt v),
         ft_fin_angle = map_or 249 kin_fin_angle (fv_kinematics v),
         ft_fin_rate = map_or 0x8002 kin_fin_rate (fv_kinematics v),
         ft_pressure = map_or 2039 lps_pressure (fv_lps v),
         ft_temperature = map_or 247 lps_temperature (fv_lps v),
         ft_airspeed = map_or 252 air_airspeed (fv_airspeed v),
         ft_requested_torque = map_or 0x800 ctl_requested_torque (fv_control v),
         ft_elapsed = map_or 0xfa ctl_elapsed (fv_control v),
         ft_east = gt_east gnss, ft_north = gt_north gnss, ft_height = gt_height gnss\<rparr>)"

definition descent_of ::
  "descent_core_telemetry option \<Rightarrow> fresh_values \<Rightarrow> gnss_telemetry \<Rightarrow> application_packet" where
  "descent_of descent v gnss = PDescent
     \<lparr>dt_status = map_or 0 dc_status descent AND 0x001f,
      dt_pressure = map_or 2039 lps_pressure (fv_lps v),
      dt_temperature = map_or 247 lps_temperature (fv_lps v),
      dt_para_angle = map_or 247 dc_para_angle descent,
      dt_elapsed = map_or 0xfffa pt_descent_elapsed (fv_power v),
      dt_east = gt_east gnss, dt_north = gt_north gnss, dt_height = gt_height gnss\<rparr>"

record periodic_packet_t =
  pp_frame :: lora_frame
  pp_transmitted_events :: u16
  pp_event_revision :: u32
  pp_is_control_roll_v2 :: bool
  pp_control_roll_cycle_available :: bool

text \<open>
  \<open>finish_periodic_packet\<close> and the \<open>map\<close> that follows each of its calls: the frame with what the
  task has to know about it, or nothing when the packet does not encode.
\<close>

definition finish_periodic_packet ::
  "application_packet \<Rightarrow> u16 \<Rightarrow> u32 \<Rightarrow> (lora_frame \<times> u16 \<times> u32) option" where
  "finish_periodic_packet packet interval_events revision =
     (case encode packet of
        Inr frame \<Rightarrow> Some (frame, interval_events, revision)
      | Inl _ \<Rightarrow> None)"

definition as_periodic :: "bool \<Rightarrow> bool \<Rightarrow> (lora_frame \<times> u16 \<times> u32) option \<Rightarrow> periodic_packet_t option" where
  "as_periodic is_roll cycle_available =
     map_option (\<lambda>(frame, transmitted_events, revision).
       \<lparr>pp_frame = frame, pp_transmitted_events = transmitted_events, pp_event_revision = revision,
        pp_is_control_roll_v2 = is_roll, pp_control_roll_cycle_available = cycle_available\<rparr>)"

definition periodic_packet ::
  "bool \<Rightarrow> bool \<Rightarrow> u64 \<Rightarrow> ('l, 'c, 'r, 'g) board \<Rightarrow> radio_statics \<Rightarrow> periodic_packet_t option \<times> radio_statics" where
  "periodic_packet prefer_control_roll_v2 control_roll_event_only now_ms b r =
     (let c = bd_cache b;
          (interval_events, revision) = event_snapshot c;
          gnss = rst_gnss_telemetry r;
          v = fresh_values_at now_ms c;
          state = map_or MsUnknown ms_state (fv_mission v);
          flight_state = is_flight state;
          control_roll_cycle_available = flight_state \<and> fv_control_roll_v2 v \<noteq> None
      in if prefer_control_roll_v2 \<and> control_roll_cycle_available
         then (as_periodic True True
                 (finish_periodic_packet (control_roll_packet_of (the (fv_control_roll_v2 v))) 0 revision), r)
         else if control_roll_event_only then (None, r)
         else if bd_recovery_beacon_active b
         then (as_periodic False False
                 (finish_periodic_packet (recovery_beacon_of (fv_power v) gnss) 0 revision), r)
         else if state = MsUnknown
         then let (packet, r) = mission_link_fallback_packet b c now_ms gnss r
              in (as_periodic False False (finish_periodic_packet packet 0 revision), r)
         else
           let packet =
                 (if state = CommandReceive then command_receive_of b v gnss r
                  else if is_flight state then flight_of b state interval_events v gnss r
                  else descent_of (stale_or (cc_descent_core c) now_ms FRESHNESS_100_HZ_MS) v gnss);
               transmitted_events = (if is_flight state then interval_events AND 0x001f else 0)
           in (as_periodic False control_roll_cycle_available
                 (finish_periodic_packet packet transmitted_events revision), r))"

definition RECOVERY_LOG_INTERVAL_MS :: u64 where "RECOVERY_LOG_INTERVAL_MS = 200"
definition LORA_TRANSMIT_INTERVAL_MS :: u64 where "LORA_TRANSMIT_INTERVAL_MS = 500"

definition periodic_interval_ms :: "bool \<Rightarrow> bool \<Rightarrow> u64" where
  "periodic_interval_ms recovery_active control_roll_cycle_active =
     (if recovery_active then 10000
      else if control_roll_cycle_active then LORA_TRANSMIT_INTERVAL_MS div 2
      else LORA_TRANSMIT_INTERVAL_MS)"

end
