(* ===== verification/RadioContents.thy ===== *)
theory RadioContents
  imports RadioPackets
begin

section \<open>What the periodic packets tell the ground\<close>

text \<open>
  Three facts about \<open>periodic_packet\<close>, each over everything that fills its inputs: it never fails
  to encode and is the packet of the mission state; a stale value never reaches the ground as a
  measurement; an event flag is cleared only after a frame that shows it.
\<close>

subsection \<open>The values in the cache\<close>

text \<open>
  A cache as the board builds it: from the empty cache by decoded frames, by the radio task
  clearing events and by the recovery power task.
\<close>

inductive cache_built :: "can_cache \<Rightarrow> bool" where
  built_new: "cache_built new_cache"
| built_frame: "cache_built c \<Longrightarrow> decode_standard ident data = Inr message \<Longrightarrow>
    cache_built (snd (update_cache message now_ms c))"
| built_cleared: "cache_built c \<Longrightarrow> cache_built (clear_event_flags flags revision c)"
| built_power: "cache_built (bd_cache (b :: list_board)) \<Longrightarrow> cache_built (bd_cache (snd (power_tick now_ms (t, b))))"

definition holds_valid :: "('a \<Rightarrow> can_rx_message) \<Rightarrow> 'a latest \<Rightarrow> bool" where
  "holds_valid message l \<longleftrightarrow> (\<forall>v. lt_value l = Some v \<longrightarrow> valid_rx (message v))"

definition cache_valid :: "can_cache \<Rightarrow> bool" where
  "cache_valid c \<longleftrightarrow> holds_valid RxControl (cc_control c) \<and> holds_valid RxMissionStatus (cc_mission_status c) \<and>
     holds_valid RxAttitudeTilt (cc_attitude_tilt c) \<and> holds_valid RxLps (cc_lps c) \<and>
     holds_valid RxControlRollV2 (cc_control_roll_v2 c)"

lemma holds_valid_update [simp]: "holds_valid message (latest_update v now_ms l) \<longleftrightarrow> valid_rx (message v)"
  by (simp add: holds_valid_def latest_update_def)

lemma cache_valid_update:
  "cache_valid c \<Longrightarrow> valid_rx message \<Longrightarrow> cache_valid (snd (update_cache message now_ms c))"
  by (cases message) (simp_all add: cache_valid_def)

lemma cache_valid_power: "cache_valid (bd_cache b) \<Longrightarrow> cache_valid (bd_cache (snd (power_tick now_ms (t, b))))"
  by (auto simp: cache_valid_def power_tick_def refresh_power_def clear_recovery_power_snapshot_def Let_def)

lemma cache_built_valid: "cache_built c \<Longrightarrow> cache_valid c"
proof (induction rule: cache_built.induct)
  case built_new
  show ?case by (simp add: cache_valid_def holds_valid_def new_cache_def latest_new_def)
next
  case (built_frame c ident data message now_ms)
  then show ?case by (simp add: cache_valid_update decode_standard_sound)
next
  case (built_cleared c flags revision)
  then show ?case by (simp add: cache_valid_def clear_event_flags_def)
qed (rule cache_valid_power)

lemma stale_or_valid: "holds_valid message l \<Longrightarrow> stale_or l now_ms age = Some v \<Longrightarrow> valid_rx (message v)"
  by (simp add: holds_valid_def stale_or_def split: if_splits)


text \<open>
  The value a slot holds at \<open>now_ms\<close> if it is recent: received not after now and at most \<open>age\<close>
  milliseconds ago. This is the reading of the requirement in natural numbers; the code decides
  with \<open>freshness_of\<close> on 64-bit words and its own constants.
\<close>

definition recent :: "nat \<Rightarrow> u64 \<Rightarrow> 'a latest \<Rightarrow> 'a option" where
  "recent age now_ms l =
     (if unat (lt_received_at_ms l) \<le> unat now_ms \<and> unat now_ms \<le> unat (lt_received_at_ms l) + age
      then lt_value l else None)"

lemma stale_or_recent: "stale_or l now_ms age = recent (unat age) now_ms l"
  by (auto simp: stale_or_def recent_def freshness_exact received_at_ms_def)

lemma stale_or_limits:
  "stale_or l now_ms FRESHNESS_100_HZ_MS = recent 30 now_ms l"
  "stale_or l now_ms FRESHNESS_25_HZ_MS = recent 120 now_ms l"
  "stale_or l now_ms FRESHNESS_10_HZ_MS = recent 300 now_ms l"
  by (simp_all add: stale_or_recent FRESHNESS_100_HZ_MS_def FRESHNESS_25_HZ_MS_def FRESHNESS_10_HZ_MS_def)


subsection \<open>The packet of the mission state\<close>

text \<open>The header of a packet, and the header the state of the board asks for.\<close>

fun header_of :: "application_packet \<Rightarrow> packet_header" where
  "header_of (PCommandReceive _) = HCommandReceive"
| "header_of (PFlight f) = ft_header f"
| "header_of (PDescent _) = HDescent"
| "header_of (PRecoveryBeacon _) = HRecoveryBeacon"
| "header_of (PMissionLinkFallback _) = HMissionLinkFallbackTelemetry"
| "header_of (PRecoveryLogData _) = HRecoveryLogData"
| "header_of (PCommandResult _) = HCommandResult"
| "header_of (PGroundTimeRequest _) = HGroundTimeRequest"
| "header_of (PControlRollTelemetryV2 _) = HControlRollTelemetryV2"

fun state_header :: "mission_state \<Rightarrow> packet_header" where
  "state_header CommandReceive = HCommandReceive"
| "state_header LiftoffDetection = HLiftoffDetection"
| "state_header EngineBurn = HEngineBurn"
| "state_header MsControl = HControl"
| "state_header MsDescent = HDescent"
| "state_header MsUnknown = HMissionLinkFallbackTelemetry"

definition state_shown :: "u64 \<Rightarrow> can_cache \<Rightarrow> mission_state" where
  "state_shown now_ms c =
     (case recent 300 now_ms (cc_mission_status c) of None \<Rightarrow> MsUnknown | Some m \<Rightarrow> ms_state m)"

definition roll_due :: "u64 \<Rightarrow> can_cache \<Rightarrow> bool" where
  "roll_due now_ms c \<longleftrightarrow> is_flight (state_shown now_ms c) \<and>
     recent 300 now_ms (cc_control_roll_v2 c) \<noteq> None"

definition header_due :: "bool \<Rightarrow> u64 \<Rightarrow> ('l, 'c, 'r, 'g) board \<Rightarrow> packet_header" where
  "header_due roll_first now_ms b =
     (if roll_first \<and> roll_due now_ms (bd_cache b) then HControlRollTelemetryV2
      else if bd_recovery_beacon_active b then HRecoveryBeacon
      else state_header (state_shown now_ms (bd_cache b)))"

text \<open>The packet \<open>periodic_packet\<close> builds, before it is encoded.\<close>

definition packet_content :: "bool \<Rightarrow> u64 \<Rightarrow> ('l, 'c, 'r, 'g) board \<Rightarrow> radio_statics \<Rightarrow> application_packet" where
  "packet_content roll_first now_ms b r =
     (let c = bd_cache b; v = fresh_values_at now_ms c; state = state_shown now_ms c; gnss = rst_gnss_telemetry r
      in if roll_first \<and> roll_due now_ms c then control_roll_packet_of (the (fv_control_roll_v2 v))
         else if bd_recovery_beacon_active b then recovery_beacon_of (fv_power v) gnss
         else if state = MsUnknown then fst (mission_link_fallback_packet b c now_ms gnss r)
         else if state = CommandReceive then command_receive_of b v gnss r
         else if is_flight state then flight_of b state (event_flags_latched c) v gnss r
         else descent_of (stale_or (cc_descent_core c) now_ms FRESHNESS_100_HZ_MS) v gnss)"

definition events_sent :: "bool \<Rightarrow> u64 \<Rightarrow> ('l, 'c, 'r, 'g) board \<Rightarrow> u16" where
  "events_sent roll_first now_ms b =
     (if header_due roll_first now_ms b \<in> {HLiftoffDetection, HEngineBurn, HControl}
      then event_flags_latched (bd_cache b) AND 0x001f else 0)"

lemma periodic_packet_content:
  "fst (periodic_packet roll_first event_only now_ms b r) =
     (if event_only \<and> \<not> (roll_first \<and> roll_due now_ms (bd_cache b)) then None
      else case encode (packet_content roll_first now_ms b r) of
          Inl _ \<Rightarrow> None
        | Inr frame \<Rightarrow> Some \<lparr>pp_frame = frame, pp_transmitted_events = events_sent roll_first now_ms b,
            pp_event_revision = event_revision (bd_cache b),
            pp_is_control_roll_v2 = (roll_first \<and> roll_due now_ms (bd_cache b)),
            pp_control_roll_cycle_available = (roll_due now_ms (bd_cache b) \<and>
              (roll_first \<or> \<not> bd_recovery_beacon_active b))\<rparr>)"
proof -
  have state: "map_or MsUnknown ms_state (fv_mission (fresh_values_at now_ms (bd_cache b))) = state_shown now_ms (bd_cache b)"
    by (simp add: fresh_values_at_def state_shown_def stale_or_limits split: option.splits)
  have roll: "is_flight (state_shown now_ms (bd_cache b)) \<and> fv_control_roll_v2 (fresh_values_at now_ms (bd_cache b)) \<noteq> None
      \<longleftrightarrow> roll_due now_ms (bd_cache b)"
    by (simp add: roll_due_def fresh_values_at_def stale_or_limits)
  have header: "header_due roll_first now_ms b \<in> {HLiftoffDetection, HEngineBurn, HControl} \<longleftrightarrow>
      \<not> (roll_first \<and> roll_due now_ms (bd_cache b)) \<and> \<not> bd_recovery_beacon_active b \<and> is_flight (state_shown now_ms (bd_cache b))"
    by (cases "state_shown now_ms (bd_cache b)") (auto simp: header_due_def is_flight_def)
  have unknown: "state_shown now_ms (bd_cache b) = MsUnknown \<Longrightarrow> \<not> roll_due now_ms (bd_cache b)"
    by (simp add: roll_due_def is_flight_def)
  show ?thesis
    unfolding periodic_packet_def Let_def state roll packet_content_def events_sent_def header
    using unknown
    by (cases roll_first; cases "roll_due now_ms (bd_cache b)"; cases event_only; cases "bd_recovery_beacon_active b";
        cases "state_shown now_ms (bd_cache b) = MsUnknown")
      (simp_all add: event_snapshot_def as_periodic_def finish_periodic_packet_def is_flight_def
        split: sum.split prod.split)
qed


subsection \<open>Every packet fits its frame\<close>

text \<open>The bits of the status word of an A0 packet all lie below 24.\<close>

lemma bits_below: "(\<And>n. bit w n \<Longrightarrow> n < k) \<Longrightarrow> unat (w :: 'a::len word) < 2 ^ k"
proof -
  assume bits: "\<And>n. bit w n \<Longrightarrow> n < k"
  have "take_bit k w = w" by (rule bit_word_eqI) (use bits in \<open>auto simp: bit_take_bit_iff\<close>)
  then show ?thesis by (metis take_bit_nat_less_exp unsigned_take_bit_eq)
qed

lemma high_bits_zero:
  assumes "(w :: 'a::len word) AND push_bit k (mask j) = 0" "LENGTH('a) \<le> k + j"
  shows "unat w < 2 ^ k"
proof (rule bits_below, rule ccontr)
  fix n assume b: "bit w n" and n: "\<not> n < k"
  then have "n < LENGTH('a)" by (simp add: bit_imp_le_length)
  with b n assms(2) have "bit (w AND push_bit k (mask j)) n" by (auto simp: bit_simps)
  with assms(1) show False by simp
qed

lemma bit_put_bit: "bit (put_bit b k w) n \<Longrightarrow> bit w n \<or> n = k"
  by (auto simp: put_bit_def bit_simps split: if_splits)

lemma command_receive_status_bits:
  "bit (map_command_receive_status ms cfg p l a f) n \<Longrightarrow> n < 24"
  by (auto simp: map_command_receive_status_def Let_def bit_or_iff split: option.splits)

lemma mask_small:
  "(m :: u8) AND 0x80 = 0 \<Longrightarrow> m < 128" "(d :: u16) AND 0xfe00 = 0 \<Longrightarrow> d < 512"
  "(q :: u16) AND 0xf800 = 0 \<Longrightarrow> q < 2048" "(t :: u16) AND 0xf000 = 0 \<Longrightarrow> t < 4096"
  using high_bits_zero [of m 7 1] high_bits_zero [of d 9 7] high_bits_zero [of q 11 5] high_bits_zero [of t 12 4]
  by (simp_all add: mask_numeral word_less_nat_alt)

lemma coded_height: "telemetry_coded t \<Longrightarrow> gt_height t < 512"
proof -
  have code: "snd c < 512" if "state_code st = Some c" for st c
    using that by (cases st) (auto simp: gnss_codes)
  have "shows_position t \<Longrightarrow> gt_height t < 512"
    by (auto simp: shows_position_def gnss_codes elim: le_less_trans)
  then show "telemetry_coded t \<Longrightarrow> gt_height t < 512"
    using code by (auto simp: telemetry_coded_def shows_code_def split: if_splits option.splits)
qed

lemma code_bounds: "fin_mode_code f < 16" "para_mode_code p < 16" "gnss_state_code g \<le> 8"
  "mission_state_code st \<le> 4 \<or> mission_state_code st = 0xff"
proof -
  show "fin_mode_code f < 16" by (cases f) simp_all
  show "para_mode_code p < 16" by (cases p) simp_all
  show "gnss_state_code g \<le> 8" by (cases g) simp_all
  show "mission_state_code st \<le> 4 \<or> mission_state_code st = 0xff" by (cases st) simp_all
qed

lemma fallback_in_range:
  assumes "gt_height gnss < 512" "bd_can_fallback_health b \<le> 6"
  shows "in_range (fst (mission_link_fallback_packet b c now_ms gnss r))"
proof -
  have top: "(0x8000 :: u16) = push_bit 15 1" by simp
  have flag: "bool_bit v n AND 0x8000 = (0 :: u16)" if "n < 15" for v n
    unfolding top
    by (rule bit_word_eqI) (use that in \<open>simp only: bit_and_iff bit_push_bit_iff bit_bool_bit bit_1_iff bit_0_eq, auto\<close>)
  have reason: "fallback_primary_loss_reason h i m a p q \<le> 7" for h i m a p q
    by (simp add: fallback_primary_loss_reason_def)
  have height: "gt_height gnss \<le> 0x01ff"
    using assms(1) by (simp add: word_less_nat_alt word_le_nat_alt)
  show ?thesis
    using assms(2) code_bounds(3,4) height reason
    by (auto simp: mission_link_fallback_packet_def mission_link_fallback_packet_with_health_def
        fallback_can_health_def fallback_can_status_flags_def Let_def bit.conj_disj_distrib2 flag split: option.splits)
qed

lemma content_in_range:
  assumes c: "cache_valid (bd_cache b)" and g: "telemetry_coded (rst_gnss_telemetry r)"
    and h: "bd_can_fallback_health b \<le> 6"
  shows "in_range (packet_content roll_first now_ms b r)"
proof -
  let ?c = "bd_cache b" and ?g = "rst_gnss_telemetry r"
  let ?v = "fresh_values_at now_ms ?c"
  have height: "gt_height ?g < 512" using g by (rule coded_height)
  have fresh: "fv_control ?v = Some ct \<Longrightarrow> valid_rx (RxControl ct)" "fv_tilt ?v = Some t \<Longrightarrow> valid_rx (RxAttitudeTilt t)"
    "fv_lps ?v = Some l \<Longrightarrow> valid_rx (RxLps l)" "fv_control_roll_v2 ?v = Some cr \<Longrightarrow> valid_rx (RxControlRollV2 cr)"
    for ct t l cr
    using c stale_or_valid [of RxControl] stale_or_valid [of RxAttitudeTilt] stale_or_valid [of RxLps]
      stale_or_valid [of RxControlRollV2]
    by (auto simp: fresh_values_at_def cache_valid_def)
  note small = fresh(1-3) [simplified valid_rx.simps] mask_small height code_bounds(1,2)
  consider "roll_first \<and> roll_due now_ms ?c" | "\<not> (roll_first \<and> roll_due now_ms ?c)" "bd_recovery_beacon_active b"
    | "\<not> (roll_first \<and> roll_due now_ms ?c)" "\<not> bd_recovery_beacon_active b" by blast
  then show ?thesis
  proof cases
    case 1
    then obtain v where v: "fv_control_roll_v2 ?v = Some v" by (auto simp: roll_due_def fresh_values_at_def stale_or_limits)
    with 1 fresh(4) [OF v] show ?thesis by (simp add: packet_content_def control_roll_packet_of_def Let_def)
  next
    case 2
    then show ?thesis using height by (auto simp: packet_content_def recovery_beacon_of_def Let_def)
  next
    case 3
    have a0: "in_range (command_receive_of b ?v ?g r)"
    proof -
      have "unat (put_bit x 12 (put_bit y 11 (map_command_receive_status ms cfg p l a f))) < 2 ^ 24" for x y ms cfg p l a f
        by (rule bits_below) (auto dest!: bit_put_bit command_receive_status_bits)
      then show ?thesis
        using small by (auto simp: command_receive_of_def Let_def word_less_nat_alt [of _ "0x1000000"] split: option.split)
    qed
    have flight: "in_range (flight_of b st ev ?v ?g r)" for st ev
      using small by (auto simp: flight_of_def Let_def split: option.split)
    have descent: "in_range (descent_of d ?v ?g)" for d
    proof -
      have "x AND 0x1f < (8192 :: u16)" for x
        by (rule le_less_trans [OF word_and_le1]) simp
      then show ?thesis using small by (auto simp: descent_of_def split: option.split)
    qed
    show ?thesis
      using 3 a0 flight descent fallback_in_range [OF height h] by (auto simp: packet_content_def Let_def)
  qed
qed

lemma content_header:
  "header_of (packet_content roll_first now_ms b r) = header_due roll_first now_ms b"
  "packet_typed (packet_content roll_first now_ms b r)"
  by (cases "state_shown now_ms (bd_cache b)";
      auto simp: packet_content_def header_due_def control_roll_packet_of_def recovery_beacon_of_def
        mission_link_fallback_packet_def mission_link_fallback_packet_with_health_def command_receive_of_def
        flight_of_def descent_of_def is_flight_def packet_typed_def Let_def)+

lemma packet_encoded:
  assumes "cache_valid (bd_cache b)" "telemetry_coded (rst_gnss_telemetry r)" "bd_can_fallback_health b \<le> 6"
  shows "\<exists>frame. encode (packet_content roll_first now_ms b r) = Inr frame"
  using encode_is_ok_iff [OF content_header(2), of roll_first now_ms b r] content_in_range [OF assms, of roll_first now_ms]
  by (simp add: is_ok_iff)

lemma periodic_packet_Some:
  assumes "fst (periodic_packet roll_first event_only now_ms b r) = Some packet"
  shows "ground_decode (drop 3 (as_bytes (pp_frame packet))) = Some (packet_content roll_first now_ms b r)"
    "pp_transmitted_events packet = events_sent roll_first now_ms b"
    "pp_event_revision packet = event_revision (bd_cache b)"
  using assms ground_decode_frame [OF content_header(2) [of roll_first now_ms b r]]
  by (auto simp: periodic_packet_content split: if_splits sum.splits)

text \<open>
  C10. The periodic packet always goes out and is the one the state asks for. Whatever CAN frames
  the decoder accepted, whatever the receiver sent to the GNSS tasks, and in every CAN health
  state, no value the board keeps is too large for its field: a packet is refused only on the
  event-driven path without a fresh roll value in flight. What the ground decodes is the roll
  packet when it is due and preferred, else the beacon while it is switched on, else the packet
  of the last mission state if that is at most 300 ms old, else the fallback packet.
\<close>

theorem periodic_packet_reaches_ground:
  assumes "cache_built (bd_cache b)"
    and "(gnss_step fl ops)\<^sup>*\<^sup>* (Serving, new_gnss_manager, initial_gnss q) (p, m, g)"
    and "rst_gnss_telemetry r = gs_telemetry g"
    and "bd_can_fallback_health b \<in> {0, fallback_health_code state health}"
  shows "case fst (periodic_packet roll_first event_only now_ms b r) of
      None \<Rightarrow> event_only \<and> \<not> (roll_first \<and> roll_due now_ms (bd_cache b))
    | Some packet \<Rightarrow> (event_only \<longrightarrow> roll_first \<and> roll_due now_ms (bd_cache b)) \<and>
        (\<exists>shown. ground_decode (drop 3 (as_bytes (pp_frame packet))) = Some shown \<and>
           header_of shown = header_due roll_first now_ms b)"
proof -
  have "telemetry_coded (rst_gnss_telemetry r)"
    using gnss_inv_reachable [OF assms(2)] assms(3) by (simp add: gnss_inv_def)
  moreover have "bd_can_fallback_health b \<le> 6"
    using assms(4) by (cases state; cases health) auto
  ultimately obtain frame where "encode (packet_content roll_first now_ms b r) = Inr frame"
    using packet_encoded cache_built_valid [OF assms(1)] by blast
  then show ?thesis
    using periodic_packet_Some [of roll_first event_only now_ms b r] content_header(1) [of roll_first now_ms b r]
    by (auto simp: periodic_packet_content split: if_splits)
qed

subsection \<open>Event flags\<close>

text \<open>Where an A1, A2 or A3 packet shows event flag \<open>n\<close>.\<close>

definition event_bit :: "nat \<Rightarrow> nat" where
  "event_bit n = [9, 10, 11, 12, 14] ! n"

lemma flight_shows_event:
  assumes "bit events n" "n < 5"
  shows "\<exists>f. flight_of b state events v gnss r = PFlight f \<and> bit (ft_status f) (event_bit n)"
proof -
  have "bit (map_flight_interval_events events) (event_bit n)"
    using assms by (auto simp: map_flight_interval_events_def event_bit_def bit_or_iff less_Suc_eq numeral_eq_Suc)
  then show ?thesis by (auto simp: flight_of_def Let_def bit_or_iff)
qed

lemma sent_event_shown:
  assumes "bit (events_sent roll_first now_ms b) n"
  shows "bit (event_flags_latched (bd_cache b)) n \<and> n < 5 \<and>
    (\<exists>f. packet_content roll_first now_ms b r = PFlight f \<and> bit (ft_status f) (event_bit n))"
proof -
  have low: "(0x001f :: u16) = mask 5" by (simp add: mask_numeral)
  from assms have flight: "header_due roll_first now_ms b \<in> {HLiftoffDetection, HEngineBurn, HControl}"
    and n: "bit (event_flags_latched (bd_cache b)) n" "n < 5"
    unfolding events_sent_def low by (auto simp: bit_simps split: if_splits)
  from flight have "\<exists>state. packet_content roll_first now_ms b r =
      flight_of b state (event_flags_latched (bd_cache b)) (fresh_values_at now_ms (bd_cache b)) (rst_gnss_telemetry r) r"
    by (cases "state_shown now_ms (bd_cache b)")
      (auto simp: header_due_def packet_content_def is_flight_def Let_def split: if_splits)
  with flight_shows_event [OF n] n show ?thesis by metis
qed

text \<open>Clearing with the revision of a snapshot, after the receptions \<open>ms\<close>.\<close>

lemma cleared_after_events:
  assumes "length (accepted (last_event_sequence c) (events_of ms)) < 2 ^ 32"
  shows "event_flags_latched (clear_event_flags flags (event_revision c) (receive_all ms c)) =
    (if accepted (last_event_sequence c) (events_of ms) = [] then event_flags_latched c AND NOT flags
     else event_flags_latched c OR or_all (accepted (last_event_sequence c) (events_of ms)))"
proof -
  have "(of_nat (length (accepted (last_event_sequence c) (events_of ms))) :: u32) = 0 \<longleftrightarrow>
      accepted (last_event_sequence c) (events_of ms) = []"
    using assms by (auto simp: word_of_nat_eq_0_iff dvd_def)
  then show ?thesis using receive_all_events [of ms c] by (auto simp: clear_event_flags_def)
qed

text \<open>
  C11. An event flag that the radio task clears has been shown to the ground. The task clears with
  the flags and the revision of the packet it sent, in whatever state the cache is by then: a
  flag that is set before and not after was latched when the packet was made, is one of the five
  flags a flight packet carries, and the ground reads it in the status word of that packet. And a
  flag raised again since then is not lost: if any event was accepted between the making of the
  packet and the clearing, nothing is cleared and its flags are added, those the packet
  has just shown included; if none was, exactly the flags sent are cleared.
\<close>

theorem cleared_events_were_shown:
  assumes "fst (periodic_packet roll_first event_only now_ms b r) = Some packet"
    and "length (accepted (last_event_sequence (bd_cache b)) (events_of ms)) < 2 ^ 32"
  defines "cleared \<equiv> clear_event_flags (pp_transmitted_events packet) (pp_event_revision packet)"
    and "since \<equiv> accepted (last_event_sequence (bd_cache b)) (events_of ms)"
  shows "(\<forall>c n. bit (event_flags_latched c) n \<longrightarrow> \<not> bit (event_flags_latched (cleared c)) n \<longrightarrow>
      event_revision c = event_revision (bd_cache b) \<and> bit (event_flags_latched (bd_cache b)) n \<and> n < 5 \<and>
      (\<exists>f. ground_decode (drop 3 (as_bytes (pp_frame packet))) = Some (PFlight f) \<and> bit (ft_status f) (event_bit n))) \<and>
    event_flags_latched (cleared (receive_all ms (bd_cache b))) =
      (if since = [] then event_flags_latched (bd_cache b) AND NOT (pp_transmitted_events packet)
       else event_flags_latched (bd_cache b) OR or_all since)"
proof -
  note packet = periodic_packet_Some [OF assms(1)]
  have "event_revision c = event_revision (bd_cache b) \<and> bit (event_flags_latched (bd_cache b)) n \<and> n < 5 \<and>
      (\<exists>f. ground_decode (drop 3 (as_bytes (pp_frame packet))) = Some (PFlight f) \<and> bit (ft_status f) (event_bit n))"
    if "bit (event_flags_latched c) n" "\<not> bit (event_flags_latched (cleared c)) n" for c n
  proof -
    from that packet(2,3) have "event_revision c = event_revision (bd_cache b)" "bit (events_sent roll_first now_ms b) n"
      by (auto simp: cleared_def clear_event_flags_def bit_simps dest: bit_imp_le_length split: if_splits)
    with sent_event_shown [of roll_first now_ms b n r] packet(1) show ?thesis by metis
  qed
  moreover have "event_flags_latched (cleared (receive_all ms (bd_cache b))) =
      (if since = [] then event_flags_latched (bd_cache b) AND NOT (pp_transmitted_events packet)
       else event_flags_latched (bd_cache b) OR or_all since)"
    using cleared_after_events [OF assms(2)] packet(3) by (simp add: cleared_def since_def)
  ultimately show ?thesis by blast
qed

subsection \<open>Stale values\<close>

text \<open>
  The cache without the values that are too old at \<open>now_ms\<close>: the 100 Hz values after 30 ms, the
  pressure sensor after 120 ms, the 10 Hz values after 300 ms.
\<close>

definition keep_recent :: "nat \<Rightarrow> u64 \<Rightarrow> 'a latest \<Rightarrow> 'a latest" where
  "keep_recent age now_ms l = (if recent age now_ms l = None then latest_new else l)"

definition forget_stale :: "u64 \<Rightarrow> can_cache \<Rightarrow> can_cache" where
  "forget_stale now_ms c = c
     \<lparr>cc_kinematics := keep_recent 30 now_ms (cc_kinematics c),
      cc_control := keep_recent 30 now_ms (cc_control c),
      cc_mission_status := keep_recent 300 now_ms (cc_mission_status c),
      cc_power_time := keep_recent 300 now_ms (cc_power_time c),
      cc_descent_core := keep_recent 30 now_ms (cc_descent_core c),
      cc_attitude_tilt := keep_recent 300 now_ms (cc_attitude_tilt c),
      cc_lps := keep_recent 120 now_ms (cc_lps c),
      cc_airspeed := keep_recent 30 now_ms (cc_airspeed c),
      cc_control_roll_v2 := keep_recent 300 now_ms (cc_control_roll_v2 c)\<rparr>"

lemma recent_keep_recent [simp]: "recent age now_ms (keep_recent age now_ms l) = recent age now_ms l"
  by (simp add: keep_recent_def latest_new_def) (simp add: recent_def)

lemma forget_stale_simps:
  "fresh_values_at now_ms (forget_stale now_ms c) = fresh_values_at now_ms c"
  "event_flags_latched (forget_stale now_ms c) = event_flags_latched c"
  "event_revision (forget_stale now_ms c) = event_revision c"
  "state_shown now_ms (forget_stale now_ms c) = state_shown now_ms c"
  "roll_due now_ms (forget_stale now_ms c) \<longleftrightarrow> roll_due now_ms c"
  "stale_or (cc_descent_core (forget_stale now_ms c)) now_ms FRESHNESS_100_HZ_MS =
     stale_or (cc_descent_core c) now_ms FRESHNESS_100_HZ_MS"
  by (simp_all add: fresh_values_at_def state_shown_def roll_due_def stale_or_limits) (simp_all add: forget_stale_def)

text \<open>
  C12. A stale value never reaches the ground as a measurement: every periodic packet, the fallback
  packet apart, is the packet the board would send if it had forgotten every value that is older
  than its kind allows (30 ms for the 100 Hz values, 120 ms for the pressure sensor, 300 ms for
  the 10 Hz values) or that carries a time of reception still to come. The fallback packet, sent when the mission state itself is unknown, reports
  ages and last values on purpose.
\<close>

theorem stale_never_sent:
  assumes "header_due roll_first now_ms b \<noteq> HMissionLinkFallbackTelemetry"
  shows "fst (periodic_packet roll_first event_only now_ms (b\<lparr>bd_cache := forget_stale now_ms (bd_cache b)\<rparr>) r) =
    fst (periodic_packet roll_first event_only now_ms b r)"
proof -
  let ?b = "b\<lparr>bd_cache := forget_stale now_ms (bd_cache b)\<rparr>"
  have header: "header_due roll_first now_ms ?b = header_due roll_first now_ms b"
    by (simp add: header_due_def forget_stale_simps)
  have "\<not> (roll_first \<and> roll_due now_ms (bd_cache b)) \<Longrightarrow> \<not> bd_recovery_beacon_active b \<Longrightarrow>
      state_shown now_ms (bd_cache b) \<noteq> MsUnknown"
    using assms by (auto simp: header_due_def)
  then have "packet_content roll_first now_ms ?b r = packet_content roll_first now_ms b r"
    by (auto simp: packet_content_def Let_def forget_stale_simps command_receive_of_def flight_of_def inject_link_health_def)
  moreover have "events_sent roll_first now_ms ?b = events_sent roll_first now_ms b"
    by (simp add: events_sent_def header forget_stale_simps)
  ultimately show ?thesis
    by (simp add: periodic_packet_content forget_stale_simps split: sum.split)
qed

subsection \<open>A flight packet\<close>

text \<open>The Mission board is in the control phase and has reported the event with flag 0.\<close>

definition demo_status :: mission_status_telemetry where
  "demo_status = \<lparr>ms_sequence = 1, ms_state = MsControl, ms_status = 0, ms_config = 0,
     ms_fin_mode = the (fin_mode_decode 0), ms_para_mode = the (para_mode_decode 0), ms_para_angle = 0\<rparr>"

definition demo_cache :: can_cache where
  "demo_cache = snd (update_cache (RxMissionEvent (demo_event 1 1)) 900
     (snd (update_cache (RxMissionStatus demo_status) 900 new_cache)))"

definition demo_board :: list_board where
  "demo_board = list_start\<lparr>bd_cache := demo_cache\<rparr>"

lemma demo_cache_built: "cache_built demo_cache"
  unfolding demo_cache_def
proof (rule built_frame [where ident = "0x020" and data = "[1, 1, 0, 3, 1, 0, 2, 0]"],
    rule built_frame [where ident = "0x102" and data = "[1, 3, 0, 0, 0, 0, 0, 0]"], rule built_new)
  show "decode_standard 0x102 [1, 3, 0, 0, 0, 0, 0, 0] = Inr (RxMissionStatus demo_status)" by code_simp
  show "decode_standard 0x020 [1, 1, 0, 3, 1, 0, 2, 0] = Inr (RxMissionEvent (demo_event 1 1))" by code_simp
qed

lemma demo_header: "header_due False 1000 demo_board = HControl" "bd_can_fallback_health demo_board = 0"
  "bit (event_flags_latched demo_cache) 0"
  by code_simp+

lemma demo_packet: "\<exists>packet. fst (periodic_packet False False 1000 demo_board initial_radio) = Some packet"
proof -
  have "gnss_inv (Serving, new_gnss_manager, initial_gnss (5 :: nat, [] :: bytes list))"
    by (rule gnss_inv_reachable [where fl = fixed_ops and ops = list_channel]) (rule rtranclp.rtrancl_refl)
  then have "telemetry_coded (rst_gnss_telemetry initial_radio)"
    by (simp add: gnss_inv_def initial_gnss_def initial_radio_def)
  moreover have "cache_valid (bd_cache demo_board)"
    using cache_built_valid [OF demo_cache_built] by (simp add: demo_board_def)
  moreover have "bd_can_fallback_health demo_board \<le> 6" by (simp add: demo_header)
  ultimately obtain frame where "encode (packet_content False 1000 demo_board initial_radio) = Inr frame"
    using packet_encoded by blast
  then show ?thesis by (simp add: periodic_packet_content)
qed

lemma periodic_packet_reaches_ground_witness:
  "\<exists>packet shown. fst (periodic_packet False False 1000 demo_board initial_radio) = Some packet \<and>
     ground_decode (drop 3 (as_bytes (pp_frame packet))) = Some shown \<and> header_of shown = HControl"
proof -
  have built: "cache_built (bd_cache demo_board)" using demo_cache_built by (simp add: demo_board_def)
  have gnss: "rst_gnss_telemetry initial_radio = gs_telemetry (initial_gnss (5, []))"
    by (simp add: initial_radio_def initial_gnss_def)
  have health: "bd_can_fallback_health demo_board \<in> {0, fallback_health_code RuntimeNormal HealthActive}"
    by (simp add: demo_header)
  show ?thesis
    using periodic_packet_reaches_ground [OF built rtranclp.rtrancl_refl [of "gnss_step fixed_ops list_channel"] gnss health,
        of False False 1000]
    by (auto simp: demo_header split: option.splits)
qed

text \<open>
  The packet shows flag 0. With no event since, the flag is cleared; when the event was raised
  again, with a new sequence number, while the packet was on its way, the flag stays.
\<close>

lemma cleared_events_were_shown_witness:
  "\<exists>packet f. fst (periodic_packet False False 1000 demo_board initial_radio) = Some packet \<and>
     ground_decode (drop 3 (as_bytes (pp_frame packet))) = Some (PFlight f) \<and> bit (ft_status f) 9 \<and>
     event_flags_latched (clear_event_flags (pp_transmitted_events packet) (pp_event_revision packet)
       (receive_all [(RxMissionEvent (demo_event 2 1), 950)] demo_cache)) = 1"
proof -
  obtain packet where packet: "fst (periodic_packet False False 1000 demo_board initial_radio) = Some packet"
    using demo_packet by blast
  let ?again = "[(RxMissionEvent (demo_event 2 1), 950)]"
  have "events_sent False 1000 demo_board = 1" by code_simp
  then have sent: "pp_transmitted_events packet = 1" "pp_event_revision packet = event_revision demo_cache"
    using periodic_packet_Some [OF packet] by (simp_all add: demo_board_def)
  then have cleared: "\<not> bit (event_flags_latched
      (clear_event_flags (pp_transmitted_events packet) (pp_event_revision packet) demo_cache)) 0"
    by (simp add: clear_event_flags_def bit_simps)
  have since: "accepted (last_event_sequence (bd_cache demo_board)) (events_of ?again) = [1]"
    and latched: "event_flags_latched (bd_cache demo_board) = 1" "bd_cache demo_board = demo_cache"
    by code_simp+
  then have "length (accepted (last_event_sequence (bd_cache demo_board)) (events_of ?again)) < 2 ^ 32" by simp
  note shown = cleared_events_were_shown [OF packet this]
  from shown cleared demo_header(3) since latched packet show ?thesis
    by (fastforce simp: event_bit_def)
qed

lemma stale_never_sent_witness:
  "\<exists>packet. fst (periodic_packet False False 1000
     (demo_board\<lparr>bd_cache := forget_stale 1000 (bd_cache demo_board)\<rparr>) initial_radio) = Some packet"
  using demo_packet stale_never_sent [of False 1000 demo_board] by (simp add: demo_header)

end
