(* ===== verification/RadioReceive.thy ===== *)
theory RadioReceive
  imports RadioPackets
begin

section \<open>The receiving radio task (src/tasks/lora\_task\_base.rs)\<close>

text \<open>
  \<open>lora_rx_task\<close> reads up to 32 bytes at a time from the radio and pushes them one by one into
  the frame buffer. An emergency stop goes to the safety queue of the CAN task, and the task waits
  there while that queue is full; every other command goes to the command task, or is counted as
  dropped when its queue is full. \<open>rx_place\<close> is where the task is: waiting for bytes, handling
  the rest of a read, or waiting to send an emergency stop. Its queue to the command task is a
  parameter like the queues of \<open>board\<close>.
\<close>

datatype rx_place = Reading | Handling bytes | SendingSafety can_tx_request bytes

record rx_task =
  rt_place :: rx_place
  rt_frame :: uplink_frame_buffer

definition new_rx_task :: rx_task where
  "new_rx_task = \<lparr>rt_place = Reading, rt_frame = new_uplink_buffer\<rparr>"

text \<open>What one byte leads to.\<close>

datatype rx_outcome =
  NothingYet | SafetyRequest can_tx_request | Forwarded uplink_command bool | Refused uplink_decode_error

text \<open>A successful read: the bytes are counted, and the transmitting task is told of the activity.\<close>

definition bytes_received :: "u64 \<Rightarrow> bytes \<Rightarrow> radio_statics \<Rightarrow> radio_statics" where
  "bytes_received now bytes r =
     (let r = r\<lparr>rst_rx_byte_count := rst_rx_byte_count r + of_nat (length bytes)\<rparr>
      in if bytes \<noteq> [] then r\<lparr>rst_rx_activity := Some now\<rparr> else r)"

definition safety_request :: "uplink_command \<Rightarrow> can_tx_request option" where
  "safety_request command =
     (case command of
        UpActuatorEmergency transaction_id \<Rightarrow> Some \<lparr>ctr_message = ActuatorEmergencyStop transaction_id\<rparr>
      | UpLiftoffDetectionEmergency transaction_id \<Rightarrow> Some \<lparr>ctr_message = LiftoffEmergencyStop transaction_id\<rparr>
      | _ \<Rightarrow> None)"

definition handle_byte ::
  "(uplink_command, 'u) channel_ops \<Rightarrow> u64 \<Rightarrow> u8 \<Rightarrow> uplink_frame_buffer \<times> 'u \<times> radio_statics \<Rightarrow>
   rx_outcome \<times> uplink_frame_buffer \<times> 'u \<times> radio_statics" where
  "handle_byte uplink now byte s =
     (case s of (frame, u, r) \<Rightarrow>
        case push_uplink frame byte of
          (None, frame) \<Rightarrow> (NothingYet, frame, u, r)
        | (Some result, frame) \<Rightarrow>
            let r = r\<lparr>rst_rx_activity := Some now\<rparr>
            in case result of
                 Inr command \<Rightarrow>
                   let r = r\<lparr>rst_rx_success_count := rst_rx_success_count r + 1\<rparr>
                   in (case safety_request command of
                         Some request \<Rightarrow> (SafetyRequest request, frame, u, r)
                       | None \<Rightarrow>
                           let (taken, u) = try_send uplink command u
                           in (Forwarded command taken, frame, u,
                               if taken then r
                               else r\<lparr>rst_command_drop_count := rst_command_drop_count r + 1\<rparr>))
               | Inl error \<Rightarrow>
                   (Refused error, frame, u, r\<lparr>rst_rx_error_count := rst_rx_error_count r + 1\<rparr>))"

definition read_failed :: "uplink_frame_buffer \<times> radio_statics \<Rightarrow> uplink_frame_buffer \<times> radio_statics" where
  "read_failed s =
     (case s of (frame, r) \<Rightarrow> (reset_uplink frame, r\<lparr>rst_rx_error_count := rst_rx_error_count r + 1\<rparr>))"

subsection \<open>The task among the others\<close>

text \<open>
  One step of the task between two points where it can be suspended, labelled with what is seen
  of it. In a step \<open>Elsewhere\<close> the other tasks change everything they share with it, in any way.
\<close>

datatype rx_label = ReadBytes bytes | ReadFailed | Handled rx_outcome | Sent can_tx_request | ReadDone | Elsewhere

type_synonym ('u, 'l, 'c, 'r, 'g) rx_state = "rx_task \<times> 'u \<times> ('l, 'c, 'r, 'g) board \<times> radio_statics"

fun after_byte :: "rx_outcome \<Rightarrow> bytes \<Rightarrow> rx_place" where
  "after_byte (SafetyRequest request) rest = SendingSafety request rest"
| "after_byte _ rest = Handling rest"

inductive rx_step ::
  "('l, 'c, 'r, 'g) board_ops \<Rightarrow> (uplink_command, 'u) channel_ops \<Rightarrow>
   ('u, 'l, 'c, 'r, 'g) rx_state \<Rightarrow> rx_label \<Rightarrow> ('u, 'l, 'c, 'r, 'g) rx_state \<Rightarrow> bool"
  for ops uplink where
  reads: "length bytes \<le> 32 \<Longrightarrow>
    rx_step ops uplink (\<lparr>rt_place = Reading, rt_frame = f\<rparr>, u, b, r) (ReadBytes bytes)
      (\<lparr>rt_place = Handling bytes, rt_frame = f\<rparr>, u, b, bytes_received now bytes r)"
| fails: "read_failed (f, r) = (f', r') \<Longrightarrow>
    rx_step ops uplink (\<lparr>rt_place = Reading, rt_frame = f\<rparr>, u, b, r) ReadFailed
      (\<lparr>rt_place = Reading, rt_frame = f'\<rparr>, u, b, r')"
| handles: "handle_byte uplink now byte (f, u, r) = (outcome, f', u', r') \<Longrightarrow>
    rx_step ops uplink (\<lparr>rt_place = Handling (byte # rest), rt_frame = f\<rparr>, u, b, r) (Handled outcome)
      (\<lparr>rt_place = after_byte outcome rest, rt_frame = f'\<rparr>, u', b, r')"
| sends: "try_send (can_tx_ops ops) request (bd_can_safety_tx b) = (True, safety) \<Longrightarrow>
    rx_step ops uplink (\<lparr>rt_place = SendingSafety request rest, rt_frame = f\<rparr>, u, b, r) (Sent request)
      (\<lparr>rt_place = Handling rest, rt_frame = f\<rparr>, u, b\<lparr>bd_can_safety_tx := safety\<rparr>, r)"
| all_handled: "rx_step ops uplink (\<lparr>rt_place = Handling [], rt_frame = f\<rparr>, u, b, r) ReadDone
    (\<lparr>rt_place = Reading, rt_frame = f\<rparr>, u, b, r)"
| elsewhere: "rx_step ops uplink (t, u, b, r) Elsewhere (t, u', b', r')"

inductive rx_run ::
  "('l, 'c, 'r, 'g) board_ops \<Rightarrow> (uplink_command, 'u) channel_ops \<Rightarrow>
   ('u, 'l, 'c, 'r, 'g) rx_state \<Rightarrow> rx_label list \<Rightarrow> ('u, 'l, 'c, 'r, 'g) rx_state \<Rightarrow> bool"
  for ops uplink start where
  run_start: "rx_run ops uplink start [] start"
| run_step: "rx_run ops uplink start labels s \<Longrightarrow> rx_step ops uplink s label s' \<Longrightarrow>
    rx_run ops uplink start (labels @ [label]) s'"

subsection \<open>Every command has its outcome\<close>

text \<open>
  The answer a label gives to one result of the frame scanner: an emergency stop is answered when
  it has entered the safety queue, any other command when it was offered to the command task, a
  bad frame when it was counted.
\<close>

fun emergency_of :: "can_tx_message \<Rightarrow> uplink_command option" where
  "emergency_of (ActuatorEmergencyStop transaction_id) = Some (UpActuatorEmergency transaction_id)"
| "emergency_of (LiftoffEmergencyStop transaction_id) = Some (UpLiftoffDetectionEmergency transaction_id)"
| "emergency_of _ = None"

fun answered :: "rx_label \<Rightarrow> (uplink_decode_error + uplink_command) option" where
  "answered (Sent request) = map_option Inr (emergency_of (ctr_message request))"
| "answered (Handled (Forwarded command taken)) = Some (Inr command)"
| "answered (Handled (Refused error)) = Some (Inl error)"
| "answered _ = None"

fun unsent :: "rx_place \<Rightarrow> (uplink_decode_error + uplink_command) list" where
  "unsent (SendingSafety request rest) = map Inr (List.map_filter emergency_of [ctr_message request])"
| "unsent _ = []"

fun unhandled :: "rx_place \<Rightarrow> bytes" where
  "unhandled Reading = []"
| "unhandled (Handling bytes) = bytes"
| "unhandled (SendingSafety request bytes) = bytes"

text \<open>What was received: the bytes since the last failed read, and the results of those before.\<close>

fun heard :: "rx_label \<Rightarrow> (uplink_decode_error + uplink_command) list \<times> bytes \<Rightarrow>
    (uplink_decode_error + uplink_command) list \<times> bytes" where
  "heard (ReadBytes bytes) (earlier, segment) = (earlier, segment @ bytes)"
| "heard ReadFailed (earlier, segment) = (earlier @ fst (scan segment), [])"
| "heard _ s = s"

lemma push_all_snoc:
  "push_all f (bytes @ [byte]) =
     (case push_all f bytes of (rs, f) \<Rightarrow> case push_uplink f byte of (out, f) \<Rightarrow>
        (rs @ (case out of None \<Rightarrow> [] | Some r \<Rightarrow> [r]), f))"
  by (induction bytes arbitrary: f) (auto split: prod.splits option.splits)

lemma handle_byte_outcome:
  assumes "handle_byte uplink now byte (f, u, r) = (outcome, f', u', r')"
  shows "f' = snd (push_uplink f byte)"
    "(case fst (push_uplink f byte) of None \<Rightarrow> [] | Some result \<Rightarrow> [result]) =
       List.map_filter answered [Handled outcome] @ unsent (after_byte outcome rest)"
    "unhandled (after_byte outcome rest) = rest"
  using assms
  by (auto simp: handle_byte_def safety_request_def Let_def List.map_filter_simps
      split: prod.splits option.splits sum.splits uplink_command.splits)

text \<open>
  The invariant of a run: the labels so far, with an emergency stop that still waits, are the
  results the frame buffer has reported, and it was fed exactly the bytes handled so far.
\<close>

definition rx_inv :: "rx_label list \<Rightarrow> rx_task \<Rightarrow> bool" where
  "rx_inv labels t \<longleftrightarrow>
     (case fold heard labels ([], []) of (earlier, segment) \<Rightarrow>
        \<exists>handled fresh rs. segment = handled @ unhandled (rt_place t) \<and>
          uplink_inv fresh \<and> content fresh = [] \<and> push_all fresh handled = (rs, rt_frame t) \<and>
          List.map_filter answered labels @ unsent (rt_place t) = earlier @ rs)"

lemma rx_invI:
  "fold heard labels ([], []) = (earlier, handled @ unhandled (rt_place t)) \<Longrightarrow> uplink_inv fresh \<Longrightarrow>
   content fresh = [] \<Longrightarrow> push_all fresh handled = (rs, rt_frame t) \<Longrightarrow>
   List.map_filter answered labels @ unsent (rt_place t) = earlier @ rs \<Longrightarrow> rx_inv labels t"
  by (auto simp: rx_inv_def)

lemmas map_filter_snoc = map_filter_append [of f xs "[x]" for f xs x]

lemma rx_inv_step:
  assumes "rx_step ops uplink (t, u, b, r) label (t', u', b', r')" "rx_inv labels t"
  shows "rx_inv (labels @ [label]) t'"
proof -
  obtain earlier handled fresh rs where
    heard: "fold heard labels ([], []) = (earlier, handled @ unhandled (rt_place t))"
    and fresh: "uplink_inv fresh" "content fresh = []"
    and push: "push_all fresh handled = (rs, rt_frame t)"
    and answers: "List.map_filter answered labels @ unsent (rt_place t) = earlier @ rs"
    using assms(2) by (auto simp: rx_inv_def split: prod.splits)
  from assms(1) show ?thesis
  proof (cases rule: rx_step.cases)
    case (reads bytes f now)
    then show ?thesis using heard fresh push answers
      by (intro rx_invI [of _ earlier handled _ fresh rs]) (simp_all add: map_filter_snoc List.map_filter_simps)
  next
    case (fails f f')
    have "fst (scan handled) = rs" using push_all_scan [OF fresh(1), of handled] push fresh(2) by simp
    moreover have "uplink_inv f" using push_all_scan [OF fresh(1), of handled] push fails by simp
    ultimately show ?thesis using fails heard fresh push answers
      by (intro rx_invI [of _ "earlier @ rs" "[]" _ f' "[]"])
        (auto simp: map_filter_snoc List.map_filter_simps read_failed_def reset_uplink_def uplink_inv_def content_def)
  next
    case (handles now byte f outcome f' rest)
    note out = handle_byte_outcome(1) [OF handles(5)] handle_byte_outcome(2,3) [OF handles(5), where rest = rest]
    show ?thesis using handles heard fresh push answers out
      by (intro rx_invI [of _ earlier "handled @ [byte]" _ fresh
            "rs @ (case fst (push_uplink f byte) of None \<Rightarrow> [] | Some result \<Rightarrow> [result])"])
        (auto simp: map_filter_snoc push_all_snoc split: prod.splits)
  next
    case (sends request safety rest f)
    then show ?thesis using heard fresh push answers
      by (intro rx_invI [of _ earlier handled _ fresh rs])
        (auto simp: map_filter_snoc List.map_filter_simps split: option.splits)
  next
    case (all_handled f)
    then show ?thesis using heard fresh push answers
      by (intro rx_invI [of _ earlier handled _ fresh rs]) (simp_all add: map_filter_snoc List.map_filter_simps)
  next
    case elsewhere
    then show ?thesis using heard fresh push answers
      by (intro rx_invI [of _ earlier handled _ fresh rs]) (simp_all add: map_filter_snoc List.map_filter_simps)
  qed
qed

lemma rx_inv_run:
  "rx_run ops uplink (new_rx_task, u, b, r) labels s \<Longrightarrow> rx_inv labels (fst s)"
proof (induction rule: rx_run.induct)
  case run_start
  show ?case
    by (rule rx_invI [of _ "[]" "[]" _ new_uplink_buffer "[]"])
      (simp_all add: new_rx_task_def new_uplink_inv List.map_filter_simps)
next
  case (run_step labels s label s')
  then show ?case
    by (cases s; cases s') (auto intro: rx_inv_step)
qed

lemma rx_inv_answers:
  assumes "rx_inv labels t"
  shows "case fold heard labels ([], []) of (earlier, segment) \<Rightarrow>
    \<exists>handled. segment = handled @ unhandled (rt_place t) \<and>
      List.map_filter answered labels @ unsent (rt_place t) = earlier @ fst (scan handled)"
proof -
  from assms obtain earlier handled fresh rs where
    heard: "fold heard labels ([], []) = (earlier, handled @ unhandled (rt_place t))"
    and fresh: "uplink_inv fresh" "content fresh = []" "push_all fresh handled = (rs, rt_frame t)"
    and answers: "List.map_filter answered labels @ unsent (rt_place t) = earlier @ rs"
    by (auto simp: rx_inv_def split: prod.splits)
  have "rs = fst (scan handled)" using push_all_scan [OF fresh(1), of handled] fresh by simp
  with heard answers show ?thesis by simp
qed


subsection \<open>An emergency stop in two reads\<close>

datatype rx_move = Read bytes | Handle | Send | Finish

fun rx_do ::
  "('l, 'c, 'r, 'g) board_ops \<Rightarrow> (uplink_command, 'u) channel_ops \<Rightarrow> rx_move \<Rightarrow>
   ('u, 'l, 'c, 'r, 'g) rx_state \<Rightarrow> (rx_label \<times> ('u, 'l, 'c, 'r, 'g) rx_state) option" where
  "rx_do ops uplink move (t, u, b, r) =
     (case (move, rt_place t) of
        (Read bytes, Reading) \<Rightarrow>
          if length bytes \<le> 32 then Some (ReadBytes bytes, t\<lparr>rt_place := Handling bytes\<rparr>, u, b, bytes_received 0 bytes r)
          else None
      | (Handle, Handling (byte # rest)) \<Rightarrow>
          (case handle_byte uplink 0 byte (rt_frame t, u, r) of (outcome, f, u, r) \<Rightarrow>
             Some (Handled outcome, \<lparr>rt_place = after_byte outcome rest, rt_frame = f\<rparr>, u, b, r))
      | (Send, SendingSafety request rest) \<Rightarrow>
          (case try_send (can_tx_ops ops) request (bd_can_safety_tx b) of (taken, safety) \<Rightarrow>
             if taken then Some (Sent request, t\<lparr>rt_place := Handling rest\<rparr>, u, b\<lparr>bd_can_safety_tx := safety\<rparr>, r)
             else None)
      | (Finish, Handling []) \<Rightarrow> Some (ReadDone, t\<lparr>rt_place := Reading\<rparr>, u, b, r)
      | _ \<Rightarrow> None)"

fun rx_play ::
  "('l, 'c, 'r, 'g) board_ops \<Rightarrow> (uplink_command, 'u) channel_ops \<Rightarrow> rx_move list \<Rightarrow>
   rx_label list \<times> ('u, 'l, 'c, 'r, 'g) rx_state \<Rightarrow> (rx_label list \<times> ('u, 'l, 'c, 'r, 'g) rx_state) option" where
  "rx_play ops uplink [] s = Some s"
| "rx_play ops uplink (move # moves) (labels, s) =
     (case rx_do ops uplink move s of
        None \<Rightarrow> None
      | Some (label, s') \<Rightarrow> rx_play ops uplink moves (labels @ [label], s'))"

lemma rx_do_step: "rx_do ops uplink move s = Some (label, s') \<Longrightarrow> rx_step ops uplink s label s'"
proof -
  assume a: "rx_do ops uplink move s = Some (label, s')"
  obtain t u b r where s: "s = (t, u, b, r)" by (cases s) auto
  obtain p f where t: "t = \<lparr>rt_place = p, rt_frame = f\<rparr>" by (cases t) auto
  show ?thesis using a unfolding s t
    by (cases move; cases p) (auto split: list.splits prod.splits if_splits intro: rx_step.intros)
qed

lemma rx_play_run:
  "rx_play ops uplink moves (labels, s) = Some (labels', s') \<Longrightarrow> rx_run ops uplink start labels s \<Longrightarrow>
   rx_run ops uplink start labels' s'"
proof (induction moves arbitrary: labels s)
  case (Cons move moves)
  then show ?case
    by (auto split: option.splits prod.splits dest!: rx_do_step dest: rx_run.run_step)
qed simp

definition demo_emergency :: bytes where
  "demo_emergency = uplink_wire (UpActuatorEmergency 7)"

definition demo_moves :: "rx_move list" where
  "demo_moves = [Read (0x12 # take 4 demo_emergency)] @ replicate 5 Handle @ [Finish, Read (drop 4 demo_emergency)]
     @ replicate 7 Handle @ [Send, Finish]"

lemma demo_moves_run:
  "case rx_play list_ops list_channel demo_moves ([], new_rx_task, (8, []), list_start, initial_radio) of
     None \<Rightarrow> False
   | Some (labels, t, u, b, r) \<Rightarrow> rt_place t = Reading \<and> fold heard labels ([], []) = ([], 0x12 # demo_emergency) \<and>
       snd (bd_can_safety_tx b) = [\<lparr>ctr_message = ActuatorEmergencyStop 7\<rparr>]"
  by code_simp


end
