(* ===== verification/RadioHardware.thy ===== *)
theory RadioHardware
  imports RadioPackets
begin

section \<open>Putting a frame on the air (src/tasks/lora\_task\_base.rs)\<close>

text \<open>
  The steps of one transmission at the radio module: wait until its AUX pin is high, keep silent
  for 60 ms after the last received byte, write the frame to the UART, and see AUX go low and high
  again. The module, the UART and the clock are outside the program; what they answer is an
  argument of each function. \<open>Instant\<close> counts microseconds (the tick rate of esp-rtos), so
  conversions from and to microseconds are the identity.
\<close>

definition LORA_RX_TX_GUARD_MS :: u64 where "LORA_RX_TX_GUARD_MS = 60"

text \<open>\<open>Duration::from_millis\<close> in microseconds.\<close>

definition from_millis :: "u64 \<Rightarrow> u64" where
  "from_millis ms = ms * 1000"

text \<open>
  A look at the AUX pin: its level at once, whether the wanted level came before the timeout,
  and whether the pin still had it then.
\<close>

record aux_answer =
  aux_at_once :: bool
  aux_in_time :: bool
  aux_still :: bool

definition aux_timeout :: "radio_statics \<Rightarrow> radio_statics" where
  "aux_timeout r = r\<lparr>rst_aux_timeout_count := rst_aux_timeout_count r + 1\<rparr>"

definition wait_for_aux_high :: "aux_answer \<Rightarrow> radio_statics \<Rightarrow> bool \<times> radio_statics" where
  "wait_for_aux_high aux r =
     (if aux_at_once aux then (True, r)
      else if aux_in_time aux \<and> aux_still aux then (True, r)
      else (False, aux_timeout r))"

definition wait_for_aux_low :: "aux_answer \<Rightarrow> radio_statics \<Rightarrow> bool \<times> radio_statics" where
  "wait_for_aux_low aux r =
     (if aux_at_once aux then (True, r)
      else if aux_in_time aux \<and> aux_still aux then (True, r)
      else (False, aux_timeout r))"

subsection \<open>The guard time after reception\<close>

text \<open>
  What one turn of the loop of \<open>wait_for_rx_guard\<close> meets: the time, and then either the activity
  signal while the timer runs, or the timer, with the signal taken after that. A timer fires at its
  deadline or, when the executor is busy, at the later time \<open>gd_fired_at\<close>.
\<close>

record guard_turn =
  gd_now :: u64
  gd_signalled :: "u64 option"
  gd_fired_at :: u64
  gd_taken :: "u64 option"

text \<open>
  The result is the time at which the guard is over together with the last activity; \<open>None\<close>: the
  turns are used up, the task is still waiting (or the deadline is not representable).
\<close>

fun guard_loop :: "guard_turn list \<Rightarrow> u64 \<Rightarrow> (u64 \<times> u64) option" where
  "guard_loop [] last_rx = None"
| "guard_loop (turn # turns) last_rx =
     (case checked_add last_rx (from_millis LORA_RX_TX_GUARD_MS) of
        None \<Rightarrow> None
      | Some deadline \<Rightarrow>
          if deadline \<le> gd_now turn
          then (case gd_taken turn of
                  None \<Rightarrow> Some (gd_now turn, last_rx)
                | Some updated_rx \<Rightarrow> guard_loop turns updated_rx)
          else (case gd_signalled turn of
                  Some updated_rx \<Rightarrow> guard_loop turns updated_rx
                | None \<Rightarrow>
                    (case gd_taken turn of
                       None \<Rightarrow> Some (max deadline (gd_fired_at turn), last_rx)
                     | Some updated_rx \<Rightarrow> guard_loop turns updated_rx)))"

definition wait_for_rx_guard :: "guard_turn list \<Rightarrow> radio_statics \<Rightarrow> (u64 \<times> u64) option option \<times> radio_statics" where
  "wait_for_rx_guard turns r =
     (case rst_rx_activity r of
        None \<Rightarrow> (Some None, r)
      | Some last_rx \<Rightarrow> (map_option Some (guard_loop turns last_rx), r\<lparr>rst_rx_activity := None\<rparr>))"

definition prepare_transmit ::
  "aux_answer \<Rightarrow> guard_turn list \<Rightarrow> aux_answer \<Rightarrow> radio_statics \<Rightarrow> (bool \<times> radio_statics) option" where
  "prepare_transmit aux turns aux' r =
     (case wait_for_aux_high aux r of (ready, r) \<Rightarrow>
        if \<not> ready then Some (False, r)
        else case wait_for_rx_guard turns r of
               (None, r) \<Rightarrow> None
             | (Some _, r) \<Rightarrow> Some (wait_for_aux_high aux' r))"

subsection \<open>Writing the frame\<close>

text \<open>
  \<open>write_all\<close> against the answers of the UART driver, with the bytes it has put on the wire; the
  driver never reports more bytes than it was given (else the slice panics). \<open>None\<close>: the driver
  has not answered yet.
\<close>

datatype write_answer = Wrote nat | WriteFailed

datatype write_result = WriteDone bool | WriteError

fun write_all :: "write_answer list \<Rightarrow> bytes \<Rightarrow> (write_result \<times> bytes) option" where
  "write_all answers [] = Some (WriteDone True, [])"
| "write_all [] (b # bs) = None"
| "write_all (WriteFailed # answers) (b # bs) = Some (WriteError, [])"
| "write_all (Wrote n # answers) (b # bs) =
     (if n = 0 then Some (WriteDone False, [])
      else if length (b # bs) < n then None
      else map_option (\<lambda>(result, out). (result, take n (b # bs) @ out)) (write_all answers (drop n (b # bs))))"

record tx_answers =
  ta_writes :: "write_answer list"
  ta_flushed :: bool
  ta_aux_low :: aux_answer
  ta_aux_high :: aux_answer

definition tx_error :: "radio_statics \<Rightarrow> radio_statics" where
  "tx_error r = r\<lparr>rst_tx_error_count := rst_tx_error_count r + 1\<rparr>"

text \<open>The result, the bytes that went to the radio module, and the counters.\<close>

definition transmit_frame :: "tx_answers \<Rightarrow> lora_frame \<Rightarrow> radio_statics \<Rightarrow> (bool \<times> bytes \<times> radio_statics) option" where
  "transmit_frame a frame r =
     (case write_all (ta_writes a) (as_bytes frame) of
        None \<Rightarrow> None
      | Some (WriteDone True, out) \<Rightarrow>
          Some (if \<not> ta_flushed a then (False, out, tx_error r)
                else case wait_for_aux_low (ta_aux_low a) r of (low, r) \<Rightarrow>
                  if \<not> low then (False, out, tx_error r)
                  else case wait_for_aux_high (ta_aux_high a) r of (high, r) \<Rightarrow>
                    if high then (True, out, r\<lparr>rst_tx_success_count := rst_tx_success_count r + 1\<rparr>)
                    else (False, out, tx_error r))
      | Some (_, out) \<Rightarrow> Some (False, out, tx_error r))"

subsection \<open>What reaches the radio module\<close>

lemma guard_loop_silence:
  "guard_loop turns last_rx = Some (t, l) \<Longrightarrow> unat l + 60000 \<le> unat t \<and> (l = last_rx \<or> l \<in>
     (\<Union>turn \<in> set turns. set_option (gd_signalled turn) \<union> set_option (gd_taken turn)))"
proof (induction turns arbitrary: last_rx)
  case (Cons turn turns)
  have guard: "from_millis LORA_RX_TX_GUARD_MS = 60000"
    by (simp add: from_millis_def LORA_RX_TX_GUARD_MS_def)
  from Cons.prems obtain deadline where d: "checked_add last_rx 60000 = Some deadline"
    by (auto simp: guard split: option.splits)
  then have deadline: "unat deadline = unat last_rx + 60000" by (simp add: checked_add_Some)
  show ?case
    using Cons.prems Cons.IH d deadline
    by (auto simp: guard word_le_nat_alt max_def split: option.splits if_splits)
qed simp

text \<open>
  The radio module is left alone for 60 ms after reception: when the guard wait is over, at least
  60 ms have passed since the last activity the receiving task signalled before or during the wait.
\<close>

theorem silence_before_transmission:
  assumes "wait_for_rx_guard turns r = (Some (Some (t, l)), r')"
  shows "unat l + 60000 \<le> unat t \<and> rst_rx_activity r' = None \<and>
    (Some l = rst_rx_activity r \<or>
     (\<exists>turn \<in> set turns. Some l = gd_signalled turn \<or> Some l = gd_taken turn))"
proof -
  from assms obtain last_rx where "rst_rx_activity r = Some last_rx" "guard_loop turns last_rx = Some (t, l)"
    "r' = r\<lparr>rst_rx_activity := None\<rparr>"
    by (auto simp: wait_for_rx_guard_def split: option.splits)
  with guard_loop_silence [OF this(2)] show ?thesis by fastforce
qed

lemma write_all_prefix:
  "write_all answers bs = Some (result, out) \<Longrightarrow>
     take (length out) bs = out \<and> (result = WriteDone True \<longleftrightarrow> out = bs)"
proof (induction answers bs arbitrary: out rule: write_all.induct)
  case (4 n answers b bs)
  let ?xs = "b # bs"
  from "4.prems" obtain rest where n: "n \<noteq> 0 \<Longrightarrow> n \<le> length ?xs"
    and rest: "n \<noteq> 0 \<Longrightarrow> write_all answers (drop n ?xs) = Some (result, rest) \<and> out = take n ?xs @ rest"
    by (auto split: if_splits)
  show ?case
  proof (cases "n = 0")
    case False
    then have ih: "take (length rest) (drop n ?xs) = rest" "result = WriteDone True \<longleftrightarrow> rest = drop n ?xs"
      using "4.IH" [of rest] rest n by (simp_all add: not_less)
    have "take (length out) ?xs = take n ?xs @ take (length rest) (drop n ?xs)"
      using rest n False by (simp add: take_add min_absorb2)
    moreover have "take n ?xs @ rest = ?xs \<longleftrightarrow> rest = drop n ?xs"
      by (metis append_take_drop_id same_append_eq)
    ultimately show ?thesis using ih rest False by simp
  qed (use "4.prems" in auto)
qed auto

text \<open>
  A transmission that counts as a success has put the whole frame on the wire, every byte once
  and in order, however the driver cut the writes. A transmission that fails (a write without
  progress, a write or flush error, AUX not seen low or not high again) has written a prefix and
  is counted as one error.
\<close>

theorem success_is_whole_frame:
  assumes "transmit_frame a frame r = Some (ok, out, r')"
  shows "take (length out) (as_bytes frame) = out \<and> (ok \<longrightarrow> out = as_bytes frame) \<and>
    rst_tx_success_count r' = rst_tx_success_count r + (if ok then 1 else 0) \<and>
    rst_tx_error_count r' = rst_tx_error_count r + (if ok then 0 else 1)"
proof -
  obtain result where written: "write_all (ta_writes a) (as_bytes frame) = Some (result, out)"
    using assms by (auto simp: transmit_frame_def split: option.splits write_result.splits bool.splits prod.splits if_splits)
  from write_all_prefix [OF written] assms written show ?thesis
    by (cases result; cases "result = WriteDone True")
      (auto simp: transmit_frame_def wait_for_aux_low_def wait_for_aux_high_def aux_timeout_def tx_error_def
        split: bool.splits if_splits prod.splits)
qed

subsection \<open>One transmission\<close>

text \<open>A byte arrives during the wait; the frame is written in two pieces.\<close>

definition demo_turns :: "guard_turn list" where
  "demo_turns =
     [\<lparr>gd_now = 20000, gd_signalled = Some 30000, gd_fired_at = 0, gd_taken = None\<rparr>,
      \<lparr>gd_now = 30000, gd_signalled = None, gd_fired_at = 90100, gd_taken = None\<rparr>]"

lemma silence_before_transmission_witness:
  "unat (30000 :: u64) + 60000 \<le> unat (90100 :: u64) \<and>
   wait_for_rx_guard demo_turns (initial_radio\<lparr>rst_rx_activity := Some 1000\<rparr>) =
     (Some (Some (90100, 30000)), initial_radio)"
proof -
  have run: "wait_for_rx_guard demo_turns (initial_radio\<lparr>rst_rx_activity := Some 1000\<rparr>) =
      (Some (Some (90100, 30000)), initial_radio)"
    by code_simp
  from silence_before_transmission [OF run] run show ?thesis by simp
qed

definition demo_answers :: tx_answers where
  "demo_answers = \<lparr>ta_writes = [Wrote 2, Wrote 1], ta_flushed = True,
     ta_aux_low = \<lparr>aux_at_once = False, aux_in_time = True, aux_still = True\<rparr>,
     ta_aux_high = \<lparr>aux_at_once = True, aux_in_time = False, aux_still = False\<rparr>\<rparr>"

lemma success_is_whole_frame_witness:
  "\<exists>out r. transmit_frame demo_answers \<lparr>lf_bytes = [1, 2, 3, 4], lf_length = 3\<rparr> initial_radio = Some (True, out, r) \<and>
     out = [1, 2, 3] \<and> rst_tx_success_count r = 1"
proof -
  have "case transmit_frame demo_answers \<lparr>lf_bytes = [1, 2, 3, 4], lf_length = 3\<rparr> initial_radio of
      None \<Rightarrow> False | Some (ok, out, r) \<Rightarrow> ok"
    by (simp add: transmit_frame_def demo_answers_def as_bytes_def wait_for_aux_low_def wait_for_aux_high_def)
  then obtain out r where run: "transmit_frame demo_answers \<lparr>lf_bytes = [1, 2, 3, 4], lf_length = 3\<rparr> initial_radio =
      Some (True, out, r)"
    by (auto split: option.splits)
  from success_is_whole_frame [OF run] run show ?thesis
    by (auto simp: as_bytes_def initial_radio_def)
qed

end
