(* ===== verification/RadioSend.thy ===== *)
theory RadioSend
  imports RadioHardware
begin

section \<open>The transmitting radio task (src/tasks/lora\_task\_base.rs)\<close>

text \<open>
  \<open>lora_tx_task\<close> sends one frame per round: the one it deferred in the last round, or the first
  that is ready among the four queues and the periodic packet, in that order of priority. While
  it waits for the radio module a frame of higher priority may replace the chosen one.
  \<open>tx_task\<close> holds the variables that live across rounds, times in microseconds; \<open>tx_place\<close> is the
  await point at which the task is. The functions below are the code between two await points.
\<close>

record tx_task =
  tt_control_roll_cycle_active :: bool
  tt_prefer_control_roll_v2 :: bool
  tt_interval :: u64
  tt_next_tx_at :: u64
  tt_periodic_deadline_valid :: bool
  tt_next_recovery_at :: u64
  tt_pending_recovery :: "lora_tx_envelope option"
  tt_deferred_envelope :: "lora_tx_envelope option"
  tt_periodic_retry_at :: "u64 option"
  tt_recovery_sent_since_periodic :: bool
  tt_roll_signals_taken :: nat

text \<open>\<open>Instant::MAX\<close>.\<close>

definition INSTANT_MAX :: u64 where "INSTANT_MAX = - 1"

definition new_tx_task :: "u64 \<Rightarrow> u64 \<Rightarrow> tx_task" where
  "new_tx_task now now' =
     (let interval = from_millis (periodic_interval_ms False False);
          (next_tx_at, valid) =
            (case checked_add now interval of Some deadline \<Rightarrow> (deadline, True) | None \<Rightarrow> (INSTANT_MAX, False))
      in \<lparr>tt_control_roll_cycle_active = False, tt_prefer_control_roll_v2 = False, tt_interval = interval,
          tt_next_tx_at = next_tx_at, tt_periodic_deadline_valid = valid, tt_next_recovery_at = now',
          tt_pending_recovery = None, tt_deferred_envelope = None, tt_periodic_retry_at = None,
          tt_recovery_sent_since_periodic = False, tt_roll_signals_taken = 0\<rparr>)"

subsection \<open>Choosing a frame\<close>

text \<open>What the top of a round fixes for the rest of it.\<close>

record round_schedule =
  se_at :: u64
  se_retry_selected :: bool
  se_valid :: bool
  se_due :: bool

definition round_schedule_at :: "u64 \<Rightarrow> tx_task \<Rightarrow> round_schedule" where
  "round_schedule_at now t =
     (let selection = select_periodic_deadline (tt_next_tx_at t) (tt_periodic_deadline_valid t) (tt_periodic_retry_at t);
          valid = (if pds_retry_selected selection then tt_periodic_retry_at t \<noteq> None
                   else tt_periodic_deadline_valid t)
      in \<lparr>se_at = pds_deadline_us selection, se_retry_selected = pds_retry_selected selection,
          se_valid = valid, se_due = (valid \<and> pds_deadline_us selection \<le> now)\<rparr>)"

definition begin_round :: "u64 \<Rightarrow> tx_task \<Rightarrow> lora_tx_envelope option \<times> round_schedule \<times> tx_task" where
  "begin_round now t =
     (let se = round_schedule_at now t;
          blocked = (case tt_deferred_envelope t of
              None \<Rightarrow> False
            | Some envelope \<Rightarrow>
                deferred_recovery_blocked (env_source envelope) (tt_recovery_sent_since_periodic t) (se_due se))
      in if blocked then (None, se, t)
         else (tt_deferred_envelope t, se, t\<lparr>tt_deferred_envelope := None\<rparr>))"

definition poll_recovery ::
  "('l, 'c, 'r, 'g) board_ops \<Rightarrow> u64 \<Rightarrow> round_schedule \<Rightarrow> tx_task \<Rightarrow> ('l, 'c, 'r, 'g) board \<Rightarrow>
   (lora_tx_envelope \<times> ('l, 'c, 'r, 'g) board) option" where
  "poll_recovery ops now se t b =
     (if \<not> recovery_allowed (tt_recovery_sent_since_periodic t) (se_due se) then None
      else case tt_pending_recovery t of
             Some frame \<Rightarrow> if tt_next_recovery_at t \<le> now then Some (frame, b) else None
           | None \<Rightarrow>
               (case try_receive (lora_ops ops) (bd_recovery_chunks b) of
                  (Some envelope, q) \<Rightarrow> Some (envelope, b\<lparr>bd_recovery_chunks := q\<rparr>)
                | (None, _) \<Rightarrow> None))"

text \<open>
  \<open>select5\<close> polls its futures from left to right, so the first that is ready wins; with none
  ready the task stays suspended.
\<close>

datatype tx_ready = ReadyEnvelope lora_tx_envelope | ReadyRecovery lora_tx_envelope | ReadyPeriodic | ReadyRoll

definition poll_round ::
  "('l, 'c, 'r, 'g) board_ops \<Rightarrow> u64 \<Rightarrow> round_schedule \<Rightarrow> tx_task \<Rightarrow> ('l, 'c, 'r, 'g) board \<Rightarrow>
   (tx_ready \<times> tx_task \<times> ('l, 'c, 'r, 'g) board) option" where
  "poll_round ops now se t b =
     (case try_receive (lora_ops ops) (bd_emergency_results b) of
        (Some envelope, q) \<Rightarrow> Some (ReadyEnvelope envelope, t, b\<lparr>bd_emergency_results := q\<rparr>)
      | (None, _) \<Rightarrow>
     (case try_receive (lora_ops ops) (bd_command_results b) of
        (Some envelope, q) \<Rightarrow> Some (ReadyEnvelope envelope, t, b\<lparr>bd_command_results := q\<rparr>)
      | (None, _) \<Rightarrow>
     (case try_receive (lora_ops ops) (bd_ground_time_requests b) of
        (Some envelope, q) \<Rightarrow> Some (ReadyEnvelope envelope, t, b\<lparr>bd_ground_time_requests := q\<rparr>)
      | (None, _) \<Rightarrow>
     (case poll_recovery ops now se t b of
        Some (envelope, b) \<Rightarrow> Some (ReadyRecovery envelope, t, b)
      | None \<Rightarrow>
          if se_valid se \<and> se_at se \<le> now then Some (ReadyPeriodic, t, b)
          else if tt_roll_signals_taken t < bd_control_roll_signals b
          then Some (ReadyRoll, t\<lparr>tt_roll_signals_taken := bd_control_roll_signals b\<rparr>, b)
          else None))))"

datatype tx_place =
  AtTop
| Waiting round_schedule
| Making round_schedule bool
| Preparing lora_tx_envelope bool round_schedule
| Sending lora_tx_envelope bool u32
| Clearing lora_tx_envelope

text \<open>
  The recovery branch: a chunk that is not allowed yet is kept as the pending one. Its
  \<open>Instant::now()\<close> is read after that of the poll.
\<close>

definition recovery_chosen :: "u64 \<Rightarrow> round_schedule \<Rightarrow> lora_tx_envelope \<Rightarrow> tx_task \<Rightarrow> tx_place \<times> tx_task" where
  "recovery_chosen now se envelope t =
     (let recovery_ready = tt_pending_recovery t \<noteq> None \<or> tt_next_recovery_at t \<le> now;
          periodic_due = se_valid se \<and> se_at se \<le> now
      in if recovery_ready \<and> recovery_allowed (tt_recovery_sent_since_periodic t) periodic_due
         then (Preparing envelope False se, t\<lparr>tt_pending_recovery := None\<rparr>)
         else (AtTop, t\<lparr>tt_pending_recovery := Some envelope\<rparr>))"

text \<open>The periodic branch up to the call of \<open>periodic_packet\<close>: the deadline is used up.\<close>

definition periodic_chosen :: "round_schedule \<Rightarrow> ('l, 'c, 'r, 'g) board \<Rightarrow> tx_task \<Rightarrow> tx_task" where
  "periodic_chosen se b t =
     (let interval = from_millis (periodic_interval_ms (bd_recovery_beacon_active b) (tt_control_roll_cycle_active t));
          consumption = consume_periodic_selection (tt_next_tx_at t) (se_retry_selected se) interval;
          t = t\<lparr>tt_interval := interval, tt_periodic_retry_at := pdc_retry_at_us consumption\<rparr>
      in if \<not> se_retry_selected se
         then (case pdc_next_regular_deadline_us consumption of
                 Some deadline \<Rightarrow> t\<lparr>tt_next_tx_at := deadline\<rparr>
               | None \<Rightarrow> t\<lparr>tt_periodic_deadline_valid := False\<rparr>)
         else t)"

definition wake ::
  "('l, 'c, 'r, 'g) board_ops \<Rightarrow> u64 \<Rightarrow> u64 \<Rightarrow> round_schedule \<Rightarrow> tx_task \<Rightarrow> ('l, 'c, 'r, 'g) board \<Rightarrow>
   (tx_place \<times> tx_task \<times> ('l, 'c, 'r, 'g) board) option" where
  "wake ops now now' se t b =
     (case poll_round ops now se t b of
        None \<Rightarrow> None
      | Some (ReadyEnvelope envelope, t, b) \<Rightarrow> Some (Preparing envelope False se, t, b)
      | Some (ReadyRecovery envelope, t, b) \<Rightarrow>
          (case recovery_chosen now' se envelope t of (place, t) \<Rightarrow> Some (place, t, b))
      | Some (ReadyPeriodic, t, b) \<Rightarrow> Some (Making se False, periodic_chosen se b t, b)
      | Some (ReadyRoll, t, b) \<Rightarrow> Some (Making se True, t, b))"

subsection \<open>Making the periodic packet\<close>

definition add_periodic_missed_slots :: "u32 \<Rightarrow> radio_statics \<Rightarrow> radio_statics" where
  "add_periodic_missed_slots v r =
     (if v = 0 then r
      else r\<lparr>rst_periodic_missed_slot_count := saturating_add (rst_periodic_missed_slot_count r) v\<rparr>)"

definition skip_overdue_periodic_deadlines ::
  "u64 \<Rightarrow> tx_task \<times> radio_statics \<Rightarrow> u32 option \<times> tx_task \<times> radio_statics" where
  "skip_overdue_periodic_deadlines now s =
     (case s of (t, r) \<Rightarrow>
        case advance_deadline (tt_next_tx_at t) now (tt_interval t) of
          None \<Rightarrow> (None, t, r)
        | Some advance \<Rightarrow>
            (Some (da_missed_slots advance), t\<lparr>tt_next_tx_at := da_next_deadline_us advance\<rparr>,
             add_periodic_missed_slots (da_missed_slots advance) r))"

text \<open>The common shape of both uses: a deadline that cannot be represented ends the schedule.\<close>

definition catch_up :: "u64 \<Rightarrow> tx_task \<times> radio_statics \<Rightarrow> u32 \<times> tx_task \<times> radio_statics" where
  "catch_up now s =
     (case s of (t, r) \<Rightarrow>
        if tt_periodic_deadline_valid t
        then (case skip_overdue_periodic_deadlines now (t, r) of
                (Some missed, t, r) \<Rightarrow> (missed, t, r)
              | (None, t, r) \<Rightarrow> (0, t\<lparr>tt_periodic_deadline_valid := False\<rparr>, r))
        else (0, t, r))"

definition envelope_of_packet :: "periodic_packet_t \<Rightarrow> lora_tx_envelope" where
  "envelope_of_packet packet =
     periodic_envelope (pp_frame packet) (pp_transmitted_events packet) (pp_event_revision packet)"

definition make_packet ::
  "u64 \<Rightarrow> u64 \<Rightarrow> round_schedule \<Rightarrow> bool \<Rightarrow> tx_task \<Rightarrow> ('l, 'c, 'r, 'g) board \<Rightarrow> radio_statics \<Rightarrow>
   tx_place \<times> tx_task \<times> radio_statics" where
  "make_packet now_ms now se roll_event t b r =
     (if roll_event
      then (case periodic_packet True True now_ms b r of
              (Some packet, r) \<Rightarrow> (Preparing (envelope_of_packet packet) False se, t, r)
            | (None, r) \<Rightarrow> (AtTop, t, r))
      else (case periodic_packet (tt_prefer_control_roll_v2 t) False now_ms b r of
              (Some packet, r) \<Rightarrow>
                (Preparing (envelope_of_packet packet) (\<not> se_retry_selected se) se,
                 t\<lparr>tt_control_roll_cycle_active := pp_control_roll_cycle_available packet,
                   tt_prefer_control_roll_v2 :=
                     pp_control_roll_cycle_available packet \<and> \<not> pp_is_control_roll_v2 packet\<rparr>, r)
            | (None, r) \<Rightarrow>
                let t = t\<lparr>tt_recovery_sent_since_periodic :=
                      update_recovery_fairness (tt_recovery_sent_since_periodic t) SrcPeriodic\<rparr>;
                    (_, t, r) = catch_up now (t, r)
                in (AtTop, t, r)))"

subsection \<open>Giving way to a higher priority\<close>

definition take_higher_priority_envelope ::
  "('l, 'c, 'r, 'g) board_ops \<Rightarrow> lora_tx_source \<Rightarrow> bool \<Rightarrow> u64 \<Rightarrow> bool \<Rightarrow> u64 \<Rightarrow> u64 \<Rightarrow>
   lora_tx_envelope option \<times> ('l, 'c, 'r, 'g) board \<Rightarrow>
   lora_tx_envelope option \<times> lora_tx_envelope option \<times> ('l, 'c, 'r, 'g) board" where
  "take_higher_priority_envelope ops selected_source recovery_sent next_recovery_at valid next_periodic_at now s =
     (case s of (pend, b) \<Rightarrow>
      case (if is_higher_priority SrcEmergencyResult selected_source
            then try_receive (lora_ops ops) (bd_emergency_results b) else (None, bd_emergency_results b)) of
        (Some envelope, q) \<Rightarrow> (Some envelope, pend, b\<lparr>bd_emergency_results := q\<rparr>)
      | (None, _) \<Rightarrow>
      (case (if is_higher_priority SrcCommandResult selected_source
             then try_receive (lora_ops ops) (bd_command_results b) else (None, bd_command_results b)) of
        (Some envelope, q) \<Rightarrow> (Some envelope, pend, b\<lparr>bd_command_results := q\<rparr>)
      | (None, _) \<Rightarrow>
      (case (if is_higher_priority SrcGroundTimeRequest selected_source
             then try_receive (lora_ops ops) (bd_ground_time_requests b) else (None, bd_ground_time_requests b)) of
        (Some envelope, q) \<Rightarrow> (Some envelope, pend, b\<lparr>bd_ground_time_requests := q\<rparr>)
      | (None, _) \<Rightarrow>
          let periodic_due = periodic_due_for_reselection selected_source valid (next_periodic_at \<le> now)
          in if is_higher_priority SrcRecovery selected_source \<and> recovery_allowed recovery_sent periodic_due
                \<and> next_recovery_at \<le> now
             then (case pend of
                     Some envelope \<Rightarrow> (Some envelope, None, b)
                   | None \<Rightarrow>
                       (case try_receive (lora_ops ops) (bd_recovery_chunks b) of
                          (Some envelope, q) \<Rightarrow> (Some envelope, None, b\<lparr>bd_recovery_chunks := q\<rparr>)
                        | (None, _) \<Rightarrow> (None, None, b)))
             else (None, pend, b))))"

text \<open>
  The radio module is ready (\<open>prepared\<close>): a frame of higher priority replaces the chosen one,
  which is deferred unless it is periodic.
\<close>

definition reselect ::
  "('l, 'c, 'r, 'g) board_ops \<Rightarrow> u64 \<Rightarrow> lora_tx_envelope \<Rightarrow> bool \<Rightarrow> round_schedule \<Rightarrow>
   tx_task \<Rightarrow> ('l, 'c, 'r, 'g) board \<Rightarrow> radio_statics \<Rightarrow>
   tx_place \<times> tx_task \<times> ('l, 'c, 'r, 'g) board \<times> radio_statics" where
  "reselect ops now envelope regular_selected se t b r =
     (case take_higher_priority_envelope ops (env_source envelope) (tt_recovery_sent_since_periodic t)
             (tt_next_recovery_at t) (se_valid se) (se_at se) now (tt_pending_recovery t, b) of
        (None, pend, b) \<Rightarrow> (Sending envelope False 0, t\<lparr>tt_pending_recovery := pend\<rparr>, b, r)
      | (Some higher_priority, pend, b) \<Rightarrow>
          let t = t\<lparr>tt_pending_recovery := pend\<rparr>;
              t = (if should_defer_preempted (env_source envelope)
                   then t\<lparr>tt_deferred_envelope := Some envelope\<rparr> else t);
              displaced = recovery_displaced_regular_slot (env_source envelope) (env_source higher_priority)
                regular_selected;
              missed = (if regular_selected then preempted_periodic_missed_slots (env_source envelope) else 0)
          in (Sending higher_priority displaced missed, t, b, add_periodic_missed_slots missed r))"

subsection \<open>After the attempt\<close>

definition attempt_done ::
  "u64 \<Rightarrow> u64 \<Rightarrow> bool \<Rightarrow> lora_tx_envelope \<Rightarrow> bool \<Rightarrow> tx_task \<Rightarrow> radio_statics \<Rightarrow>
   tx_place \<times> tx_task \<times> radio_statics" where
  "attempt_done completed_at now transmitted envelope displaced t r =
     (let t = t\<lparr>tt_periodic_retry_at :=
                 periodic_retry_after_nonperiodic_attempt (tt_periodic_retry_at t) completed_at (env_source envelope)\<rparr>;
          is_recovery = (env_source envelope = SrcRecovery);
          gap = from_millis RECOVERY_LOG_INTERVAL_MS;
          t = (if is_recovery
               then t\<lparr>tt_next_recovery_at :=
                      (case recovery_next_eligible_at_us completed_at gap of Some at \<Rightarrow> at | None \<Rightarrow> INSTANT_MAX)\<rparr>
               else t);
          t = t\<lparr>tt_recovery_sent_since_periodic :=
                 update_recovery_fairness (tt_recovery_sent_since_periodic t) (env_source envelope)\<rparr>;
          (overdue_missed, t, r) = catch_up now (t, r);
          displaced_periodic = displaced \<or> is_recovery \<and> overdue_missed \<noteq> 0;
          t = (if displaced_periodic \<and> is_recovery
               then t\<lparr>tt_periodic_retry_at := periodic_retry_after_recovery_us completed_at gap True\<rparr> else t)
      in (if should_clear_periodic_events (env_source envelope) transmitted (env_interval_events envelope)
          then Clearing envelope else AtTop, t, r))"

definition clear_sent_events :: "lora_tx_envelope \<Rightarrow> ('l, 'c, 'r, 'g) board \<Rightarrow> ('l, 'c, 'r, 'g) board" where
  "clear_sent_events envelope b =
     b\<lparr>bd_cache := clear_event_flags (env_interval_events envelope) (env_event_revision envelope) (bd_cache b)\<rparr>"

subsection \<open>The task among the others\<close>

text \<open>
  The state of the task, the statics, and the time at which its last step ended. A step has the
  frames it took from a queue or made, the one whose transmission it ended, and the ones it let
  go. In a step \<open>others\<close> the other tasks change what they share with this one, in any way.
\<close>

datatype tx_event =
  Took lora_tx_envelope | Made lora_tx_envelope | LetGo lora_tx_envelope | Attempted lora_tx_envelope bool u64

type_synonym ('l, 'c, 'r, 'g) tx_state =
  "tx_place \<times> tx_task \<times> ('l, 'c, 'r, 'g) board \<times> radio_statics \<times> u64"

text \<open>The frame an await point holds.\<close>

fun in_hand :: "tx_place \<Rightarrow> lora_tx_envelope option" where
  "in_hand (Preparing envelope _ _) = Some envelope"
| "in_hand (Sending envelope _ _) = Some envelope"
| "in_hand _ = None"

text \<open>What a wake-up took from a queue: a chunk that was already pending was taken before.\<close>

fun taken :: "tx_task \<Rightarrow> tx_ready \<Rightarrow> tx_event list" where
  "taken t (ReadyEnvelope envelope) = [Took envelope]"
| "taken t (ReadyRecovery envelope) = (if tt_pending_recovery t = None then [Took envelope] else [])"
| "taken t _ = []"

text \<open>
  What a reselection took and let go: the replaced frame if it is not deferred, else the frame
  that was deferred before, if there was one.
\<close>

definition reselection_events ::
  "('l, 'c, 'r, 'g) board_ops \<Rightarrow> u64 \<Rightarrow> lora_tx_envelope \<Rightarrow> round_schedule \<Rightarrow> tx_task \<Rightarrow>
   ('l, 'c, 'r, 'g) board \<Rightarrow> tx_event list" where
  "reselection_events ops now envelope se t b =
     (case take_higher_priority_envelope ops (env_source envelope) (tt_recovery_sent_since_periodic t)
             (tt_next_recovery_at t) (se_valid se) (se_at se) now (tt_pending_recovery t, b) of
        (None, _, _) \<Rightarrow> []
      | (Some higher_priority, pend, _) \<Rightarrow>
          (if tt_pending_recovery t \<noteq> None \<and> pend = None then [] else [Took higher_priority]) @
          (if should_defer_preempted (env_source envelope)
           then map LetGo (List.map_filter id [tt_deferred_envelope t]) else [LetGo envelope]))"

text \<open>Each queue holds frames of its own kind, as its producers put them there.\<close>

definition queues_hold ::
  "('l \<Rightarrow> lora_tx_envelope list) \<Rightarrow> ('l, 'c, 'r, 'g) board \<Rightarrow> bool" where
  "queues_hold contents b \<longleftrightarrow>
     (\<forall>e \<in> set (contents (bd_emergency_results b)). env_source e = SrcEmergencyResult) \<and>
     (\<forall>e \<in> set (contents (bd_command_results b)). env_source e = SrcCommandResult) \<and>
     (\<forall>e \<in> set (contents (bd_ground_time_requests b)). env_source e = SrcGroundTimeRequest) \<and>
     (\<forall>e \<in> set (contents (bd_recovery_chunks b)). env_source e = SrcRecovery)"

inductive tx_step ::
  "('l, 'c, 'r, 'g) board_ops \<Rightarrow> ('l \<Rightarrow> lora_tx_envelope list) \<Rightarrow>
   ('l, 'c, 'r, 'g) tx_state \<Rightarrow> tx_event list \<Rightarrow> ('l, 'c, 'r, 'g) tx_state \<Rightarrow> bool"
  for ops contents where
  begins: "clock \<le> now \<Longrightarrow> begin_round now t = (deferred, se, t') \<Longrightarrow>
    tx_step ops contents (AtTop, t, b, r, clock) []
      (case deferred of Some envelope \<Rightarrow> Preparing envelope False se | None \<Rightarrow> Waiting se, t', b, r, now)"
| wakes: "clock \<le> now \<Longrightarrow> now \<le> now' \<Longrightarrow> poll_round ops now se t b = Some (ready, polled) \<Longrightarrow>
    wake ops now now' se t b = Some (p', t', b') \<Longrightarrow>
    tx_step ops contents (Waiting se, t, b, r, clock) (taken t ready) (p', t', b', r, now')"
| makes: "clock \<le> now \<Longrightarrow> now \<le> now' \<Longrightarrow> make_packet (now div 1000) now' se roll_event t b r = (p', t', r') \<Longrightarrow>
    tx_step ops contents (Making se roll_event, t, b, r, clock)
      (case in_hand p' of Some envelope \<Rightarrow> [Made envelope] | None \<Rightarrow> []) (p', t', b, r', now')"
| prepares: "clock \<le> now \<Longrightarrow> prepare_transmit aux turns aux' r = Some (True, r') \<Longrightarrow>
    reselect ops now envelope regular se t b r' = (p', t', b', r'') \<Longrightarrow>
    tx_step ops contents (Preparing envelope regular se, t, b, r, clock)
      (reselection_events ops now envelope se t b) (p', t', b', r'', now)"
| gives_up: "clock \<le> completed_at \<Longrightarrow> completed_at \<le> now \<Longrightarrow>
    prepare_transmit aux turns aux' r = Some (False, r') \<Longrightarrow>
    attempt_done completed_at now False envelope False t r' = (p', t', r'') \<Longrightarrow>
    tx_step ops contents (Preparing envelope regular se, t, b, r, clock) [Attempted envelope False completed_at]
      (p', t', b, r'', now)"
| transmits: "clock \<le> completed_at \<Longrightarrow> completed_at \<le> now \<Longrightarrow>
    transmit_frame answers (env_frame envelope) r = Some (transmitted, out, r') \<Longrightarrow>
    attempt_done completed_at now transmitted envelope displaced t r' = (p', t', r'') \<Longrightarrow>
    tx_step ops contents (Sending envelope displaced missed, t, b, r, clock)
      [Attempted envelope transmitted completed_at] (p', t', b, r'', now)"
| clears: "clock \<le> now \<Longrightarrow>
    tx_step ops contents (Clearing envelope, t, b, r, clock) [] (AtTop, t, clear_sent_events envelope b, r, now)"
| others: "clock \<le> now \<Longrightarrow> queues_hold contents b' \<Longrightarrow>
    tx_step ops contents (p, t, b, r, clock) [] (p, t, b', r', now)"

inductive tx_run ::
  "('l, 'c, 'r, 'g) board_ops \<Rightarrow> ('l \<Rightarrow> lora_tx_envelope list) \<Rightarrow>
   ('l, 'c, 'r, 'g) tx_state \<Rightarrow> tx_event list \<Rightarrow> ('l, 'c, 'r, 'g) tx_state \<Rightarrow> bool"
  for ops contents start where
  run_start: "tx_run ops contents start [] start"
| run_step: "tx_run ops contents start events s \<Longrightarrow> tx_step ops contents s new s' \<Longrightarrow>
    tx_run ops contents start (events @ new) s'"

end
