(* ===== verification/RadioOrder.thy ===== *)
theory RadioOrder
  imports RadioSend "HOL-Library.Multiset"
begin

section \<open>What becomes of the frames of the transmitting task\<close>

text \<open>
  Every frame the task takes is accounted for, recovery chunks keep their distance, and the frame
  that goes out is the most urgent one at that moment.
\<close>

subsection \<open>Polling the queues\<close>

lemma receive_result:
  assumes "fifo_channel ops contents capacity" "try_receive ops q = (x, q')"
  shows "x = Some e \<Longrightarrow> contents q = e # contents q'"
  using fifo_channel.receive_item [OF assms(1), of q] fifo_channel.receive_contents [OF assms(1), of q] assms(2)
  by (cases "contents q") auto

text \<open>A frame the task may choose: what is known of it when it comes out of the poll.\<close>

definition ready_ok :: "u64 \<Rightarrow> round_schedule \<Rightarrow> tx_task \<Rightarrow> tx_ready \<Rightarrow> bool" where
  "ready_ok now se t ready =
     (case ready of
        ReadyEnvelope e \<Rightarrow> env_source e \<in> {SrcEmergencyResult, SrcCommandResult, SrcGroundTimeRequest}
      | ReadyRecovery e \<Rightarrow> env_source e = SrcRecovery \<and>
          recovery_allowed (tt_recovery_sent_since_periodic t) (se_due se) \<and>
          (case tt_pending_recovery t of Some p \<Rightarrow> p = e \<and> tt_next_recovery_at t \<le> now | None \<Rightarrow> True)
      | _ \<Rightarrow> True)"

definition pending_typed :: "tx_task \<Rightarrow> bool" where
  "pending_typed t \<longleftrightarrow> (\<forall>e. tt_pending_recovery t = Some e \<longrightarrow> env_source e = SrcRecovery)"

lemma poll_round_ready:
  assumes chan: "fifo_channel (lora_ops ops) contents capacity" and held: "queues_hold contents b"
    and pending: "pending_typed t" and poll: "poll_round ops now se t b = Some (ready, t', b')"
  shows "queues_hold contents b' \<and> t' = t\<lparr>tt_roll_signals_taken := tt_roll_signals_taken t'\<rparr> \<and> ready_ok now se t ready"
proof -
  obtain x1 q1 where 1: "try_receive (lora_ops ops) (bd_emergency_results b) = (x1, q1)" by fastforce
  obtain x2 q2 where 2: "try_receive (lora_ops ops) (bd_command_results b) = (x2, q2)" by fastforce
  obtain x3 q3 where 3: "try_receive (lora_ops ops) (bd_ground_time_requests b) = (x3, q3)" by fastforce
  obtain x4 q4 where 4: "try_receive (lora_ops ops) (bd_recovery_chunks b) = (x4, q4)" by fastforce
  note results = receive_result [OF chan 1] receive_result [OF chan 2] receive_result [OF chan 3]
    receive_result [OF chan 4]
  note poll_defs = poll_round_def ready_ok_def
  show ?thesis
  proof (cases x1)
    case (Some e)
    with results(1) [OF Some] held have "env_source e = SrcEmergencyResult" "queues_hold contents (b\<lparr>bd_emergency_results := q1\<rparr>)"
      by (auto simp: queues_hold_def)
    with poll 1 Some show ?thesis by (auto simp: poll_defs)
  next
    case n1: None
    show ?thesis
    proof (cases x2)
      case (Some e)
      with results(2) [OF Some] held have "env_source e = SrcCommandResult" "queues_hold contents (b\<lparr>bd_command_results := q2\<rparr>)"
        by (auto simp: queues_hold_def)
      with poll 1 2 n1 Some show ?thesis by (auto simp: poll_defs)
    next
      case n2: None
      show ?thesis
      proof (cases x3)
        case (Some e)
        with results(3) [OF Some] held have "env_source e = SrcGroundTimeRequest"
          "queues_hold contents (b\<lparr>bd_ground_time_requests := q3\<rparr>)" by (auto simp: queues_hold_def)
        with poll 1 2 3 n1 n2 Some show ?thesis by (auto simp: poll_defs)
      next
        case n3: None
        have "e \<in> set_option x4 \<Longrightarrow> env_source e = SrcRecovery \<and> queues_hold contents (b\<lparr>bd_recovery_chunks := q4\<rparr>)" for e
          using results(4) [of e] held by (auto simp: queues_hold_def)
        with poll 1 2 3 4 n1 n2 n3 held pending show ?thesis
          by (auto simp: poll_defs poll_recovery_def pending_typed_def split: option.splits if_splits)
      qed
    qed
  qed
qed

text \<open>
  The frame that replaces a chosen one: the oldest of the most urgent queue that is more urgent than
  the chosen one, or a recovery chunk, the pending one first.
\<close>

definition recovery_may_replace :: "lora_tx_source \<Rightarrow> tx_task \<Rightarrow> bool \<Rightarrow> u64 \<Rightarrow> u64 \<Rightarrow> bool" where
  "recovery_may_replace source t valid at now \<longleftrightarrow> source < SrcRecovery \<and> tt_next_recovery_at t \<le> now \<and>
     recovery_allowed (tt_recovery_sent_since_periodic t) (periodic_due_for_reselection source valid (at \<le> now))"

lemma higher_priority_cases:
  assumes chan: "fifo_channel (lora_ops ops) contents capacity"
    and take: "take_higher_priority_envelope ops source (tt_recovery_sent_since_periodic t) (tt_next_recovery_at t)
      valid at now (tt_pending_recovery t, b) = (h, pend, b')"
  obtains
    (emergency) e q where "h = Some e" "pend = tt_pending_recovery t" "source < SrcEmergencyResult"
      "contents (bd_emergency_results b) = e # contents q" "b' = b\<lparr>bd_emergency_results := q\<rparr>"
  | (command) e q where "h = Some e" "pend = tt_pending_recovery t" "source < SrcCommandResult"
      "contents (bd_command_results b) = e # contents q" "b' = b\<lparr>bd_command_results := q\<rparr>"
  | (time) e q where "h = Some e" "pend = tt_pending_recovery t" "source < SrcGroundTimeRequest"
      "contents (bd_ground_time_requests b) = e # contents q" "b' = b\<lparr>bd_ground_time_requests := q\<rparr>"
  | (chunk) e q where "h = Some e" "pend = None" "tt_pending_recovery t = None" "recovery_may_replace source t valid at now"
      "contents (bd_recovery_chunks b) = e # contents q" "b' = b\<lparr>bd_recovery_chunks := q\<rparr>"
  | (pending_chunk) e where "h = Some e" "pend = None" "tt_pending_recovery t = Some e"
      "recovery_may_replace source t valid at now" "b' = b"
  | (none) "h = None" "pend = tt_pending_recovery t" "b' = b"
proof -
  obtain x1 q1 where 1: "try_receive (lora_ops ops) (bd_emergency_results b) = (x1, q1)" by fastforce
  obtain x2 q2 where 2: "try_receive (lora_ops ops) (bd_command_results b) = (x2, q2)" by fastforce
  obtain x3 q3 where 3: "try_receive (lora_ops ops) (bd_ground_time_requests b) = (x3, q3)" by fastforce
  obtain x4 q4 where 4: "try_receive (lora_ops ops) (bd_recovery_chunks b) = (x4, q4)" by fastforce
  note results = receive_result [OF chan 1] receive_result [OF chan 2] receive_result [OF chan 3]
    receive_result [OF chan 4]
  note taken = take_higher_priority_envelope_def is_higher_priority_less
  consider (c1) e where "source < SrcEmergencyResult" "x1 = Some e"
    | (c2) e where "\<not> (source < SrcEmergencyResult \<and> x1 \<noteq> None)" "source < SrcCommandResult" "x2 = Some e"
    | (c3) e where "\<not> (source < SrcEmergencyResult \<and> x1 \<noteq> None)" "\<not> (source < SrcCommandResult \<and> x2 \<noteq> None)"
        "source < SrcGroundTimeRequest" "x3 = Some e"
    | (c4) "\<not> (source < SrcEmergencyResult \<and> x1 \<noteq> None)" "\<not> (source < SrcCommandResult \<and> x2 \<noteq> None)"
        "\<not> (source < SrcGroundTimeRequest \<and> x3 \<noteq> None)"
    by (cases x1; cases x2; cases x3) auto
  then show thesis
  proof cases
    case c1
    with take 1 results(1) show ?thesis by (intro emergency [of e q1]) (auto simp: taken)
  next
    case c2
    with take 1 2 results(2) show ?thesis by (intro command [of e q2]) (auto simp: taken split: if_splits)
  next
    case c3
    with take 1 2 3 results(3) show ?thesis by (intro time [of e q3]) (auto simp: taken split: if_splits)
  next
    case c4
    with take 1 2 3 have result: "(if recovery_may_replace source t valid at now
        then (case tt_pending_recovery t of Some envelope \<Rightarrow> (Some envelope, None, b)
          | None \<Rightarrow> (case x4 of Some envelope \<Rightarrow> (Some envelope, None, b\<lparr>bd_recovery_chunks := q4\<rparr>)
              | None \<Rightarrow> (None, None, b)))
        else (None, tt_pending_recovery t, b)) = (h, pend, b')"
      by (cases "tt_pending_recovery t"; cases x4) (auto simp: taken 4 recovery_may_replace_def Let_def split: if_splits)
    show ?thesis
    proof (cases "recovery_may_replace source t valid at now")
      case False
      with result show ?thesis by (intro none) simp_all
    next
      case replaces: True
      show ?thesis
      proof (cases "tt_pending_recovery t")
        case (Some e)
        with result replaces show ?thesis by (intro pending_chunk [of e]) simp_all
      next
        case empty: None
        show ?thesis
        proof (cases x4)
          case None
          with result replaces empty show ?thesis by (intro none) simp_all
        next
          case (Some e)
          with result replaces empty results(4) [of e] show ?thesis by (intro chunk [of e q4]) simp_all
        qed
      qed
    qed
  qed
qed

lemma higher_priority_taken:
  assumes chan: "fifo_channel (lora_ops ops) contents capacity" and held: "queues_hold contents b"
    and pending: "pending_typed t"
    and take: "take_higher_priority_envelope ops source (tt_recovery_sent_since_periodic t) (tt_next_recovery_at t)
      valid at now (tt_pending_recovery t, b) = (h, pend, b')"
  shows "queues_hold contents b' \<and> (pend = tt_pending_recovery t \<or> pend = None \<and> h = tt_pending_recovery t) \<and>
    (\<forall>e. h = Some e \<longrightarrow> source < env_source e \<and> (env_source e = SrcRecovery \<longrightarrow> tt_next_recovery_at t \<le> now \<and>
       recovery_allowed (tt_recovery_sent_since_periodic t) (periodic_due_for_reselection source valid (at \<le> now))))"
  using higher_priority_cases [OF chan take] held pending
  by cases (auto simp: queues_hold_def pending_typed_def recovery_may_replace_def)

subsection \<open>The frames and the recovery times along a step\<close>

fun schedule_of :: "tx_place \<Rightarrow> round_schedule option" where
  "schedule_of (Waiting se) = Some se"
| "schedule_of (Making se _) = Some se"
| "schedule_of (Preparing _ _ se) = Some se"
| "schedule_of _ = None"

definition same_frames :: "tx_task \<Rightarrow> tx_task \<Rightarrow> bool" where
  "same_frames t t' \<longleftrightarrow> tt_pending_recovery t' = tt_pending_recovery t \<and>
     tt_deferred_envelope t' = tt_deferred_envelope t \<and> tt_next_recovery_at t' = tt_next_recovery_at t"

lemma catch_up_frames:
  "catch_up now (t, r) = (missed, t', r') \<Longrightarrow> same_frames t t' \<and>
     tt_recovery_sent_since_periodic t' = tt_recovery_sent_since_periodic t"
  by (auto simp: catch_up_def skip_overdue_periodic_deadlines_def same_frames_def
      split: if_splits option.splits prod.splits)

lemma periodic_chosen_frames:
  "same_frames t (periodic_chosen se b t) \<and>
   tt_recovery_sent_since_periodic (periodic_chosen se b t) = tt_recovery_sent_since_periodic t"
  by (auto simp: periodic_chosen_def same_frames_def Let_def split: option.split)

lemma make_packet_frames:
  assumes "make_packet now_ms now se roll_event t b r = (p, t', r')"
  shows "same_frames t t'"
    "p = AtTop \<or> (\<exists>e regular. p = Preparing e regular se \<and> env_source e = SrcPeriodic \<and>
       tt_recovery_sent_since_periodic t' = tt_recovery_sent_since_periodic t)"
  using assms catch_up_frames
  by (auto simp: make_packet_def same_frames_def envelope_of_packet_def periodic_envelope_def Let_def
      split: if_splits prod.splits option.splits)

definition next_after_recovery :: "u64 \<Rightarrow> u64" where
  "next_after_recovery completed_at =
     (case recovery_next_eligible_at_us completed_at (from_millis RECOVERY_LOG_INTERVAL_MS) of
        Some at \<Rightarrow> at | None \<Rightarrow> INSTANT_MAX)"

lemma attempt_done_frames:
  assumes "attempt_done completed_at now transmitted envelope displaced t r = (p, t', r')"
  shows "in_hand p = None" "schedule_of p = None" "tt_pending_recovery t' = tt_pending_recovery t"
    "tt_deferred_envelope t' = tt_deferred_envelope t"
    "tt_next_recovery_at t' =
       (if env_source envelope = SrcRecovery then next_after_recovery completed_at else tt_next_recovery_at t)"
proof -
  let ?t1 = "t\<lparr>tt_periodic_retry_at :=
                 periodic_retry_after_nonperiodic_attempt (tt_periodic_retry_at t) completed_at (env_source envelope)\<rparr>"
  let ?t2 = "if env_source envelope = SrcRecovery
      then ?t1\<lparr>tt_next_recovery_at := next_after_recovery completed_at\<rparr> else ?t1"
  let ?t3 = "?t2\<lparr>tt_recovery_sent_since_periodic :=
                 update_recovery_fairness (tt_recovery_sent_since_periodic ?t2) (env_source envelope)\<rparr>"
  obtain missed t4 r4 where c: "catch_up now (?t3, r) = (missed, t4, r4)" by (metis prod_cases3)
  note frames = catch_up_frames [OF c]
  have result: "p = (if should_clear_periodic_events (env_source envelope) transmitted (env_interval_events envelope)
          then Clearing envelope else AtTop)" "\<exists>retry. t' = t4\<lparr>tt_periodic_retry_at := retry\<rparr>"
    using assms c unfolding attempt_done_def Let_def next_after_recovery_def [symmetric]
    by (auto split: if_splits) (metis tx_task.surjective tx_task.update_convs(9))+
  show "in_hand p = None" "schedule_of p = None" using result(1) by simp_all
  show "tt_pending_recovery t' = tt_pending_recovery t" "tt_deferred_envelope t' = tt_deferred_envelope t"
    "tt_next_recovery_at t' =
       (if env_source envelope = SrcRecovery then next_after_recovery completed_at else tt_next_recovery_at t)"
    using result(2) frames by (auto simp: same_frames_def split: if_splits)
qed

text \<open>
  The invariant: the schedule of a round is that of an earlier moment; a frame that is still
  deferred while another is chosen is a recovery chunk that had to wait for a periodic packet; a
  chosen or deferred recovery chunk has waited long enough, and there is only one such chunk.
\<close>

definition due_at :: "u64 \<Rightarrow> round_schedule \<Rightarrow> bool" where
  "due_at clock se \<longleftrightarrow> (se_due se \<longrightarrow> se_valid se \<and> se_at se \<le> clock)"

definition waited :: "u64 \<Rightarrow> tx_task \<Rightarrow> lora_tx_envelope \<Rightarrow> bool" where
  "waited clock t e \<longleftrightarrow> (env_source e = SrcRecovery \<longrightarrow> tt_next_recovery_at t \<le> clock)"

definition held_back :: "tx_task \<Rightarrow> round_schedule \<Rightarrow> lora_tx_envelope \<Rightarrow> bool" where
  "held_back t se d \<longleftrightarrow> env_source d = SrcRecovery \<and> tt_recovery_sent_since_periodic t \<and> se_due se"

definition one_chunk :: "lora_tx_envelope option \<Rightarrow> lora_tx_envelope option \<Rightarrow> bool" where
  "one_chunk x y = (case (x, y) of
     (Some e, Some d) \<Rightarrow> env_source e \<noteq> SrcRecovery \<or> env_source d \<noteq> SrcRecovery | _ \<Rightarrow> True)"

definition frames_ok :: "u64 \<Rightarrow> tx_place \<Rightarrow> tx_task \<Rightarrow> bool" where
  "frames_ok clock p t \<longleftrightarrow> pending_typed t \<and> pred_option (due_at clock) (schedule_of p) \<and>
     pred_option (waited clock t) (in_hand p) \<and> pred_option (waited clock t) (tt_deferred_envelope t) \<and>
     (case (schedule_of p, tt_deferred_envelope t) of (Some se, Some d) \<Rightarrow> held_back t se d | _ \<Rightarrow> True) \<and>
     one_chunk (in_hand p) (tt_deferred_envelope t)"

definition tx_inv :: "('l \<Rightarrow> lora_tx_envelope list) \<Rightarrow> ('l, 'c, 'r, 'g) tx_state \<Rightarrow> bool" where
  "tx_inv contents s = (case s of (p, t, b, r, clock) \<Rightarrow> queues_hold contents b \<and> frames_ok clock p t)"

lemmas frames_simps = pred_option_def one_chunk_def held_back_def waited_def due_at_def

lemma frames_later:
  assumes time: "clock \<le> now" and ok: "frames_ok clock p t"
  shows "frames_ok now p t"
proof -
  have "due_at clock se \<Longrightarrow> due_at now se" "waited clock t e \<Longrightarrow> waited now t e" for se e
    using time by (auto simp: due_at_def waited_def)
  then show ?thesis using ok unfolding frames_ok_def pred_option_def by metis
qed

lemma frames_begins:
  assumes chosen: "begin_round now t = (deferred, se, t')" and ok: "frames_ok now AtTop t"
  shows "frames_ok now (case deferred of Some envelope \<Rightarrow> Preparing envelope False se | None \<Rightarrow> Waiting se) t'"
proof -
  have se: "se = round_schedule_at now t" using chosen by (auto simp: begin_round_def Let_def split: if_splits)
  then have due: "due_at now se" by (auto simp: round_schedule_at_def due_at_def Let_def)
  show ?thesis
  proof (cases "tt_deferred_envelope t")
    case None
    with chosen se ok due show ?thesis
      by (auto simp: begin_round_def frames_ok_def pending_typed_def one_chunk_def Let_def)
  next
    case (Some d)
    show ?thesis
    proof (cases "deferred_recovery_blocked (env_source d) (tt_recovery_sent_since_periodic t) (se_due se)")
      case True
      then have "deferred = None" "t' = t" using chosen Some by (auto simp: begin_round_def se Let_def)
      with True ok due Some show ?thesis
        by (simp add: frames_ok_def one_chunk_def held_back_def deferred_recovery_blocked_def recovery_allowed_def)
    next
      case False
      then have "deferred = Some d" "t' = t\<lparr>tt_deferred_envelope := None\<rparr>"
        using chosen Some by (auto simp: begin_round_def se Let_def)
      with ok due Some show ?thesis
        by (simp add: frames_ok_def pending_typed_def one_chunk_def waited_def)
    qed
  qed
qed

lemma frames_wakes:
  assumes ready: "ready_ok now se t ready" and time: "now \<le> now'"
    and chosen: "(case ready of
        ReadyEnvelope envelope \<Rightarrow> (Preparing envelope False se, t)
      | ReadyRecovery envelope \<Rightarrow> recovery_chosen now' se envelope t
      | ReadyPeriodic \<Rightarrow> (Making se False, periodic_chosen se b t)
      | ReadyRoll \<Rightarrow> (Making se True, t)) = (p', t')"
    and ok: "frames_ok now' (Waiting se) t"
  shows "frames_ok now' p' t'"
proof (cases ready)
  case (ReadyEnvelope e)
  with chosen ready ok show ?thesis by (auto simp: ready_ok_def frames_ok_def one_chunk_def waited_def split: option.split)
next
  case (ReadyRecovery e)
  have next_at: "tt_pending_recovery t \<noteq> None \<Longrightarrow> tt_next_recovery_at t \<le> now'"
    using ready ReadyRecovery time by (auto simp: ready_ok_def split: option.splits intro: order_trans)
  have "\<not> (tt_recovery_sent_since_periodic t \<and> se_due se)" and rec: "env_source e = SrcRecovery"
    using ready ReadyRecovery by (auto simp: ready_ok_def recovery_allowed_def)
  with ok have none: "tt_deferred_envelope t = None"
    by (cases "tt_deferred_envelope t") (auto simp: frames_ok_def held_back_def)
  show ?thesis using chosen ReadyRecovery ok next_at none rec
    by (auto simp: recovery_chosen_def frames_ok_def pending_typed_def one_chunk_def waited_def Let_def split: if_splits)
next
  case ReadyPeriodic
  with chosen ok periodic_chosen_frames [of t se b] show ?thesis
    by (auto simp: frames_ok_def pending_typed_def same_frames_def one_chunk_def waited_def [abs_def] held_back_def
        split: option.splits)
next
  case ReadyRoll
  with chosen ok show ?thesis by (auto simp: frames_ok_def one_chunk_def)
qed

lemma frames_makes:
  assumes make: "make_packet now_ms now' se roll_event t b r = (p', t', r')"
    and ok: "frames_ok now (Making se roll_event) t"
  shows "frames_ok now p' t'"
  using make_packet_frames [OF make] ok
  by (auto simp: frames_ok_def pending_typed_def same_frames_def one_chunk_def waited_def [abs_def] held_back_def
      split: option.splits)

lemma frames_prepares:
  assumes pending: "pend = tt_pending_recovery t \<or> pend = None"
    and higher: "\<forall>e. h = Some e \<longrightarrow> env_source envelope < env_source e \<and> (env_source e = SrcRecovery \<longrightarrow>
       tt_next_recovery_at t \<le> now \<and> recovery_allowed (tt_recovery_sent_since_periodic t)
         (periodic_due_for_reselection (env_source envelope) (se_valid se) (se_at se \<le> now)))"
    and chosen: "(p', t') = (case h of
        None \<Rightarrow> (Sending envelope False 0, t\<lparr>tt_pending_recovery := pend\<rparr>)
      | Some e \<Rightarrow> (Sending e displaced missed,
          if should_defer_preempted (env_source envelope)
          then t\<lparr>tt_pending_recovery := pend, tt_deferred_envelope := Some envelope\<rparr>
          else t\<lparr>tt_pending_recovery := pend\<rparr>))"
    and ok: "frames_ok now (Preparing envelope regular se) t"
  shows "frames_ok now p' t'"
proof (cases h)
  case None
  with chosen pending ok show ?thesis
    by (auto simp: frames_ok_def pending_typed_def one_chunk_def waited_def [abs_def] split: option.splits)
next
  case (Some e)
  have blocked: "env_source e \<noteq> SrcRecovery" if "tt_deferred_envelope t = Some d" for d
    using that ok higher Some
    by (auto simp: frames_ok_def held_back_def due_at_def recovery_allowed_def periodic_due_for_reselection_def)
  have rank: "env_source e \<noteq> SrcRecovery" if "env_source envelope = SrcRecovery"
    using that higher Some by auto
  show ?thesis using chosen pending higher ok Some blocked rank
    by (cases "tt_deferred_envelope t")
      (auto simp: frames_ok_def pending_typed_def should_defer_preempted_def one_chunk_def waited_def [abs_def])
qed

lemma frames_attempt:
  assumes attempt: "attempt_done completed_at now' transmitted envelope displaced t r = (p', t', r')"
    and hand: "in_hand p = Some envelope" and ok: "frames_ok now p t"
  shows "frames_ok now p' t'"
  using attempt_done_frames [OF attempt] hand ok
  by (cases "tt_deferred_envelope t") (auto simp: frames_ok_def pending_typed_def one_chunk_def waited_def)

lemma wake_cases:
  assumes "wake ops now now' se t b = Some (p', t', b')"
  obtains ready t1 where "poll_round ops now se t b = Some (ready, t1, b')"
    "(case ready of
        ReadyEnvelope envelope \<Rightarrow> (Preparing envelope False se, t1)
      | ReadyRecovery envelope \<Rightarrow> recovery_chosen now' se envelope t1
      | ReadyPeriodic \<Rightarrow> (Making se False, periodic_chosen se b' t1)
      | ReadyRoll \<Rightarrow> (Making se True, t1)) = (p', t')"
  using assms by (auto simp: wake_def split: option.splits prod.splits tx_ready.splits)

lemma reselect_cases:
  assumes "reselect ops now envelope regular se t b r = (p', t', b', r')"
  obtains h pend displaced missed where
    "take_higher_priority_envelope ops (env_source envelope) (tt_recovery_sent_since_periodic t)
       (tt_next_recovery_at t) (se_valid se) (se_at se) now (tt_pending_recovery t, b) = (h, pend, b')"
    "(p', t') = (case h of
        None \<Rightarrow> (Sending envelope False 0, t\<lparr>tt_pending_recovery := pend\<rparr>)
      | Some e \<Rightarrow> (Sending e displaced missed,
          if should_defer_preempted (env_source envelope)
          then t\<lparr>tt_pending_recovery := pend, tt_deferred_envelope := Some envelope\<rparr>
          else t\<lparr>tt_pending_recovery := pend\<rparr>))"
  using assms by (auto simp: reselect_def Let_def split: option.splits prod.splits if_splits)

lemma frames_of_inv:
  "tx_inv contents (p, t, b, r, clock) \<Longrightarrow> clock \<le> now \<Longrightarrow> queues_hold contents b \<and> frames_ok now p t"
  by (auto simp: tx_inv_def intro: frames_later)

lemma tx_inv_step:
  assumes chan: "fifo_channel (lora_ops ops) contents capacity"
  shows "tx_step ops contents s events s' \<Longrightarrow> tx_inv contents s \<Longrightarrow> tx_inv contents s'"
proof (induction rule: tx_step.induct)
  case (begins clock now t deferred se t' b r)
  from frames_of_inv [OF begins.prems begins.hyps(1)] frames_begins [OF begins.hyps(2)]
  show ?case by (simp add: tx_inv_def)
next
  case (wakes clock now now' se t b ready polled p' t' b' r)
  have "clock \<le> now'" using wakes.hyps(1,2) by (rule order_trans)
  note ok = frames_of_inv [OF wakes.prems this]
  obtain ready t1 where poll: "poll_round ops now se t b = Some (ready, t1, b')" and chosen: "(case ready of
        ReadyEnvelope envelope \<Rightarrow> (Preparing envelope False se, t1)
      | ReadyRecovery envelope \<Rightarrow> recovery_chosen now' se envelope t1
      | ReadyPeriodic \<Rightarrow> (Making se False, periodic_chosen se b' t1)
      | ReadyRoll \<Rightarrow> (Making se True, t1)) = (p', t')"
    using wake_cases [OF wakes.hyps(4)] by metis
  have "pending_typed t" using ok by (simp add: frames_ok_def)
  note ready = poll_round_ready [OF chan conjunct1 [OF ok] this poll]
  then obtain n where t1: "t1 = t\<lparr>tt_roll_signals_taken := n\<rparr>" by metis
  have "ready_ok now se t1 ready" using ready by (cases ready) (auto simp: t1 ready_ok_def split: option.splits)
  moreover have "frames_ok now' (Waiting se) t1"
    using ok by (auto simp: t1 frames_ok_def pending_typed_def waited_def [abs_def] held_back_def split: option.splits)
  ultimately show ?case
    using frames_wakes [OF _ wakes.hyps(2) chosen] ready by (simp add: tx_inv_def)
next
  case (makes clock now now' se roll_event t b r p' t' r')
  have "clock \<le> now'" using makes.hyps(1,2) by (rule order_trans)
  from frames_of_inv [OF makes.prems this] frames_makes [OF makes.hyps(3)]
  show ?case by (simp add: tx_inv_def)
next
  case (prepares clock now aux turns aux' r r' envelope regular se t b p' t' b' r'')
  note ok = frames_of_inv [OF prepares.prems prepares.hyps(1)]
  then have pending: "queues_hold contents b" "pending_typed t" by (simp_all add: frames_ok_def)
  obtain h pend displaced missed where take: "take_higher_priority_envelope ops (env_source envelope)
        (tt_recovery_sent_since_periodic t) (tt_next_recovery_at t) (se_valid se) (se_at se) now
        (tt_pending_recovery t, b) = (h, pend, b')"
    and chosen: "(p', t') = (case h of
        None \<Rightarrow> (Sending envelope False 0, t\<lparr>tt_pending_recovery := pend\<rparr>)
      | Some e \<Rightarrow> (Sending e displaced missed,
          if should_defer_preempted (env_source envelope)
          then t\<lparr>tt_pending_recovery := pend, tt_deferred_envelope := Some envelope\<rparr>
          else t\<lparr>tt_pending_recovery := pend\<rparr>))"
    using reselect_cases [OF prepares.hyps(3)] by metis
  note higher = higher_priority_taken [OF chan pending take]
  then have "frames_ok now p' t'" using frames_prepares [OF _ _ chosen] ok by blast
  with higher show ?case by (simp add: tx_inv_def)
next
  case (gives_up clock completed_at now aux turns aux' r r' envelope t p' t' r'' regular se b)
  have "clock \<le> now" using gives_up.hyps(1,2) by (rule order_trans)
  from frames_of_inv [OF gives_up.prems this] frames_attempt [OF gives_up.hyps(4), of "Preparing envelope regular se"]
  show ?case by (simp add: tx_inv_def)
next
  case (transmits clock completed_at now answers envelope r transmitted out r' displaced t p' t' r'' missed b)
  have "clock \<le> now" using transmits.hyps(1,2) by (rule order_trans)
  from frames_of_inv [OF transmits.prems this] frames_attempt [OF transmits.hyps(4), of "Sending envelope displaced missed"]
  show ?case by (simp add: tx_inv_def)
next
  case (clears clock now envelope t b r)
  from frames_of_inv [OF clears.prems clears.hyps(1)] show ?case
    by (simp add: tx_inv_def frames_ok_def one_chunk_def clear_sent_events_def queues_hold_def)
next
  case (others clock now b' p t b r r')
  from frames_of_inv [OF others.prems others.hyps(1)] others.hyps(2) show ?case by (simp add: tx_inv_def)
qed

lemma tx_inv_run:
  assumes "fifo_channel (lora_ops ops) contents capacity"
  shows "tx_run ops contents s events s' \<Longrightarrow> tx_inv contents s \<Longrightarrow> tx_inv contents s'"
  by (induction rule: tx_run.induct) (auto intro: tx_inv_step [OF assms])

lemma tx_inv_new: "queues_hold contents b \<Longrightarrow> tx_inv contents (AtTop, new_tx_task now now', b, r, clock)"
  by (simp add: tx_inv_def frames_ok_def pending_typed_def one_chunk_def new_tx_task_def Let_def split: option.split prod.split)

subsection \<open>Every frame is accounted for\<close>

fun entered :: "tx_event \<Rightarrow> lora_tx_envelope option" where
  "entered (Took e) = Some e"
| "entered (Made e) = Some e"
| "entered _ = None"

fun left :: "tx_event \<Rightarrow> lora_tx_envelope option" where
  "left (LetGo e) = Some e"
| "left (Attempted e _ _) = Some e"
| "left _ = None"

definition holding :: "tx_place \<Rightarrow> tx_task \<Rightarrow> lora_tx_envelope multiset" where
  "holding p t = mset (flatten [in_hand p, tt_pending_recovery t, tt_deferred_envelope t])"

definition balanced :: "tx_event list \<Rightarrow> lora_tx_envelope multiset \<Rightarrow> lora_tx_envelope multiset \<Rightarrow> bool" where
  "balanced events held held' \<longleftrightarrow>
     mset (List.map_filter entered events) + held = mset (List.map_filter left events) + held'"

lemma holding_eq: "holding p t = (case in_hand p of None \<Rightarrow> {#} | Some e \<Rightarrow> {#e#}) +
    (case tt_pending_recovery t of None \<Rightarrow> {#} | Some e \<Rightarrow> {#e#}) +
    (case tt_deferred_envelope t of None \<Rightarrow> {#} | Some e \<Rightarrow> {#e#})"
  by (simp add: holding_def split: option.split)

lemmas balance_simps = balanced_def holding_eq List.map_filter_simps

lemma balanced_begins:
  "begin_round now t = (deferred, se, t') \<Longrightarrow> balanced [] (holding AtTop t)
     (holding (case deferred of Some envelope \<Rightarrow> Preparing envelope False se | None \<Rightarrow> Waiting se) t')"
  by (auto simp: begin_round_def balance_simps Let_def split: if_splits option.split)

lemma balanced_wakes:
  assumes "poll_round ops now se t b = Some (ready, t1, b')" "ready_ok now se t ready"
    "t1 = t\<lparr>tt_roll_signals_taken := n\<rparr>"
    "(case ready of
        ReadyEnvelope envelope \<Rightarrow> (Preparing envelope False se, t1)
      | ReadyRecovery envelope \<Rightarrow> recovery_chosen now' se envelope t1
      | ReadyPeriodic \<Rightarrow> (Making se False, periodic_chosen se b' t1)
      | ReadyRoll \<Rightarrow> (Making se True, t1)) = (p', t')"
  shows "balanced (taken t ready) (holding (Waiting se) t) (holding p' t')"
  using assms periodic_chosen_frames [of t1 se b']
  by (cases ready)
    (auto simp: balance_simps recovery_chosen_def ready_ok_def same_frames_def Let_def split: if_splits option.splits)

lemma balanced_prepares:
  assumes take: "take_higher_priority_envelope ops (env_source envelope) (tt_recovery_sent_since_periodic t)
      (tt_next_recovery_at t) (se_valid se) (se_at se) now (tt_pending_recovery t, b) = (h, pend, b')"
    and pending: "pend = tt_pending_recovery t \<or> pend = None \<and> h = tt_pending_recovery t"
    and chosen: "(p', t') = (case h of
        None \<Rightarrow> (Sending envelope False 0, t\<lparr>tt_pending_recovery := pend\<rparr>)
      | Some e \<Rightarrow> (Sending e displaced missed,
          if should_defer_preempted (env_source envelope)
          then t\<lparr>tt_pending_recovery := pend, tt_deferred_envelope := Some envelope\<rparr>
          else t\<lparr>tt_pending_recovery := pend\<rparr>))"
  shows "balanced (reselection_events ops now envelope se t b) (holding (Preparing envelope regular se) t) (holding p' t')"
  using chosen pending
  by (auto simp: reselection_events_def take balance_simps split: if_splits option.splits)

lemma balanced_attempt:
  assumes "attempt_done completed_at now' transmitted envelope displaced t r = (p', t', r')" "in_hand p = Some envelope"
  shows "balanced [Attempted envelope transmitted completed_at] (holding p t) (holding p' t')"
  using attempt_done_frames [OF assms(1)] assms(2) by (simp add: balance_simps)

lemma balanced_makes:
  assumes "make_packet now_ms now' se roll_event t b r = (p', t', r')"
  shows "balanced (case in_hand p' of Some envelope \<Rightarrow> [Made envelope] | None \<Rightarrow> [])
    (holding (Making se roll_event) t) (holding p' t')"
  using make_packet_frames [OF assms] by (auto simp: balance_simps same_frames_def)

lemma let_go_sources:
  assumes "frames_ok now (Preparing envelope regular se) t"
    "LetGo e \<in> set (reselection_events ops now envelope se t b)"
  shows "env_source e \<in> {SrcPeriodic, SrcRecovery}"
  using assms
  by (cases "tt_deferred_envelope t")
    (auto simp: reselection_events_def should_defer_preempted_def frames_ok_def held_back_def
      List.map_filter_simps split: prod.splits option.splits if_splits)

definition step_accounts :: "tx_event list \<Rightarrow> tx_place \<times> tx_task \<Rightarrow> tx_place \<times> tx_task \<Rightarrow> bool" where
  "step_accounts events s s' \<longleftrightarrow>
     balanced events (holding (fst s) (snd s)) (holding (fst s') (snd s')) \<and>
     (\<forall>e. LetGo e \<in> set events \<longrightarrow> env_source e \<in> {SrcPeriodic, SrcRecovery})"

lemma accounts_step:
  assumes chan: "fifo_channel (lora_ops ops) contents capacity"
  shows "tx_step ops contents s events s' \<Longrightarrow> tx_inv contents s \<Longrightarrow>
    step_accounts events (fst s, fst (snd s)) (fst s', fst (snd s'))"
proof (induction rule: tx_step.induct)
  case (begins clock now t deferred se t' b r)
  then show ?case using balanced_begins by (auto simp: step_accounts_def)
next
  case (wakes clock now now' se t b ready polled p' t' b' r)
  note ok = frames_of_inv [OF wakes.prems wakes.hyps(1)]
  then have pending: "queues_hold contents b" "pending_typed t" by (simp_all add: frames_ok_def)
  from wake_cases [OF wakes.hyps(4)] obtain ready' t1 where
    poll: "poll_round ops now se t b = Some (ready', t1, b')" and chosen: "(case ready' of
        ReadyEnvelope envelope \<Rightarrow> (Preparing envelope False se, t1)
      | ReadyRecovery envelope \<Rightarrow> recovery_chosen now' se envelope t1
      | ReadyPeriodic \<Rightarrow> (Making se False, periodic_chosen se b' t1)
      | ReadyRoll \<Rightarrow> (Making se True, t1)) = (p', t')" by metis
  have same: "ready' = ready" using poll wakes.hyps(3) by simp
  note ready = poll_round_ready [OF chan pending poll]
  then obtain n where t1: "t1 = t\<lparr>tt_roll_signals_taken := n\<rparr>" by metis
  have "balanced (taken t ready) (holding (Waiting se) t) (holding p' t')"
    using balanced_wakes [OF poll _ t1 chosen] ready same by simp
  then show ?case by (cases ready) (auto simp: step_accounts_def split: if_splits)
next
  case (makes clock now now' se roll_event t b r p' t' r')
  then show ?case using balanced_makes [OF makes.hyps(3)]
    by (auto simp: step_accounts_def split: option.splits)
next
  case (prepares clock now aux turns aux' r r' envelope regular se t b p' t' b' r'')
  note ok = frames_of_inv [OF prepares.prems prepares.hyps(1)]
  then have pending: "queues_hold contents b" "pending_typed t" by (simp_all add: frames_ok_def)
  from reselect_cases [OF prepares.hyps(3)] obtain h pend displaced missed where
    take: "take_higher_priority_envelope ops (env_source envelope)
        (tt_recovery_sent_since_periodic t) (tt_next_recovery_at t) (se_valid se) (se_at se) now
        (tt_pending_recovery t, b) = (h, pend, b')"
    and chosen: "(p', t') = (case h of
        None \<Rightarrow> (Sending envelope False 0, t\<lparr>tt_pending_recovery := pend\<rparr>)
      | Some e \<Rightarrow> (Sending e displaced missed,
          if should_defer_preempted (env_source envelope)
          then t\<lparr>tt_pending_recovery := pend, tt_deferred_envelope := Some envelope\<rparr>
          else t\<lparr>tt_pending_recovery := pend\<rparr>))" by metis
  note higher = higher_priority_taken [OF chan pending take]
  then have "balanced (reselection_events ops now envelope se t b) (holding (Preparing envelope regular se) t) (holding p' t')"
    using balanced_prepares [OF take _ chosen] by blast
  then show ?case
    unfolding step_accounts_def using let_go_sources [OF conjunct2 [OF ok]] by simp blast
next
  case (gives_up clock completed_at now aux turns aux' r r' envelope t p' t' r'' regular se b)
  then show ?case using balanced_attempt [OF gives_up.hyps(4), of "Preparing envelope regular se"]
    by (simp add: step_accounts_def)
next
  case (transmits clock completed_at now answers envelope r transmitted out r' displaced t p' t' r'' missed b)
  then show ?case using balanced_attempt [OF transmits.hyps(4), of "Sending envelope displaced missed"]
    by (simp add: step_accounts_def)
qed (simp_all add: step_accounts_def balance_simps)

lemma balanced_trans:
  assumes "balanced xs h h'" "balanced ys h' h''"
  shows "balanced (xs @ ys) h h''"
proof -
  let ?in = "\<lambda>xs. mset (List.map_filter entered xs)" and ?out = "\<lambda>xs. mset (List.map_filter left xs)"
  have "?in (xs @ ys) + h = ?in ys + (?in xs + h)" by (simp add: List.map_filter_def)
  also have "\<dots> = ?out xs + (?in ys + h')" using assms(1) by (simp add: balanced_def)
  also have "\<dots> = ?out (xs @ ys) + h''" using assms(2) by (simp add: balanced_def List.map_filter_def)
  finally show ?thesis by (simp add: balanced_def)
qed

lemma accounts_run:
  assumes "fifo_channel (lora_ops ops) contents capacity" "tx_inv contents s"
  shows "tx_run ops contents s events s' \<Longrightarrow> step_accounts events (fst s, fst (snd s)) (fst s', fst (snd s'))"
proof (induction rule: tx_run.induct)
  case run_start
  show ?case by (simp add: step_accounts_def balance_simps)
next
  case (run_step events s1 new s2)
  from accounts_step [OF assms(1) run_step.hyps(2) tx_inv_run [OF assms(1) run_step.hyps(1) assms(2)]] run_step.IH
  show ?case by (auto simp: step_accounts_def intro: balanced_trans)
qed

text \<open>
  C9. No answer to the ground is lost in the transmitting task. Over any run, with any clock,
  queue and radio behaviour and whatever the other tasks do, the frames taken from the queues or
  made are, with their multiplicities, the frames whose transmission was attempted, those let go,
  and the at most three the task still holds. Only a periodic packet, which is made again, or a
  recovery chunk is ever let go: a result or a time request is attempted exactly once.
\<close>

theorem frames_accounted:
  assumes "fifo_channel (lora_ops ops) contents capacity" "queues_hold contents b"
    and "tx_run ops contents (AtTop, new_tx_task now now', b, r, clock) events (p, t, b', r', clock')"
  shows "mset (List.map_filter entered events) = mset (List.map_filter left events) + holding p t \<and>
    (\<forall>e. LetGo e \<in> set events \<longrightarrow> env_source e \<in> {SrcPeriodic, SrcRecovery})"
proof -
  have "holding AtTop (new_tx_task now now') = {#}"
    by (simp add: holding_eq new_tx_task_def Let_def split: option.split prod.split)
  with accounts_run [OF assms(1) tx_inv_new [OF assms(2)] assms(3)] show ?thesis
    by (simp add: step_accounts_def balanced_def)
qed

end
