(* ===== verification/RadioGap.thy ===== *)
theory RadioGap
  imports RadioOrder
begin

section \<open>Recovery chunks and urgent frames\<close>

text \<open>
  The distance between recovery chunks, the choice of the most urgent frame, and concrete runs of
  the transmitting task, one of which loses a deferred chunk.
\<close>

subsection \<open>The distance between recovery chunks\<close>

fun recovery_time :: "tx_event \<Rightarrow> u64 option" where
  "recovery_time (Attempted e _ completed_at) = (if env_source e = SrcRecovery then Some completed_at else None)"
| "recovery_time _ = None"

text \<open>At least 200 ms, or no later time can be represented.\<close>

definition apart :: "u64 \<Rightarrow> u64 \<Rightarrow> bool" where
  "apart c c' \<longleftrightarrow> unat c + 200000 \<le> unat c' \<or> c' = INSTANT_MAX"

lemma apart_next: "apart c (next_after_recovery c)"
  by (auto simp: apart_def next_after_recovery_def recovery_next_eligible_at_us_def from_millis_def
      RECOVERY_LOG_INTERVAL_MS_def checked_add_Some split: option.split)

lemma apart_later: "apart c c' \<Longrightarrow> c' \<le> c'' \<Longrightarrow> apart c c''"
  by (auto simp: apart_def INSTANT_MAX_def word_le_nat_alt[symmetric] dest: order_trans [of "unat c + 200000"])
    (simp_all add: word_le_nat_alt word_order.extremum_uniqueI)

lemma next_after_later: "c \<le> next_after_recovery c"
proof (cases "checked_add c 200000")
  case None
  then show ?thesis
    by (simp add: next_after_recovery_def recovery_next_eligible_at_us_def from_millis_def INSTANT_MAX_def
        RECOVERY_LOG_INTERVAL_MS_def)
next
  case (Some at)
  then have "unat at = unat c + 200000" by (simp add: checked_add_Some)
  then show ?thesis using Some
    by (simp add: next_after_recovery_def recovery_next_eligible_at_us_def from_millis_def
        RECOVERY_LOG_INTERVAL_MS_def word_le_nat_alt)
qed

lemma recovery_step:
  assumes chan: "fifo_channel (lora_ops ops) contents capacity"
  shows "tx_step ops contents s events s' \<Longrightarrow> tx_inv contents s \<Longrightarrow>
    List.map_filter recovery_time events = [] \<and>
      tt_next_recovery_at (fst (snd s')) = tt_next_recovery_at (fst (snd s)) \<or>
    (\<exists>c. List.map_filter recovery_time events = [c] \<and> tt_next_recovery_at (fst (snd s)) \<le> c \<and>
      tt_next_recovery_at (fst (snd s')) = next_after_recovery c)"
proof (induction rule: tx_step.induct)
  case (begins clock now t deferred se t' b r)
  then show ?case by (auto simp: begin_round_def List.map_filter_simps Let_def split: if_splits)
next
  case (wakes clock now now' se t b ready polled p' t' b' r)
  then have pending: "queues_hold contents b" "pending_typed t" by (simp_all add: tx_inv_def frames_ok_def)
  from wake_cases [OF wakes.hyps(4)] obtain ready' t1 where
    poll: "poll_round ops now se t b = Some (ready', t1, b')" and chosen: "(case ready' of
        ReadyEnvelope envelope \<Rightarrow> (Preparing envelope False se, t1)
      | ReadyRecovery envelope \<Rightarrow> recovery_chosen now' se envelope t1
      | ReadyPeriodic \<Rightarrow> (Making se False, periodic_chosen se b' t1)
      | ReadyRoll \<Rightarrow> (Making se True, t1)) = (p', t')" by metis
  from poll_round_ready [OF chan pending poll] obtain n where t1: "t1 = t\<lparr>tt_roll_signals_taken := n\<rparr>" by metis
  have "tt_next_recovery_at t' = tt_next_recovery_at t"
    using chosen periodic_chosen_frames [of t1 se b'] t1
    by (cases ready') (auto simp: recovery_chosen_def same_frames_def Let_def split: if_splits)
  then show ?case by (cases ready) (auto simp: List.map_filter_simps)
next
  case (makes clock now now' se roll_event t b r p' t' r')
  then show ?case using make_packet_frames(1) [OF makes.hyps(3)]
    by (auto simp: same_frames_def List.map_filter_simps split: option.split)
next
  case (prepares clock now aux turns aux' r r' envelope regular se t b p' t' b' r'')
  have "List.map_filter recovery_time (reselection_events ops now envelope se t b) = []"
    by (auto simp: reselection_events_def List.map_filter_simps split: prod.split option.split)
  moreover have "tt_next_recovery_at t' = tt_next_recovery_at t"
    using prepares.hyps(3) by (auto simp: reselect_def Let_def split: prod.splits option.splits if_splits)
  ultimately show ?case by simp
next
  case (gives_up clock completed_at now aux turns aux' r r' envelope t p' t' r'' regular se b)
  then have "waited completed_at t envelope"
    using frames_of_inv [OF gives_up.prems gives_up.hyps(1)] by (simp add: frames_ok_def)
  then show ?case using attempt_done_frames(5) [OF gives_up.hyps(4)] by (auto simp: waited_def List.map_filter_simps)
next
  case (transmits clock completed_at now answers envelope r transmitted out r' displaced t p' t' r'' missed b)
  then have "waited completed_at t envelope"
    using frames_of_inv [OF transmits.prems transmits.hyps(1)] by (simp add: frames_ok_def)
  then show ?case using attempt_done_frames(5) [OF transmits.hyps(4)] by (auto simp: waited_def List.map_filter_simps)
qed (simp_all add: List.map_filter_simps)

lemma recovery_run:
  assumes chan: "fifo_channel (lora_ops ops) contents capacity" and inv: "tx_inv contents s"
  shows "tx_run ops contents s events s' \<Longrightarrow>
    sorted_wrt apart (List.map_filter recovery_time events) \<and>
    (\<forall>c \<in> set (List.map_filter recovery_time events). apart c (tt_next_recovery_at (fst (snd s'))))"
proof (induction rule: tx_run.induct)
  case run_start
  show ?case by (simp add: List.map_filter_simps)
next
  case (run_step events s1 new s2)
  let ?times = "List.map_filter recovery_time"
  have times: "?times (events @ new) = ?times events @ ?times new" by (simp add: List.map_filter_def)
  have reached: "tx_inv contents s1" by (rule tx_inv_run [OF chan run_step.hyps(1) inv])
  from recovery_step [OF chan run_step.hyps(2) this] show ?case
  proof (elim disjE conjE exE)
    assume "?times new = []" "tt_next_recovery_at (fst (snd s2)) = tt_next_recovery_at (fst (snd s1))"
    with run_step.IH show ?thesis by (simp add: times)
  next
    fix c assume c: "?times new = [c]" "tt_next_recovery_at (fst (snd s1)) \<le> c"
      "tt_next_recovery_at (fst (snd s2)) = next_after_recovery c"
    have before: "apart d c" if "d \<in> set (?times events)" for d
      using run_step.IH that c(2) apart_later by blast
    then have "apart d (next_after_recovery c)" if "d \<in> set (?times events)" for d
      using that next_after_later apart_later by blast
    with before run_step.IH c(1,3) apart_next show ?thesis by (simp add: times sorted_wrt_append)
  qed
qed

text \<open>
  C18. Recovery chunks keep their distance: in every run, whatever preempts them, is deferred or is
  waiting, the attempts to send two recovery chunks end at least 200 ms apart, so the telemetry
  and the answers always find room between them.
\<close>

theorem recovery_chunks_apart:
  assumes "fifo_channel (lora_ops ops) contents capacity" "queues_hold contents b"
    and "tx_run ops contents (AtTop, new_tx_task now now', b, r, clock) events s'"
  shows "sorted_wrt apart (List.map_filter recovery_time events)"
  using recovery_run [OF assms(1) tx_inv_new [OF assms(2)] assms(3)] by blast

subsection \<open>The most urgent frame\<close>

lemma receive_nonempty:
  assumes "fifo_channel ops contents capacity" "try_receive ops q = (x, q')"
  shows "x = None \<longleftrightarrow> contents q = []"
  using fifo_channel.receive_empty_iff [OF assms(1), of q] assms(2) by simp

lemma nothing_higher:
  assumes chan: "fifo_channel (lora_ops ops) contents capacity" and held: "queues_hold contents b"
    and pending: "pending_typed t"
    and take: "take_higher_priority_envelope ops source (tt_recovery_sent_since_periodic t) (tt_next_recovery_at t)
      valid at now (tt_pending_recovery t, b) = (h, pend, b')"
  defines "sent \<equiv> (case h of None \<Rightarrow> source | Some e \<Rightarrow> env_source e)"
  shows "source \<le> sent"
    "contents (bd_emergency_results b) \<noteq> [] \<Longrightarrow> SrcEmergencyResult \<le> sent"
    "contents (bd_command_results b) \<noteq> [] \<Longrightarrow> SrcCommandResult \<le> sent"
    "contents (bd_ground_time_requests b) \<noteq> [] \<Longrightarrow> SrcGroundTimeRequest \<le> sent"
    "tt_pending_recovery t \<noteq> None \<or> contents (bd_recovery_chunks b) \<noteq> [] \<Longrightarrow>
     recovery_allowed (tt_recovery_sent_since_periodic t) (periodic_due_for_reselection source valid (at \<le> now)) \<Longrightarrow>
     tt_next_recovery_at t \<le> now \<Longrightarrow> SrcRecovery \<le> sent"
proof -
  obtain x1 q1 where 1: "try_receive (lora_ops ops) (bd_emergency_results b) = (x1, q1)" by fastforce
  obtain x2 q2 where 2: "try_receive (lora_ops ops) (bd_command_results b) = (x2, q2)" by fastforce
  obtain x3 q3 where 3: "try_receive (lora_ops ops) (bd_ground_time_requests b) = (x3, q3)" by fastforce
  obtain x4 q4 where 4: "try_receive (lora_ops ops) (bd_recovery_chunks b) = (x4, q4)" by fastforce
  note results = receive_result [OF chan 1] receive_result [OF chan 2] receive_result [OF chan 3]
    receive_result [OF chan 4]
  note empty = receive_nonempty [OF chan 1] receive_nonempty [OF chan 2] receive_nonempty [OF chan 3]
    receive_nonempty [OF chan 4]
  have sources: "x1 = Some e \<Longrightarrow> env_source e = SrcEmergencyResult" "x2 = Some e \<Longrightarrow> env_source e = SrcCommandResult"
    "x3 = Some e \<Longrightarrow> env_source e = SrcGroundTimeRequest" "x4 = Some e \<Longrightarrow> env_source e = SrcRecovery"
    "tt_pending_recovery t = Some e \<Longrightarrow> env_source e = SrcRecovery" for e
    using results [of e] held pending by (auto simp: queues_hold_def pending_typed_def)
  note higher = higher_priority_taken [OF chan held pending take]
  show "source \<le> sent" using higher by (auto simp: sent_def split: option.split)
  have ranks: "SrcRecovery < SrcGroundTimeRequest" "SrcGroundTimeRequest < SrcCommandResult"
    "SrcCommandResult < SrcEmergencyResult"
    by (simp_all add: less_lora_tx_source_def)
  note taken = sent_def take_higher_priority_envelope_def is_higher_priority_less
  show "SrcEmergencyResult \<le> sent" if q: "contents (bd_emergency_results b) \<noteq> []"
  proof (cases "SrcEmergencyResult \<le> source")
    case False
    with take sources(1) empty(1) 1 q show ?thesis by (cases x1) (auto simp: taken not_le)
  qed (use \<open>source \<le> sent\<close> in auto)
  show "SrcCommandResult \<le> sent" if q: "contents (bd_command_results b) \<noteq> []"
  proof (cases "SrcCommandResult \<le> source")
    case False
    then have "source < SrcCommandResult" "source < SrcEmergencyResult" using ranks by auto
    with take sources(1,2) empty(2) 1 2 q ranks show ?thesis by (cases x1; cases x2) (auto simp: taken)
  qed (use \<open>source \<le> sent\<close> in auto)
  show "SrcGroundTimeRequest \<le> sent" if q: "contents (bd_ground_time_requests b) \<noteq> []"
  proof (cases "SrcGroundTimeRequest \<le> source")
    case False
    then have "source < SrcGroundTimeRequest" "source < SrcCommandResult" "source < SrcEmergencyResult"
      using ranks by auto
    with take sources(1-3) empty(3) 1 2 3 q ranks show ?thesis by (cases x1; cases x2; cases x3) (auto simp: taken)
  qed (use \<open>source \<le> sent\<close> in auto)
  show "SrcRecovery \<le> sent" if q: "tt_pending_recovery t \<noteq> None \<or> contents (bd_recovery_chunks b) \<noteq> []"
     "recovery_allowed (tt_recovery_sent_since_periodic t) (periodic_due_for_reselection source valid (at \<le> now))"
     "tt_next_recovery_at t \<le> now"
  proof (cases "SrcRecovery \<le> source")
    case False
    then have "source < SrcRecovery" "source < SrcGroundTimeRequest" "source < SrcCommandResult"
      "source < SrcEmergencyResult" using ranks by auto
    with take sources empty(4) 1 2 3 4 q ranks show ?thesis
      by (cases x1; cases x2; cases x3; cases x4) (auto simp: taken split: option.splits)
  qed (use \<open>source \<le> sent\<close> in auto)
qed

text \<open>
  C17. The most urgent frame goes out. When the radio module is ready, in any reachable state, the
  frame the task goes on to transmit is at least as urgent as the one it had chosen and as
  everything that waits at that moment in the queues of the emergency results, the command
  results and the time requests, and than a recovery chunk that is allowed and has waited its
  200 ms.
\<close>

theorem most_urgent_sent:
  assumes "fifo_channel (lora_ops ops) contents capacity" "queues_hold contents b0"
    and "tx_run ops contents (AtTop, new_tx_task now0 now1, b0, r0, clock0) events
      (Preparing envelope regular se, t, b, r, clock)"
    and "reselect ops now envelope regular se t b r' = (Sending e displaced missed, t', b', r'')"
  shows "env_source envelope \<le> env_source e \<and>
    (contents (bd_emergency_results b) \<noteq> [] \<longrightarrow> SrcEmergencyResult \<le> env_source e) \<and>
    (contents (bd_command_results b) \<noteq> [] \<longrightarrow> SrcCommandResult \<le> env_source e) \<and>
    (contents (bd_ground_time_requests b) \<noteq> [] \<longrightarrow> SrcGroundTimeRequest \<le> env_source e) \<and>
    ((tt_pending_recovery t \<noteq> None \<or> contents (bd_recovery_chunks b) \<noteq> []) \<and> tt_next_recovery_at t \<le> now \<and>
       recovery_allowed (tt_recovery_sent_since_periodic t)
         (periodic_due_for_reselection (env_source envelope) (se_valid se) (se_at se \<le> now)) \<longrightarrow>
     SrcRecovery \<le> env_source e)"
proof -
  have "tx_inv contents (Preparing envelope regular se, t, b, r, clock)"
    by (rule tx_inv_run [OF assms(1,3) tx_inv_new [OF assms(2)]])
  then have held: "queues_hold contents b" "pending_typed t" by (simp_all add: tx_inv_def frames_ok_def)
  obtain h pend displaced' missed' where take: "take_higher_priority_envelope ops (env_source envelope)
        (tt_recovery_sent_since_periodic t) (tt_next_recovery_at t) (se_valid se) (se_at se) now
        (tt_pending_recovery t, b) = (h, pend, b')"
    and chosen: "(Sending e displaced missed, t') = (case h of
        None \<Rightarrow> (Sending envelope False 0, t\<lparr>tt_pending_recovery := pend\<rparr>)
      | Some e \<Rightarrow> (Sending e displaced' missed',
          if should_defer_preempted (env_source envelope)
          then t\<lparr>tt_pending_recovery := pend, tt_deferred_envelope := Some envelope\<rparr>
          else t\<lparr>tt_pending_recovery := pend\<rparr>))"
    using reselect_cases [OF assms(4)] by metis
  have "env_source e = (case h of None \<Rightarrow> env_source envelope | Some e \<Rightarrow> env_source e)"
    using chosen by (cases h) auto
  with nothing_higher [OF assms(1) held take] show ?thesis by simp
qed

subsection \<open>Playing the task\<close>

text \<open>Moves of the task and of the others, with the times; the radio module always answers at once.\<close>

datatype tx_move =
  Begin u64 | Wake u64 u64 | Make u64 u64 | Prepare u64 | Transmit u64 u64
| Emergency lora_tx_envelope | Result lora_tx_envelope | Chunk lora_tx_envelope

definition prompt :: aux_answer where
  "prompt = \<lparr>aux_at_once = True, aux_in_time = True, aux_still = True\<rparr>"

definition all_at_once :: "bytes \<Rightarrow> tx_answers" where
  "all_at_once bytes = \<lparr>ta_writes = [Wrote (length bytes)], ta_flushed = True, ta_aux_low = prompt, ta_aux_high = prompt\<rparr>"

type_synonym list_tx_state =
  "tx_place \<times> tx_task \<times> list_board \<times> radio_statics \<times> u64"

definition put :: "lora_tx_envelope \<Rightarrow> lora_tx_envelope list_queue \<Rightarrow> lora_tx_envelope list_queue" where
  "put e q = snd (try_send list_channel e q)"

fun tx_do :: "tx_move \<Rightarrow> list_tx_state \<Rightarrow> (tx_event list \<times> list_tx_state) option" where
  "tx_do (Begin now) (AtTop, t, b, r, clock) =
     (if clock \<le> now
      then (case begin_round now t of (deferred, se, t) \<Rightarrow>
        Some ([], (case deferred of Some envelope \<Rightarrow> Preparing envelope False se | None \<Rightarrow> Waiting se), t, b, r, now))
      else None)"
| "tx_do (Wake now now') (Waiting se, t, b, r, clock) =
     (if clock \<le> now \<and> now \<le> now'
      then (case (poll_round list_ops now se t b, wake list_ops now now' se t b) of
          (Some (ready, _), Some (p, t', b)) \<Rightarrow> Some (taken t ready, p, t', b, r, now')
        | _ \<Rightarrow> None)
      else None)"
| "tx_do (Make now now') (Making se roll_event, t, b, r, clock) =
     (if clock \<le> now \<and> now \<le> now'
      then (case make_packet (now div 1000) now' se roll_event t b r of (p, t, r) \<Rightarrow>
        Some (case in_hand p of Some envelope \<Rightarrow> [Made envelope] | None \<Rightarrow> [], p, t, b, r, now'))
      else None)"
| "tx_do (Prepare now) (Preparing envelope regular se, t, b, r, clock) =
     (if clock \<le> now
      then (case prepare_transmit prompt [] prompt r of
          Some (True, r) \<Rightarrow> (case reselect list_ops now envelope regular se t b r of (p, t', b', r) \<Rightarrow>
            Some (reselection_events list_ops now envelope se t b, p, t', b', r, now))
        | _ \<Rightarrow> None)
      else None)"
| "tx_do (Transmit completed_at now) (Sending envelope displaced missed, t, b, r, clock) =
     (if clock \<le> completed_at \<and> completed_at \<le> now
      then (case transmit_frame (all_at_once (as_bytes (env_frame envelope))) (env_frame envelope) r of
          Some (ok, _, r) \<Rightarrow> (case attempt_done completed_at now ok envelope displaced t r of (p, t, r) \<Rightarrow>
            Some ([Attempted envelope ok completed_at], p, t, b, r, now))
        | None \<Rightarrow> None)
      else None)"
| "tx_do (Emergency e) (p, t, b, r, clock) =
     (if env_source e = SrcEmergencyResult \<and> queues_hold snd b
      then Some ([], p, t, b\<lparr>bd_emergency_results := put e (bd_emergency_results b)\<rparr>, r, clock) else None)"
| "tx_do (Result e) (p, t, b, r, clock) =
     (if env_source e = SrcCommandResult \<and> queues_hold snd b
      then Some ([], p, t, b\<lparr>bd_command_results := put e (bd_command_results b)\<rparr>, r, clock) else None)"
| "tx_do (Chunk e) (p, t, b, r, clock) =
     (if env_source e = SrcRecovery \<and> queues_hold snd b
      then Some ([], p, t, b\<lparr>bd_recovery_chunks := put e (bd_recovery_chunks b)\<rparr>, r, clock) else None)"
| "tx_do _ _ = None"

lemma set_put: "set (snd (put e q)) \<subseteq> insert e (set (snd q))"
  by (auto simp: put_def list_channel_def split: if_splits)

lemma tx_do_step: "tx_do move s = Some (events, s') \<Longrightarrow> tx_step list_ops snd s events s'"
proof (induction move s rule: tx_do.induct)
  case (1 now t b r clock)
  obtain deferred se t' where "begin_round now t = (deferred, se, t')" by (metis prod_cases3)
  with 1 tx_step.begins [OF _ this, of clock list_ops snd b r] show ?case by (simp split: if_splits)
next
  case (3 now now' se roll_event t b r clock)
  obtain p t' r' where "make_packet (now div 1000) now' se roll_event t b r = (p, t', r')" by (metis prod_cases3)
  with 3 tx_step.makes [OF _ _ this, of clock list_ops snd] show ?case by (simp split: if_splits)
next
  case (6 e p t b r clock)
  then have "queues_hold snd (b\<lparr>bd_emergency_results := put e (bd_emergency_results b)\<rparr>)"
    using set_put [of e "bd_emergency_results b"] by (auto simp: queues_hold_def split: if_splits)
  with 6 show ?case by (auto intro: tx_step.others split: if_splits)
next
  case (7 e p t b r clock)
  then have "queues_hold snd (b\<lparr>bd_command_results := put e (bd_command_results b)\<rparr>)"
    using set_put [of e "bd_command_results b"] by (auto simp: queues_hold_def split: if_splits)
  with 7 show ?case by (auto intro: tx_step.others split: if_splits)
next
  case (8 e p t b r clock)
  then have "queues_hold snd (b\<lparr>bd_recovery_chunks := put e (bd_recovery_chunks b)\<rparr>)"
    using set_put [of e "bd_recovery_chunks b"] by (auto simp: queues_hold_def split: if_splits)
  with 8 show ?case by (auto intro: tx_step.others split: if_splits)
qed (auto intro: tx_step.intros split: if_splits option.splits prod.splits bool.splits)

fun tx_play :: "tx_move list \<Rightarrow> tx_event list \<times> list_tx_state \<Rightarrow> (tx_event list \<times> list_tx_state) option" where
  "tx_play [] s = Some s"
| "tx_play (move # moves) (events, s) =
     (case tx_do move s of
        None \<Rightarrow> None
      | Some (new, s') \<Rightarrow> tx_play moves (events @ new, s'))"

lemma tx_play_run:
  "tx_play moves (events, s) = Some (events', s') \<Longrightarrow> tx_run list_ops snd start events s \<Longrightarrow>
   tx_run list_ops snd start events' s'"
proof (induction moves arbitrary: events s)
  case (Cons move moves)
  then obtain new s1 where "tx_do move s = Some (new, s1)" "tx_play moves (events @ new, s1) = Some (events', s')"
    by (auto split: option.splits prod.splits)
  with Cons.IH tx_run.run_step [OF Cons.prems(2) tx_do_step] show ?case by blast
qed simp

definition demo_frame :: "lora_tx_source \<Rightarrow> u8 \<Rightarrow> lora_tx_envelope" where
  "demo_frame source n = queued_envelope \<lparr>lf_bytes = [n], lf_length = 1\<rparr> source"

abbreviation demo_start :: list_tx_state where
  "demo_start \<equiv> (AtTop, new_tx_task 0 0, list_start, initial_radio, 0)"

text \<open>
  The second chunk gives way to an emergency result and is deferred. The periodic deadline falls
  between the two clock readings at the end of that round and at the start of the next, so the
  chunk is held back; the command result chosen instead gives way to another emergency result.
\<close>

definition overwriting_moves :: "tx_move list" where
  "overwriting_moves =
     [Chunk (demo_frame SrcRecovery 1), Begin 0, Wake 0 0, Prepare 0, Transmit 0 100000,
      Chunk (demo_frame SrcRecovery 2), Begin 100000, Wake 300000 300000,
      Emergency (demo_frame SrcEmergencyResult 3), Prepare 300000, Transmit 400000 499999,
      Begin 500000, Result (demo_frame SrcCommandResult 4), Wake 500000 500000,
      Emergency (demo_frame SrcEmergencyResult 5), Prepare 500000, Transmit 600000 600000]"

lemma overwriting_run:
  "case tx_play overwriting_moves ([], demo_start) of
     None \<Rightarrow> False
   | Some (events, p, t, b, r, clock) \<Rightarrow>
       events = [Took (demo_frame SrcRecovery 1), Attempted (demo_frame SrcRecovery 1) True 0,
         Took (demo_frame SrcRecovery 2), Took (demo_frame SrcEmergencyResult 3),
         Attempted (demo_frame SrcEmergencyResult 3) True 400000, Took (demo_frame SrcCommandResult 4),
         Took (demo_frame SrcEmergencyResult 5), LetGo (demo_frame SrcRecovery 2),
         Attempted (demo_frame SrcEmergencyResult 5) True 600000] \<and>
       p = AtTop \<and> snd (bd_recovery_chunks b) = [] \<and> tt_pending_recovery t = None \<and> tt_deferred_envelope t = Some (demo_frame SrcCommandResult 4)"
  by code_simp

lemma list_start_queues: "queues_hold snd list_start"
  by (simp add: queues_hold_def list_start_def initial_board_def)

text \<open>
  A deferred recovery chunk can be lost. There is a run of the transmitting task, with every
  transmission a success, in which a chunk is taken from its queue and overwritten by another
  deferred frame: it is never transmitted, the task no longer holds it, and nothing counts it.
\<close>

theorem deferred_chunk_lost:
  "\<exists>events p t b r clock chunk. tx_run list_ops snd demo_start events (p, t, b, r, clock) \<and>
     env_source chunk = SrcRecovery \<and> Took chunk \<in> set events \<and> chunk \<notin># holding p t \<and>
     chunk \<notin> set (snd (bd_recovery_chunks b)) \<and> (\<forall>ok at. Attempted chunk ok at \<notin> set events)"
proof -
  obtain events p t b r clock where play: "tx_play overwriting_moves ([], demo_start) = Some (events, p, t, b, r, clock)"
    and shape: "events = [Took (demo_frame SrcRecovery 1), Attempted (demo_frame SrcRecovery 1) True 0,
         Took (demo_frame SrcRecovery 2), Took (demo_frame SrcEmergencyResult 3),
         Attempted (demo_frame SrcEmergencyResult 3) True 400000, Took (demo_frame SrcCommandResult 4),
         Took (demo_frame SrcEmergencyResult 5), LetGo (demo_frame SrcRecovery 2),
         Attempted (demo_frame SrcEmergencyResult 5) True 600000]"
      "p = AtTop" "snd (bd_recovery_chunks b) = []" "tt_pending_recovery t = None"
      "tt_deferred_envelope t = Some (demo_frame SrcCommandResult 4)"
    using overwriting_run by (auto split: option.splits)
  have "tx_run list_ops snd demo_start events (p, t, b, r, clock)"
    by (rule tx_play_run [OF play tx_run.run_start])
  moreover have "demo_frame SrcRecovery 2 \<notin># holding p t"
    using shape by (simp add: holding_eq demo_frame_def queued_envelope_def)
  moreover have "\<forall>ok at. Attempted (demo_frame SrcRecovery 2) ok at \<notin> set events"
    using shape(1) by (auto simp: demo_frame_def queued_envelope_def)
  moreover have "env_source (demo_frame SrcRecovery 2) = SrcRecovery" "Took (demo_frame SrcRecovery 2) \<in> set events"
    using shape(1) by (simp_all add: demo_frame_def queued_envelope_def)
  ultimately show ?thesis using shape(3)
    by (intro exI [of _ events] exI [of _ p] exI [of _ t] exI [of _ b] exI [of _ r] exI [of _ clock]
        exI [of _ "demo_frame SrcRecovery 2"]) simp
qed

lemma frames_accounted_witness:
  "\<exists>events p t b r clock. tx_run list_ops snd demo_start events (p, t, b, r, clock) \<and>
     mset (List.map_filter entered events) = mset (List.map_filter left events) + holding p t \<and>
     LetGo (demo_frame SrcRecovery 2) \<in> set events"
proof -
  obtain events p t b r clock where play: "tx_play overwriting_moves ([], demo_start) = Some (events, p, t, b, r, clock)"
    and gone: "LetGo (demo_frame SrcRecovery 2) \<in> set events"
    using overwriting_run by (auto split: option.splits)
  note run = tx_play_run [OF play tx_run.run_start]
  have chan: "fifo_channel (lora_ops list_ops) snd fst" by (simp add: list_channel_fifo)
  from frames_accounted [OF chan list_start_queues run] run gone show ?thesis by blast
qed

definition two_chunk_moves :: "tx_move list" where
  "two_chunk_moves =
     [Chunk (demo_frame SrcRecovery 1), Begin 0, Wake 0 0, Prepare 0, Transmit 50000 50000,
      Chunk (demo_frame SrcRecovery 2), Begin 60000, Wake 60000 60000, Begin 60000, Wake 250000 250000,
      Prepare 250000, Transmit 260000 260000]"

lemma two_chunk_run:
  "case tx_play two_chunk_moves ([], demo_start) of
     None \<Rightarrow> False
   | Some (events, s) \<Rightarrow> List.map_filter recovery_time events = [50000, 260000]"
  by code_simp

lemma recovery_chunks_apart_witness:
  "\<exists>events s. tx_run list_ops snd demo_start events s \<and> List.map_filter recovery_time events = [50000, 260000] \<and>
     apart 50000 260000"
proof -
  obtain events s where play: "tx_play two_chunk_moves ([], demo_start) = Some (events, s)"
    and times: "List.map_filter recovery_time events = [50000, 260000]"
    using two_chunk_run by (auto split: option.splits)
  note run = tx_play_run [OF play tx_run.run_start]
  have chan: "fifo_channel (lora_ops list_ops) snd fst" by (simp add: list_channel_fifo)
  have "apart 50000 260000" using recovery_chunks_apart [OF chan list_start_queues run] times by simp
  with run times show ?thesis by blast
qed

lemma reselecting_run:
  "case tx_play (take 15 overwriting_moves) ([], demo_start) of
     Some (events, Preparing envelope regular se, t, b, r, clock) \<Rightarrow>
       (case reselect list_ops 500000 envelope regular se t b r of
          (Sending e displaced missed, t', b', r') \<Rightarrow> snd (bd_emergency_results b) \<noteq> []
        | _ \<Rightarrow> False)
   | _ \<Rightarrow> False"
  by code_simp

lemma most_urgent_sent_witness:
  "\<exists>events envelope regular se t b r clock e displaced missed rest.
     tx_run list_ops snd demo_start events (Preparing envelope regular se, t, b, r, clock) \<and>
     reselect list_ops 500000 envelope regular se t b r = (Sending e displaced missed, rest) \<and>
     env_source e = SrcEmergencyResult"
proof -
  obtain events p t b r clock where
    play: "tx_play (take 15 overwriting_moves) ([], demo_start) = Some (events, p, t, b, r, clock)"
    using reselecting_run by (auto split: option.splits)
  then obtain envelope regular se where p: "p = Preparing envelope regular se"
    using reselecting_run by (cases p) auto
  obtain place t' b' r' where all: "reselect list_ops 500000 envelope regular se t b r = (place, t', b', r')"
    by (metis prod_cases4)
  have waiting: "snd (bd_emergency_results b) \<noteq> []" and "\<exists>e displaced missed. place = Sending e displaced missed"
    using reselecting_run play p all by (cases place; simp)+
  then obtain e displaced missed where select:
    "reselect list_ops 500000 envelope regular se t b r = (Sending e displaced missed, t', b', r')"
    using all by auto
  note play = play [unfolded p]
  note run = tx_play_run [OF play tx_run.run_start]
  have chan: "fifo_channel (lora_ops list_ops) snd fst" by (simp add: list_channel_fifo)
  have "SrcEmergencyResult \<le> env_source e"
    using most_urgent_sent [OF chan list_start_queues run select] waiting by simp
  then have "env_source e = SrcEmergencyResult" by (cases "env_source e") (auto simp: less_eq_lora_tx_source_def word_le_nat_alt)
  with run select show ?thesis by blast
qed

end
