(* ===== verification/SdRows.thy ===== *)
theory SdRows
  imports Board
begin

section \<open>The rows of the log files (src/tasks/sd\_task.rs)\<close>

text \<open>
  The SD task writes every CAN frame as one line of CAN.CSV, and a valid control roll frame also,
  decoded, as one line of ROLLV2.CSV. This theory holds the text of the rows, as Rust's formatting
  produces it, and a reader of the files for the theorems. A text is a list of characters; all of
  them are ASCII, so the length of a text is its number of bytes.
\<close>

subsection \<open>Numbers as text\<close>

definition digit_char :: "nat \<Rightarrow> char" where
  "digit_char d = (if d < 10 then char_of (48 + d) else char_of (55 + d))"

text \<open>\<open>{}\<close> for an unsigned number is \<open>digits 10\<close>, \<open>{:X}\<close> is \<open>digits 16\<close>; a width pads with zeros.\<close>

fun digits :: "nat \<Rightarrow> nat \<Rightarrow> string" where
  "digits base n =
     (if base < 2 \<or> n < base then [digit_char n]
      else digits base (n div base) @ [digit_char (n mod base)])"

declare digits.simps [simp del]

definition show_dec :: "nat \<Rightarrow> string" where
  "show_dec n = digits 10 n"

definition show_hex :: "nat \<Rightarrow> nat \<Rightarrow> string" where
  "show_hex w n = (let text = digits 16 n in replicate (w - length text) CHR ''0'' @ text)"

definition show_int :: "int \<Rightarrow> string" where
  "show_int i = (if i < 0 then CHR ''-'' # show_dec (nat (- i)) else show_dec (nat i))"

subsection \<open>Writing into a bounded string\<close>

text \<open>
  \<open>write!\<close> into \<open>heapless::String\<close> appends piece after piece and fails at the first that does not
  fit. \<open>csv_pieces\<close> are the pieces of one \<open>writeln!\<close>: the fields, commas between them, a newline.
\<close>

fun write_pieces :: "nat \<Rightarrow> string \<Rightarrow> string list \<Rightarrow> string option" where
  "write_pieces capacity text [] = Some text"
| "write_pieces capacity text (piece # pieces) =
     (if length text + length piece \<le> capacity then write_pieces capacity (text @ piece) pieces else None)"

definition newline :: char where "newline = CHR 0x0A"

fun csv_pieces :: "string list \<Rightarrow> string list" where
  "csv_pieces [] = [[newline]]"
| "csv_pieces [cell] = [cell, [newline]]"
| "csv_pieces (cell # cells) = cell # '','' # csv_pieces cells"

definition can_fields :: "raw_can_record \<Rightarrow> string list" where
  "can_fields record =
     [show_dec (unat (raw_received_at_ms record)), show_hex 3 (unat (raw_identifier record)),
      show_dec (unat (raw_data_length record))] @
     map (\<lambda>i. show_hex 2 (unat (raw_data record ! i))) [0, 1, 2, 3, 4, 5, 6, 7]"

definition control_roll_raw_status :: "u16 \<Rightarrow> string" where
  "control_roll_raw_status raw =
     (if raw = CONTROL_ROLL_OUT_OF_RANGE_RAW then ''OUT_OF_RANGE''
      else if 0x8000 \<le> raw \<and> raw \<le> 0x800f then ''ERROR''
      else ''NUMERIC'')"

text \<open>A count is a 16-bit number, so its text always fits (\<open>debug_assert!\<close>).\<close>

definition control_roll_count_text :: "u16 \<Rightarrow> string" where
  "control_roll_count_text raw =
     (case decode_control_roll_count raw of
        None \<Rightarrow> []
      | Some i \<Rightarrow> (case write_pieces 8 [] [show_int i] of None \<Rightarrow> [] | Some text \<Rightarrow> text))"

definition roll_row_fields :: "raw_can_record \<Rightarrow> control_roll_telemetry_v2 \<Rightarrow> string list" where
  "roll_row_fields record value =
     [show_dec (unat (raw_received_at_ms record)), show_dec (unat CONTROL_ROLL_SCHEMA_VERSION),
      show_hex 4 (unat (roll_reference_raw value)), show_hex 4 (unat (roll_deviation_raw value)),
      control_roll_count_text (roll_reference_raw value), control_roll_count_text (roll_deviation_raw value),
      control_roll_raw_status (roll_reference_raw value), control_roll_raw_status (roll_deviation_raw value),
      show_dec (unat (roll_flags value)),
      show_dec (if roll_flags value AND REFERENCE_CAPTURED_SINCE_PREVIOUS_FRAME \<noteq> 0 then 1 else 0),
      show_dec (unat (roll_capture_event_sequence value))]"

subsection \<open>The length of a row\<close>

lemma write_pieces_eq:
  "write_pieces capacity s pieces =
     (if length (s @ concat pieces) \<le> capacity then Some (s @ concat pieces) else None)"
  if "length s \<le> capacity"
  using that by (induction pieces arbitrary: s) auto

lemma length_digits_le: "2 \<le> base \<Longrightarrow> 0 < k \<Longrightarrow> n < base ^ k \<Longrightarrow> length (digits base n) \<le> k"
proof (induction k arbitrary: n)
  case (Suc k)
  show ?case
  proof (cases "n < base")
    case False
    then have "k \<noteq> 0" using Suc.prems by (cases k) auto
    moreover have "n div base < base ^ k" using Suc.prems by (simp add: less_mult_imp_div_less mult.commute)
    ultimately show ?thesis using Suc.IH [of "n div base"] Suc.prems False by (subst digits.simps) simp
  qed (subst digits.simps, simp)
qed simp

lemma length_show_dec: "0 < k \<Longrightarrow> n < 10 ^ k \<Longrightarrow> length (show_dec n) \<le> k"
  by (simp add: show_dec_def length_digits_le)

lemma length_show_hex: "0 < k \<Longrightarrow> n < 16 ^ k \<Longrightarrow> w \<le> k \<Longrightarrow> length (show_hex w n) \<le> k"
  using length_digits_le [of 16 k n] by (simp add: show_hex_def Let_def)

lemma length_csv_pieces:
  "cells \<noteq> [] \<Longrightarrow> length (concat (csv_pieces cells)) = sum_list (map length cells) + length cells"
  by (induction cells rule: csv_pieces.induct) auto

lemma dec_u64: "length (show_dec (unat (w :: u64))) \<le> 20"
  using unat_below [of w] by (intro length_show_dec) simp_all

lemma dec_u8: "length (show_dec (unat (w :: u8))) \<le> 3"
  by (intro length_show_dec less_le_trans [OF unat_below]) simp_all

lemma hex_u16: "w \<le> 4 \<Longrightarrow> length (show_hex w (unat (v :: u16))) \<le> 4"
  using unat_below [of v] by (intro length_show_hex) simp_all

lemma hex_u8: "length (show_hex 2 (unat (v :: u8))) \<le> 2"
  using unat_below [of v] by (intro length_show_hex) simp_all

lemma can_row_length: "length (concat (csv_pieces (can_fields record))) \<le> 54"
  using dec_u64 [of "raw_received_at_ms record"] hex_u16 [of 3 "raw_identifier record"]
    dec_u8 [of "raw_data_length record"] hex_u8 [of "raw_data record ! 0"] hex_u8 [of "raw_data record ! 1"]
    hex_u8 [of "raw_data record ! 2"] hex_u8 [of "raw_data record ! 3"] hex_u8 [of "raw_data record ! 4"]
    hex_u8 [of "raw_data record ! 5"] hex_u8 [of "raw_data record ! 6"] hex_u8 [of "raw_data record ! 7"]
  by (subst length_csv_pieces) (simp_all add: can_fields_def)

lemma show_int_i16: "length (show_int (sint (w :: u16))) \<le> 6"
proof -
  have "- 32768 \<le> sint w" "sint w < 32768"
    using sint_ge [of w] sint_lt [of w] by simp_all
  then have "length (show_dec (nat (- sint w))) \<le> 5" "length (show_dec (nat (sint w))) \<le> 5"
    by (intro length_show_dec; simp)+
  then show ?thesis by (simp add: show_int_def)
qed

lemma count_text_length: "length (control_roll_count_text raw) \<le> 6"
  using show_int_i16 [of raw] by (auto simp: control_roll_count_text_def decode_control_roll_count_def)

lemma status_length: "length (control_roll_raw_status raw) \<le> 12"
  by (simp add: control_roll_raw_status_def)

lemma roll_row_length: "length (concat (csv_pieces (roll_row_fields record v))) \<le> 86"
  using dec_u64 [of "raw_received_at_ms record"] hex_u16 [of 4 "roll_reference_raw v"]
    hex_u16 [of 4 "roll_deviation_raw v"] count_text_length [of "roll_reference_raw v"]
    count_text_length [of "roll_deviation_raw v"] status_length [of "roll_reference_raw v"]
    status_length [of "roll_deviation_raw v"] dec_u8 [of "roll_flags v"] dec_u8 [of "roll_capture_event_sequence v"]
    length_show_dec [of 1 2] length_show_dec [of 1 0] length_show_dec [of 1 1]
  by (subst length_csv_pieces) (auto simp: roll_row_fields_def)

subsection \<open>Reading a log file\<close>

text \<open>
  A reader of CAN.CSV, as a reference for what the file says: it splits the text into lines and the
  lines at their commas, and reads the numbers. The text of a row determines its frame.
\<close>

definition char_value :: "char \<Rightarrow> nat" where
  "char_value c = (let k = of_char c in if k < 58 then k - 48 else k - 55)"

definition read_digits :: "nat \<Rightarrow> string \<Rightarrow> nat" where
  "read_digits base s = foldl (\<lambda>n c. n * base + char_value c) 0 s"

definition read_can_row :: "string \<Rightarrow> raw_can_record option" where
  "read_can_row row =
     (case split_on CHR '','' row of
        t # i # n # bytes \<Rightarrow>
          Some \<lparr>raw_received_at_ms = of_nat (read_digits 10 t), raw_identifier = of_nat (read_digits 16 i),
            raw_data_length = of_nat (read_digits 10 n), raw_data = map (\<lambda>b. of_nat (read_digits 16 b)) bytes\<rparr>
      | _ \<Rightarrow> None)"

text \<open>The rows of a file behind its heading; the text ends with a newline.\<close>

definition read_log :: "string \<Rightarrow> raw_can_record option list" where
  "read_log file = map read_can_row (tl (butlast (split_on newline file)))"

lemma char_value_digit: "d < 16 \<Longrightarrow> char_value (digit_char d) = d"
  by (simp add: char_value_def digit_char_def)

lemma read_digits_append: "read_digits base (s @ [c]) = read_digits base s * base + char_value c"
  by (simp add: read_digits_def)

lemma read_digits_zeros: "read_digits base (replicate k CHR ''0'' @ s) = read_digits base s"
  by (induction k) (simp_all add: read_digits_def char_value_def)

lemma read_digits_digits: "2 \<le> base \<Longrightarrow> base \<le> 16 \<Longrightarrow> read_digits base (digits base n) = n"
proof (induction base n rule: digits.induct)
  case (1 base n)
  show ?case
  proof (cases "n < base")
    case True
    then show ?thesis using 1 by (subst digits.simps) (simp add: read_digits_def char_value_digit)
  next
    case False
    then have "n mod base < 16" "n div base * base + n mod base = n" using 1 by (auto intro: less_le_trans [of _ base])
    then show ?thesis using 1 False
      by (subst digits.simps) (simp add: read_digits_append char_value_digit)
  qed
qed

lemma read_show_dec: "read_digits 10 (show_dec n) = n"
  by (simp add: show_dec_def read_digits_digits)

lemma read_show_hex: "read_digits 16 (show_hex w n) = n"
  by (simp add: show_hex_def Let_def read_digits_zeros read_digits_digits)

definition plain_cell :: "string \<Rightarrow> bool" where
  "plain_cell s \<longleftrightarrow> CHR '','' \<notin> set s \<and> newline \<notin> set s"

lemma plain_append: "plain_cell (a @ b) \<longleftrightarrow> plain_cell a \<and> plain_cell b"
  by (auto simp: plain_cell_def)

lemma plain_digit: "d < 16 \<Longrightarrow> plain_cell [digit_char d]"
proof -
  assume "d < 16"
  then have range: "of_char (digit_char d) \<in> {48 ..< 71 :: nat}" by (simp add: digit_char_def)
  have "c \<noteq> digit_char d" if "of_char c < (48 :: nat)" for c
    using range that by auto
  from this [of "CHR '',''"] this [of "CHR 0x0A"] show ?thesis by (simp add: plain_cell_def newline_def)
qed

lemma plain_cell_digits: "2 \<le> base \<Longrightarrow> base \<le> 16 \<Longrightarrow> plain_cell (digits base n)"
proof (induction base n rule: digits.induct)
  case (1 base n)
  then have "n mod base < 16" "n < base \<Longrightarrow> n < 16" by (auto intro: less_le_trans [of _ base])
  then show ?case using 1 by (subst digits.simps) (auto simp: plain_append plain_digit)
qed

lemma plain_show: "plain_cell (show_dec n)" "plain_cell (show_hex w n)"
  using plain_cell_digits [of 10 n] plain_cell_digits [of 16 n]
  by (auto simp: show_dec_def show_hex_def Let_def plain_append) (auto simp: plain_cell_def newline_def)

definition csv_line :: "string list \<Rightarrow> string" where
  "csv_line cells = butlast (concat (csv_pieces cells))"

lemma csv_pieces_line: "concat (csv_pieces cells) = csv_line cells @ [newline]"
proof -
  have "concat (csv_pieces cells) \<noteq> [] \<and> last (concat (csv_pieces cells)) = newline"
    by (induction cells rule: csv_pieces.induct) auto
  then show ?thesis by (metis append_butlast_last_id csv_line_def)
qed

lemma csv_line_simps:
  "csv_line [cell] = cell"
  "csv_line (cell # cell' # cells) = cell @ CHR '','' # csv_line (cell' # cells)"
proof -
  have "concat (csv_pieces (cell' # cells)) \<noteq> []" by (metis csv_pieces_line snoc_eq_iff_butlast)
  then show "csv_line [cell] = cell" "csv_line (cell # cell' # cells) = cell @ CHR '','' # csv_line (cell' # cells)"
    by (auto simp: csv_line_def butlast_append)
qed

lemma split_csv_line:
  "\<forall>cell \<in> set cells. plain_cell cell \<Longrightarrow> cells \<noteq> [] \<Longrightarrow>
     split_on CHR '','' (csv_line cells) = cells \<and> newline \<notin> set (csv_line cells)"
proof (induction cells rule: csv_pieces.induct)
  case (3 cell v va)
  then show ?case by (simp add: csv_line_simps split_on_append plain_cell_def newline_def)
qed (simp_all add: csv_line_simps split_on_plain plain_cell_def)

lemma can_row_read:
  assumes "length (raw_data record) = 8"
  shows "read_can_row (csv_line (can_fields record)) = Some record"
    and "newline \<notin> set (csv_line (can_fields record))"
proof -
  obtain d0 d1 d2 d3 d4 d5 d6 d7 where d: "raw_data record = [d0, d1, d2, d3, d4, d5, d6, d7]"
    using assms by (auto simp: length_Suc_conv numeral_eq_Suc)
  have "\<forall>cell \<in> set (can_fields record). plain_cell cell" "can_fields record \<noteq> []"
    by (auto simp: can_fields_def plain_show)
  note line = split_csv_line [OF this]
  then show "newline \<notin> set (csv_line (can_fields record))" by simp
  show "read_can_row (csv_line (can_fields record)) = Some record"
    using line by (simp add: read_can_row_def can_fields_def d read_show_dec read_show_hex)
qed

theorem read_log_rows:
  assumes "newline \<notin> set heading" "\<forall>record \<in> set records. length (raw_data record) = 8"
  shows "read_log (heading @ [newline] @ concat (map (\<lambda>record. concat (csv_pieces (can_fields record))) records)) =
    map Some records"
proof -
  let ?lines = "heading # map (\<lambda>record. csv_line (can_fields record)) records"
  have "split_on newline (concat (map (\<lambda>row. row @ [newline]) ?lines)) = ?lines @ [[]]"
    using assms can_row_read(2) by (intro split_on_lines) auto
  then show ?thesis
    using assms(2) by (simp add: read_log_def csv_pieces_line comp_def can_row_read(1))
qed

end
