(* ===== verification/SdLog.thy ===== *)
theory SdLog
  imports SdRows RadioPackets
begin

section \<open>The SD task (src/tasks/sd\_task.rs)\<close>

text \<open>
  The task opens the two log files, writes their headings when they are empty, and then collects
  the rows of received frames in two buffers. A buffer goes to the card when the next row does not
  fit, at every tick of a second, at a flush signal, and when logging is switched off. The card and
  its file system are a library: the outcome of each call is an argument, and what the task asked
  of it is listed in \<open>sd_event\<close>. \<open>sd_task\<close> extends the statics the radio tasks read by the
  variables and counters of this task.
\<close>

definition BUF_SIZE :: nat where "BUF_SIZE = 2048"

record row_buffer =
  rb_bytes :: string
  rb_cursor :: nat

definition unwritten :: "row_buffer \<Rightarrow> string" where
  "unwritten q = take (rb_cursor q) (rb_bytes q)"

record sd_task = radio_statics +
  sd_led :: bool
  sd_can :: row_buffer
  sd_roll :: row_buffer
  sd_write_error_count :: u32
  sd_dropped_row_count :: u32

datatype sd_file = CanFile | RollFile

datatype sd_event =
  Arrived raw_can_record bool
| FileWrite sd_file string bool
| FileFlush sd_file bool
| Lost sd_file string

definition mark_sd_error :: "sd_task \<Rightarrow> sd_task" where
  "mark_sd_error t = t\<lparr>rst_sd_has_error := True, rst_logging_active := False, sd_led := False\<rparr>"

definition card_failed :: "sd_task \<Rightarrow> sd_task" where
  "card_failed t = (mark_sd_error t)\<lparr>sd_write_error_count := sd_write_error_count t + 1\<rparr>"

definition row_dropped :: "sd_task \<Rightarrow> sd_task" where
  "row_dropped t = t\<lparr>sd_dropped_row_count := sd_dropped_row_count t + 1\<rparr>"

subsection \<open>Opening the files\<close>

text \<open>
  The outcomes of opening one file: its length (\<open>None\<close>: not opened), of writing and flushing the
  heading of an empty file, and of seeking to the end of another.
\<close>

record file_answers =
  fa_length :: "nat option"
  fa_write :: bool
  fa_flush :: bool
  fa_seek :: bool

record card_start =
  ca_volume :: bool
  ca_root_dir :: bool
  ca_can :: file_answers
  ca_roll :: file_answers

definition CAN_HEADING :: string where
  "CAN_HEADING = ''Time_ms,Id,Dlc,D0,D1,D2,D3,D4,D5,D6,D7'' @ [newline]"

definition ROLL_HEADING :: string where
  "ROLL_HEADING = ''Time_ms,SchemaVersion,ReferenceRawHex,DeviationRawHex,ReferenceCount,DeviationCount,ReferenceStatus,DeviationStatus,Flags,ReferenceCapturedEvent,ReferenceCaptureEventSequence'' @ [newline]"

definition open_log :: "sd_file \<Rightarrow> string \<Rightarrow> file_answers \<Rightarrow> sd_task \<Rightarrow> sd_event list \<times> bool \<times> sd_task" where
  "open_log file heading a t =
     (case fa_length a of
        None \<Rightarrow> ([], False, mark_sd_error t)
      | Some n \<Rightarrow>
          if n = 0
          then (if \<not> fa_write a then ([FileWrite file heading False], False, card_failed t)
                else if \<not> fa_flush a
                then ([FileWrite file heading True, FileFlush file False], False, card_failed t)
                else ([FileWrite file heading True, FileFlush file True], True, t))
          else if fa_seek a then ([], True, t) else ([], False, mark_sd_error t))"

definition sd_start :: "card_start \<Rightarrow> sd_task \<Rightarrow> sd_event list \<times> bool \<times> sd_task" where
  "sd_start a t =
     (let t = t\<lparr>sd_led := False, rst_logging_active := False, rst_sd_has_error := False\<rparr>
      in if \<not> ca_volume a then ([], False, mark_sd_error t)
         else if \<not> ca_root_dir a then ([], False, mark_sd_error t)
         else case open_log CanFile CAN_HEADING (ca_can a) t of
             (events, False, t) \<Rightarrow> (events, False, t)
           | (events, True, t) \<Rightarrow>
               (case open_log RollFile ROLL_HEADING (ca_roll a) t of
                  (events', opened, t) \<Rightarrow>
                    (events @ events', opened,
                     if opened
                     then t\<lparr>sd_can := \<lparr>rb_bytes = replicate BUF_SIZE CHR 0x00, rb_cursor = 0\<rparr>,
                            sd_roll := \<lparr>rb_bytes = replicate BUF_SIZE CHR 0x00, rb_cursor = 0\<rparr>\<rparr>
                     else t)))"

subsection \<open>One turn of the loop\<close>

text \<open>Whether each call of a turn succeeds, by the place of the call.\<close>

record card_answers =
  ok_can_full :: bool
  ok_roll_full :: bool
  ok_can_write :: bool
  ok_can_flush :: bool
  ok_roll_write :: bool
  ok_roll_flush :: bool

text \<open>
  A row goes into its buffer, which is written out before when it is full. If that fails, its
  contents are given up: \<open>Lost\<close>.
\<close>

definition append_row ::
  "sd_file \<Rightarrow> bool \<Rightarrow> string option \<Rightarrow> row_buffer \<times> sd_task \<Rightarrow> sd_event list \<times> row_buffer \<times> sd_task" where
  "append_row file ok line s =
     (case s of (q, t) \<Rightarrow>
      case line of
        None \<Rightarrow> ([], q, row_dropped t)
      | Some bytes \<Rightarrow>
          let (events, q, t) =
                (if length (rb_bytes q) < rb_cursor q + length bytes
                 then (FileWrite file (unwritten q) ok # (if ok then [] else [Lost file (unwritten q)]),
                       q\<lparr>rb_cursor := 0\<rparr>, if ok then t else card_failed t)
                 else ([], q, t))
          in if rb_cursor q + length bytes \<le> length (rb_bytes q)
             then (events, q\<lparr>rb_bytes := copy_into (rb_bytes q) (rb_cursor q) bytes,
                             rb_cursor := rb_cursor q + length bytes\<rparr>, t)
             else (events, q, row_dropped t))"

text \<open>The decoded control roll value of a frame, if it is one.\<close>

definition roll_value :: "raw_can_record \<Rightarrow> control_roll_telemetry_v2 option" where
  "roll_value record =
     (if raw_identifier record = CAN_ID_CONTROL_ROLL_V2
      then (case decode_standard (raw_identifier record)
                   (take (min (unat (raw_data_length record)) 8) (raw_data record)) of
              Inr (RxControlRollV2 v) \<Rightarrow> Some v
            | _ \<Rightarrow> None)
      else None)"

definition log_record :: "card_answers \<Rightarrow> bool \<Rightarrow> raw_can_record \<Rightarrow> sd_task \<Rightarrow> sd_event list \<times> sd_task" where
  "log_record a requested record t =
     (let logging = requested \<and> \<not> rst_sd_has_error t;
          t = t\<lparr>rst_logging_active := logging\<rparr>
      in if \<not> logging then ([Arrived record requested], t\<lparr>sd_led := False\<rparr>)
         else
           let t = t\<lparr>sd_led := True\<rparr>;
               (events, q, t) = append_row CanFile (ok_can_full a)
                 (write_pieces 128 [] (csv_pieces (can_fields record))) (sd_can t, t);
               t = t\<lparr>sd_can := q\<rparr>
           in case roll_value record of
                None \<Rightarrow> (Arrived record requested # events, t)
              | Some v \<Rightarrow>
                  let (events', q, t) = append_row RollFile (ok_roll_full a)
                        (write_pieces 160 [] (csv_pieces (roll_row_fields record v))) (sd_roll t, t)
                  in (Arrived record requested # events @ events', t\<lparr>sd_roll := q\<rparr>))"

text \<open>A buffer that could not be written is kept for the next attempt.\<close>

definition flush_file ::
  "sd_file \<Rightarrow> bool \<Rightarrow> bool \<Rightarrow> row_buffer \<times> sd_task \<Rightarrow> sd_event list \<times> row_buffer \<times> sd_task" where
  "flush_file file write_ok flush_ok s =
     (case s of (q, t) \<Rightarrow>
        let (events, q, t) =
              (if rb_cursor q = 0 then ([], q, t)
               else ([FileWrite file (unwritten q) write_ok],
                     if write_ok then q\<lparr>rb_cursor := 0\<rparr> else q, if write_ok then t else card_failed t))
        in (events @ [FileFlush file flush_ok], q, if flush_ok then t else card_failed t))"

definition flush_files :: "card_answers \<Rightarrow> sd_task \<Rightarrow> sd_event list \<times> sd_task" where
  "flush_files a t =
     (let (events, q, t) = flush_file CanFile (ok_can_write a) (ok_can_flush a) (sd_can t, t);
          t = t\<lparr>sd_can := q\<rparr>;
          (events', q, t) = flush_file RollFile (ok_roll_write a) (ok_roll_flush a) (sd_roll t, t)
      in (events @ events', t\<lparr>sd_roll := q\<rparr>))"

text \<open>
  A frame from the queue; or, with the queue empty, the ticker or the flush signal. The task runs
  on a core of its own, so each of its three looks at LOGGING\_REQUESTED in a turn may see another
  value.
\<close>

datatype sd_wakeup = RecordReceived raw_can_record | FlushDue

definition sd_turn ::
  "card_answers \<Rightarrow> sd_wakeup \<Rightarrow> bool \<Rightarrow> bool \<Rightarrow> bool \<Rightarrow> sd_task \<Rightarrow> sd_event list \<times> sd_task" where
  "sd_turn a w requested requested' requested'' t =
     (let (events, flush_requested, t) =
            (case w of
               RecordReceived record \<Rightarrow>
                 (case log_record a requested record t of (events, t) \<Rightarrow> (events, False, t))
             | FlushDue \<Rightarrow> ([], True, t));
          (events', t) = (if flush_requested \<or> \<not> requested' then flush_files a t else ([], t));
          t = (if \<not> requested'' then t\<lparr>rst_logging_active := False, sd_led := False\<rparr> else t)
      in (events @ events',
          t\<lparr>rst_has_unflushed_data := 0 < rb_cursor (sd_can t) \<or> 0 < rb_cursor (sd_roll t)\<rparr>))"

subsection \<open>The task among the others\<close>

text \<open>In a step \<open>sd_others\<close> the other tasks change whatever this task does not own.\<close>

definition keeps_own :: "sd_task \<Rightarrow> sd_task \<Rightarrow> bool" where
  "keeps_own t t' \<longleftrightarrow>
     sd_led t' = sd_led t \<and> sd_can t' = sd_can t \<and> sd_roll t' = sd_roll t \<and>
     sd_write_error_count t' = sd_write_error_count t \<and> sd_dropped_row_count t' = sd_dropped_row_count t \<and>
     rst_sd_has_error t' = rst_sd_has_error t \<and> rst_logging_active t' = rst_logging_active t \<and>
     rst_has_unflushed_data t' = rst_has_unflushed_data t"

inductive sd_step ::
  "('l, 'c, 'r, 'g) board_ops \<Rightarrow> sd_task \<times> ('l, 'c, 'r, 'g) board \<Rightarrow> sd_event list \<Rightarrow>
   sd_task \<times> ('l, 'c, 'r, 'g) board \<Rightarrow> bool" for ops where
  sd_receives: "try_receive (raw_ops ops) (bd_raw_can_log b) = (Some record, q) \<Longrightarrow>
    sd_turn a (RecordReceived record) requested requested' requested'' t = (events, t') \<Longrightarrow>
    sd_step ops (t, b) events (t', b\<lparr>bd_raw_can_log := q\<rparr>)"
| sd_flushes: "try_receive (raw_ops ops) (bd_raw_can_log b) = (None, q) \<Longrightarrow>
    sd_turn a FlushDue requested requested' requested'' t = (events, t') \<Longrightarrow>
    sd_step ops (t, b) events (t', b)"
| sd_others: "keeps_own t t' \<Longrightarrow> sd_step ops (t, b) [] (t', b')"

inductive sd_run ::
  "('l, 'c, 'r, 'g) board_ops \<Rightarrow> card_start \<Rightarrow> sd_task \<Rightarrow> sd_event list \<Rightarrow>
   sd_task \<times> ('l, 'c, 'r, 'g) board \<Rightarrow> bool" for ops a t0 where
  sd_run_start: "sd_start a t0 = (events, True, t) \<Longrightarrow> sd_run ops a t0 events (t, b)"
| sd_run_step: "sd_run ops a t0 events s \<Longrightarrow> sd_step ops s events' s' \<Longrightarrow> sd_run ops a t0 (events @ events') s'"

subsection \<open>Every row is accounted for\<close>

definition file_buffer :: "sd_file \<Rightarrow> sd_task \<Rightarrow> row_buffer" where
  "file_buffer file t = (case file of CanFile \<Rightarrow> sd_can t | RollFile \<Rightarrow> sd_roll t)"

definition row_of :: "sd_file \<Rightarrow> raw_can_record \<Rightarrow> string" where
  "row_of file record =
     (case file of
        CanFile \<Rightarrow> concat (csv_pieces (can_fields record))
      | RollFile \<Rightarrow> (case roll_value record of None \<Rightarrow> [] | Some v \<Rightarrow> concat (csv_pieces (roll_row_fields record v))))"

text \<open>
  The frames that are logged: those received while logging is requested, before the first call of
  the card that fails.
\<close>

fun failed :: "sd_event \<Rightarrow> bool" where
  "failed (FileWrite file bytes ok) = (\<not> ok)"
| "failed (FileFlush file ok) = (\<not> ok)"
| "failed _ = False"

fun logged :: "bool \<Rightarrow> sd_event list \<Rightarrow> raw_can_record list" where
  "logged broken [] = []"
| "logged broken (Arrived record requested # events) =
     (if requested \<and> \<not> broken then [record] else []) @ logged broken events"
| "logged broken (event # events) = logged (broken \<or> failed event) events"

text \<open>The bytes of a file that a call has brought to the card, and those that were given up.\<close>

fun saved :: "sd_file \<Rightarrow> sd_event \<Rightarrow> string" where
  "saved file (FileWrite file' bytes ok) = (if file' = file \<and> ok then bytes else [])"
| "saved file _ = []"

fun gone :: "sd_file \<Rightarrow> sd_event \<Rightarrow> string" where
  "gone file (FileWrite file' bytes ok) = (if file' = file \<and> ok then bytes else [])"
| "gone file (Lost file' bytes) = (if file' = file then bytes else [])"
| "gone file _ = []"

definition failures :: "sd_event list \<Rightarrow> nat" where
  "failures events = length (filter failed events)"

fun is_arrival :: "sd_event \<Rightarrow> bool" where
  "is_arrival (Arrived record requested) = True"
| "is_arrival _ = False"

definition buffer_ok :: "row_buffer \<Rightarrow> bool" where
  "buffer_ok q \<longleftrightarrow> length (rb_bytes q) = BUF_SIZE \<and> rb_cursor q \<le> BUF_SIZE"

lemma failures_simps [simp]:
  "failures [] = 0" "failures (e # es) = (if failed e then 1 else 0) + failures es"
  "failures (es @ es') = failures es + failures es'"
  by (simp_all add: failures_def)

lemma logged_append: "logged broken (es @ es') = logged broken es @ logged (broken \<or> 0 < failures es) es'"
  by (induction broken es rule: logged.induct) auto

lemma logged_calls: "\<forall>e \<in> set es. \<not> is_arrival e \<Longrightarrow> logged broken es = []"
  by (induction broken es rule: logged.induct) auto

lemma card_failed_fields [simp]:
  "sd_can (card_failed t) = sd_can t" "sd_roll (card_failed t) = sd_roll t"
  "sd_dropped_row_count (card_failed t) = sd_dropped_row_count t"
  "rst_sd_has_error (card_failed t)" "\<not> rst_logging_active (card_failed t)" "\<not> sd_led (card_failed t)"
  "sd_write_error_count (card_failed t) = sd_write_error_count t + 1"
  by (simp_all add: card_failed_def mark_sd_error_def)

lemma card_failed_pow [simp]:
  "sd_can ((card_failed ^^ n) t) = sd_can t" "sd_roll ((card_failed ^^ n) t) = sd_roll t"
  "sd_dropped_row_count ((card_failed ^^ n) t) = sd_dropped_row_count t"
  "rst_sd_has_error ((card_failed ^^ n) t) = (rst_sd_has_error t \<or> 0 < n)"
  "rst_logging_active ((card_failed ^^ n) t) = (rst_logging_active t \<and> n = 0)"
  "sd_led ((card_failed ^^ n) t) = (sd_led t \<and> n = 0)"
  "sd_write_error_count ((card_failed ^^ n) t) = sd_write_error_count t + of_nat n"
  by (induction n) simp_all

text \<open>What a call or several do: the buffer of their file moves on, failures are recorded.\<close>

definition calls_done ::
  "sd_file \<Rightarrow> string \<Rightarrow> row_buffer \<times> sd_task \<Rightarrow> sd_event list \<Rightarrow> row_buffer \<times> sd_task \<Rightarrow> bool" where
  "calls_done file line s events s' \<longleftrightarrow>
     (case (s, s') of ((q, t), (q', t')) \<Rightarrow>
        buffer_ok q' \<and> t' = (card_failed ^^ failures events) t \<and>
        (\<forall>f. (if f = file then unwritten q @ line else []) =
             concat (map (gone f) events) @ (if f = file then unwritten q' else [])) \<and>
        (\<forall>e \<in> set events. \<not> is_arrival e) \<and>
        (failures events = 0 \<longrightarrow> (\<forall>f. map (gone f) events = map (saved f) events)))"

lemma append_row_done:
  assumes "buffer_ok q" "length line \<le> BUF_SIZE" "append_row file ok (Some line) (q, t) = (events, q', t')"
  shows "calls_done file line (q, t) events (q', t')"
proof -
  have copied: "unwritten (q\<lparr>rb_bytes := copy_into (rb_bytes q) c line, rb_cursor := c + length line\<rparr>) =
      take c (rb_bytes q) @ line"
    if "c + length line \<le> length (rb_bytes q)" for c
    using that by (simp add: unwritten_def take_copy_into)
  show ?thesis
    using assms copied [of "rb_cursor q"] copied [of 0]
    by (cases ok) (auto simp: append_row_def calls_done_def buffer_ok_def Let_def unwritten_def split: if_splits)
qed

lemma flush_file_done:
  assumes "buffer_ok q" "flush_file file write_ok flush_ok (q, t) = (events, q', t')"
  shows "calls_done file [] (q, t) events (q', t')"
  using assms
  by (auto simp: flush_file_def calls_done_def buffer_ok_def unwritten_def Let_def funpow_swap1 split: if_splits)

lemma rows_fit:
  "write_pieces 128 [] (csv_pieces (can_fields record)) = Some (row_of CanFile record)"
  "write_pieces 160 [] (csv_pieces (roll_row_fields record v)) = Some (concat (csv_pieces (roll_row_fields record v)))"
  "length (row_of CanFile record) \<le> BUF_SIZE"
  "length (concat (csv_pieces (roll_row_fields record v))) \<le> BUF_SIZE"
  using can_row_length [of "record"] roll_row_length [of "record" v]
  by (simp_all add: write_pieces_eq row_of_def BUF_SIZE_def)

text \<open>
  The state between two turns, and what a turn adds: for each file the rows of the logged frames
  follow what was buffered, and the flags and counters tell the failures.
\<close>

definition sd_ok :: "sd_task \<Rightarrow> bool" where
  "sd_ok t \<longleftrightarrow> buffer_ok (sd_can t) \<and> buffer_ok (sd_roll t) \<and> sd_led t = rst_logging_active t \<and>
     (rst_logging_active t \<longrightarrow> \<not> rst_sd_has_error t)"

definition rows_added :: "sd_task \<Rightarrow> sd_event list \<Rightarrow> sd_task \<Rightarrow> bool" where
  "rows_added t events t' \<longleftrightarrow>
     (\<forall>f. unwritten (file_buffer f t) @ concat (map (row_of f) (logged (rst_sd_has_error t) events)) =
          concat (map (gone f) events) @ unwritten (file_buffer f t')) \<and>
     rst_sd_has_error t' = (rst_sd_has_error t \<or> 0 < failures events) \<and>
     sd_write_error_count t' = sd_write_error_count t + of_nat (failures events) \<and>
     sd_dropped_row_count t' = sd_dropped_row_count t \<and>
     (failures events = 0 \<longrightarrow> (\<forall>f. map (gone f) events = map (saved f) events))"

lemma rows_added_append:
  assumes "rows_added t es t'" "rows_added t' es' t''"
  shows "rows_added t (es @ es') t''"
proof -
  have "unwritten (file_buffer f t) @ concat (map (row_of f) (logged (rst_sd_has_error t) (es @ es'))) =
      concat (map (gone f) (es @ es')) @ unwritten (file_buffer f t'')" for f
  proof -
    have "unwritten (file_buffer f t) @ concat (map (row_of f) (logged (rst_sd_has_error t) es)) =
        concat (map (gone f) es) @ unwritten (file_buffer f t')"
      "unwritten (file_buffer f t') @ concat (map (row_of f) (logged (rst_sd_has_error t \<or> 0 < failures es) es')) =
        concat (map (gone f) es') @ unwritten (file_buffer f t'')"
      using assms by (simp_all add: rows_added_def)
    then show ?thesis by (simp add: logged_append) (metis append.assoc)
  qed
  then show ?thesis using assms by (simp add: rows_added_def)
qed

lemma log_record_added:
  assumes "sd_ok t" "log_record a requested record t = (events, t')"
  shows "sd_ok t' \<and> rows_added t events t' \<and>
    rst_logging_active t' = (requested \<and> \<not> rst_sd_has_error t \<and> failures events = 0)"
proof (cases "requested \<and> \<not> rst_sd_has_error t")
  case False
  then show ?thesis using assms
    by (auto simp: log_record_def Let_def sd_ok_def rows_added_def file_buffer_def split: sd_file.split)
next
  case True
  let ?t = "t\<lparr>rst_logging_active := True, sd_led := True\<rparr>"
  obtain es q t1 where can: "append_row CanFile (ok_can_full a) (Some (row_of CanFile record)) (sd_can t, ?t) = (es, q, t1)"
    by (metis prod_cases3)
  have "calls_done CanFile (row_of CanFile record) (sd_can t, ?t) es (q, t1)"
    using append_row_done [OF _ rows_fit(3) can] assms(1) by (simp add: sd_ok_def)
  then have can_done: "buffer_ok q" "t1 = (card_failed ^^ failures es) ?t" "\<forall>e \<in> set es. \<not> is_arrival e"
    "failures es = 0 \<Longrightarrow> map (gone f) es = map (saved f) es"
    "unwritten (sd_can t) @ row_of CanFile record = concat (map (gone CanFile) es) @ unwritten q"
    "concat (map (gone RollFile) es) = []"
    for f unfolding calls_done_def by (auto dest: spec [of _ CanFile] spec [of _ RollFile])
  show ?thesis
  proof (cases "roll_value record")
    case None
    then show ?thesis using assms True can can_done logged_calls [of es]
      by (auto simp: log_record_def Let_def rows_fit sd_ok_def rows_added_def file_buffer_def row_of_def split: sd_file.split)
  next
    case (Some v)
    let ?row = "concat (csv_pieces (roll_row_fields record v))"
    let ?t1 = "t1\<lparr>sd_can := q\<rparr>"
    obtain es' q' t2 where roll: "append_row RollFile (ok_roll_full a) (Some ?row) (sd_roll ?t1, ?t1) = (es', q', t2)"
      by (metis prod_cases3)
    have "calls_done RollFile ?row (sd_roll t, ?t1) es' (q', t2)"
      using append_row_done [OF _ rows_fit(4) roll] assms(1) can_done(2) by (simp add: sd_ok_def)
    then have roll_done: "buffer_ok q'" "t2 = (card_failed ^^ failures es') ?t1" "\<forall>e \<in> set es'. \<not> is_arrival e"
    "failures es' = 0 \<Longrightarrow> map (gone f) es' = map (saved f) es'"
      "unwritten (sd_roll t) @ ?row = concat (map (gone RollFile) es') @ unwritten q'"
      "concat (map (gone CanFile) es') = []"
      for f unfolding calls_done_def by (auto dest: spec [of _ CanFile] spec [of _ RollFile])
    have "events = Arrived record requested # es @ es'" "t' = t2\<lparr>sd_roll := q'\<rparr>"
      using assms(2) True can roll Some by (simp_all add: log_record_def Let_def rows_fit)
    then show ?thesis using assms(1) True Some can_done roll_done logged_calls [of es] logged_calls [of es']
      by (auto simp: sd_ok_def rows_added_def file_buffer_def row_of_def logged_append split: sd_file.split)
  qed
qed

lemma flush_files_added:
  assumes "sd_ok t" "flush_files a t = (events, t')"
  shows "sd_ok t' \<and> rows_added t events t' \<and>
    rst_logging_active t' = (rst_logging_active t \<and> failures events = 0)"
proof -
  obtain es q t1 where can: "flush_file CanFile (ok_can_write a) (ok_can_flush a) (sd_can t, t) = (es, q, t1)"
    by (metis prod_cases3)
  have "calls_done CanFile [] (sd_can t, t) es (q, t1)"
    using flush_file_done [OF _ can] assms(1) by (simp add: sd_ok_def)
  then have can_done: "buffer_ok q" "t1 = (card_failed ^^ failures es) t" "\<forall>e \<in> set es. \<not> is_arrival e"
    "failures es = 0 \<Longrightarrow> map (gone f) es = map (saved f) es"
    "unwritten (sd_can t) = concat (map (gone CanFile) es) @ unwritten q"
    "concat (map (gone RollFile) es) = []"
    for f unfolding calls_done_def by (auto dest: spec [of _ CanFile] spec [of _ RollFile])
  let ?t1 = "t1\<lparr>sd_can := q\<rparr>"
  obtain es' q' t2 where roll: "flush_file RollFile (ok_roll_write a) (ok_roll_flush a) (sd_roll ?t1, ?t1) = (es', q', t2)"
    by (metis prod_cases3)
  have "calls_done RollFile [] (sd_roll t, ?t1) es' (q', t2)"
    using flush_file_done [OF _ roll] assms(1) can_done(2) by (simp add: sd_ok_def)
  then have roll_done: "buffer_ok q'" "t2 = (card_failed ^^ failures es') ?t1" "\<forall>e \<in> set es'. \<not> is_arrival e"
    "failures es' = 0 \<Longrightarrow> map (gone f) es' = map (saved f) es'"
    "unwritten (sd_roll t) = concat (map (gone RollFile) es') @ unwritten q'"
    "concat (map (gone CanFile) es') = []"
    for f unfolding calls_done_def by (auto dest: spec [of _ CanFile] spec [of _ RollFile])
  have "events = es @ es'" "t' = t2\<lparr>sd_roll := q'\<rparr>"
    using assms(2) can roll by (simp_all add: flush_files_def Let_def)
  then show ?thesis using assms(1) can_done roll_done logged_calls [of es] logged_calls [of es']
    by (auto simp: sd_ok_def rows_added_def file_buffer_def logged_append split: sd_file.split)
qed

lemma sd_turn_added:
  assumes "sd_ok t" "sd_turn a w requested requested' requested'' t = (events, t')"
  shows "sd_ok t' \<and> rows_added t events t' \<and>
    rst_has_unflushed_data t' = (rb_cursor (sd_can t') \<noteq> 0 \<or> rb_cursor (sd_roll t') \<noteq> 0) \<and>
    rst_logging_active t' = (\<not> rst_sd_has_error t \<and> failures events = 0 \<and> requested'' \<and>
      (case w of RecordReceived record \<Rightarrow> requested | FlushDue \<Rightarrow> rst_logging_active t))"
proof -
  define first where "first = (case w of
      RecordReceived record \<Rightarrow> (case log_record a requested record t of (events, t) \<Rightarrow> (events, False, t))
    | FlushDue \<Rightarrow> ([], True, t))"
  obtain es flush t1 where one: "first = (es, flush, t1)" by (metis prod_cases3)
  obtain es' t2 where two: "(if flush \<or> \<not> requested' then flush_files a t1 else ([], t1)) = (es', t2)"
    by (metis surj_pair)
  have active: "rst_logging_active t \<longrightarrow> \<not> rst_sd_has_error t" using assms(1) by (simp add: sd_ok_def)
  have "sd_ok t1 \<and> rows_added t es t1"
    using one assms(1) log_record_added [OF assms(1), of a requested]
    by (auto simp: first_def rows_added_def split: sd_wakeup.splits prod.splits)
  moreover have shown: "rst_logging_active t1 = (\<not> rst_sd_has_error t \<and> failures es = 0 \<and>
      (case w of RecordReceived record \<Rightarrow> requested | FlushDue \<Rightarrow> rst_logging_active t))"
    using one active log_record_added [OF assms(1), of a requested]
    by (auto simp: first_def split: sd_wakeup.splits prod.splits)
  moreover from calculation have "sd_ok t2 \<and> rows_added t1 es' t2 \<and>
      rst_logging_active t2 = (rst_logging_active t1 \<and> failures es' = 0)"
    using two flush_files_added [of t1 a] by (auto simp: rows_added_def split: if_splits)
  ultimately have both: "sd_ok t2" "rows_added t (es @ es') t2"
    and both_shown: "rst_logging_active t2 = (rst_logging_active t1 \<and> failures es' = 0)"
    using rows_added_append by blast+
  have "events = es @ es'"
    "t' = (if \<not> requested'' then t2\<lparr>rst_logging_active := False, sd_led := False\<rparr> else t2)
       \<lparr>rst_has_unflushed_data := 0 < rb_cursor (sd_can t2) \<or> 0 < rb_cursor (sd_roll t2)\<rparr>"
    using assms(2) one two unfolding sd_turn_def first_def [symmetric] by (auto simp: Let_def)
  then show ?thesis using both both_shown shown
    by (auto simp: sd_ok_def rows_added_def file_buffer_def split: sd_file.split)
qed

definition unflushed_known :: "sd_task \<Rightarrow> bool" where
  "unflushed_known t \<longleftrightarrow>
     (\<not> rst_has_unflushed_data t \<longrightarrow> rb_cursor (sd_can t) = 0 \<and> rb_cursor (sd_roll t) = 0)"

lemma sd_step_added:
  assumes "sd_step ops (t, b) events (t', b')" "sd_ok t"
  shows "sd_ok t' \<and> rows_added t events t' \<and>
    (unflushed_known t \<longrightarrow> unflushed_known t')"
  using assms
proof (cases rule: sd_step.cases)
  case (sd_receives rec q a requested requested' requested'')
  then show ?thesis using sd_turn_added [OF assms(2)] by (simp add: unflushed_known_def)
next
  case (sd_flushes q a requested requested' requested'')
  then show ?thesis using sd_turn_added [OF assms(2)] by (simp add: unflushed_known_def)
next
  case sd_others
  then show ?thesis using assms(2)
    by (auto simp: keeps_own_def sd_ok_def rows_added_def file_buffer_def unflushed_known_def split: sd_file.split)
qed

definition heading :: "sd_file \<Rightarrow> card_start \<Rightarrow> string" where
  "heading file a =
     (case file of
        CanFile \<Rightarrow> if fa_length (ca_can a) = Some 0 then CAN_HEADING else []
      | RollFile \<Rightarrow> if fa_length (ca_roll a) = Some 0 then ROLL_HEADING else [])"

lemma open_log_opened:
  "open_log file text a t = (events, True, t') \<Longrightarrow>
     t' = t \<and> failures events = 0 \<and> (\<forall>e \<in> set events. \<not> is_arrival e) \<and>
     (\<forall>f. map (gone f) events = map (saved f) events) \<and>
     (\<forall>f. concat (map (gone f) events) = (if f = file \<and> fa_length a = Some 0 then text else []))"
  by (auto simp: open_log_def split: option.splits if_splits)

lemma sd_started:
  assumes "sd_start a t = (events, True, t')"
  shows "sd_ok t' \<and> failures events = 0 \<and> (\<forall>e \<in> set events. \<not> is_arrival e) \<and>
    (\<forall>f. concat (map (gone f) events) = heading f a \<and> rb_cursor (file_buffer f t') = 0 \<and>
      map (gone f) events = map (saved f) events) \<and>
    \<not> rst_sd_has_error t' \<and> sd_write_error_count t' = sd_write_error_count t \<and>
    sd_dropped_row_count t' = sd_dropped_row_count t"
proof -
  let ?t = "t\<lparr>sd_led := False, rst_logging_active := False, rst_sd_has_error := False\<rparr>"
  obtain es t1 es' t2 where opens: "open_log CanFile CAN_HEADING (ca_can a) ?t = (es, True, t1)"
    "open_log RollFile ROLL_HEADING (ca_roll a) t1 = (es', True, t2)" "events = es @ es'"
    "t' = t2\<lparr>sd_can := \<lparr>rb_bytes = replicate BUF_SIZE CHR 0x00, rb_cursor = 0\<rparr>,
            sd_roll := \<lparr>rb_bytes = replicate BUF_SIZE CHR 0x00, rb_cursor = 0\<rparr>\<rparr>"
    using assms by (auto simp: sd_start_def Let_def split: if_splits prod.splits bool.splits)
  then show ?thesis using open_log_opened [OF opens(1)] open_log_opened [OF opens(2)]
    by (auto simp: sd_ok_def buffer_ok_def heading_def file_buffer_def split: sd_file.split)
qed

lemma sd_run_added:
  assumes "sd_run ops a t0 events s"
  shows "case s of (t, b) \<Rightarrow> sd_ok t \<and> unflushed_known t \<and>
    (\<forall>f. heading f a @ concat (map (row_of f) (logged False events)) =
         concat (map (gone f) events) @ unwritten (file_buffer f t)) \<and>
    rst_sd_has_error t = (0 < failures events) \<and>
    sd_write_error_count t = sd_write_error_count t0 + of_nat (failures events) \<and>
    sd_dropped_row_count t = sd_dropped_row_count t0 \<and>
    (failures events = 0 \<longrightarrow> (\<forall>f. map (gone f) events = map (saved f) events))"
  using assms
proof induction
  case (sd_run_start events t b)
  from sd_started [OF this] show ?case
    by (auto simp: logged_calls unflushed_known_def file_buffer_def unwritten_def split: sd_file.splits dest: spec [of _ CanFile] spec [of _ RollFile])
next
  case (sd_run_step events s events' s')
  obtain t b t' b' where s: "s = (t, b)" "s' = (t', b')" by (cases s; cases s')
  note ih = sd_run_step.IH [unfolded s prod.case]
  have step: "sd_ok t'" "rows_added t events' t'" "unflushed_known t'"
    using sd_step_added [OF sd_run_step.hyps(2) [unfolded s]] ih by simp_all
  have "heading f a @ concat (map (row_of f) (logged False (events @ events'))) =
      concat (map (gone f) (events @ events')) @ unwritten (file_buffer f t')" for f
  proof -
    have "heading f a @ concat (map (row_of f) (logged False events)) =
        concat (map (gone f) events) @ unwritten (file_buffer f t)"
      "unwritten (file_buffer f t) @ concat (map (row_of f) (logged (0 < failures events) events')) =
        concat (map (gone f) events') @ unwritten (file_buffer f t')"
      using ih step(2) by (simp_all add: rows_added_def)
    then show ?thesis by (simp add: logged_append) (metis append.assoc)
  qed
  then show ?case using ih step by (simp add: s rows_added_def)
qed

text \<open>
  C25. Every row of the log is accounted for. Whatever the card answers and whatever the other tasks
  do, the heading of a new file and the rows of all logged frames, in the order they were received,
  are what was written successfully, what was given up after a failed write of a full buffer, and
  what is still in the buffer, with nothing missing, doubled or reordered; and every row fits, so
  that no row is ever refused. A frame is logged when it is received while logging is requested and
  no call of the card has failed yet; a control roll frame is logged in both files.
\<close>

theorem rows_accounted:
  assumes "sd_run ops a t0 events (t, b)"
  shows "heading file a @ concat (map (row_of file) (logged False events)) =
      concat (map (gone file) events) @ unwritten (file_buffer file t) \<and>
    sd_dropped_row_count t = sd_dropped_row_count t0"
  using sd_run_added [OF assms] by simp

lemma unwritten_nil: "buffer_ok q \<Longrightarrow> unwritten q = [] \<longleftrightarrow> rb_cursor q = 0"
  by (auto simp: buffer_ok_def unwritten_def BUF_SIZE_def)

lemma some_failed: "0 < failures events \<longleftrightarrow> (\<exists>e \<in> set events. failed e)"
  by (auto simp: failures_def filter_empty_conv)

lemma open_log_flags:
  "open_log file first_line a t = (events, opened, t') \<Longrightarrow>
     (rst_sd_has_error t' \<longleftrightarrow> rst_sd_has_error t \<or> \<not> opened) \<and>
     (\<not> rst_logging_active t \<longrightarrow> \<not> rst_logging_active t') \<and> (\<not> sd_led t \<longrightarrow> \<not> sd_led t')"
  by (auto simp: open_log_def mark_sd_error_def split: option.splits if_splits)

lemma sd_start_flags:
  "case sd_start a t0 of (events, opened, t) \<Rightarrow>
     rst_sd_has_error t = (\<not> opened) \<and> \<not> rst_logging_active t \<and> \<not> sd_led t"
proof -
  let ?t = "t0\<lparr>sd_led := False, rst_logging_active := False, rst_sd_has_error := False\<rparr>"
  obtain es opened t1 where can: "open_log CanFile CAN_HEADING (ca_can a) ?t = (es, opened, t1)"
    by (metis prod_cases3)
  obtain es' opened' t2 where roll: "open_log RollFile ROLL_HEADING (ca_roll a) t1 = (es', opened', t2)"
    by (metis prod_cases3)
  show ?thesis
    using open_log_flags [OF can] open_log_flags [OF roll]
    by (cases opened) (auto simp: sd_start_def Let_def can roll mark_sd_error_def)
qed

text \<open>What a turn of the loop leaves for the ground to see, from the state \<open>t\<close> after the calls \<open>events\<close>.\<close>

lemma sd_turn_status:
  assumes "sd_run ops a t0 events (t, b)" "sd_turn answers w requested requested' requested'' t = (events', t')"
  shows "rst_sd_has_error t' = (\<exists>e \<in> set (events @ events'). failed e) \<and>
    rst_logging_active t' = ((\<forall>e \<in> set (events @ events'). \<not> failed e) \<and> requested'' \<and>
      (case w of RecordReceived record \<Rightarrow> requested | FlushDue \<Rightarrow> rst_logging_active t)) \<and>
    sd_led t' = rst_logging_active t' \<and>
    sd_write_error_count t' = sd_write_error_count t0 + of_nat (length (filter failed (events @ events'))) \<and>
    rst_has_unflushed_data t' = (unwritten (sd_can t') \<noteq> [] \<or> unwritten (sd_roll t') \<noteq> [])"
proof -
  note run = sd_run_added [OF assms(1), unfolded prod.case]
  then have ok: "sd_ok t" by simp
  note turn = sd_turn_added [OF ok assms(2)]
  then have buffers: "buffer_ok (sd_can t')" "buffer_ok (sd_roll t')" "sd_led t' = rst_logging_active t'"
    by (simp_all add: sd_ok_def)
  have error: "rst_sd_has_error t = (\<exists>e \<in> set events. failed e)"
    using run some_failed [of events] by simp
  have quiet: "failures events' = 0 \<longleftrightarrow> (\<forall>e \<in> set events'. \<not> failed e)" using some_failed [of events'] by auto
  have flag: "rst_sd_has_error t' = (\<exists>e \<in> set (events @ events'). failed e)"
    using turn error some_failed [of events'] by (auto simp: rows_added_def)
  have active: "rst_logging_active t' = ((\<forall>e \<in> set (events @ events'). \<not> failed e) \<and> requested'' \<and>
      (case w of RecordReceived record \<Rightarrow> requested | FlushDue \<Rightarrow> rst_logging_active t))"
    using turn unfolding error quiet by (auto split: sd_wakeup.split)
  have "sd_write_error_count t' =
      sd_write_error_count t0 + (of_nat (failures events) + of_nat (failures events'))"
    using run turn by (simp add: rows_added_def add.assoc)
  then have errors: "sd_write_error_count t' =
      sd_write_error_count t0 + of_nat (length (filter failed (events @ events')))"
    by (simp add: failures_def)
  have "rst_has_unflushed_data t' = (unwritten (sd_can t') \<noteq> [] \<or> unwritten (sd_roll t') \<noteq> [])"
    using turn buffers(1,2) by (simp add: unwritten_nil)
  with flag active errors buffers(3) show ?thesis by blast
qed


text \<open>The frames received while logging was requested.\<close>

fun requested_frame :: "sd_event \<Rightarrow> raw_can_record option" where
  "requested_frame (Arrived record True) = Some record"
| "requested_frame _ = None"

lemma logged_no_failure:
  "failures events = 0 \<Longrightarrow> logged False events = List.map_filter requested_frame events"
  by (induction "False" events rule: logged.induct) (auto simp: List.map_filter_simps split: if_splits)

lemma log_on_card:
  assumes "sd_run ops a t0 events (t, b)" "fa_length (ca_can a) = Some 0"
    and "\<forall>e \<in> set events. \<not> failed e" "\<not> rst_has_unflushed_data t"
  shows "concat (map (saved CanFile) events) = CAN_HEADING @
    concat (map (\<lambda>record. concat (csv_pieces (can_fields record))) (List.map_filter requested_frame events))"
proof -
  note run = sd_run_added [OF assms(1)]
  have none: "failures events = 0" using assms(3) by (simp add: failures_def)
  have same: "map (gone CanFile) events = map (saved CanFile) events" using run none by simp
  have "unwritten (file_buffer CanFile t) = []"
    using run assms(4) by (simp add: unflushed_known_def unwritten_def file_buffer_def)
  moreover have "heading CanFile a @ concat (map (row_of CanFile) (logged False events)) =
      concat (map (saved CanFile) events) @ unwritten (file_buffer CanFile t)"
    using run unfolding same [symmetric] by simp
  moreover have "row_of CanFile = (\<lambda>record. concat (csv_pieces (can_fields record)))"
    by (simp add: row_of_def fun_eq_iff)
  ultimately show ?thesis using assms(2) by (simp add: heading_def logged_no_failure [OF none])
qed

text \<open>
  C24. The log reads back. After any run on a new card file in which no call failed, once no
  unflushed data is reported, reading CAN.CSV as text gives exactly the frames received while
  logging was requested, in order, each with its time, identifier, length and eight data bytes.
\<close>

theorem log_reads_back:
  assumes "sd_run ops a t0 events (t, b)" "fa_length (ca_can a) = Some 0"
    and "\<forall>e \<in> set events. \<not> failed e" "\<not> rst_has_unflushed_data t"
    and "\<forall>record. Arrived record True \<in> set events \<longrightarrow> length (raw_data record) = 8"
  shows "read_log (concat (map (saved CanFile) events)) = map Some (List.map_filter requested_frame events)"
proof -
  obtain h where h: "CAN_HEADING = h @ [newline]" "newline \<notin> set h"
    by (simp add: CAN_HEADING_def newline_def)
  have "\<forall>record \<in> set (List.map_filter requested_frame events). length (raw_data record) = 8"
    using assms(5) by (auto simp: List.map_filter_def elim: requested_frame.elims)
  from read_log_rows [OF h(2) this] show ?thesis
    unfolding log_on_card [OF assms(1-4)] h(1) by (simp only: append.assoc)
qed

end
