(* ===== verification/SdLoss.thy ===== *)
theory SdLoss
  imports SdLog
begin

section \<open>Runs of the SD task\<close>

text \<open>
  A run that logs one frame, as the witness of the theorems on all runs, and a run that fills the
  buffer of CAN.CSV and then meets a card that does not take it.
\<close>

definition initial_sd :: sd_task where
  "initial_sd = radio_statics.extend initial_radio
     (sd_task.fields False \<lparr>rb_bytes = [], rb_cursor = 0\<rparr> \<lparr>rb_bytes = [], rb_cursor = 0\<rparr> 0 0)"

definition new_card :: card_start where
  "new_card =
     (let new_file = \<lparr>fa_length = Some 0, fa_write = True, fa_flush = True, fa_seek = True\<rparr>
      in \<lparr>ca_volume = True, ca_root_dir = True, ca_can = new_file, ca_roll = new_file\<rparr>)"

definition good_card :: card_answers where
  "good_card = \<lparr>ok_can_full = True, ok_roll_full = True, ok_can_write = True, ok_can_flush = True,
     ok_roll_write = True, ok_roll_flush = True\<rparr>"

definition zero_frame :: raw_can_record where
  "zero_frame = \<lparr>raw_received_at_ms = 0, raw_identifier = 0, raw_data_length = 0, raw_data = [0, 0, 0, 0, 0, 0, 0, 0]\<rparr>"

definition headings_written :: "sd_event list" where
  "headings_written =
     [FileWrite CanFile CAN_HEADING True, FileFlush CanFile True,
      FileWrite RollFile ROLL_HEADING True, FileFlush RollFile True]"

lemma zero_frame_row: "length (row_of CanFile zero_frame) = 32" "roll_value zero_frame = None"
  by (simp_all add: row_of_def length_csv_pieces can_fields_def zero_frame_def show_dec_def show_hex_def
    digits.simps roll_value_def)

lemma new_card_started:
  "\<exists>t. sd_start new_card initial_sd = (headings_written, True, t) \<and> sd_ok t \<and> \<not> rst_sd_has_error t \<and>
     rb_cursor (sd_can t) = 0 \<and> rb_cursor (sd_roll t) = 0 \<and> sd_dropped_row_count t = 0"
  by (simp add: sd_start_def new_card_def open_log_def headings_written_def Let_def sd_ok_def buffer_ok_def
    initial_sd_def radio_statics.defs sd_task.defs)

text \<open>A turn that only fills the buffer.\<close>

lemma turn_buffers:
  assumes "sd_ok t" "\<not> rst_sd_has_error t" "roll_value frame = None"
    and "rb_cursor (sd_can t) + length (row_of CanFile frame) \<le> BUF_SIZE"
  shows "\<exists>t'. sd_turn a (RecordReceived frame) True True True t = ([Arrived frame True], t') \<and>
    rb_cursor (sd_can t') = rb_cursor (sd_can t) + length (row_of CanFile frame) \<and>
    sd_roll t' = sd_roll t \<and> \<not> rst_sd_has_error t'"
  using assms
  by (simp add: sd_turn_def log_record_def Let_def rows_fit append_row_def sd_ok_def buffer_ok_def)

text \<open>The next frame arrives and is received.\<close>

lemma run_receives:
  assumes "sd_run list_ops c t0 events (t, b :: list_board)"
    and "sd_turn a (RecordReceived frame) r r' r'' t = (events', t')"
  shows "sd_run list_ops c t0 (events @ events') (t', b\<lparr>bd_raw_can_log := (32, [])\<rparr>)"
proof -
  let ?b = "b\<lparr>bd_raw_can_log := (32, [frame])\<rparr>"
  have "sd_run list_ops c t0 (events @ []) (t, ?b)"
    by (rule sd_run_step [OF assms(1)]) (rule sd_others, simp add: keeps_own_def)
  then have arrived: "sd_run list_ops c t0 events (t, ?b)" by simp
  have "try_receive (raw_ops list_ops) (bd_raw_can_log ?b) = (Some frame, (32, []))"
    by (simp add: list_channel_def)
  from sd_run_step [OF arrived sd_receives [OF this assms(2)]] show ?thesis by simp
qed

lemma run_fills:
  "n \<le> 64 \<Longrightarrow> \<exists>t b. sd_run list_ops new_card initial_sd (headings_written @ replicate n (Arrived zero_frame True))
       (t, b :: list_board) \<and>
     rb_cursor (sd_can t) = 32 * n \<and> rb_cursor (sd_roll t) = 0 \<and> \<not> rst_sd_has_error t"
proof (induction n)
  case 0
  from new_card_started show ?case by (auto intro: sd_run_start)
next
  case (Suc n)
  then obtain t and b :: list_board where run: "sd_run list_ops new_card initial_sd
        (headings_written @ replicate n (Arrived zero_frame True)) (t, b)"
    and t: "rb_cursor (sd_can t) = 32 * n" "rb_cursor (sd_roll t) = 0" "\<not> rst_sd_has_error t"
    by auto
  have "sd_ok t" using sd_run_added [OF run] by simp
  from turn_buffers [OF this t(3) zero_frame_row(2), of good_card] t(1) Suc.prems
  obtain t' where turn: "sd_turn good_card (RecordReceived zero_frame) True True True t = ([Arrived zero_frame True], t')"
    and t': "rb_cursor (sd_can t') = 32 * Suc n" "sd_roll t' = sd_roll t" "\<not> rst_sd_has_error t'"
    by (auto simp: zero_frame_row BUF_SIZE_def)
  have "replicate (Suc n) (Arrived zero_frame True) = replicate n (Arrived zero_frame True) @ [Arrived zero_frame True]"
    by (simp add: replicate_append_same)
  with run_receives [OF run turn] have "sd_run list_ops new_card initial_sd
      (headings_written @ replicate (Suc n) (Arrived zero_frame True)) (t', b\<lparr>bd_raw_can_log := (32, [])\<rparr>)"
    by simp
  with t' t(2) show ?case by metis
qed

text \<open>
  Rows can be lost without being counted. There is a run in which the card does not take a full
  buffer of 64 rows: they are given up, although the card may work again, and the counter of
  dropped rows, which is what the status report shows, stays at 0.
\<close>

theorem lost_rows_uncounted:
  "\<exists>events t b lost. sd_run list_ops new_card initial_sd events (t, b :: list_board) \<and>
     Lost CanFile lost \<in> set events \<and> lost = concat (replicate 64 (row_of CanFile zero_frame)) \<and>
     sd_dropped_row_count t = 0"
proof -
  obtain t and b :: list_board where run: "sd_run list_ops new_card initial_sd
        (headings_written @ replicate 64 (Arrived zero_frame True)) (t, b)"
    and t: "rb_cursor (sd_can t) = 2048" "rb_cursor (sd_roll t) = 0" "\<not> rst_sd_has_error t"
    using run_fills [of 64] by auto
  note facts = sd_run_added [OF run]
  let ?a = "good_card\<lparr>ok_can_full := False\<rparr>"
  obtain events' t' where turn: "sd_turn ?a (RecordReceived zero_frame) True True True t = (events', t')"
    by (metis surj_pair)
  have "Lost CanFile (unwritten (sd_can t)) \<in> set events'"
    using turn facts t by (auto simp: sd_turn_def log_record_def Let_def rows_fit append_row_def sd_ok_def buffer_ok_def
      BUF_SIZE_def zero_frame_row)
  moreover have "unwritten (sd_can t) = concat (replicate 64 (row_of CanFile zero_frame))"
  proof -
    have "logged False (replicate n (Arrived zero_frame True)) = replicate n zero_frame" for n
      by (induction n) simp_all
    then have "heading CanFile new_card @ concat (replicate 64 (row_of CanFile zero_frame)) =
        concat (map (gone CanFile) (headings_written @ replicate 64 (Arrived zero_frame True))) @ unwritten (sd_can t)"
      using facts by (simp add: headings_written_def file_buffer_def split: sd_file.splits)
    moreover have "concat (replicate n []) = ([] :: string)" for n by (induction n) simp_all
    ultimately show ?thesis by (simp add: headings_written_def heading_def new_card_def Let_def)
  qed
  moreover have after: "sd_run list_ops new_card initial_sd
      ((headings_written @ replicate 64 (Arrived zero_frame True)) @ events') (t', b\<lparr>bd_raw_can_log := (32, [])\<rparr>)"
    by (rule run_receives [OF run turn])
  moreover have "sd_dropped_row_count t' = 0"
    using sd_run_added [OF after] by (simp add: initial_sd_def radio_statics.defs sd_task.defs)
  ultimately show ?thesis by (metis UnCI set_append)
qed

text \<open>One frame is logged and written out at the next tick.\<close>

lemma demo_run:
  "\<exists>events t b. sd_run list_ops new_card initial_sd events (t, b :: list_board) \<and>
     (\<forall>e \<in> set events. \<not> failed e) \<and> \<not> rst_has_unflushed_data t \<and>
     List.map_filter requested_frame events = [zero_frame] \<and>
     (\<forall>frame. Arrived frame True \<in> set events \<longrightarrow> frame = zero_frame)"
proof -
  obtain t and b :: list_board where run: "sd_run list_ops new_card initial_sd
        (headings_written @ [Arrived zero_frame True]) (t, b)"
    and t: "rb_cursor (sd_can t) = 32" "rb_cursor (sd_roll t) = 0" "\<not> rst_sd_has_error t"
    using run_fills [of 1] by auto
  let ?b = "b\<lparr>bd_raw_can_log := (32, [])\<rparr>"
  have run': "sd_run list_ops new_card initial_sd ((headings_written @ [Arrived zero_frame True]) @ []) (t, ?b)"
    by (rule sd_run_step [OF run]) (rule sd_others, simp add: keeps_own_def)
  obtain events' t' where turn: "sd_turn good_card FlushDue True True True t = (events', t')"
    by (metis surj_pair)
  then have flushed: "events' = [FileWrite CanFile (unwritten (sd_can t)) True, FileFlush CanFile True, FileFlush RollFile True]"
    "\<not> rst_has_unflushed_data t'"
    using t by (auto simp: sd_turn_def flush_files_def flush_file_def good_card_def Let_def)
  have "try_receive (raw_ops list_ops) (bd_raw_can_log ?b) = (None, (32, []))"
    by (simp add: list_channel_def)
  from sd_run_step [OF run' sd_flushes [OF this turn]] flushed show ?thesis
    by (intro exI conjI) (auto simp: headings_written_def List.map_filter_simps)
qed

lemma log_reads_back_witness:
  "\<exists>events t b. sd_run list_ops new_card initial_sd events (t, b :: list_board) \<and>
     read_log (concat (map (saved CanFile) events)) = [Some zero_frame]"
proof -
  obtain events t and b :: list_board where run: "sd_run list_ops new_card initial_sd events (t, b)"
    and rest: "\<forall>e \<in> set events. \<not> failed e" "\<not> rst_has_unflushed_data t"
      "List.map_filter requested_frame events = [zero_frame]"
      "\<forall>frame. Arrived frame True \<in> set events \<longrightarrow> frame = zero_frame"
    using demo_run by blast
  have "fa_length (ca_can new_card) = Some 0" by (simp add: new_card_def Let_def)
  moreover have "\<forall>frame. Arrived frame True \<in> set events \<longrightarrow> length (raw_data frame) = 8"
    using rest(4) by (auto simp: zero_frame_def)
  ultimately have "read_log (concat (map (saved CanFile) events)) = [Some zero_frame]"
    using log_reads_back [OF run _ rest(1,2)] rest(3) by simp
  with run show ?thesis by blast
qed

lemma rows_accounted_witness:
  "\<exists>events t b. sd_run list_ops new_card initial_sd events (t, b :: list_board) \<and>
     CAN_HEADING @ row_of CanFile zero_frame = concat (map (gone CanFile) events) @ unwritten (sd_can t)"
proof -
  obtain t and b :: list_board where run: "sd_run list_ops new_card initial_sd
        (headings_written @ replicate 1 (Arrived zero_frame True)) (t, b)"
    using run_fills [of 1] by auto
  from rows_accounted [OF run, of CanFile]
  have "CAN_HEADING @ row_of CanFile zero_frame =
      concat (map (gone CanFile) (headings_written @ replicate 1 (Arrived zero_frame True))) @ unwritten (sd_can t)"
    by (simp add: heading_def new_card_def Let_def headings_written_def file_buffer_def)
  with run show ?thesis by blast
qed


end
