(* ===== verification/SdVerify.thy ===== *)
theory SdVerify
  imports SdLoss
begin

section \<open>The verifier of the log (test/sd\_log\_verify.rs)\<close>

text \<open>
  The repository has a program that reads CAN.CSV back on the board and prints PASS or FAIL. It
  assembles lines of at most 128 bytes from reads of 64, parses every row, counts rows by the kind
  of their error, frames by identifier, and starts a new segment wherever the time decreases. Its
  counters are 64 bits wide. The outcomes of the card are arguments; the printing of the numbers is
  left out. The theorem is on both programs: what the SD task writes is accepted.
\<close>

subsection \<open>A row\<close>

definition bytes_of :: "string \<Rightarrow> bytes" where
  "bytes_of text = map (\<lambda>c. of_nat (of_char c)) text"

definition HEADER :: bytes where
  "HEADER = bytes_of ''Time_ms,Id,Dlc,D0,D1,D2,D3,D4,D5,D6,D7''"

definition LINE_CAPACITY :: nat where "LINE_CAPACITY = 128"

definition EXPECTED_IDS :: "u16 list" where
  "EXPECTED_IDS =
     [0x011, 0x012, 0x020, 0x100, 0x101, 0x102, 0x103, 0x104, 0x105, 0x106, 0x107, 0x108, 0x109]"

definition REQUIRED_ACTIVE_IDS :: "u16 list" where
  "REQUIRED_ACTIVE_IDS = [0x100, 0x102, 0x103, 0x107, 0x108, 0x109]"

datatype row_error = BadFields | BadTime | BadId | BadDlc | BadData

text \<open>\<open>core::str::from_utf8\<close> accepts exactly these byte strings.\<close>

definition continuation_byte :: "u8 \<Rightarrow> bool" where
  "continuation_byte b \<longleftrightarrow> 0x80 \<le> b \<and> b \<le> 0xbf"

fun utf8_valid :: "bytes \<Rightarrow> bool" where
  "utf8_valid [] = True"
| "utf8_valid (b # bs) =
     (if b < 0x80 then utf8_valid bs
      else case bs of
          [] \<Rightarrow> False
        | c # cs \<Rightarrow>
            if 0xc2 \<le> b \<and> b \<le> 0xdf then continuation_byte c \<and> utf8_valid cs
            else case cs of
                [] \<Rightarrow> False
              | d # ds \<Rightarrow>
                  if 0xe0 \<le> b \<and> b \<le> 0xef
                  then (if b = 0xe0 then 0xa0 \<le> c \<and> c \<le> 0xbf
                        else if b = 0xed then 0x80 \<le> c \<and> c \<le> 0x9f
                        else continuation_byte c) \<and>
                       continuation_byte d \<and> utf8_valid ds
                  else case ds of
                      [] \<Rightarrow> False
                    | e # es \<Rightarrow>
                        0xf0 \<le> b \<and> b \<le> 0xf4 \<and>
                        (if b = 0xf0 then 0x90 \<le> c \<and> c \<le> 0xbf
                         else if b = 0xf4 then 0x80 \<le> c \<and> c \<le> 0x8f
                         else continuation_byte c) \<and>
                        continuation_byte d \<and> continuation_byte e \<and> utf8_valid es)"

fun next_field :: "bytes list \<Rightarrow> row_error + bytes \<times> bytes list" where
  "next_field [] = Inl BadFields"
| "next_field (cell # cells) = Inr (cell, cells)"

text \<open>The data bytes of a row; the fields behind them are left.\<close>

fun data_fields :: "nat \<Rightarrow> bytes list \<Rightarrow> row_error + bytes list" where
  "data_fields 0 cells = Inr cells"
| "data_fields (Suc n) cells =
     and_then (next_field cells) (\<lambda>(byte, cells).
       if length byte \<noteq> 2 \<or> from_str_radix 16 0xff byte = None then Inl BadData
       else data_fields n cells)"

definition parse_row :: "bytes \<Rightarrow> row_error + u64 \<times> u16" where
  "parse_row line =
     (if \<not> utf8_valid line then Inl BadFields
      else
        and_then (next_field (split_on 0x2c line)) (\<lambda>(time_text, cells).
        and_then (ok_or (from_str_radix 10 (2 ^ 64 - 1) time_text) BadTime) (\<lambda>time_ms.
        and_then (next_field cells) (\<lambda>(id_text, cells).
        if length id_text \<noteq> 3 then Inl BadId
        else
          and_then (ok_or (from_str_radix 16 0xffff id_text) BadId) (\<lambda>ident.
          if 0x7ff < ident then Inl BadId
          else
            and_then (next_field cells) (\<lambda>(dlc_text, cells).
            and_then (ok_or (from_str_radix 10 0xff dlc_text) BadDlc) (\<lambda>dlc.
            if 8 < dlc then Inl BadDlc
            else
              and_then (data_fields 8 cells) (\<lambda>cells.
              if cells \<noteq> [] then Inl BadFields else Inr (of_nat time_ms, of_nat ident)))))))))"

subsection \<open>The statistics\<close>

record segment_stats =
  sg_index :: u64
  sg_rows :: u64
  sg_first_time_ms :: "u64 option"
  sg_last_time_ms :: "u64 option"
  sg_id_counts :: "u64 list"
  sg_other_id_rows :: u64

definition new_segment :: segment_stats where
  "new_segment = \<lparr>sg_index = 0, sg_rows = 0, sg_first_time_ms = None, sg_last_time_ms = None,
     sg_id_counts = replicate (length EXPECTED_IDS) 0, sg_other_id_rows = 0\<rparr>"

definition reset_segment :: "u64 \<Rightarrow> segment_stats" where
  "reset_segment index = new_segment\<lparr>sg_index := index\<rparr>"

definition increment_at :: "nat \<Rightarrow> u64 list \<Rightarrow> u64 list" where
  "increment_at i counts = counts[i := counts ! i + 1]"

definition segment_add :: "u64 \<Rightarrow> nat option \<Rightarrow> segment_stats \<Rightarrow> segment_stats" where
  "segment_add time_ms id_index s =
     (let s = (if sg_first_time_ms s = None then s\<lparr>sg_first_time_ms := Some time_ms\<rparr> else s);
          s = s\<lparr>sg_last_time_ms := Some time_ms, sg_rows := sg_rows s + 1\<rparr>
      in case id_index of
           Some index \<Rightarrow> s\<lparr>sg_id_counts := increment_at index (sg_id_counts s)\<rparr>
         | None \<Rightarrow> s\<lparr>sg_other_id_rows := sg_other_id_rows s + 1\<rparr>)"

record log_stats =
  ls_header_ok :: bool
  ls_rows :: u64
  ls_valid_rows :: u64
  ls_malformed_rows :: u64
  ls_overlong_malformed_lines :: u64
  ls_bad_fields :: u64
  ls_bad_time :: u64
  ls_bad_id :: u64
  ls_bad_dlc :: u64
  ls_bad_data :: u64
  ls_time_decreases :: u64
  ls_segments :: u64
  ls_previous_time_ms :: "u64 option"
  ls_id_counts :: "u64 list"
  ls_other_id_rows :: u64
  ls_last_segment :: segment_stats

definition new_log_stats :: log_stats where
  "new_log_stats = \<lparr>ls_header_ok = False, ls_rows = 0, ls_valid_rows = 0, ls_malformed_rows = 0,
     ls_overlong_malformed_lines = 0, ls_bad_fields = 0, ls_bad_time = 0, ls_bad_id = 0, ls_bad_dlc = 0,
     ls_bad_data = 0, ls_time_decreases = 0, ls_segments = 0, ls_previous_time_ms = None,
     ls_id_counts = replicate (length EXPECTED_IDS) 0, ls_other_id_rows = 0, ls_last_segment = new_segment\<rparr>"

definition malformed :: "row_error \<Rightarrow> log_stats \<Rightarrow> log_stats" where
  "malformed error s =
     (let s = s\<lparr>ls_malformed_rows := ls_malformed_rows s + 1\<rparr>
      in case error of
           BadFields \<Rightarrow> s\<lparr>ls_bad_fields := ls_bad_fields s + 1\<rparr>
         | BadTime \<Rightarrow> s\<lparr>ls_bad_time := ls_bad_time s + 1\<rparr>
         | BadId \<Rightarrow> s\<lparr>ls_bad_id := ls_bad_id s + 1\<rparr>
         | BadDlc \<Rightarrow> s\<lparr>ls_bad_dlc := ls_bad_dlc s + 1\<rparr>
         | BadData \<Rightarrow> s\<lparr>ls_bad_data := ls_bad_data s + 1\<rparr>)"

definition stats_add :: "u64 \<Rightarrow> u16 \<Rightarrow> log_stats \<Rightarrow> log_stats" where
  "stats_add time_ms ident s =
     (let s = (if (case ls_previous_time_ms s of None \<Rightarrow> False | Some previous \<Rightarrow> time_ms < previous)
               then s\<lparr>ls_time_decreases := ls_time_decreases s + 1, ls_segments := ls_segments s + 1,
                      ls_last_segment := reset_segment (ls_segments s + 1)\<rparr>
               else if ls_segments s = 0
               then s\<lparr>ls_segments := 1, ls_last_segment := reset_segment 1\<rparr>
               else s);
          id_index = position (\<lambda>expected. expected = ident) EXPECTED_IDS;
          s = (case id_index of
                 Some index \<Rightarrow> s\<lparr>ls_id_counts := increment_at index (ls_id_counts s)\<rparr>
               | None \<Rightarrow> s\<lparr>ls_other_id_rows := ls_other_id_rows s + 1\<rparr>)
      in s\<lparr>ls_last_segment := segment_add time_ms id_index (ls_last_segment s),
           ls_previous_time_ms := Some time_ms, ls_valid_rows := ls_valid_rows s + 1\<rparr>)"

definition process_line :: "bool \<Rightarrow> bytes \<Rightarrow> log_stats \<Rightarrow> log_stats" where
  "process_line first_line line s =
     (let line = (if line \<noteq> [] \<and> last line = 0x0d then butlast line else line)
      in if first_line then s\<lparr>ls_header_ok := line = HEADER\<rparr>
         else
           let s = s\<lparr>ls_rows := ls_rows s + 1\<rparr>
           in case parse_row line of
                Inr (time_ms, ident) \<Rightarrow> stats_add time_ms ident s
              | Inl error \<Rightarrow> malformed error s)"

definition process_overlong :: "bool \<Rightarrow> log_stats \<Rightarrow> log_stats" where
  "process_overlong first_line s =
     (let s = s\<lparr>ls_overlong_malformed_lines := ls_overlong_malformed_lines s + 1\<rparr>
      in if first_line then s\<lparr>ls_header_ok := False\<rparr>
         else malformed BadFields (s\<lparr>ls_rows := ls_rows s + 1\<rparr>))"

subsection \<open>Reading the file\<close>

record line_reader =
  lr_stats :: log_stats
  lr_line :: bytes
  lr_line_length :: nat
  lr_overlong :: bool
  lr_first_line :: bool

definition new_reader :: line_reader where
  "new_reader = \<lparr>lr_stats = new_log_stats, lr_line = replicate LINE_CAPACITY 0, lr_line_length = 0,
     lr_overlong = False, lr_first_line = True\<rparr>"

definition read_byte :: "u8 \<Rightarrow> line_reader \<Rightarrow> line_reader" where
  "read_byte byte r =
     (if byte = 0x0a
      then r\<lparr>lr_stats := (if lr_overlong r then process_overlong (lr_first_line r) (lr_stats r)
                         else process_line (lr_first_line r) (take (lr_line_length r) (lr_line r)) (lr_stats r)),
             lr_first_line := False, lr_line_length := 0, lr_overlong := False\<rparr>
      else if \<not> lr_overlong r
      then (if lr_line_length r < length (lr_line r)
            then r\<lparr>lr_line := (lr_line r)[lr_line_length r := byte], lr_line_length := lr_line_length r + 1\<rparr>
            else r\<lparr>lr_overlong := True\<rparr>)
      else r)"

text \<open>
  The answers to the reads: the bytes read, at most 64, none at the end of the file; \<open>None\<close> is an
  error. The result says whether all reads succeeded; it is \<open>None\<close> when the answers are used up.
\<close>

fun read_file :: "bytes option list \<Rightarrow> line_reader \<Rightarrow> (line_reader \<times> bool) option" where
  "read_file [] r = None"
| "read_file (None # answers) r = Some (r, False)"
| "read_file (Some bytes # answers) r =
     (if bytes = [] then Some (r, True) else read_file answers (fold read_byte bytes r))"

definition last_line :: "line_reader \<Rightarrow> log_stats" where
  "last_line r =
     (if lr_overlong r then process_overlong (lr_first_line r) (lr_stats r)
      else if lr_line_length r \<noteq> 0
      then process_line (lr_first_line r) (take (lr_line_length r) (lr_line r)) (lr_stats r)
      else lr_stats r)"

definition required_ids_present :: "log_stats \<Rightarrow> bool" where
  "required_ids_present s \<longleftrightarrow>
     list_all (\<lambda>required. case position (\<lambda>ident. ident = required) EXPECTED_IDS of
        None \<Rightarrow> False | Some index \<Rightarrow> sg_id_counts (ls_last_segment s) ! index \<noteq> 0) REQUIRED_ACTIVE_IDS"

record verify_answers =
  va_size :: bool
  va_speed :: bool
  va_volume :: bool
  va_root_dir :: bool
  va_open :: bool
  va_reads :: "bytes option list"
  va_close :: bool

text \<open>The statistics, if the file could be opened, and the verdict.\<close>

definition verify_log :: "verify_answers \<Rightarrow> (log_stats option \<times> bool) option" where
  "verify_log a =
     (let card_ok = va_size a \<and> va_speed a
      in if \<not> va_volume a \<or> \<not> va_root_dir a \<or> \<not> va_open a then Some (None, False)
         else case read_file (va_reads a) new_reader of
             None \<Rightarrow> None
           | Some (r, read_ok) \<Rightarrow>
               let s = last_line r;
                   verify_ok = card_ok \<and> read_ok \<and> ls_header_ok s \<and> ls_rows s \<noteq> 0 \<and>
                     ls_valid_rows s = ls_rows s \<and> ls_overlong_malformed_lines s = 0 \<and>
                     sg_rows (ls_last_segment s) \<noteq> 0 \<and> required_ids_present s
               in Some (Some s, verify_ok \<and> va_close a))"

subsection \<open>Lines instead of bytes\<close>

text \<open>The lines of a file as a reference reads them: split at the newlines, the last only if not empty.\<close>

definition file_lines :: "bytes \<Rightarrow> bytes list" where
  "file_lines bs =
     (let parts = split_on 0x0a bs
      in butlast parts @ (if last parts = [] then [] else [last parts]))"

definition check_line :: "bytes \<Rightarrow> bool \<times> log_stats \<Rightarrow> bool \<times> log_stats" where
  "check_line line s =
     (case s of (first, s) \<Rightarrow>
        (False, if LINE_CAPACITY < length line then process_overlong first s else process_line first line s))"

definition reader_holds :: "bytes \<Rightarrow> line_reader \<Rightarrow> bool" where
  "reader_holds line r \<longleftrightarrow> length (lr_line r) = LINE_CAPACITY \<and>
     (if length line \<le> LINE_CAPACITY
      then \<not> lr_overlong r \<and> lr_line_length r = length line \<and> take (length line) (lr_line r) = line
      else lr_overlong r)"

lemma read_letter:
  "reader_holds line r \<Longrightarrow> byte \<noteq> 0x0a \<Longrightarrow> reader_holds (line @ [byte]) (read_byte byte r) \<and>
     lr_stats (read_byte byte r) = lr_stats r \<and> lr_first_line (read_byte byte r) = lr_first_line r"
  by (cases "length line \<le> LINE_CAPACITY") (auto simp: reader_holds_def read_byte_def take_Suc_conv_app_nth)

lemma read_newline:
  "reader_holds line r \<Longrightarrow> reader_holds [] (read_byte 0x0a r) \<and>
     (lr_first_line (read_byte 0x0a r), lr_stats (read_byte 0x0a r)) = check_line line (lr_first_line r, lr_stats r)"
  by (auto simp: reader_holds_def read_byte_def check_line_def)

lemma read_bytes:
  "reader_holds line r \<Longrightarrow> 0x0a \<notin> set line \<Longrightarrow>
   (let parts = split_on 0x0a (line @ bs); r' = fold read_byte bs r
    in (lr_first_line r', lr_stats r') = fold check_line (butlast parts) (lr_first_line r, lr_stats r) \<and>
       reader_holds (last parts) r')"
proof (induction bs arbitrary: line r)
  case Nil
  then show ?case by (simp add: split_on_plain)
next
  case (Cons b bs)
  show ?case
  proof (cases "b = 0x0a")
    case True
    from read_newline [OF Cons.prems(1)] Cons.IH [of "[]" "read_byte b r"] True Cons.prems(2) show ?thesis
      by (simp add: split_on_append split_on_nonempty Let_def)
  next
    case False
    from read_letter [OF Cons.prems(1) False] Cons.IH [of "line @ [b]" "read_byte b r"] False Cons.prems(2) show ?thesis
      by (simp add: Let_def)
  qed
qed

lemma read_chunks:
  "[] \<notin> set chunks \<Longrightarrow> read_file (map Some chunks @ [Some []]) r = Some (fold read_byte (concat chunks) r, True)"
  by (induction chunks arbitrary: r) auto

text \<open>However the card cuts the file into reads, the statistics are those of its lines.\<close>

theorem verifier_reads_lines:
  assumes "[] \<notin> set chunks"
  shows "map_option (\<lambda>(r, read_ok). (last_line r, read_ok)) (read_file (map Some chunks @ [Some []]) new_reader) =
    Some (snd (fold check_line (file_lines (concat chunks)) (True, new_log_stats)), True)"
proof -
  let ?r = "fold read_byte (concat chunks) new_reader" and ?parts = "split_on 0x0a (concat chunks)"
  have "reader_holds [] new_reader" by (simp add: reader_holds_def new_reader_def)
  from read_bytes [OF this, of "concat chunks"]
  have r: "(lr_first_line ?r, lr_stats ?r) = fold check_line (butlast ?parts) (True, new_log_stats)"
    "reader_holds (last ?parts) ?r" by (simp_all add: new_reader_def Let_def)
  have "last_line ?r = (if last ?parts = [] then lr_stats ?r
      else snd (check_line (last ?parts) (lr_first_line ?r, lr_stats ?r)))"
    using r(2) by (auto simp: last_line_def check_line_def reader_holds_def split: if_splits)
  also have "\<dots> = snd (fold check_line (file_lines (concat chunks)) (True, new_log_stats))"
    using r(1) [symmetric] by (simp add: file_lines_def Let_def)
  finally show ?thesis using read_chunks [OF assms] by simp
qed

subsection \<open>The rows of the SD task are accepted\<close>

lemma bytes_of_simps [simp]:
  "bytes_of [] = []" "bytes_of (c # cs) = of_nat (of_char c) # bytes_of cs"
  "bytes_of (xs @ ys) = bytes_of xs @ bytes_of ys" "length (bytes_of xs) = length xs"
  "bytes_of (replicate k c) = replicate k (of_nat (of_char c))" "bytes_of xs = [] \<longleftrightarrow> xs = []"
  by (simp_all add: bytes_of_def)

lemma unat_char [simp]: "unat (of_nat (of_char c) :: u8) = of_char c"
  using nat_of_char_less_256 [of c] by (simp add: unat_of_nat)

lemma bytes_of_inject: "(of_nat (of_char c) :: u8) = of_nat (of_char d) \<longleftrightarrow> c = d"
  by (metis of_char_eq_iff unat_char)

lemma split_bytes: "split_on (of_nat (of_char c)) (bytes_of s) = map bytes_of (split_on c s)"
  by (induction s) (auto simp: bytes_of_inject split: list.split)

lemma digit_byte:
  assumes "d < base" "base \<le> 16"
  shows "digit_value base (of_nat (of_char (digit_char d))) = Some d"
proof -
  have "d < 16" using assms by simp
  then have "of_char (digit_char d) = (if d < 10 then 48 + d else 55 + d)" by (simp add: digit_char_def)
  then show ?thesis using assms by (simp add: digit_value_def Let_def)
qed

lemma parse_digits_append:
  "parse_digits base maximum acc (xs @ ys) =
     Option.bind (parse_digits base maximum acc xs) (\<lambda>acc. parse_digits base maximum acc ys)"
  by (induction base maximum acc xs rule: parse_digits.induct) (auto split: option.split)

lemma parse_digits_shown:
  "2 \<le> base \<Longrightarrow> base \<le> 16 \<Longrightarrow> n \<le> maximum \<Longrightarrow> parse_digits base maximum 0 (bytes_of (digits base n)) = Some n"
proof (induction base n rule: digits.induct)
  case (1 base n)
  show ?case
  proof (cases "n < base")
    case True
    then show ?thesis using 1 by (subst digits.simps) (simp add: digit_byte)
  next
    case False
    have "n div base \<le> maximum" using 1(4) div_le_dividend [of n base] by (rule order_trans [rotated])
    with 1 False have "parse_digits base maximum 0 (bytes_of (digits base (n div base))) = Some (n div base)" by simp
    moreover have "n mod base < base" "n div base * base + n mod base = n" using 1(2) by simp_all
    ultimately show ?thesis using 1 False
      by (subst digits.simps) (simp add: parse_digits_append digit_byte)
  qed
qed

lemma parse_digits_zeros:
  "2 \<le> base \<Longrightarrow> base \<le> 16 \<Longrightarrow>
   parse_digits base maximum 0 (replicate k 0x30 @ bs) = parse_digits base maximum 0 bs"
  using digit_byte [of 0 base] by (induction k) (simp_all add: digit_char_def)

text \<open>A number in digits has no sign, so it is read as its digits.\<close>

lemma from_str_radix_digits:
  assumes "parse_digits base maximum 0 bs = Some n" "bs \<noteq> []" "base \<le> 16"
  shows "from_str_radix base maximum bs = Some n"
proof -
  have "digit_value base 0x2b = None" using assms(3) by (simp add: digit_value_def Let_def)
  then have "hd bs \<noteq> 0x2b" using assms(1,2) by (cases bs) auto
  then show ?thesis using assms(1,2) by (cases bs) (auto simp: from_str_radix_def)
qed

lemma digits_nonempty [simp]: "digits base n \<noteq> []"
  by (subst digits.simps) simp

lemma read_dec: "n \<le> maximum \<Longrightarrow> from_str_radix 10 maximum (bytes_of (show_dec n)) = Some n"
  unfolding show_dec_def by (rule from_str_radix_digits) (simp_all add: parse_digits_shown)

lemma read_hex: "n \<le> maximum \<Longrightarrow> from_str_radix 16 maximum (bytes_of (show_hex w n)) = Some n"
  unfolding show_hex_def Let_def
  by (rule from_str_radix_digits) (simp_all add: parse_digits_shown parse_digits_zeros)

lemma length_hex: "0 < w \<Longrightarrow> n < 16 ^ w \<Longrightarrow> length (show_hex w n) = w"
  using length_digits_le [of 16 w n] by (simp add: show_hex_def Let_def)

definition printable :: "string \<Rightarrow> bool" where
  "printable s \<longleftrightarrow> (\<forall>c \<in> set s. 32 < (of_char c :: nat) \<and> of_char c < (127 :: nat))"

lemma printable_append [simp]: "printable (a @ b) \<longleftrightarrow> printable a \<and> printable b"
  by (auto simp: printable_def)

lemma printable_digit: "d < 16 \<Longrightarrow> printable [digit_char d]"
  by (simp add: printable_def digit_char_def)

lemma printable_digits: "2 \<le> base \<Longrightarrow> base \<le> 16 \<Longrightarrow> printable (digits base n)"
proof (induction base n rule: digits.induct)
  case (1 base n)
  then have "n mod base < 16" "n < base \<Longrightarrow> n < 16" by (auto intro: less_le_trans [of _ base])
  then show ?case using 1 by (subst digits.simps) (auto simp: printable_digit)
qed

lemma printable_show: "printable (show_dec n)" "printable (show_hex w n)"
proof -
  have "printable (replicate k CHR ''0'')" for k by (auto simp: printable_def)
  then show "printable (show_dec n)" "printable (show_hex w n)"
    by (simp_all add: show_dec_def show_hex_def Let_def printable_digits)
qed

lemma printable_Cons: "printable (c # s) \<longleftrightarrow> 32 < (of_char c :: nat) \<and> of_char c < (127 :: nat) \<and> printable s"
  by (auto simp: printable_def)

lemma printable_line: "\<forall>cell \<in> set cells. printable cell \<Longrightarrow> cells \<noteq> [] \<Longrightarrow> printable (csv_line cells)"
proof (induction cells rule: csv_pieces.induct)
  case (3 cell v va)
  then have "printable cell" "printable (csv_line (v # va))" by simp_all
  then show ?case by (simp add: csv_line_simps printable_Cons)
qed (simp_all add: csv_line_simps)

lemma printable_ends: "printable s \<Longrightarrow> s \<noteq> [] \<Longrightarrow> last (bytes_of s) \<noteq> 0x0d"
proof -
  assume "printable s" "s \<noteq> []"
  then have "32 < unat (last (bytes_of s))" by (simp add: printable_def bytes_of_def last_map)
  then show ?thesis by auto
qed

lemma ascii_utf8: "printable s \<Longrightarrow> utf8_valid (bytes_of s)"
  by (induction s) (simp_all add: printable_def word_less_nat_alt)

text \<open>A frame as the CAN task records it.\<close>

definition recorded :: "raw_can_record \<Rightarrow> bool" where
  "recorded r \<longleftrightarrow> raw_identifier r \<le> 0x7ff \<and> raw_data_length r \<le> 8 \<and> length (raw_data r) = 8"

lemma row_printable: "printable (csv_line (can_fields r))" "csv_line (can_fields r) \<noteq> []"
proof -
  have "\<forall>cell \<in> set (can_fields r). printable cell" "can_fields r \<noteq> []"
    by (auto simp: can_fields_def printable_show)
  then show "printable (csv_line (can_fields r))" by (rule printable_line)
  show "csv_line (can_fields r) \<noteq> []" by (simp add: can_fields_def csv_line_simps)
qed

lemma log_raw_frame_recorded:
  "identifier \<le> 0x7ff \<Longrightarrow> length bs \<le> 8 \<Longrightarrow>
   recorded \<lparr>raw_received_at_ms = received_ms, raw_identifier = identifier,
     raw_data_length = of_nat (length bs), raw_data = copy_into (replicate 8 0) 0 bs\<rparr>"
  by (simp add: recorded_def word_le_nat_alt unat_of_nat copy_into_def)

lemma byte_cell: "length (show_hex 2 (unat (b :: u8))) = 2" "\<exists>n. from_str_radix 16 0xff (bytes_of (show_hex 2 (unat b))) = Some n"
proof -
  have below: "unat b < 256" by simp
  then have "unat b \<le> 0xff" by linarith
  then show "\<exists>n. from_str_radix 16 0xff (bytes_of (show_hex 2 (unat b))) = Some n" using read_hex by blast
  show "length (show_hex 2 (unat b)) = 2" using below by (intro length_hex) simp_all
qed

lemma data_fields_accepted:
  "length cells = n \<Longrightarrow> \<forall>cell \<in> set cells. length cell = 2 \<and> from_str_radix 16 0xff cell \<noteq> None \<Longrightarrow>
     data_fields n cells = Inr []"
  by (induction cells arbitrary: n) auto

lemma row_accepted:
  assumes "recorded r"
  shows "parse_row (bytes_of (csv_line (can_fields r))) = Inr (raw_received_at_ms r, raw_identifier r)"
proof -
  have cells: "\<forall>cell \<in> set (can_fields r). plain_cell cell" "can_fields r \<noteq> []"
    by (auto simp: can_fields_def plain_show)
  have "split_on (0x2c :: u8) (bytes_of (csv_line (can_fields r))) = map bytes_of (can_fields r)"
    using split_bytes [of "CHR '',''" "csv_line (can_fields r)"] split_csv_line [OF cells] by simp
  moreover have "utf8_valid (bytes_of (csv_line (can_fields r)))"
    by (rule ascii_utf8 [OF row_printable(1)])
  moreover have "length (show_hex 3 (unat (raw_identifier r))) = 3" "unat (raw_identifier r) \<le> 0x7ff"
    using assms by (auto simp: recorded_def word_le_nat_alt intro: length_hex)
  moreover have "unat (raw_data_length r) \<le> 8" using assms by (simp add: recorded_def word_le_nat_alt)
  moreover have "unat (raw_received_at_ms r) \<le> 2 ^ 64 - 1" using unat_below [of "raw_received_at_ms r"] by simp
  moreover have "data_fields 8 (map (\<lambda>i. bytes_of (show_hex 2 (unat (raw_data r ! i)))) [0, 1, 2, 3, 4, 5, 6, 7]) = Inr []"
    by (rule data_fields_accepted) (auto simp: byte_cell)
  ultimately show ?thesis by (simp add: parse_row_def can_fields_def read_dec read_hex)
qed

subsection \<open>The statistics of a log\<close>

text \<open>The frames since the time last went back: the longest end of the list with the times in order.\<close>

fun newest_segment :: "raw_can_record list \<Rightarrow> raw_can_record list" where
  "newest_segment [] = []"
| "newest_segment (r # rs) =
     (if sorted (map raw_received_at_ms (r # rs)) then r # rs else newest_segment rs)"

lemma sorted_snoc: "sorted (xs @ [x]) \<longleftrightarrow> sorted xs \<and> (xs = [] \<or> last xs \<le> (x :: 'a :: linorder))"
  by (cases xs rule: rev_cases) (auto simp: sorted_append intro: order_trans)

lemma newest_segment_snoc:
  "newest_segment (rs @ [r]) =
     (if rs \<noteq> [] \<and> raw_received_at_ms r < raw_received_at_ms (last rs) then [r] else newest_segment rs @ [r])"
proof (induction rs)
  case (Cons r' rs)
  have "sorted (map raw_received_at_ms ((r' # rs) @ [r])) \<longleftrightarrow>
      sorted (map raw_received_at_ms (r' # rs)) \<and> raw_received_at_ms (last (r' # rs)) \<le> raw_received_at_ms r"
    using sorted_snoc [of "map raw_received_at_ms (r' # rs)" "raw_received_at_ms r"] by (simp add: last_map)
  with Cons show ?case by auto
qed simp

lemma length_newest_segment: "length (newest_segment rs) \<le> length rs"
  by (induction rs) auto

definition frame_counts :: "raw_can_record list \<Rightarrow> u64 list" where
  "frame_counts rs = map (\<lambda>ident. of_nat (length (filter (\<lambda>r. raw_identifier r = ident) rs))) EXPECTED_IDS"

lemma increment_at_map:
  "distinct idents \<Longrightarrow> position (\<lambda>e. e = ident) idents = Some i \<Longrightarrow>
     increment_at i (map f idents) = map (\<lambda>e. if e = ident then f e + 1 else f e) idents"
proof (induction idents arbitrary: i)
  case (Cons e idents)
  show ?case
  proof (cases "e = ident")
    case True
    then show ?thesis using Cons.prems by (auto simp: increment_at_def)
  next
    case False
    then obtain k where k: "position (\<lambda>e. e = ident) idents = Some k" "i = Suc k" using Cons.prems by auto
    then show ?thesis using Cons.IH [OF _ k(1)] Cons.prems(1) False by (simp add: increment_at_def)
  qed
qed simp

lemma frame_counts_snoc:
  "frame_counts (rs @ [r]) =
     (case position (\<lambda>e. e = raw_identifier r) EXPECTED_IDS of
        Some i \<Rightarrow> increment_at i (frame_counts rs) | None \<Rightarrow> frame_counts rs)"
proof (cases "position (\<lambda>e. e = raw_identifier r) EXPECTED_IDS")
  case None
  then have "\<forall>x \<in> set EXPECTED_IDS. x \<noteq> raw_identifier r" by (simp add: position_None)
  with None show ?thesis by (auto simp: frame_counts_def intro!: map_cong)
next
  case (Some i)
  have "distinct EXPECTED_IDS" by (simp add: EXPECTED_IDS_def)
  from increment_at_map [OF this Some] show ?thesis by (auto simp: frame_counts_def Some)
qed

lemma frame_counts_Nil: "frame_counts [] = replicate (length EXPECTED_IDS) 0"
  by (simp add: frame_counts_def map_replicate_const)

definition log_checked :: "raw_can_record list \<Rightarrow> log_stats \<Rightarrow> bool" where
  "log_checked rs s \<longleftrightarrow>
     ls_header_ok s \<and> ls_rows s = of_nat (length rs) \<and> ls_valid_rows s = of_nat (length rs) \<and>
     ls_malformed_rows s = 0 \<and> ls_overlong_malformed_lines s = 0 \<and> ls_id_counts s = frame_counts rs \<and>
     sg_rows (ls_last_segment s) = of_nat (length (newest_segment rs)) \<and>
     sg_id_counts (ls_last_segment s) = frame_counts (newest_segment rs)"

definition segments_follow :: "raw_can_record list \<Rightarrow> log_stats \<Rightarrow> bool" where
  "segments_follow rs s \<longleftrightarrow>
     ls_previous_time_ms s = (if rs = [] then None else Some (raw_received_at_ms (last rs))) \<and>
     (ls_segments s = 0 \<longleftrightarrow> rs = []) \<and> unat (ls_segments s) \<le> length rs"

lemma row_counted:
  assumes "log_checked rs s" "segments_follow rs s" "recorded r" "length rs < 2 ^ 64 - 1"
  shows "log_checked (rs @ [r]) (process_line False (bytes_of (csv_line (can_fields r))) s) \<and>
    segments_follow (rs @ [r]) (process_line False (bytes_of (csv_line (can_fields r))) s)"
proof -
  let ?line = "bytes_of (csv_line (can_fields r))"
  let ?earlier = "rs \<noteq> [] \<and> raw_received_at_ms r < raw_received_at_ms (last rs)"
  let ?s = "s\<lparr>ls_rows := ls_rows s + 1\<rparr>"
  have "last ?line \<noteq> 0x0d" by (rule printable_ends [OF row_printable])
  then have "process_line False ?line s = stats_add (raw_received_at_ms r) (raw_identifier r) ?s"
    using row_accepted [OF assms(3)] by (simp add: process_line_def)
  moreover have "ls_segments s + 1 \<noteq> 0 \<and> unat (ls_segments s + 1) = unat (ls_segments s) + 1"
  proof -
    have "unat (ls_segments s) + 1 < 2 ^ 64" using assms(2,4) by (simp add: segments_follow_def)
    then have "unat (ls_segments s + 1) = unat (ls_segments s) + 1"
      using unat_add_no_overflow [of "ls_segments s" 1] by simp
    then show ?thesis by auto
  qed
  moreover have "rs = [] \<Longrightarrow> newest_segment rs = []" by simp
  ultimately show ?thesis using assms(1,2)
    by (cases ?earlier; cases "position (\<lambda>e. e = raw_identifier r) EXPECTED_IDS")
      (auto simp: log_checked_def segments_follow_def stats_add_def segment_add_def reset_segment_def new_segment_def
        newest_segment_snoc frame_counts_snoc frame_counts_Nil Let_def frame_counts_snoc [of "[]", simplified])
qed

lemma rows_counted:
  assumes "\<forall>r \<in> set rs. recorded r" "length rs < 2 ^ 64"
  shows "\<exists>s. fold check_line (map (\<lambda>r. bytes_of (csv_line (can_fields r))) rs) (False, new_log_stats\<lparr>ls_header_ok := True\<rparr>) =
    (False, s) \<and> log_checked rs s \<and> segments_follow rs s"
  using assms
proof (induction rs rule: rev_induct)
  case Nil
  show ?case by (simp add: log_checked_def segments_follow_def new_log_stats_def new_segment_def frame_counts_Nil)
next
  case (snoc r rs)
  then obtain s where s: "fold check_line (map (\<lambda>r. bytes_of (csv_line (can_fields r))) rs)
      (False, new_log_stats\<lparr>ls_header_ok := True\<rparr>) = (False, s)" "log_checked rs s" "segments_follow rs s"
    by auto
  have "length (csv_line (can_fields r)) \<le> 54"
    using can_row_length [of r] by (simp add: csv_pieces_line)
  then have "check_line (bytes_of (csv_line (can_fields r))) (False, s) =
      (False, process_line False (bytes_of (csv_line (can_fields r))) s)"
    by (simp add: check_line_def LINE_CAPACITY_def)
  with s row_counted [OF s(2,3), of r] snoc.prems show ?case by simp
qed

lemma file_lines_of_log:
  assumes "\<forall>line \<in> set lines. newline \<notin> set line"
  shows "file_lines (bytes_of (concat (map (\<lambda>line. line @ [newline]) lines))) = map bytes_of lines"
proof -
  have "split_on (0x0a :: u8) (bytes_of (concat (map (\<lambda>line. line @ [newline]) lines))) = map bytes_of lines @ [[]]"
    using split_bytes [of newline] split_on_lines [OF assms] by (simp add: newline_def)
  then show ?thesis by (simp add: file_lines_def)
qed

lemma log_statistics:
  assumes "\<forall>r \<in> set rs. recorded r" "length rs < 2 ^ 64"
  shows "\<exists>s. snd (fold check_line (file_lines (bytes_of (CAN_HEADING @
      concat (map (\<lambda>record. concat (csv_pieces (can_fields record))) rs)))) (True, new_log_stats)) = s \<and> log_checked rs s"
proof -
  let ?heading = "''Time_ms,Id,Dlc,D0,D1,D2,D3,D4,D5,D6,D7''"
  let ?lines = "?heading # map (\<lambda>r. csv_line (can_fields r)) rs"
  have "CAN_HEADING @ concat (map (\<lambda>record. concat (csv_pieces (can_fields record))) rs) =
      concat (map (\<lambda>line. line @ [newline]) ?lines)"
    by (simp add: CAN_HEADING_def csv_pieces_line comp_def)
  moreover have "\<forall>line \<in> set ?lines. newline \<notin> set line"
    using assms(1) can_row_read(2) by (auto simp: recorded_def newline_def)
  ultimately have "file_lines (bytes_of (CAN_HEADING @
      concat (map (\<lambda>record. concat (csv_pieces (can_fields record))) rs))) =
      HEADER # map (\<lambda>r. bytes_of (csv_line (can_fields r))) rs"
    using file_lines_of_log [of ?lines] by (simp add: HEADER_def comp_def)
  moreover have "check_line HEADER (True, new_log_stats) = (False, new_log_stats\<lparr>ls_header_ok := True\<rparr>)"
    by code_simp
  ultimately show ?thesis using rows_counted [OF assms] by auto
qed

lemma required_counts:
  assumes "sg_id_counts (ls_last_segment s) = frame_counts rs" "length rs < 2 ^ 64"
  shows "required_ids_present s \<longleftrightarrow> (\<forall>ident \<in> set REQUIRED_ACTIVE_IDS. \<exists>r \<in> set rs. raw_identifier r = ident)"
proof -
  have "(of_nat (length (filter (\<lambda>r. raw_identifier r = ident) rs)) :: u64) \<noteq> 0 \<longleftrightarrow>
      (\<exists>r \<in> set rs. raw_identifier r = ident)" for ident
  proof -
    have "length (filter (\<lambda>r. raw_identifier r = ident) rs) < 2 ^ 64"
      using assms(2) length_filter_le [of _ rs] by (rule le_less_trans [rotated])
    then show ?thesis by (auto simp: word_unat_eq_iff unat_of_nat filter_empty_conv)
  qed
  then show ?thesis
    by (simp add: required_ids_present_def assms(1) frame_counts_def REQUIRED_ACTIVE_IDS_def EXPECTED_IDS_def)
qed

text \<open>
  C23. The verifier accepts what the SD task writes. After any run of the SD task on a new card file
  in which no call failed, once no unflushed data is reported, the verifier, however the card cuts
  the file into reads, finds the heading and as many valid rows as frames were received while
  logging was requested, no malformed and no overlong line, and the right number of frames of every
  expected identifier; and it prints PASS exactly when every required identifier occurs among the
  frames since the time last went back.
\<close>

theorem log_passes_verifier:
  assumes "sd_run ops a t0 events (t, b)" "fa_length (ca_can a) = Some 0"
    and "\<forall>e \<in> set events. \<not> failed e" "\<not> rst_has_unflushed_data t"
    and "\<forall>record. Arrived record True \<in> set events \<longrightarrow> recorded record"
    and "length (List.map_filter requested_frame events) < 2 ^ 64"
    and "concat chunks = bytes_of (concat (map (saved CanFile) events))" "[] \<notin> set chunks"
  shows "\<exists>s. verify_log \<lparr>va_size = True, va_speed = True, va_volume = True, va_root_dir = True, va_open = True,
        va_reads = map Some chunks @ [Some []], va_close = True\<rparr> =
      Some (Some s, \<forall>ident \<in> set REQUIRED_ACTIVE_IDS.
        \<exists>r \<in> set (newest_segment (List.map_filter requested_frame events)). raw_identifier r = ident) \<and>
    log_checked (List.map_filter requested_frame events) s"
proof -
  let ?rs = "List.map_filter requested_frame events"
  have recorded: "\<forall>r \<in> set ?rs. recorded r"
    using assms(5) by (auto simp: List.map_filter_def elim: requested_frame.elims)
  note len = assms(6)
  obtain s where s: "snd (fold check_line (file_lines (concat chunks)) (True, new_log_stats)) = s" "log_checked ?rs s"
    using log_statistics [OF recorded len] unfolding assms(7) log_on_card [OF assms(1-4)] by blast
  obtain r where r: "read_file (map Some chunks @ [Some []]) new_reader = Some (r, True)" "last_line r = s"
    using verifier_reads_lines [OF assms(8)] s(1) by auto
  have seg: "length (newest_segment ?rs) \<le> length ?rs" by (rule length_newest_segment)
  have required: "required_ids_present s \<longleftrightarrow>
      (\<forall>ident \<in> set REQUIRED_ACTIVE_IDS. \<exists>r \<in> set (newest_segment ?rs). raw_identifier r = ident)"
    using s(2) seg len by (intro required_counts) (simp_all add: log_checked_def)
  have "ls_rows s \<noteq> 0 \<and> sg_rows (ls_last_segment s) \<noteq> 0" if "required_ids_present s"
  proof -
    have "newest_segment ?rs \<noteq> []" using that unfolding required by (auto simp: REQUIRED_ACTIVE_IDS_def)
    then have "0 < length (newest_segment ?rs)" "0 < length ?rs" using seg by auto
    then show ?thesis using s(2) seg len by (simp add: log_checked_def word_unat_eq_iff unat_of_nat)
  qed
  then show ?thesis using r s(2) by (auto simp: verify_log_def log_checked_def required Let_def)
qed

text \<open>A run that logs one frame, which has none of the required identifiers.\<close>

lemma log_passes_verifier_witness:
  "\<exists>events t b chunks. sd_run list_ops new_card initial_sd events (t, b :: list_board) \<and>
     (\<exists>s. verify_log \<lparr>va_size = True, va_speed = True, va_volume = True, va_root_dir = True, va_open = True,
        va_reads = map Some chunks @ [Some []], va_close = True\<rparr> = Some (Some s, False) \<and> ls_valid_rows s = 1)"
proof -
  obtain events t and b :: list_board where run: "sd_run list_ops new_card initial_sd events (t, b)"
    and rest: "\<forall>e \<in> set events. \<not> failed e" "\<not> rst_has_unflushed_data t"
      "List.map_filter requested_frame events = [zero_frame]"
      "\<forall>frame. Arrived frame True \<in> set events \<longrightarrow> frame = zero_frame"
    using demo_run by blast
  let ?bytes = "bytes_of (concat (map (saved CanFile) events))"
  define chunks where "chunks = map (\<lambda>byte. [byte]) ?bytes"
  have new: "fa_length (ca_can new_card) = Some 0" by (simp add: new_card_def Let_def)
  have good: "\<forall>frame. Arrived frame True \<in> set events \<longrightarrow> recorded frame"
    using rest(4) by (auto simp: recorded_def zero_frame_def)
  have chunks: "concat chunks = ?bytes" "[] \<notin> set chunks" by (auto simp: chunks_def)
  have len: "length (List.map_filter requested_frame events) < 2 ^ 64" by (simp add: rest(3))
  have verdict: "(\<forall>ident \<in> set REQUIRED_ACTIVE_IDS. \<exists>r \<in> set (newest_segment [zero_frame]). raw_identifier r = ident) = False"
    by (simp add: zero_frame_def REQUIRED_ACTIVE_IDS_def)
  from log_passes_verifier [OF run new rest(1,2) good len chunks] obtain s where
    "verify_log \<lparr>va_size = True, va_speed = True, va_volume = True, va_root_dir = True, va_open = True,
        va_reads = map Some chunks @ [Some []], va_close = True\<rparr> = Some (Some s, False)" "log_checked [zero_frame] s"
    unfolding rest(3) verdict by blast
  moreover from this(2) have "ls_valid_rows s = 1" by (simp add: log_checked_def)
  ultimately show ?thesis using run by blast
qed

end
