(* ===== verification/LoraTiming.thy ===== *)
theory LoraTiming
  imports Scheduler
begin

section \<open>Transmission statistics (src/lora\_timing.rs)\<close>

text \<open>
  The debug build measures every transmission. A trace holds the times of its stages; the
  collector keeps, for each of fifteen metrics, for each source and for the queue wait of
  emergencies, the number, minimum, maximum and sum of the differences, and reports them after
  every ten traces. Arrays are lists of their length.
\<close>

definition SAMPLES_PER_REPORT :: u32 where [simp]: "SAMPLES_PER_REPORT = 10"
definition SOURCE_COUNT :: nat where [simp]: "SOURCE_COUNT = 5"

fun source_index :: "lora_tx_source \<Rightarrow> nat" where
  "source_index SrcEmergencyResult = 0"
| "source_index SrcCommandResult = 1"
| "source_index SrcGroundTimeRequest = 2"
| "source_index SrcRecovery = 3"
| "source_index SrcPeriodic = 4"

definition REQUEST_INTERVAL :: nat where [simp]: "REQUEST_INTERVAL = 0"
definition REQUEST_TO_WRITE_START :: nat where [simp]: "REQUEST_TO_WRITE_START = 1"
definition QUEUE_WAIT :: nat where [simp]: "QUEUE_WAIT = 2"
definition INITIAL_AUX_WAIT :: nat where [simp]: "INITIAL_AUX_WAIT = 3"
definition RX_GUARD_WAIT :: nat where [simp]: "RX_GUARD_WAIT = 4"
definition POST_GUARD_AUX_WAIT :: nat where [simp]: "POST_GUARD_AUX_WAIT = 5"
definition UART_WRITE :: nat where [simp]: "UART_WRITE = 6"
definition UART_FLUSH :: nat where [simp]: "UART_FLUSH = 7"
definition FLUSH_TO_AUX_LOW :: nat where [simp]: "FLUSH_TO_AUX_LOW = 8"
definition AUX_LOW_DURATION :: nat where [simp]: "AUX_LOW_DURATION = 9"
definition FLUSH_TO_TX_COMPLETE :: nat where [simp]: "FLUSH_TO_TX_COMPLETE = 10"
definition TX_TOTAL :: nat where [simp]: "TX_TOTAL = 11"
definition WRITE_START_INTERVAL :: nat where [simp]: "WRITE_START_INTERVAL = 12"
definition TX_COMPLETE_INTERVAL :: nat where [simp]: "TX_COMPLETE_INTERVAL = 13"
definition IDLE_GAP :: nat where [simp]: "IDLE_GAP = 14"
definition METRIC_COUNT :: nat where [simp]: "METRIC_COUNT = 15"

record tx_timing_trace =
  tr_source :: lora_tx_source
  tr_requested_at :: u64
  tr_transmit_started_at :: "u64 option"
  tr_initial_aux_ready_at :: "u64 option"
  tr_rx_guard_done_at :: "u64 option"
  tr_post_guard_aux_ready_at :: "u64 option"
  tr_uart_write_started_at :: "u64 option"
  tr_uart_write_finished_at :: "u64 option"
  tr_uart_flush_finished_at :: "u64 option"
  tr_aux_low_at :: "u64 option"
  tr_aux_high_at :: "u64 option"
  tr_completed_at :: "u64 option"
  tr_aux_low_not_observed :: bool
  tr_periodic_missed_slots :: u32

definition new_trace :: "u64 \<Rightarrow> lora_tx_source \<Rightarrow> tx_timing_trace" where
  "new_trace requested_at source =
     \<lparr>tr_source = source, tr_requested_at = requested_at, tr_transmit_started_at = None,
      tr_initial_aux_ready_at = None, tr_rx_guard_done_at = None, tr_post_guard_aux_ready_at = None,
      tr_uart_write_started_at = None, tr_uart_write_finished_at = None, tr_uart_flush_finished_at = None,
      tr_aux_low_at = None, tr_aux_high_at = None, tr_completed_at = None,
      tr_aux_low_not_observed = False, tr_periodic_missed_slots = 0\<rparr>"

definition reselect_prepared_trace :: "tx_timing_trace \<Rightarrow> u64 \<Rightarrow> lora_tx_source \<Rightarrow> tx_timing_trace" where
  "reselect_prepared_trace prepared requested_at source =
     (let at_least = map_option (max requested_at)
      in (new_trace requested_at source)
           \<lparr>tr_transmit_started_at := Some requested_at,
            tr_initial_aux_ready_at := at_least (tr_initial_aux_ready_at prepared),
            tr_rx_guard_done_at := at_least (tr_rx_guard_done_at prepared),
            tr_post_guard_aux_ready_at := at_least (tr_post_guard_aux_ready_at prepared)\<rparr>)"

subsection \<open>Statistics of one metric\<close>

record metric_summary =
  su_count :: u32
  su_min :: u64
  su_max :: u64
  su_average :: u64

record metric_stats =
  mt_count :: u32
  mt_min :: u64
  mt_max :: u64
  mt_total :: u64

definition new_stats :: metric_stats where
  "new_stats = \<lparr>mt_count = 0, mt_min = - 1, mt_max = 0, mt_total = 0\<rparr>"

definition record_stats :: "u64 \<Rightarrow> metric_stats \<Rightarrow> metric_stats" where
  "record_stats v s =
     \<lparr>mt_count = saturating_add (mt_count s) 1, mt_min = min (mt_min s) v,
      mt_max = max (mt_max s) v, mt_total = saturating_add (mt_total s) v\<rparr>"

definition summary :: "metric_stats \<Rightarrow> metric_summary" where
  "summary s =
     (if mt_count s = 0 then \<lparr>su_count = 0, su_min = 0, su_max = 0, su_average = 0\<rparr>
      else \<lparr>su_count = mt_count s, su_min = mt_min s, su_max = mt_max s,
            su_average = mt_total s div ucast (mt_count s)\<rparr>)"

subsection \<open>The collector\<close>

record timing_report =
  tp_metrics :: "metric_summary list"
  tp_source_samples :: "u32 list"
  tp_source_tx_total :: "metric_summary list"
  tp_emergency_queue_wait :: metric_summary
  tp_aux_low_not_observed :: u32
  tp_invalid_timestamp_count :: u32
  tp_periodic_missed_slots :: u32

definition source_samples :: "timing_report \<Rightarrow> lora_tx_source \<Rightarrow> u32" where
  "source_samples p source = tp_source_samples p ! source_index source"

definition source_tx_total :: "timing_report \<Rightarrow> lora_tx_source \<Rightarrow> metric_summary" where
  "source_tx_total p source = tp_source_tx_total p ! source_index source"

definition report_sample_count :: "timing_report \<Rightarrow> u32" where
  "report_sample_count p = sum_list (tp_source_samples p)"

record timing_collector =
  tc_metrics :: "metric_stats list"
  tc_source_samples :: "u32 list"
  tc_source_tx_total :: "metric_stats list"
  tc_emergency_queue_wait :: metric_stats
  tc_previous_requested_at :: "u64 option list"
  tc_previous_write_started_at :: "u64 option"
  tc_previous_completed_at :: "u64 option"
  tc_sample_count :: u32
  tc_aux_low_not_observed :: u32
  tc_invalid_timestamp_count :: u32
  tc_periodic_missed_slots :: u32

definition new_collector :: timing_collector where
  "new_collector =
     \<lparr>tc_metrics = replicate METRIC_COUNT new_stats, tc_source_samples = replicate SOURCE_COUNT 0,
      tc_source_tx_total = replicate SOURCE_COUNT new_stats, tc_emergency_queue_wait = new_stats,
      tc_previous_requested_at = replicate SOURCE_COUNT None, tc_previous_write_started_at = None,
      tc_previous_completed_at = None, tc_sample_count = 0, tc_aux_low_not_observed = 0,
      tc_invalid_timestamp_count = 0, tc_periodic_missed_slots = 0\<rparr>"

definition invalid_timestamp :: "timing_collector \<Rightarrow> timing_collector" where
  "invalid_timestamp c = c\<lparr>tc_invalid_timestamp_count := saturating_add (tc_invalid_timestamp_count c) 1\<rparr>"

definition record_delta :: "nat \<Rightarrow> u64 option \<Rightarrow> u64 option \<Rightarrow> timing_collector \<Rightarrow> timing_collector" where
  "record_delta metric later earlier c =
     (case (later, earlier) of
        (Some later, Some earlier) \<Rightarrow>
          (case checked_sub later earlier of
             Some delta \<Rightarrow> c\<lparr>tc_metrics := (tc_metrics c)[metric := record_stats delta (tc_metrics c ! metric)]\<rparr>
           | None \<Rightarrow> invalid_timestamp c)
      | _ \<Rightarrow> c)"

definition record_source_delta :: "nat \<Rightarrow> u64 \<Rightarrow> u64 \<Rightarrow> timing_collector \<Rightarrow> timing_collector" where
  "record_source_delta i later earlier c =
     (case checked_sub later earlier of
        Some delta \<Rightarrow>
          c\<lparr>tc_source_tx_total := (tc_source_tx_total c)[i := record_stats delta (tc_source_tx_total c ! i)]\<rparr>
      | None \<Rightarrow> invalid_timestamp c)"

definition record_emergency_queue_delta :: "u64 \<Rightarrow> u64 \<Rightarrow> timing_collector \<Rightarrow> timing_collector" where
  "record_emergency_queue_delta later earlier c =
     (case checked_sub later earlier of
        Some delta \<Rightarrow> c\<lparr>tc_emergency_queue_wait := record_stats delta (tc_emergency_queue_wait c)\<rparr>
      | None \<Rightarrow> invalid_timestamp c)"

definition reset_window :: "timing_collector \<Rightarrow> timing_collector" where
  "reset_window c =
     c\<lparr>tc_metrics := replicate METRIC_COUNT new_stats, tc_source_samples := replicate SOURCE_COUNT 0,
       tc_source_tx_total := replicate SOURCE_COUNT new_stats, tc_emergency_queue_wait := new_stats,
       tc_sample_count := 0, tc_aux_low_not_observed := 0, tc_invalid_timestamp_count := 0,
       tc_periodic_missed_slots := 0\<rparr>"

text \<open>The body of \<open>TimingCollector::record\<close>: counting, measuring, and the report of a full window.\<close>

definition count_trace :: "tx_timing_trace \<Rightarrow> timing_collector \<Rightarrow> timing_collector" where
  "count_trace trace c =
     (let c = c\<lparr>tc_sample_count := saturating_add (tc_sample_count c) 1\<rparr>;
          i = source_index (tr_source trace);
          c = c\<lparr>tc_source_samples := (tc_source_samples c)[i := saturating_add (tc_source_samples c ! i) 1]\<rparr>;
          c = c\<lparr>tc_periodic_missed_slots :=
                 saturating_add (tc_periodic_missed_slots c) (tr_periodic_missed_slots trace)\<rparr>
      in if tr_aux_low_not_observed trace
         then c\<lparr>tc_aux_low_not_observed := saturating_add (tc_aux_low_not_observed c) 1\<rparr> else c)"

definition measure_requested :: "tx_timing_trace \<Rightarrow> timing_collector \<Rightarrow> timing_collector" where
  "measure_requested trace c =
     (let i = source_index (tr_source trace);
          previous = tc_previous_requested_at c ! i;
          c = record_delta REQUEST_INTERVAL (Some (tr_requested_at trace)) previous c
      in c\<lparr>tc_previous_requested_at := (tc_previous_requested_at c)[i := Some (tr_requested_at trace)]\<rparr>)"

definition measure_stages :: "tx_timing_trace \<Rightarrow> timing_collector \<Rightarrow> timing_collector" where
  "measure_stages trace c =
     (let requested = tr_requested_at trace;
          c = record_delta REQUEST_TO_WRITE_START (tr_uart_write_started_at trace) (Some requested) c;
          c = record_delta QUEUE_WAIT (tr_transmit_started_at trace) (Some requested) c;
          c = record_delta INITIAL_AUX_WAIT (tr_initial_aux_ready_at trace) (tr_transmit_started_at trace) c;
          c = record_delta RX_GUARD_WAIT (tr_rx_guard_done_at trace) (tr_initial_aux_ready_at trace) c;
          c = record_delta POST_GUARD_AUX_WAIT (tr_post_guard_aux_ready_at trace) (tr_rx_guard_done_at trace) c;
          c = record_delta UART_WRITE (tr_uart_write_finished_at trace) (tr_uart_write_started_at trace) c;
          c = record_delta UART_FLUSH (tr_uart_flush_finished_at trace) (tr_uart_write_finished_at trace) c;
          c = record_delta FLUSH_TO_AUX_LOW (tr_aux_low_at trace) (tr_uart_flush_finished_at trace) c;
          c = record_delta AUX_LOW_DURATION (tr_aux_high_at trace) (tr_aux_low_at trace) c;
          c = record_delta FLUSH_TO_TX_COMPLETE (tr_completed_at trace) (tr_uart_flush_finished_at trace) c
      in record_delta TX_TOTAL (tr_completed_at trace) (tr_transmit_started_at trace) c)"

definition measure_intervals :: "tx_timing_trace \<Rightarrow> timing_collector \<Rightarrow> timing_collector" where
  "measure_intervals trace c =
     (let c = record_delta WRITE_START_INTERVAL (tr_uart_write_started_at trace) (tc_previous_write_started_at c) c;
          c = (if tr_uart_write_started_at trace \<noteq> None
               then c\<lparr>tc_previous_write_started_at := tr_uart_write_started_at trace\<rparr> else c);
          c = record_delta TX_COMPLETE_INTERVAL (tr_completed_at trace) (tc_previous_completed_at c) c;
          c = record_delta IDLE_GAP (tr_uart_write_started_at trace) (tc_previous_completed_at c) c
      in if tr_completed_at trace \<noteq> None then c\<lparr>tc_previous_completed_at := tr_completed_at trace\<rparr> else c)"

definition measure_source :: "tx_timing_trace \<Rightarrow> timing_collector \<Rightarrow> timing_collector" where
  "measure_source trace c =
     (let c = (case (tr_completed_at trace, tr_transmit_started_at trace) of
                 (Some completed, Some started) \<Rightarrow>
                   record_source_delta (source_index (tr_source trace)) completed started c
               | _ \<Rightarrow> c)
      in case (tr_source trace, tr_uart_write_started_at trace) of
           (SrcEmergencyResult, Some write_started) \<Rightarrow>
             record_emergency_queue_delta write_started (tr_requested_at trace) c
         | _ \<Rightarrow> c)"

definition measure_trace :: "tx_timing_trace \<Rightarrow> timing_collector \<Rightarrow> timing_collector" where
  "measure_trace trace c =
     measure_source trace (measure_intervals trace (measure_stages trace (measure_requested trace c)))"

definition report_of :: "timing_collector \<Rightarrow> timing_report" where
  "report_of c =
     \<lparr>tp_metrics = map summary (tc_metrics c), tp_source_samples = tc_source_samples c,
      tp_source_tx_total = map summary (tc_source_tx_total c),
      tp_emergency_queue_wait = summary (tc_emergency_queue_wait c),
      tp_aux_low_not_observed = tc_aux_low_not_observed c,
      tp_invalid_timestamp_count = tc_invalid_timestamp_count c,
      tp_periodic_missed_slots = tc_periodic_missed_slots c\<rparr>"

definition record_trace :: "tx_timing_trace \<Rightarrow> timing_collector \<Rightarrow> timing_report option \<times> timing_collector" where
  "record_trace trace c =
     (let c = measure_trace trace (count_trace trace c)
      in if tc_sample_count c < SAMPLES_PER_REPORT then (None, c) else (Some (report_of c), reset_window c))"

subsection \<open>What a report says\<close>

text \<open>
  The reference reads the whole history. Each trace, with those before it, gives seventeen pairs of
  times; the differences of one slot are those of the pairs that are both known and in order.
\<close>

datatype slot = Metric nat | SourceTotal nat | EmergencyQueue

definition latest_of :: "('a \<Rightarrow> 'b option) \<Rightarrow> 'a list \<Rightarrow> 'b option" where
  "latest_of f past = fold (\<lambda>x last. case f x of None \<Rightarrow> last | Some y \<Rightarrow> Some y) past None"

definition requested_of :: "nat \<Rightarrow> tx_timing_trace \<Rightarrow> u64 option" where
  "requested_of i t = (if source_index (tr_source t) = i then Some (tr_requested_at t) else None)"

definition measures :: "tx_timing_trace list \<Rightarrow> tx_timing_trace \<Rightarrow> (slot \<times> u64 option \<times> u64 option) list" where
  "measures past t =
     [(Metric REQUEST_INTERVAL, Some (tr_requested_at t), latest_of (requested_of (source_index (tr_source t))) past),
      (Metric REQUEST_TO_WRITE_START, tr_uart_write_started_at t, Some (tr_requested_at t)),
      (Metric QUEUE_WAIT, tr_transmit_started_at t, Some (tr_requested_at t)),
      (Metric INITIAL_AUX_WAIT, tr_initial_aux_ready_at t, tr_transmit_started_at t),
      (Metric RX_GUARD_WAIT, tr_rx_guard_done_at t, tr_initial_aux_ready_at t),
      (Metric POST_GUARD_AUX_WAIT, tr_post_guard_aux_ready_at t, tr_rx_guard_done_at t),
      (Metric UART_WRITE, tr_uart_write_finished_at t, tr_uart_write_started_at t),
      (Metric UART_FLUSH, tr_uart_flush_finished_at t, tr_uart_write_finished_at t),
      (Metric FLUSH_TO_AUX_LOW, tr_aux_low_at t, tr_uart_flush_finished_at t),
      (Metric AUX_LOW_DURATION, tr_aux_high_at t, tr_aux_low_at t),
      (Metric FLUSH_TO_TX_COMPLETE, tr_completed_at t, tr_uart_flush_finished_at t),
      (Metric TX_TOTAL, tr_completed_at t, tr_transmit_started_at t),
      (Metric WRITE_START_INTERVAL, tr_uart_write_started_at t, latest_of tr_uart_write_started_at past),
      (Metric TX_COMPLETE_INTERVAL, tr_completed_at t, latest_of tr_completed_at past),
      (Metric IDLE_GAP, tr_uart_write_started_at t, latest_of tr_completed_at past),
      (SourceTotal (source_index (tr_source t)), tr_completed_at t, tr_transmit_started_at t),
      (EmergencyQueue, if tr_source t = SrcEmergencyResult then tr_uart_write_started_at t else None,
         Some (tr_requested_at t))]"

fun window_measures ::
  "tx_timing_trace list \<Rightarrow> tx_timing_trace list \<Rightarrow> (slot \<times> u64 option \<times> u64 option) list" where
  "window_measures past [] = []"
| "window_measures past (t # window) = measures past t @ window_measures (past @ [t]) window"

fun difference :: "slot \<Rightarrow> slot \<times> u64 option \<times> u64 option \<Rightarrow> u64 option" where
  "difference slot (slot', Some later, Some earlier) = (if slot' = slot then checked_sub later earlier else None)"
| "difference slot _ = None"

fun out_of_order :: "slot \<times> u64 option \<times> u64 option \<Rightarrow> bool" where
  "out_of_order (slot, Some later, Some earlier) = (later < earlier)"
| "out_of_order _ = False"

definition statistics :: "u64 list \<Rightarrow> metric_summary" where
  "statistics ds =
     (if ds = [] then \<lparr>su_count = 0, su_min = 0, su_max = 0, su_average = 0\<rparr>
      else \<lparr>su_count = of_nat (length ds), su_min = Min (set ds), su_max = Max (set ds),
            su_average = of_nat (min (sum_list (map unat ds)) (2 ^ 64 - 1) div length ds)\<rparr>)"

definition window_report :: "tx_timing_trace list \<Rightarrow> tx_timing_trace list \<Rightarrow> timing_report" where
  "window_report past window =
     (let ms = window_measures past window
      in \<lparr>tp_metrics = map (\<lambda>m. statistics (List.map_filter (difference (Metric m)) ms)) [0..<15],
          tp_source_samples =
            map (\<lambda>i. of_nat (length (filter (\<lambda>t. source_index (tr_source t) = i) window))) [0..<5],
          tp_source_tx_total = map (\<lambda>i. statistics (List.map_filter (difference (SourceTotal i)) ms)) [0..<5],
          tp_emergency_queue_wait = statistics (List.map_filter (difference EmergencyQueue) ms),
          tp_aux_low_not_observed = of_nat (length (filter tr_aux_low_not_observed window)),
          tp_invalid_timestamp_count = of_nat (length (filter out_of_order ms)),
          tp_periodic_missed_slots =
            of_nat (min (sum_list (map (unat \<circ> tr_periodic_missed_slots) window)) (2 ^ 32 - 1))\<rparr>)"

subsection \<open>Statistics of a list\<close>

lemma record_stats_sel [simp]:
  "mt_count (record_stats v s) = saturating_add (mt_count s) 1" "mt_min (record_stats v s) = min (mt_min s) v"
  "mt_max (record_stats v s) = max (mt_max s) v" "mt_total (record_stats v s) = saturating_add (mt_total s) v"
  by (simp_all add: record_stats_def)

lemma record_stats_list:
  "length ds < 2 ^ 32 \<Longrightarrow>
     unat (mt_count (fold record_stats ds new_stats)) = length ds \<and>
     (ds \<noteq> [] \<longrightarrow> mt_min (fold record_stats ds new_stats) = Min (set ds) \<and>
                mt_max (fold record_stats ds new_stats) = Max (set ds)) \<and>
     unat (mt_total (fold record_stats ds new_stats)) = min (sum_list (map unat ds)) (2 ^ 64 - 1)"
proof (induction ds rule: rev_induct)
  case (snoc d ds)
  let ?s = "fold record_stats ds new_stats"
  have fold: "fold record_stats (ds @ [d]) new_stats = record_stats d ?s" by simp
  have top: "min (- 1) d = d" "max 0 d = d" by (simp_all add: min.absorb2 max.absorb2)
  have "mt_min (record_stats d ?s) = Min (set (ds @ [d])) \<and> mt_max (record_stats d ?s) = Max (set (ds @ [d]))"
  proof (cases "ds = []")
    case True
    then show ?thesis using top by (simp add: new_stats_def)
  next
    case False
    then have "Min (set (ds @ [d])) = min (Min (set ds)) d" "Max (set (ds @ [d])) = max (Max (set ds)) d"
      by (simp_all add: min.commute max.commute)
    then show ?thesis using snoc False by simp
  qed
  moreover have "unat (mt_count (record_stats d ?s)) = length (ds @ [d])"
    using snoc by (simp add: unat_saturating_add)
  moreover have "unat (mt_total (record_stats d ?s)) = min (sum_list (map unat (ds @ [d]))) (2 ^ 64 - 1)"
    using snoc by (simp add: unat_saturating_add)
  ultimately show ?case unfolding fold by blast
qed (simp add: new_stats_def)

lemma summary_statistics:
  assumes "length ds < 2 ^ 32"
  shows "summary (fold record_stats ds new_stats) = statistics ds"
proof (cases "ds = []")
  case True
  then show ?thesis by (simp add: summary_def statistics_def new_stats_def)
next
  case False
  let ?s = "fold record_stats ds new_stats"
  note s = record_stats_list [OF assms]
  have "mt_count ?s = of_nat (length ds)"
    by (rule unat_eqI) (use s assms in \<open>simp add: unsigned_of_nat take_bit_nat_eq_self\<close>)
  moreover have "mt_count ?s \<noteq> 0" using s False by auto
  moreover have "mt_total ?s div ucast (mt_count ?s) = of_nat (min (sum_list (map unat ds)) (2 ^ 64 - 1) div length ds)"
  proof (rule unat_eqI)
    have "unat (ucast (mt_count ?s) :: u64) = length ds"
      using s assms by (simp add: unsigned_ucast_eq take_bit_nat_eq_self)
    moreover have "min (sum_list (map unat ds)) (2 ^ 64 - 1) div length ds < 2 ^ 64"
      by (rule le_less_trans [OF div_le_dividend]) simp
    ultimately show "unat (mt_total ?s div ucast (mt_count ?s)) =
        unat (of_nat (min (sum_list (map unat ds)) (2 ^ 64 - 1) div length ds) :: u64)"
      using s by (simp add: unat_div_distrib unsigned_of_nat take_bit_nat_eq_self)
  qed
  ultimately show ?thesis using s False by (simp add: summary_def statistics_def)
qed

subsection \<open>The collector against the reference\<close>

text \<open>\<open>measure_trace\<close> as a fold over the pairs of a trace.\<close>

fun apply_measure :: "slot \<times> u64 option \<times> u64 option \<Rightarrow> timing_collector \<Rightarrow> timing_collector" where
  "apply_measure (Metric m, later, earlier) = record_delta m later earlier"
| "apply_measure (SourceTotal i, Some later, Some earlier) = record_source_delta i later earlier"
| "apply_measure (EmergencyQueue, Some later, Some earlier) = record_emergency_queue_delta later earlier"
| "apply_measure _ = id"

lemmas record_defs = record_delta_def record_source_delta_def record_emergency_queue_delta_def invalid_timestamp_def

lemma apply_keeps_times [simp]:
  "tc_previous_requested_at (apply_measure x c) = tc_previous_requested_at c"
  "tc_previous_write_started_at (apply_measure x c) = tc_previous_write_started_at c"
  "tc_previous_completed_at (apply_measure x c) = tc_previous_completed_at c"
  by (cases x rule: apply_measure.cases; simp add: record_defs split: option.split)+

lemma apply_times_commute [simp]:
  "apply_measure x (c\<lparr>tc_previous_requested_at := requests\<rparr>) = (apply_measure x c)\<lparr>tc_previous_requested_at := requests\<rparr>"
  "apply_measure x (c\<lparr>tc_previous_write_started_at := at\<rparr>) = (apply_measure x c)\<lparr>tc_previous_write_started_at := at\<rparr>"
  "apply_measure x (c\<lparr>tc_previous_completed_at := at\<rparr>) = (apply_measure x c)\<lparr>tc_previous_completed_at := at\<rparr>"
  by (cases x rule: apply_measure.cases; simp add: record_defs split: option.split)+

text \<open>Each part of \<open>measure_trace\<close> as applications of pairs.\<close>

lemma record_delta_apply: "record_delta m l e c = apply_measure (Metric m, l, e) c"
  by simp

lemma measure_source_apply:
  "measure_source t c =
     apply_measure (EmergencyQueue, if tr_source t = SrcEmergencyResult then tr_uart_write_started_at t else None,
         Some (tr_requested_at t))
       (apply_measure (SourceTotal (source_index (tr_source t)), tr_completed_at t, tr_transmit_started_at t) c)"
  by (cases "tr_source t"; cases "tr_completed_at t"; cases "tr_transmit_started_at t"; cases "tr_uart_write_started_at t")
    (simp_all add: measure_source_def)

lemma measure_intervals_apply:
  "measure_intervals t c =
     (apply_measure (Metric IDLE_GAP, tr_uart_write_started_at t, tc_previous_completed_at c)
       (apply_measure (Metric TX_COMPLETE_INTERVAL, tr_completed_at t, tc_previous_completed_at c)
         (apply_measure (Metric WRITE_START_INTERVAL, tr_uart_write_started_at t, tc_previous_write_started_at c) c)))
      \<lparr>tc_previous_write_started_at :=
         (case tr_uart_write_started_at t of None \<Rightarrow> tc_previous_write_started_at c | Some x \<Rightarrow> Some x),
       tc_previous_completed_at :=
         (case tr_completed_at t of None \<Rightarrow> tc_previous_completed_at c | Some x \<Rightarrow> Some x)\<rparr>"
  by (cases "tr_uart_write_started_at t"; cases "tr_completed_at t")
    (simp_all add: measure_intervals_def record_delta_apply del: apply_measure.simps)

definition times_after :: "tx_timing_trace \<Rightarrow> timing_collector \<Rightarrow> timing_collector \<Rightarrow> timing_collector" where
  "times_after t c c' =
     c'\<lparr>tc_previous_requested_at :=
          (tc_previous_requested_at c)[source_index (tr_source t) := Some (tr_requested_at t)],
        tc_previous_write_started_at :=
          (case tr_uart_write_started_at t of None \<Rightarrow> tc_previous_write_started_at c | Some x \<Rightarrow> Some x),
        tc_previous_completed_at :=
          (case tr_completed_at t of None \<Rightarrow> tc_previous_completed_at c | Some x \<Rightarrow> Some x)\<rparr>"

lemma measure_trace_fold:
  assumes "tc_previous_requested_at c ! source_index (tr_source t) = latest_of (requested_of (source_index (tr_source t))) past"
    and "tc_previous_write_started_at c = latest_of tr_uart_write_started_at past"
    and "tc_previous_completed_at c = latest_of tr_completed_at past"
  shows "measure_trace t c = times_after t c (fold apply_measure (measures past t) c)"
proof -
  have keeps: "tc_previous_requested_at (fold apply_measure ms c) = tc_previous_requested_at c"
    "tc_previous_write_started_at (fold apply_measure ms c) = tc_previous_write_started_at c"
    "tc_previous_completed_at (fold apply_measure ms c) = tc_previous_completed_at c"
    "fold apply_measure ms (c\<lparr>tc_previous_requested_at := requests\<rparr>) =
       (fold apply_measure ms c)\<lparr>tc_previous_requested_at := requests\<rparr>" for ms c requests
    by (induction ms arbitrary: c) simp_all
  let ?m = "measures past t"
  have parts: "?m = take 1 ?m @ take 11 (drop 1 ?m) @ drop 12 ?m" by (simp add: measures_def)
  have requested: "measure_requested t c = (fold apply_measure (take 1 ?m) c)
      \<lparr>tc_previous_requested_at := (tc_previous_requested_at c)[source_index (tr_source t) := Some (tr_requested_at t)]\<rparr>"
    using assms(1) by (simp add: measure_requested_def measures_def record_delta_apply Let_def del: apply_measure.simps)
  have stages: "measure_stages t c' = fold apply_measure (take 11 (drop 1 ?m)) c'" for c'
    by (simp add: measure_stages_def measures_def record_delta_apply Let_def del: apply_measure.simps)
  have rest: "measure_source t (measure_intervals t c') = (fold apply_measure (drop 12 ?m) c')
      \<lparr>tc_previous_write_started_at :=
         (case tr_uart_write_started_at t of None \<Rightarrow> tc_previous_write_started_at c | Some x \<Rightarrow> Some x),
       tc_previous_completed_at :=
         (case tr_completed_at t of None \<Rightarrow> tc_previous_completed_at c | Some x \<Rightarrow> Some x)\<rparr>"
    if "tc_previous_write_started_at c' = tc_previous_write_started_at c"
      "tc_previous_completed_at c' = tc_previous_completed_at c" for c'
    using that assms(2,3)
    by (simp add: measures_def measure_source_apply measure_intervals_apply del: apply_measure.simps
        cong: option.case_cong)
  show ?thesis
    unfolding measure_trace_def requested stages
    by (subst rest) (simp_all add: keeps times_after_def, subst (4) parts, simp add: keeps)
qed

lemma checked_sub_cases: "checked_sub l e = (if l < e then None else Some (l - e))"
  by (auto simp: checked_sub_def)

lemma apply_measure_fields:
  "m < length (tc_metrics c) \<Longrightarrow> tc_metrics (apply_measure x c) ! m =
     (case difference (Metric m) x of None \<Rightarrow> tc_metrics c ! m | Some d \<Rightarrow> record_stats d (tc_metrics c ! m))"
  "i < length (tc_source_tx_total c) \<Longrightarrow> tc_source_tx_total (apply_measure x c) ! i =
     (case difference (SourceTotal i) x of None \<Rightarrow> tc_source_tx_total c ! i | Some d \<Rightarrow> record_stats d (tc_source_tx_total c ! i))"
  "tc_emergency_queue_wait (apply_measure x c) =
     (case difference EmergencyQueue x of None \<Rightarrow> tc_emergency_queue_wait c | Some d \<Rightarrow> record_stats d (tc_emergency_queue_wait c))"
  "tc_invalid_timestamp_count (apply_measure x c) =
     (if out_of_order x then saturating_add (tc_invalid_timestamp_count c) 1 else tc_invalid_timestamp_count c)"
  "length (tc_metrics (apply_measure x c)) = length (tc_metrics c)"
  "length (tc_source_tx_total (apply_measure x c)) = length (tc_source_tx_total c)"
  "tc_source_samples (apply_measure x c) = tc_source_samples c"
  "tc_sample_count (apply_measure x c) = tc_sample_count c"
  "tc_aux_low_not_observed (apply_measure x c) = tc_aux_low_not_observed c"
  "tc_periodic_missed_slots (apply_measure x c) = tc_periodic_missed_slots c"
  by (cases x rule: apply_measure.cases; auto simp: record_defs checked_sub_cases nth_list_update split: option.split)+

lemma fold_measures:
  "m < length (tc_metrics c) \<Longrightarrow> tc_metrics (fold apply_measure ms c) ! m =
     fold record_stats (List.map_filter (difference (Metric m)) ms) (tc_metrics c ! m)"
  "i < length (tc_source_tx_total c) \<Longrightarrow> tc_source_tx_total (fold apply_measure ms c) ! i =
     fold record_stats (List.map_filter (difference (SourceTotal i)) ms) (tc_source_tx_total c ! i)"
  "tc_emergency_queue_wait (fold apply_measure ms c) =
     fold record_stats (List.map_filter (difference EmergencyQueue) ms) (tc_emergency_queue_wait c)"
  "unat (tc_invalid_timestamp_count (fold apply_measure ms c)) =
     min (unat (tc_invalid_timestamp_count c) + length (filter out_of_order ms)) (2 ^ 32 - 1)"
  "length (tc_metrics (fold apply_measure ms c)) = length (tc_metrics c)"
  "length (tc_source_tx_total (fold apply_measure ms c)) = length (tc_source_tx_total c)"
  "tc_source_samples (fold apply_measure ms c) = tc_source_samples c"
  "tc_sample_count (fold apply_measure ms c) = tc_sample_count c"
  "tc_aux_low_not_observed (fold apply_measure ms c) = tc_aux_low_not_observed c"
  "tc_periodic_missed_slots (fold apply_measure ms c) = tc_periodic_missed_slots c"
proof -
  have below: "unat (w :: u32) \<le> 2 ^ 32 - 1" for w using unat_below [of w] by simp
  show "unat (tc_invalid_timestamp_count (fold apply_measure ms c)) =
     min (unat (tc_invalid_timestamp_count c) + length (filter out_of_order ms)) (2 ^ 32 - 1)"
    using below by (induction ms arbitrary: c) (auto simp: apply_measure_fields unat_saturating_add min_def)
qed (induction ms arbitrary: c; auto simp: apply_measure_fields List.map_filter_simps split: option.split)+

subsection \<open>Windows of ten\<close>

text \<open>The collector after the traces \<open>window\<close> of the current window; \<open>past\<close> came before it.\<close>

definition holds_window :: "tx_timing_trace list \<Rightarrow> tx_timing_trace list \<Rightarrow> timing_collector \<Rightarrow> bool" where
  "holds_window past window c \<longleftrightarrow>
     (let ms = window_measures past window
      in length (tc_metrics c) = 15 \<and> length (tc_source_tx_total c) = 5 \<and>
         (\<forall>m < 15. tc_metrics c ! m = fold record_stats (List.map_filter (difference (Metric m)) ms) new_stats) \<and>
         (\<forall>i < 5. tc_source_tx_total c ! i = fold record_stats (List.map_filter (difference (SourceTotal i)) ms) new_stats) \<and>
         tc_emergency_queue_wait c = fold record_stats (List.map_filter (difference EmergencyQueue) ms) new_stats \<and>
         unat (tc_invalid_timestamp_count c) = min (length (filter out_of_order ms)) (2 ^ 32 - 1) \<and>
         length (tc_source_samples c) = 5 \<and>
         (\<forall>i < 5. unat (tc_source_samples c ! i) =
            min (length (filter (\<lambda>t. source_index (tr_source t) = i) window)) (2 ^ 32 - 1)) \<and>
         unat (tc_aux_low_not_observed c) = min (length (filter tr_aux_low_not_observed window)) (2 ^ 32 - 1) \<and>
         unat (tc_periodic_missed_slots c) =
           min (sum_list (map (unat \<circ> tr_periodic_missed_slots) window)) (2 ^ 32 - 1) \<and>
         unat (tc_sample_count c) = min (length window) (2 ^ 32 - 1) \<and>
         length (tc_previous_requested_at c) = 5 \<and>
         (\<forall>i < 5. tc_previous_requested_at c ! i = latest_of (requested_of i) (past @ window)) \<and>
         tc_previous_write_started_at c = latest_of tr_uart_write_started_at (past @ window) \<and>
         tc_previous_completed_at c = latest_of tr_completed_at (past @ window))"

lemma holds_window_new: "holds_window [] [] new_collector"
  by (simp add: holds_window_def new_collector_def latest_of_def List.map_filter_simps)

lemma holds_window_reset: "holds_window past window c \<Longrightarrow> holds_window (past @ window) [] (reset_window c)"
  by (simp add: holds_window_def reset_window_def List.map_filter_simps Let_def)

lemma window_measures_snoc:
  "window_measures past (window @ [t]) = window_measures past window @ measures (past @ window) t"
  by (induction window arbitrary: past) simp_all

lemma source_index_less [simp]: "source_index source < 5"
  by (cases source) simp_all

lemma latest_of_snoc:
  "latest_of f (past @ window @ [t]) = (case f t of None \<Rightarrow> latest_of f (past @ window) | Some y \<Rightarrow> Some y)"
  by (simp add: latest_of_def split: option.split)

lemma count_trace_fields [simp]:
  "tc_metrics (count_trace t c) = tc_metrics c" "tc_source_tx_total (count_trace t c) = tc_source_tx_total c"
  "tc_emergency_queue_wait (count_trace t c) = tc_emergency_queue_wait c"
  "tc_invalid_timestamp_count (count_trace t c) = tc_invalid_timestamp_count c"
  "tc_previous_requested_at (count_trace t c) = tc_previous_requested_at c"
  "tc_previous_write_started_at (count_trace t c) = tc_previous_write_started_at c"
  "tc_previous_completed_at (count_trace t c) = tc_previous_completed_at c"
  "tc_sample_count (count_trace t c) = saturating_add (tc_sample_count c) 1"
  "tc_source_samples (count_trace t c) = (tc_source_samples c)[source_index (tr_source t) :=
     saturating_add (tc_source_samples c ! source_index (tr_source t)) 1]"
  "tc_periodic_missed_slots (count_trace t c) =
     saturating_add (tc_periodic_missed_slots c) (tr_periodic_missed_slots t)"
  "tc_aux_low_not_observed (count_trace t c) =
     (if tr_aux_low_not_observed t then saturating_add (tc_aux_low_not_observed c) 1 else tc_aux_low_not_observed c)"
  by (simp_all add: count_trace_def Let_def)

lemma holds_window_record:
  assumes "holds_window past window c"
  shows "holds_window past (window @ [t]) (measure_trace t (count_trace t c))"
proof -
  let ?c = "count_trace t c"
  have times: "tc_previous_requested_at ?c ! source_index (tr_source t) =
        latest_of (requested_of (source_index (tr_source t))) (past @ window)"
      "tc_previous_write_started_at ?c = latest_of tr_uart_write_started_at (past @ window)"
      "tc_previous_completed_at ?c = latest_of tr_completed_at (past @ window)"
    using assms by (simp_all add: holds_window_def Let_def)
  have requests: "i < 5 \<Longrightarrow> (tc_previous_requested_at c)[source_index (tr_source t) := Some (tr_requested_at t)] ! i =
      latest_of (requested_of i) (past @ window @ [t])" for i
    using assms by (auto simp: holds_window_def Let_def latest_of_snoc requested_of_def nth_list_update)
  show ?thesis
    using assms requests
    unfolding measure_trace_fold [OF times] holds_window_def window_measures_snoc Let_def
    by (simp add: times_after_def fold_measures map_filter_append latest_of_snoc nth_list_update unat_saturating_add
      min_def split: option.split)
qed

lemma length_window_measures: "length (window_measures past window) = 17 * length window"
  by (induction window arbitrary: past) (simp_all add: measures_def)

lemma small_word: "unat (w :: u32) = n \<Longrightarrow> w = of_nat n"
  by auto

lemma report_of_window:
  assumes "holds_window past window c" "length window \<le> 10"
  shows "report_of c = window_report past window"
proof -
  let ?ms = "window_measures past window"
  have small: "length (List.map_filter f ?ms) < 2 ^ 32" "length (filter P ?ms) \<le> 2 ^ 32 - 1"
    "length (filter Q window) \<le> 2 ^ 32 - 1" for f :: "slot \<times> u64 option \<times> u64 option \<Rightarrow> u64 option" and P Q
  proof -
    have "length ?ms \<le> 170" using assms(2) by (simp add: length_window_measures)
    moreover have "length (List.map_filter f ?ms) \<le> length ?ms" by (simp add: List.map_filter_def)
    ultimately show "length (List.map_filter f ?ms) < 2 ^ 32" "length (filter P ?ms) \<le> 2 ^ 32 - 1"
      "length (filter Q window) \<le> 2 ^ 32 - 1"
      using assms(2) by (auto intro!: le_trans [OF length_filter_le])
  qed
  have lists: "map summary (tc_metrics c) = map (\<lambda>m. statistics (List.map_filter (difference (Metric m)) ?ms)) [0..<15]"
    "map summary (tc_source_tx_total c) =
       map (\<lambda>i. statistics (List.map_filter (difference (SourceTotal i)) ?ms)) [0..<5]"
    "tc_source_samples c =
       map (\<lambda>i. of_nat (length (filter (\<lambda>t. source_index (tr_source t) = i) window))) [0..<5]"
    using assms(1) small summary_statistics
    by (auto intro!: nth_equalityI small_word simp: holds_window_def Let_def min.absorb1)
  show ?thesis
    using assms(1) small lists
    by (simp add: report_of_def window_report_def Let_def holds_window_def summary_statistics small_word min.absorb1)
qed

text \<open>Running the collector over a list of traces, and the reference: a report for every ten.\<close>

fun run_collector :: "timing_collector \<Rightarrow> tx_timing_trace list \<Rightarrow> timing_report list" where
  "run_collector c [] = []"
| "run_collector c (t # traces) =
     (case record_trace t c of
        (None, c) \<Rightarrow> run_collector c traces
      | (Some p, c) \<Rightarrow> p # run_collector c traces)"

function window_reports :: "tx_timing_trace list \<Rightarrow> tx_timing_trace list \<Rightarrow> timing_report list" where
  "window_reports past traces =
     (if length traces < 10 then []
      else window_report past (take 10 traces) # window_reports (past @ take 10 traces) (drop 10 traces))"
  by pat_completeness auto
termination by (relation "measure (length \<circ> snd)") auto

declare window_reports.simps [simp del]

lemma run_collector_windows:
  "holds_window past window c \<Longrightarrow> length window < 10 \<Longrightarrow>
     run_collector c traces = window_reports past (window @ traces)"
proof (induction traces arbitrary: past window c)
  case Nil
  then show ?case by (subst window_reports.simps) simp
next
  case (Cons t traces)
  let ?c = "measure_trace t (count_trace t c)"
  have holds: "holds_window past (window @ [t]) ?c" by (rule holds_window_record [OF Cons.prems(1)])
  then have count: "unat (tc_sample_count ?c) = length window + 1"
    using Cons.prems(2) by (simp add: holds_window_def Let_def)
  show ?case
  proof (cases "length window = 9")
    case True
    have "\<not> tc_sample_count ?c < 10" using count True by (simp add: word_less_nat_alt)
    then have "run_collector c (t # traces) = report_of ?c # run_collector (reset_window ?c) traces"
      by (simp add: record_trace_def Let_def)
    also have "\<dots> = window_report past (window @ [t]) # window_reports (past @ window @ [t]) traces"
      using report_of_window [OF holds] Cons.IH [OF holds_window_reset [OF holds]] True by simp
    also have "\<dots> = window_reports past (window @ t # traces)"
      using True by (subst (2) window_reports.simps) simp
    finally show ?thesis .
  next
    case False
    then have "tc_sample_count ?c < 10" using count Cons.prems(2) by (simp add: word_less_nat_alt)
    then show ?thesis using Cons.IH [OF holds] Cons.prems(2) False by (simp add: record_trace_def Let_def)
  qed
qed

text \<open>
  C36. The statistics are right. For any traces, the collector reports exactly after every ten, and
  each report holds the number, minimum, maximum and average of the differences of its own ten
  traces, for every metric, every source and the emergency queue, where an interval starts at the
  last earlier trace that has the time, even one of a former window; negative differences are left
  out and counted, and nothing else of a former window is left in it.
\<close>

theorem timing_reports_exact:
  "run_collector new_collector traces = window_reports [] traces"
  using run_collector_windows [OF holds_window_new] by simp

text \<open>
  Every summary lies between its extremes: unless the sum of a window has saturated, the
  minimum is at most the average and that at most the maximum.
\<close>

theorem average_between_extremes:
  assumes "ds \<noteq> []" "length ds < 2 ^ 32" "sum_list (map unat ds) < 2 ^ 64"
  shows "case summary (fold record_stats ds new_stats) of s \<Rightarrow>
    su_min s \<le> su_average s \<and> su_average s \<le> su_max s"
proof -
  have "length ds * unat (Min (set ds)) \<le> sum_list (map unat ds)"
    using sum_list_mono [of ds "\<lambda>_. unat (Min (set ds))" unat] by (simp add: sum_list_triv word_le_nat_alt [symmetric])
  moreover have "sum_list (map unat ds) \<le> length ds * unat (Max (set ds))"
    using sum_list_mono [of ds unat "\<lambda>_. unat (Max (set ds))"] by (simp add: sum_list_triv word_le_nat_alt [symmetric])
  moreover have "unat (of_nat (sum_list (map unat ds) div length ds) :: u64) = sum_list (map unat ds) div length ds"
    using le_less_trans [OF div_le_dividend assms(3)] by (simp add: unsigned_of_nat take_bit_nat_eq_self)
  ultimately show ?thesis
    using assms div_le_mono [of _ "length ds * unat (Max (set ds))" "length ds"]
    by (simp add: summary_statistics statistics_def min.absorb1 word_le_nat_alt less_eq_div_iff_mult_less_eq mult.commute)
qed

end
