(* ===== verification/RadioTiming.thy ===== *)
theory RadioTiming
  imports RadioSend LoraTiming
begin

section \<open>The times of a transmission in the debug build (src/tasks/lora\_task\_base.rs)\<close>

text \<open>
  With the feature lora-timing-debug the transmitting task reads the clock at every stage of a
  transmission, hands the trace to the collector of LoraTiming, and passes each report to a task
  of the other core that prints it. The readings of the clock are arguments.
\<close>

subsection \<open>The stages\<close>

record prepare_times =
  pm_started :: u64
  pm_initial_aux_ready :: u64
  pm_rx_guard_done :: u64
  pm_post_guard_aux_ready :: u64

definition timed_prepare ::
  "prepare_times \<Rightarrow> aux_answer \<Rightarrow> guard_turn list \<Rightarrow> aux_answer \<Rightarrow> tx_timing_trace \<Rightarrow> radio_statics \<Rightarrow>
   (bool \<times> tx_timing_trace \<times> radio_statics) option" where
  "timed_prepare ti aux turns aux' timing r =
     (let timing = timing\<lparr>tr_transmit_started_at := Some (pm_started ti)\<rparr>
      in case wait_for_aux_high aux r of (ready, r) \<Rightarrow>
        if \<not> ready then Some (False, timing, r)
        else
          let timing = timing\<lparr>tr_initial_aux_ready_at := Some (pm_initial_aux_ready ti)\<rparr>
          in case wait_for_rx_guard turns r of
               (None, r) \<Rightarrow> None
             | (Some _, r) \<Rightarrow>
                 let timing = timing\<lparr>tr_rx_guard_done_at := Some (pm_rx_guard_done ti)\<rparr>
                 in case wait_for_aux_high aux' r of (ready, r) \<Rightarrow>
                      if \<not> ready then Some (False, timing, r)
                      else Some (True, timing\<lparr>tr_post_guard_aux_ready_at := Some (pm_post_guard_aux_ready ti)\<rparr>, r))"

record transmit_times =
  sm_write_started :: u64
  sm_write_finished :: u64
  sm_flush_finished :: u64
  sm_aux_low :: u64
  sm_completed :: u64

definition timed_transmit ::
  "transmit_times \<Rightarrow> tx_answers \<Rightarrow> lora_frame \<Rightarrow> tx_timing_trace \<Rightarrow> radio_statics \<Rightarrow>
   (bool \<times> bytes \<times> tx_timing_trace \<times> radio_statics) option" where
  "timed_transmit ti a frame timing r =
     (let timing = timing\<lparr>tr_uart_write_started_at := Some (sm_write_started ti)\<rparr>
      in case write_all (ta_writes a) (as_bytes frame) of
           None \<Rightarrow> None
         | Some (WriteDone True, out) \<Rightarrow>
             let timing = timing\<lparr>tr_uart_write_finished_at := Some (sm_write_finished ti)\<rparr>
             in Some (if \<not> ta_flushed a then (False, out, timing, tx_error r)
                  else
                    let timing = timing\<lparr>tr_uart_flush_finished_at := Some (sm_flush_finished ti)\<rparr>
                    in case wait_for_aux_low (ta_aux_low a) r of (low, r) \<Rightarrow>
                      if \<not> low then (False, out, timing\<lparr>tr_aux_low_not_observed := True\<rparr>, tx_error r)
                      else
                        let timing = timing\<lparr>tr_aux_low_at := Some (sm_aux_low ti)\<rparr>
                        in case wait_for_aux_high (ta_aux_high a) r of (high, r) \<Rightarrow>
                          if high
                          then (True, out, timing\<lparr>tr_aux_high_at := Some (sm_completed ti),
                                  tr_completed_at := Some (sm_completed ti)\<rparr>,
                                r\<lparr>rst_tx_success_count := rst_tx_success_count r + 1\<rparr>)
                          else (False, out, timing, tx_error r))
         | Some (_, out) \<Rightarrow> Some (False, out, timing, tx_error r))"

text \<open>The debug build sends what the release build sends: without the trace they are the same.\<close>

lemma timed_prepare_erased:
  "map_option (\<lambda>(prepared, timing, r). (prepared, r)) (timed_prepare ti aux turns aux' timing r) =
     prepare_transmit aux turns aux' r"
  by (simp add: timed_prepare_def prepare_transmit_def Let_def split: prod.split option.split)

lemma timed_transmit_erased:
  "map_option (\<lambda>(sent, out, timing, r). (sent, out, r)) (timed_transmit ti a frame timing r) =
     transmit_frame a frame r"
  by (simp add: timed_transmit_def transmit_frame_def Let_def
      split: prod.split option.split write_result.split bool.split)

subsection \<open>A round and its report\<close>

text \<open>
  What one round of the task meets: the frame it chose, the frame of higher priority that replaced
  it once the module was ready, if any, the answers of the hardware, the times, and the number of
  periodic slots missed in the round.
\<close>

record debug_round =
  dr_source :: lora_tx_source
  dr_requested_at :: u64
  dr_frame :: lora_frame
  dr_prepare :: prepare_times
  dr_aux :: aux_answer
  dr_turns :: "guard_turn list"
  dr_aux_again :: aux_answer
  dr_higher_priority :: "(lora_tx_source \<times> u64 \<times> lora_frame) option"
  dr_transmit :: transmit_times
  dr_answers :: tx_answers
  dr_missed_slots :: u32

definition debug_round_trace :: "debug_round \<Rightarrow> radio_statics \<Rightarrow> (tx_timing_trace \<times> bytes \<times> radio_statics) option" where
  "debug_round_trace d r =
     (let timing = new_trace (dr_requested_at d) (dr_source d)
      in case timed_prepare (dr_prepare d) (dr_aux d) (dr_turns d) (dr_aux_again d) timing r of
           None \<Rightarrow> None
         | Some (prepared, timing, r) \<Rightarrow>
             let (timing, frame) =
                   (if prepared
                    then (case dr_higher_priority d of
                            Some (source, requested_at, frame) \<Rightarrow>
                              (reselect_prepared_trace timing requested_at source, frame)
                          | None \<Rightarrow> (timing, dr_frame d))
                    else (timing, dr_frame d))
             in case (if prepared then timed_transmit (dr_transmit d) (dr_answers d) frame timing r
                      else Some (False, [], timing, r)) of
                  None \<Rightarrow> None
                | Some (_, out, timing, r) \<Rightarrow>
                    Some (timing\<lparr>tr_periodic_missed_slots := dr_missed_slots d\<rparr>, out, r))"

text \<open>The rounds one after the other: the traces, the bytes on the air, and the reports signalled.\<close>

fun debug_rounds ::
  "debug_round list \<Rightarrow> timing_collector \<Rightarrow> radio_statics \<Rightarrow>
   (tx_timing_trace list \<times> timing_report list \<times> bytes \<times> radio_statics) option" where
  "debug_rounds [] c r = Some ([], [], [], r)"
| "debug_rounds (d # ds) c r =
     (case debug_round_trace d r of
        None \<Rightarrow> None
      | Some (timing, out, r) \<Rightarrow>
          (case record_trace timing c of (report, c) \<Rightarrow>
             (case debug_rounds ds c r of
                None \<Rightarrow> None
              | Some (traces, reports, outs, r) \<Rightarrow>
                  Some (timing # traces, (case report of None \<Rightarrow> reports | Some p \<Rightarrow> p # reports), out @ outs, r))))"

text \<open>The values of a printed report, by their labels.\<close>

definition timing_line :: "timing_report \<Rightarrow> (string \<times> u64) list" where
  "timing_line p =
     (let request = tp_metrics p ! REQUEST_INTERVAL;
          request_to_write = tp_metrics p ! REQUEST_TO_WRITE_START;
          queue = tp_metrics p ! QUEUE_WAIT;
          initial_aux = tp_metrics p ! INITIAL_AUX_WAIT;
          rx_guard = tp_metrics p ! RX_GUARD_WAIT;
          post_guard_aux = tp_metrics p ! POST_GUARD_AUX_WAIT;
          uart_write = tp_metrics p ! UART_WRITE;
          uart_flush = tp_metrics p ! UART_FLUSH;
          flush_to_low = tp_metrics p ! FLUSH_TO_AUX_LOW;
          aux_low = tp_metrics p ! AUX_LOW_DURATION;
          flush_to_complete = tp_metrics p ! FLUSH_TO_TX_COMPLETE;
          tx_total = tp_metrics p ! TX_TOTAL;
          write_interval = tp_metrics p ! WRITE_START_INTERVAL;
          complete_interval = tp_metrics p ! TX_COMPLETE_INTERVAL;
          idle = tp_metrics p ! IDLE_GAP
      in [(''samples'', ucast (report_sample_count p)),
          (''src_emergency'', ucast (source_samples p SrcEmergencyResult)),
          (''src_b0'', ucast (source_samples p SrcCommandResult)),
          (''src_b1'', ucast (source_samples p SrcGroundTimeRequest)),
          (''src_recovery'', ucast (source_samples p SrcRecovery)),
          (''src_periodic'', ucast (source_samples p SrcPeriodic)),
          (''request_avg_us'', su_average request),
          (''request_to_write_avg_us'', su_average request_to_write),
          (''queue_avg_us'', su_average queue),
          (''initial_aux_avg_us'', su_average initial_aux),
          (''rx_guard_avg_us'', su_average rx_guard),
          (''post_guard_aux_avg_us'', su_average post_guard_aux),
          (''uart_write_avg_us'', su_average uart_write),
          (''uart_flush_avg_us'', su_average uart_flush),
          (''flush_to_aux_low_count'', ucast (su_count flush_to_low)),
          (''flush_to_aux_low_avg_us'', su_average flush_to_low),
          (''aux_low_count'', ucast (su_count aux_low)),
          (''aux_low_avg_us'', su_average aux_low),
          (''flush_to_complete_avg_us'', su_average flush_to_complete),
          (''tx_total_min_us'', su_min tx_total),
          (''tx_total_avg_us'', su_average tx_total),
          (''tx_total_max_us'', su_max tx_total),
          (''write_interval_min_us'', su_min write_interval),
          (''write_interval_avg_us'', su_average write_interval),
          (''write_interval_max_us'', su_max write_interval),
          (''complete_interval_avg_us'', su_average complete_interval),
          (''idle_avg_us'', su_average idle),
          (''emergency_queue_avg_us'', su_average (tp_emergency_queue_wait p)),
          (''periodic_tx_avg_us'', su_average (source_tx_total p SrcPeriodic)),
          (''b0_tx_avg_us'', su_average (source_tx_total p SrcCommandResult)),
          (''b1_tx_avg_us'', su_average (source_tx_total p SrcGroundTimeRequest)),
          (''recovery_tx_avg_us'', su_average (source_tx_total p SrcRecovery)),
          (''emergency_tx_avg_us'', su_average (source_tx_total p SrcEmergencyResult)),
          (''aux_low_not_observed'', ucast (tp_aux_low_not_observed p)),
          (''missed_slots'', ucast (tp_periodic_missed_slots p)),
          (''invalid_timestamps'', ucast (tp_invalid_timestamp_count p))])"

subsection \<open>Traces in order\<close>

definition times_of :: "debug_round \<Rightarrow> u64 list" where
  "times_of d =
     [pm_started (dr_prepare d), pm_initial_aux_ready (dr_prepare d), pm_rx_guard_done (dr_prepare d),
      pm_post_guard_aux_ready (dr_prepare d), sm_write_started (dr_transmit d),
      sm_write_finished (dr_transmit d), sm_flush_finished (dr_transmit d), sm_aux_low (dr_transmit d),
      sm_completed (dr_transmit d)]"

text \<open>A frame is requested before the task has it.\<close>

definition requested_before :: "debug_round \<Rightarrow> bool" where
  "requested_before d \<longleftrightarrow> dr_requested_at d \<le> pm_started (dr_prepare d) \<and>
     (case dr_higher_priority d of
        None \<Rightarrow> True | Some (_, requested_at, _) \<Rightarrow> requested_at \<le> sm_write_started (dr_transmit d))"

definition option_le :: "u64 option \<Rightarrow> u64 option \<Rightarrow> bool" where
  "option_le x y \<longleftrightarrow> (case (x, y) of (Some x, Some y) \<Rightarrow> x \<le> y | _ \<Rightarrow> True)"

lemma option_le_simps [simp]: "option_le None y" "option_le x None" "option_le (Some a) (Some b) \<longleftrightarrow> a \<le> b"
  by (simp_all add: option_le_def split: option.split)

lemma out_of_order_iff: "out_of_order (slot, later, earlier) \<longleftrightarrow> \<not> option_le earlier later"
  by (cases later; cases earlier) auto

definition ordered_trace :: "tx_timing_trace \<Rightarrow> bool" where
  "ordered_trace t \<longleftrightarrow>
     option_le (Some (tr_requested_at t)) (tr_uart_write_started_at t) \<and>
     option_le (Some (tr_requested_at t)) (tr_transmit_started_at t) \<and>
     option_le (tr_transmit_started_at t) (tr_initial_aux_ready_at t) \<and>
     option_le (tr_initial_aux_ready_at t) (tr_rx_guard_done_at t) \<and>
     option_le (tr_rx_guard_done_at t) (tr_post_guard_aux_ready_at t) \<and>
     option_le (tr_uart_write_started_at t) (tr_uart_write_finished_at t) \<and>
     option_le (tr_uart_write_finished_at t) (tr_uart_flush_finished_at t) \<and>
     option_le (tr_uart_flush_finished_at t) (tr_aux_low_at t) \<and>
     option_le (tr_aux_low_at t) (tr_aux_high_at t) \<and>
     option_le (tr_uart_flush_finished_at t) (tr_completed_at t) \<and>
     option_le (tr_transmit_started_at t) (tr_completed_at t)"

definition follows :: "tx_timing_trace \<Rightarrow> tx_timing_trace \<Rightarrow> bool" where
  "follows x t \<longleftrightarrow>
     option_le (tr_uart_write_started_at x) (tr_uart_write_started_at t) \<and>
     option_le (tr_completed_at x) (tr_completed_at t) \<and>
     option_le (tr_completed_at x) (tr_uart_write_started_at t) \<and>
     (tr_source x = tr_source t \<longrightarrow> tr_requested_at x \<le> tr_requested_at t)"

lemma latest_of_in: "latest_of f past = Some y \<Longrightarrow> \<exists>x \<in> set past. f x = Some y"
  unfolding latest_of_def by (induction past rule: rev_induct) (auto split: option.splits)

lemma source_index_inject [simp]: "source_index s = source_index s' \<longleftrightarrow> s = s'"
  by (cases s; cases s') simp_all

lemma latest_before:
  assumes "\<And>x. x \<in> set past \<Longrightarrow> option_le (f x) y"
  shows "option_le (latest_of f past) y"
proof (cases "latest_of f past")
  case (Some z)
  then obtain x where "x \<in> set past" "f x = Some z" using latest_of_in by metis
  then show ?thesis using assms [of x] Some by simp
qed simp

lemma measures_in_order:
  assumes "ordered_trace t" and past: "\<And>x. x \<in> set past \<Longrightarrow> follows x t"
  shows "filter out_of_order (measures past t) = []"
proof -
  have "option_le (latest_of (requested_of (source_index (tr_source t))) past) (Some (tr_requested_at t))"
    "option_le (latest_of tr_uart_write_started_at past) (tr_uart_write_started_at t)"
    "option_le (latest_of tr_completed_at past) (tr_completed_at t)"
    "option_le (latest_of tr_completed_at past) (tr_uart_write_started_at t)"
    by (rule latest_before; use past in \<open>auto simp: follows_def requested_of_def\<close>)+
  then show ?thesis
    using assms(1) by (auto simp: measures_def out_of_order_iff ordered_trace_def)
qed

lemma window_in_order:
  "\<forall>t \<in> set window. ordered_trace t \<Longrightarrow> sorted_wrt follows (past @ window) \<Longrightarrow>
     filter out_of_order (window_measures past window) = []"
proof (induction window arbitrary: past)
  case (Cons t window)
  have "filter out_of_order (measures past t) = []"
    using Cons.prems by (intro measures_in_order) (auto simp: sorted_wrt_append)
  then show ?case using Cons.IH [of "past @ [t]"] Cons.prems by simp
qed simp

lemma window_reports_windows:
  "p \<in> set (window_reports past traces) \<Longrightarrow>
     \<exists>before window rest. p = window_report before window \<and> length window = 10 \<and> past @ traces = before @ window @ rest"
proof (induction past traces rule: window_reports.induct)
  case (1 past traces)
  then consider "length traces \<ge> 10" "p = window_report past (take 10 traces)"
    | "length traces \<ge> 10" "p \<in> set (window_reports (past @ take 10 traces) (drop 10 traces))"
    by (subst (asm) (2) window_reports.simps) (auto split: if_splits)
  then show ?case
  proof cases
    case 1
    then show ?thesis
      by (intro exI [of _ past] exI [of _ "take 10 traces"] exI [of _ "drop 10 traces"]) simp
  next
    case 2
    with "1.IH" show ?thesis by (simp add: not_less)
  qed
qed

lemma sources_sum:
  "sum_list (map (\<lambda>i. of_nat (length (filter (\<lambda>t. source_index (tr_source t) = i) window))) [0..<5]) =
     (of_nat (length window) :: u32)"
proof (induction window)
  case (Cons t window)
  then show ?case by (cases "tr_source t") (simp_all add: upt_rec algebra_simps)
qed (simp add: upt_rec)

text \<open>The trace of a round, stage by stage.\<close>

definition not_written :: "tx_timing_trace \<Rightarrow> bool" where
  "not_written t \<longleftrightarrow> tr_uart_write_started_at t = None \<and> tr_uart_write_finished_at t = None \<and>
     tr_uart_flush_finished_at t = None \<and> tr_aux_low_at t = None \<and> tr_aux_high_at t = None \<and>
     tr_completed_at t = None"

lemma prepare_ordered:
  assumes "timed_prepare ti aux turns aux' (new_trace q s) r = Some (prepared, t, r')" "q \<le> pm_started ti"
    "pm_started ti \<le> pm_initial_aux_ready ti" "pm_initial_aux_ready ti \<le> pm_rx_guard_done ti"
    "pm_rx_guard_done ti \<le> pm_post_guard_aux_ready ti"
  shows "ordered_trace t \<and> not_written t \<and> tr_requested_at t = q \<and> tr_source t = s \<and>
    tr_transmit_started_at t = Some (pm_started ti)"
  using assms
  by (auto simp: timed_prepare_def new_trace_def ordered_trace_def not_written_def Let_def
      split: prod.splits option.splits if_splits)

lemma reselect_ordered:
  assumes "ordered_trace t"
  shows "ordered_trace (reselect_prepared_trace t q s) \<and> not_written (reselect_prepared_trace t q s) \<and>
    tr_requested_at (reselect_prepared_trace t q s) = q \<and> tr_source (reselect_prepared_trace t q s) = s \<and>
    tr_transmit_started_at (reselect_prepared_trace t q s) = Some q"
proof -
  have "option_le x y \<Longrightarrow> option_le (map_option (max q) x) (map_option (max q) y)" for x y
    by (auto simp: option_le_def split: option.splits) (auto simp: le_max_iff_disj)
  moreover have "option_le (Some q) (map_option (max q) x)" for x by (cases x) simp_all
  ultimately show ?thesis
    using assms by (simp add: reselect_prepared_trace_def new_trace_def ordered_trace_def not_written_def Let_def)
qed

lemma transmit_ordered:
  assumes sent: "timed_transmit ti a frame t r = Some (ok, out, t', r')"
    and t: "ordered_trace t" "not_written t" "tr_requested_at t \<le> sm_write_started ti"
      "tr_transmit_started_at t = Some st" "st \<le> sm_completed ti"
    and ti: "sm_write_started ti \<le> sm_write_finished ti" "sm_write_finished ti \<le> sm_flush_finished ti"
      "sm_flush_finished ti \<le> sm_aux_low ti" "sm_aux_low ti \<le> sm_completed ti"
  shows "ordered_trace t' \<and> tr_uart_write_started_at t' = Some (sm_write_started ti) \<and>
    tr_completed_at t' \<in> {None, Some (sm_completed ti)} \<and> tr_source t' = tr_source t \<and>
    tr_requested_at t' = tr_requested_at t"
proof -
  have "sm_flush_finished ti \<le> sm_completed ti" using ti(3,4) by (rule order_trans)
  with assms show ?thesis
    by (auto simp: timed_transmit_def ordered_trace_def not_written_def Let_def
        split: prod.splits option.splits if_splits write_result.splits bool.splits)
qed

lemma round_ordered:
  assumes run: "debug_round_trace d r = Some (t, out, r')" and sorted: "sorted (times_of d)"
    and requested: "requested_before d"
  shows "ordered_trace t \<and> tr_uart_write_started_at t \<in> {None, Some (sm_write_started (dr_transmit d))} \<and>
    tr_completed_at t \<in> {None, Some (sm_completed (dr_transmit d))}"
proof -
  from run obtain prepared t1 r1 where prepare: "timed_prepare (dr_prepare d) (dr_aux d) (dr_turns d) (dr_aux_again d)
      (new_trace (dr_requested_at d) (dr_source d)) r = Some (prepared, t1, r1)"
    by (auto simp: debug_round_trace_def Let_def split: option.splits)
  have t1: "ordered_trace t1 \<and> not_written t1 \<and> tr_requested_at t1 = dr_requested_at d \<and> tr_source t1 = dr_source d \<and>
    tr_transmit_started_at t1 = Some (pm_started (dr_prepare d))"
    by (rule prepare_ordered [OF prepare]) (use sorted requested in \<open>simp_all add: times_of_def requested_before_def\<close>)
  have missed: "ordered_trace (x\<lparr>tr_periodic_missed_slots := m\<rparr>) = ordered_trace x" for x m
    by (simp add: ordered_trace_def)
  show ?thesis
  proof (cases prepared)
    case False
    then show ?thesis using run prepare t1 by (auto simp: debug_round_trace_def missed not_written_def Let_def)
  next
    case True
    define t2 where "t2 = (case dr_higher_priority d of None \<Rightarrow> t1
      | Some (source, requested_at, frame) \<Rightarrow> reselect_prepared_trace t1 requested_at source)"
    define frame where "frame = (case dr_higher_priority d of None \<Rightarrow> dr_frame d | Some (_, _, frame) \<Rightarrow> frame)"
    have "ordered_trace t2 \<and> not_written t2 \<and> tr_requested_at t2 \<le> sm_write_started (dr_transmit d) \<and>
      (\<exists>st. tr_transmit_started_at t2 = Some st \<and> st \<le> sm_completed (dr_transmit d))"
      using t1 reselect_ordered [of t1] sorted requested
      by (auto simp: t2_def times_of_def requested_before_def split: option.splits)
    moreover obtain ok t3 where "timed_transmit (dr_transmit d) (dr_answers d) frame t2 r1 = Some (ok, out, t3, r')"
      "t = t3\<lparr>tr_periodic_missed_slots := dr_missed_slots d\<rparr>"
      using run prepare True
      by (cases "dr_higher_priority d") (auto simp: debug_round_trace_def t2_def frame_def Let_def split: option.splits)
    ultimately show ?thesis
      using transmit_ordered sorted by (fastforce simp: missed times_of_def)
  qed
qed

subsection \<open>All rounds\<close>

text \<open>The traces do not depend on the collector.\<close>

fun debug_traces :: "debug_round list \<Rightarrow> radio_statics \<Rightarrow> (tx_timing_trace list \<times> bytes \<times> radio_statics) option" where
  "debug_traces [] r = Some ([], [], r)"
| "debug_traces (d # ds) r =
     (case debug_round_trace d r of
        None \<Rightarrow> None
      | Some (timing, out, r) \<Rightarrow>
          map_option (\<lambda>(traces, outs, r). (timing # traces, out @ outs, r)) (debug_traces ds r))"

lemma debug_rounds_collected:
  "debug_rounds ds c r =
     map_option (\<lambda>(traces, out, r). (traces, run_collector c traces, out, r)) (debug_traces ds r)"
proof (induction ds arbitrary: c r)
  case (Cons d ds)
  show ?case
    by (simp add: Cons.IH split: option.split prod.split)
qed simp

lemma debug_rounds_traces:
  "debug_rounds ds c r = Some (traces, reports, out, r') \<Longrightarrow>
     list_all2 (\<lambda>d t. \<exists>r out r'. debug_round_trace d r = Some (t, out, r')) ds traces"
  by (induction ds arbitrary: c r traces reports out) (auto split: option.splits prod.splits)

text \<open>The clock does not go back, and a frame is requested before the task has it.\<close>

definition clock_forward :: "debug_round list \<Rightarrow> bool" where
  "clock_forward ds \<longleftrightarrow> sorted (concat (map times_of ds)) \<and> list_all requested_before ds"

text \<open>The frames of one source leave in the order in which they were requested.\<close>

definition requests_in_order :: "tx_timing_trace list \<Rightarrow> bool" where
  "requests_in_order traces \<longleftrightarrow>
     list_all (\<lambda>s. sorted (map tr_requested_at (filter (\<lambda>t. tr_source t = s) traces)))
       [SrcEmergencyResult, SrcCommandResult, SrcGroundTimeRequest, SrcRecovery, SrcPeriodic]"

lemma requests_in_orderD:
  "requests_in_order traces \<Longrightarrow>
     sorted_wrt (\<lambda>x t. tr_source x = tr_source t \<longrightarrow> tr_requested_at x \<le> tr_requested_at t) traces"
proof (induction traces)
  case (Cons x traces)
  have "tr_requested_at x \<le> tr_requested_at t" if "t \<in> set traces" "tr_source x = tr_source t" for t
    using Cons.prems that by (cases "tr_source x") (auto simp: requests_in_order_def)
  moreover have "requests_in_order traces"
    using Cons.prems by (auto simp: requests_in_order_def split: if_splits)
  ultimately show ?case using Cons.IH by simp
qed simp

lemma rounds_ordered:
  assumes "list_all2 (\<lambda>d t. \<exists>r out r'. debug_round_trace d r = Some (t, out, r')) ds traces"
    "clock_forward ds" "requests_in_order traces"
  shows "(\<forall>t \<in> set traces. ordered_trace t) \<and> sorted_wrt follows traces"
proof -
  have "(\<forall>t \<in> set traces. ordered_trace t) \<and>
    (\<forall>t \<in> set traces. \<forall>x \<in> set_option (tr_uart_write_started_at t) \<union> set_option (tr_completed_at t).
       x \<in> set (concat (map times_of ds))) \<and> sorted_wrt follows traces"
    using assms(1,2) requests_in_orderD [OF assms(3)]
  proof (induction rule: list_all2_induct)
    case (Cons d ds t traces)
    from Cons.hyps(1) obtain r out r' where run: "debug_round_trace d r = Some (t, out, r')" by blast
    have sorted: "sorted (times_of d)" "requested_before d" "clock_forward ds"
      and later: "\<And>x y. x \<in> set (times_of d) \<Longrightarrow> y \<in> set (concat (map times_of ds)) \<Longrightarrow> x \<le> y"
      using Cons.prems(1) by (auto simp: clock_forward_def sorted_append)
    note t = round_ordered [OF run sorted(1,2)]
    have rest: "\<forall>t \<in> set traces. ordered_trace t" "sorted_wrt follows traces"
      "\<forall>t \<in> set traces. \<forall>x \<in> set_option (tr_uart_write_started_at t) \<union> set_option (tr_completed_at t).
         x \<in> set (concat (map times_of ds))"
      using Cons.IH [OF sorted(3)] Cons.prems(2) by simp_all
    have own: "\<forall>x \<in> set_option (tr_uart_write_started_at t) \<union> set_option (tr_completed_at t). x \<in> set (times_of d)"
      using t by (auto simp: times_of_def)
    have "follows t t'" if "t' \<in> set traces" for t'
    proof -
      have "option_le x y" if "set_option x \<subseteq> set (times_of d)" "set_option y \<subseteq> set (concat (map times_of ds))" for x y
        using that later by (cases x; cases y) auto
      moreover have "set_option (tr_uart_write_started_at t') \<subseteq> set (concat (map times_of ds))"
        "set_option (tr_completed_at t') \<subseteq> set (concat (map times_of ds))"
        using rest(3) that by blast+
      moreover have "set_option (tr_uart_write_started_at t) \<subseteq> set (times_of d)"
        "set_option (tr_completed_at t) \<subseteq> set (times_of d)" using own by blast+
      ultimately show ?thesis using Cons.prems(2) that by (simp add: follows_def)
    qed
    then show ?case using t rest own by auto
  qed simp
  then show ?thesis by blast
qed

text \<open>
  C37. The reports of the debug build are sound: if the clock does not go back and the frames of
  each source leave in the order of their requests, every report the task signals shows exactly ten
  samples and no invalid time stamp, so no difference was left out of its averages, also when a
  frame was replaced by a more urgent one, given up or not acknowledged by the radio module.
\<close>

theorem debug_reports_sound:
  assumes "debug_rounds ds new_collector r = Some (traces, reports, out, r')"
    "clock_forward ds" "requests_in_order traces"
  shows "length reports = length ds div 10 \<and>
    (\<forall>p \<in> set reports. map_of (timing_line p) ''samples'' = Some 10 \<and>
       map_of (timing_line p) ''invalid_timestamps'' = Some 0)"
proof -
  note traces = debug_rounds_traces [OF assms(1)]
  note ordered = rounds_ordered [OF traces assms(2,3)]
  have reports: "reports = window_reports [] traces"
    using assms(1) run_collector_windows [OF holds_window_new] by (auto simp: debug_rounds_collected)
  have "length (window_reports past xs) = length xs div 10" for past xs
  proof (induction past xs rule: window_reports.induct)
    case (1 past xs)
    then show ?case by (subst window_reports.simps) (simp add: not_less le_div_geq)
  qed
  moreover have "map_of (timing_line p) ''samples'' = Some 10 \<and> map_of (timing_line p) ''invalid_timestamps'' = Some 0"
    if member: "p \<in> set reports" for p
  proof -
    obtain before window rest where p: "p = window_report before window" "length window = 10"
      "traces = before @ window @ rest"
      using window_reports_windows [of p "[]" traces] member reports unfolding append_Nil by blast
    have "filter out_of_order (window_measures before window) = []"
      using ordered by (intro window_in_order) (simp_all add: p(3) sorted_wrt_append)
    moreover have "report_sample_count p = 10"
      using sources_sum [of window] p by (simp add: report_sample_count_def window_report_def Let_def)
    ultimately show ?thesis using p(1) by (simp add: timing_line_def window_report_def Let_def)
  qed
  ultimately show ?thesis using reports list_all2_lengthD [OF traces] by simp
qed

text \<open>
  Ten rounds 100 ms apart; in the third an emergency replaces the periodic packet, in the sixth
  the module does not answer.
\<close>

definition demo_round :: "nat \<Rightarrow> debug_round" where
  "demo_round i =
     (let at = of_nat i * 100000; yes = \<lparr>aux_at_once = True, aux_in_time = False, aux_still = False\<rparr>;
          no = \<lparr>aux_at_once = False, aux_in_time = False, aux_still = False\<rparr>;
          frame = \<lparr>lf_bytes = [1, 2, 3], lf_length = 3\<rparr>
      in \<lparr>dr_source = SrcPeriodic, dr_requested_at = at, dr_frame = frame,
          dr_prepare = \<lparr>pm_started = at + 10, pm_initial_aux_ready = at + 20, pm_rx_guard_done = at + 30,
            pm_post_guard_aux_ready = at + 40\<rparr>,
          dr_aux = yes, dr_turns = [], dr_aux_again = yes,
          dr_higher_priority = (if i = 2 then Some (SrcEmergencyResult, at + 25, frame) else None),
          dr_transmit = \<lparr>sm_write_started = at + 50, sm_write_finished = at + 60, sm_flush_finished = at + 70,
            sm_aux_low = at + 80, sm_completed = at + 90\<rparr>,
          dr_answers = \<lparr>ta_writes = [Wrote 3], ta_flushed = True, ta_aux_low = if i = 5 then no else yes,
            ta_aux_high = yes\<rparr>,
          dr_missed_slots = 0\<rparr>)"

lemma debug_reports_sound_witness:
  "\<exists>traces reports out r'. debug_rounds (map demo_round [0..<10]) new_collector initial_radio =
       Some (traces, reports, out, r') \<and> length reports = 1 \<and>
     (\<forall>p \<in> set reports. map_of (timing_line p) ''samples'' = Some 10 \<and>
        map_of (timing_line p) ''invalid_timestamps'' = Some 0)"
proof -
  have "case debug_traces (map demo_round [0..<10]) initial_radio of
      None \<Rightarrow> False | Some (traces, out, r') \<Rightarrow> requests_in_order traces"
    by code_simp
  then have "case debug_rounds (map demo_round [0..<10]) new_collector initial_radio of
      None \<Rightarrow> False | Some (traces, reports, out, r') \<Rightarrow> requests_in_order traces"
    by (auto simp: debug_rounds_collected split: option.splits)
  then obtain traces reports out r' where
    run: "debug_rounds (map demo_round [0..<10]) new_collector initial_radio = Some (traces, reports, out, r')"
    and order: "requests_in_order traces"
    by (auto split: option.splits)
  have clock: "clock_forward (map demo_round [0..<10])" by code_simp
  from debug_reports_sound [OF run clock order] run show ?thesis by auto
qed

end
