(* ===== verification/EmergencyPath.thy ===== *)
theory EmergencyPath
  imports RadioReceive TwoTasks
begin

section \<open>Emergency stops from the radio to the bus\<close>

text \<open>
  The receiving radio task puts emergency stops into the safety queue, from which only the CAN task
  takes them. The CAN task itself puts a request there, to stop a log dump, when a frame it
  received ends a recovery transfer. Here their steps are interleaved on one board: the radio task
  moves, the CAN task handles a received frame, an error or a health tick, it starts the
  transmission of a request, the transmission ends and the next safety request is taken, or all the
  rest happens, which has no access to the safety queue. A CAN task that waits for the lock of the
  tracker to report a failure is still at the place \<open>Transmitting\<close>, one that waits for it to
  apply a result still at \<open>AtSelect\<close>.
\<close>

datatype path_event = OnRadio rx_label | OnBus can_tx_request bool | Otherwise

type_synonym ('u, 'l, 'c, 'r, 'g) path_state =
  "rx_task \<times> 'u \<times> can_place \<times> can_task \<times> ('l, 'c, 'r, 'g) board \<times> radio_statics"

definition safety_waits :: "('l, 'c, 'r, 'g) board_ops \<Rightarrow> ('l, 'c, 'r, 'g) board \<Rightarrow> bool" where
  "safety_waits ops b = (fst (try_receive (can_tx_ops ops) (bd_can_safety_tx b)) \<noteq> None)"

definition transmission_over ::
  "can_driver \<Rightarrow> ('l, 'c, 'r, 'g) board_ops \<Rightarrow> can_tx_request \<Rightarrow> twai_outcome \<Rightarrow> can_task \<times> ('l, 'c, 'r, 'g) board \<Rightarrow>
   can_task \<times> ('l, 'c, 'r, 'g) board" where
  "transmission_over drv ops request outcome s =
     (case transmit_message_with_timeout drv (ctr_message request) outcome of
        Inr _ \<Rightarrow> transmit_succeeded ops (ctr_message request) s
      | Inl error \<Rightarrow> transmit_failed ops (ctr_message request) error s)"

fun started :: "can_place \<Rightarrow> path_event" where
  "started (Transmitting request) = OnBus request True"
| "started _ = Otherwise"

inductive path_step ::
  "can_driver \<Rightarrow> ('l, 'c, 'r, 'g) board_ops \<Rightarrow> (uplink_command, 'u) channel_ops \<Rightarrow> ('c \<Rightarrow> can_tx_request list) \<Rightarrow>
   ('u, 'l, 'c, 'r, 'g) path_state \<Rightarrow> path_event \<Rightarrow> ('u, 'l, 'c, 'r, 'g) path_state \<Rightarrow> bool"
  for drv ops uplink contents where
  on_radio: "rx_step ops uplink (t, u, b, r) label (t', u', b', r') \<Longrightarrow> label \<noteq> Elsewhere \<Longrightarrow>
    path_step drv ops uplink contents (t, u, p, c, b, r) (OnRadio label) (t', u', p, c, b', r')"
| bus_starts: "receive_request ops b = (Some request, b') \<Longrightarrow>
    path_step drv ops uplink contents (t, u, AtSelect, c, b, r) (OnBus request (safety_waits ops b))
      (t, u, Transmitting request, c, b', r)"
| bus_ends: "TwoTasks.after_transmission ops reading now_ms (transmission_over drv ops request outcome (c, b)) =
      (p', c', b') \<Longrightarrow>
    path_step drv ops uplink contents (t, u, Transmitting request, c, b, r) (started p') (t, u, p', c', b', r)"
| bus_wakes: "takes_no_request wakeup \<Longrightarrow> can_iteration drv ops wakeup reading now_ms (c, b) = Some (c', b') \<Longrightarrow>
    path_step drv ops uplink contents (t, u, AtSelect, c, b, r) Otherwise (t, u, AtSelect, c', b', r)"
| others: "contents (bd_can_safety_tx b') = contents (bd_can_safety_tx b) \<Longrightarrow>
    path_step drv ops uplink contents (t, u, p, c, b, r) Otherwise (t, u', p, c', b', r')"

inductive path_run ::
  "can_driver \<Rightarrow> ('l, 'c, 'r, 'g) board_ops \<Rightarrow> (uplink_command, 'u) channel_ops \<Rightarrow> ('c \<Rightarrow> can_tx_request list) \<Rightarrow>
   ('u, 'l, 'c, 'r, 'g) path_state \<Rightarrow> path_event list \<Rightarrow> ('u, 'l, 'c, 'r, 'g) path_state \<Rightarrow> bool"
  for drv ops uplink contents start where
  path_start: "path_run drv ops uplink contents start [] start"
| path_next: "path_run drv ops uplink contents start events s \<Longrightarrow> path_step drv ops uplink contents s event s' \<Longrightarrow>
    path_run drv ops uplink contents start (events @ [event]) s'"

subsection \<open>What the radio sends, and what the bus starts\<close>

fun radio_label :: "path_event \<Rightarrow> rx_label" where
  "radio_label (OnRadio label) = label"
| "radio_label _ = Elsewhere"

fun queued_stop :: "path_event \<Rightarrow> can_tx_request option" where
  "queued_stop (OnRadio (Sent request)) = Some request"
| "queued_stop _ = None"

text \<open>The emergency stops among the requests of the safety queue.\<close>

definition is_stop :: "can_tx_request \<Rightarrow> bool" where
  "is_stop request = (case ctr_message request of
     ActuatorEmergencyStop _ \<Rightarrow> True | LiftoffEmergencyStop _ \<Rightarrow> True | _ \<Rightarrow> False)"

fun started_stop :: "path_event \<Rightarrow> can_tx_request option" where
  "started_stop (OnBus request True) = (if is_stop request then Some request else None)"
| "started_stop _ = None"

abbreviation stops_waiting ::
  "('c \<Rightarrow> can_tx_request list) \<Rightarrow> ('l, 'c, 'r, 'g) board \<Rightarrow> can_tx_request list" where
  "stops_waiting contents b \<equiv> filter is_stop (contents (bd_can_safety_tx b))"

fun waiting_stop :: "rx_place \<Rightarrow> can_tx_request list" where
  "waiting_stop (SendingSafety request bytes) = [request]"
| "waiting_stop _ = []"

text \<open>The emergency stop that a result of the frame scanner asks for.\<close>

fun stop_of :: "uplink_decode_error + uplink_command \<Rightarrow> can_tx_request option" where
  "stop_of (Inr (UpActuatorEmergency transaction_id)) = Some \<lparr>ctr_message = ActuatorEmergencyStop transaction_id\<rparr>"
| "stop_of (Inr (UpLiftoffDetectionEmergency transaction_id)) =
     Some \<lparr>ctr_message = LiftoffEmergencyStop transaction_id\<rparr>"
| "stop_of _ = None"

lemma stop_of_command [simp]: "stop_of (Inr command) = safety_request command" "stop_of (Inl error) = None"
  by (cases command) (simp_all add: safety_request_def)

lemma path_run_radio:
  "path_run drv ops uplink contents (t0, u0, p0, c0, b0, r0) events (t, u, p, c, b, r) \<Longrightarrow>
   rx_run ops uplink (t0, u0, b0, r0) (map radio_label events) (t, u, b, r)"
proof (induction events "(t, u, p, c, b, r)" arbitrary: t u p c b r rule: path_run.induct)
  case (path_next events s event)
  obtain t1 u1 p1 c1 b1 r1 where s: "s = (t1, u1, p1, c1, b1, r1)" by (cases s) auto
  have "rx_step ops uplink (t1, u1, b1, r1) (radio_label event) (t, u, b, r)"
    using path_next.hyps(3) unfolding s
  proof (cases rule: path_step.cases)
    case (bus_ends reading now_ms request outcome)
    then show ?thesis by (cases p) (auto intro: elsewhere)
  qed (auto intro: elsewhere)
  with path_next.hyps(2) [OF s] show ?case by (auto intro: rx_run.run_step)
qed (auto intro: rx_run.run_start)

text \<open>Only emergency stops enter the safety queue, and no other command is one.\<close>

fun label_ok :: "rx_label \<Rightarrow> bool" where
  "label_ok (Sent request) \<longleftrightarrow> (\<exists>command. safety_request command = Some request)"
| "label_ok (Handled (Forwarded command taken)) \<longleftrightarrow> safety_request command = None"
| "label_ok _ \<longleftrightarrow> True"

definition waits_ok :: "rx_place \<Rightarrow> bool" where
  "waits_ok place \<longleftrightarrow> (\<forall>request \<in> set (waiting_stop place). \<exists>command. safety_request command = Some request)"

lemma rx_step_ok:
  "rx_step ops uplink (t, u, b, r) label (t', u', b', r') \<Longrightarrow> waits_ok (rt_place t) \<Longrightarrow>
   waits_ok (rt_place t') \<and> label_ok label"
proof (induction "(t, u, b, r)" label "(t', u', b', r')" rule: rx_step.induct)
  case (handles now byte f outcome f' rest)
  then show ?case
    by (auto simp: handle_byte_def waits_ok_def Let_def split: prod.splits option.splits sum.splits)
qed (auto simp: waits_ok_def)

lemma safety_request_emergency:
  "safety_request command = Some request \<Longrightarrow> emergency_of (ctr_message request) = Some command"
  by (cases command) (auto simp: safety_request_def)

lemma safety_request_stop: "safety_request command = Some request \<Longrightarrow> is_stop request"
  by (cases command) (auto simp: safety_request_def is_stop_def)

lemma rx_run_ok:
  "rx_run ops uplink (new_rx_task, u, b, r) labels s \<Longrightarrow>
   waits_ok (rt_place (fst s)) \<and> (\<forall>label \<in> set labels. label_ok label)"
proof (induction rule: rx_run.induct)
  case run_start
  show ?case by (simp add: new_rx_task_def waits_ok_def)
next
  case (run_step labels s label s')
  then show ?case by (cases s; cases s') (auto dest: rx_step_ok)
qed

lemma stops_of_labels:
  "\<forall>event \<in> set events. label_ok (radio_label event) \<Longrightarrow>
   List.map_filter stop_of (List.map_filter RadioReceive.answered (map radio_label events)) = List.map_filter queued_stop events"
proof (induction events)
  case (Cons event events)
  have "List.map_filter stop_of (List.map_filter RadioReceive.answered [radio_label event]) =
      List.map_filter queued_stop [event]"
  proof (cases "\<exists>request. radio_label event = Sent request")
    case True
    then obtain request command where event: "event = OnRadio (Sent request)" "safety_request command = Some request"
      using Cons.prems by (cases event) auto
    then show ?thesis by (simp add: List.map_filter_simps safety_request_emergency)
  next
    case False
    then show ?thesis using Cons.prems
      by (cases event rule: queued_stop.cases; cases "radio_label event" rule: RadioReceive.answered.cases)
        (auto simp: List.map_filter_simps)
  qed
  moreover have "event # events = [event] @ events"
    "map radio_label (event # events) = [radio_label event] @ map radio_label events" by simp_all
  moreover have "List.map_filter stop_of (List.map_filter RadioReceive.answered (map radio_label events)) =
      List.map_filter queued_stop events" using Cons by simp
  ultimately show ?case by (metis map_filter_append)
qed (simp add: List.map_filter_simps)

lemma stops_of_waiting:
  "waits_ok place \<Longrightarrow> List.map_filter stop_of (unsent place) = waiting_stop place"
proof (cases place)
  case (SendingSafety request bytes)
  assume "waits_ok place"
  then obtain command where "safety_request command = Some request" by (auto simp: waits_ok_def SendingSafety)
  then show ?thesis by (simp add: SendingSafety List.map_filter_simps safety_request_emergency)
qed (simp_all add: List.map_filter_simps)

subsection \<open>The safety queue between the tasks\<close>

lemma finish_iteration_safety:
  "finish_iteration reading now_ms (c, b) = (c', b') \<Longrightarrow> bd_can_safety_tx b' = bd_can_safety_tx b"
  by (auto simp: finish_iteration_def publish_health_def publish_fallback_health_def publish_error_state_def Let_def
    split: prod.splits)

lemma transmission_over_safety:
  "transmission_over drv ops request outcome (c, b) = (c', b') \<Longrightarrow> bd_can_safety_tx b' = bd_can_safety_tx b"
  by (auto simp: transmission_over_def dest: CanQueues.after_transmission split: sum.splits)

text \<open>The operations of the CAN task that do not touch the safety queue.\<close>

lemma safety_queue:
  fixes b :: "('l, 'c, 'r, 'g) board"
  shows
  "bd_can_safety_tx (queue_command_result ops packet b) = bd_can_safety_tx b"
  "bd_can_safety_tx (queue_emergency_result ops result b) = bd_can_safety_tx b"
  "bd_can_safety_tx (snd (queue_recovery_chunk ops chunk b)) = bd_can_safety_tx b"
  "bd_can_safety_tx (snd (queue_ground_time_request ops request_id previous b)) = bd_can_safety_tx b"
  "bd_can_safety_tx (apply_session_status ops status b) = bd_can_safety_tx b"
  "bd_can_safety_tx (receive_command_result ops result b) = bd_can_safety_tx b"
  "bd_can_safety_tx (log_raw_frame ops identifier data received_ms b) = bd_can_safety_tx b"
  "bd_can_safety_tx (snd (handle_recovery_mode_command data b)) = bd_can_safety_tx b"
  "bd_can_safety_tx (cache_device_health health b) = bd_can_safety_tx b"
proof -
  have results: "bd_can_safety_tx (queue_command_result ops packet b) = bd_can_safety_tx b"
    for packet and b :: "('l, 'c, 'r, 'g) board"
    by (simp add: queue_command_result_def Let_def split_beta split: sum.split)
  then show "bd_can_safety_tx (queue_command_result ops packet b) = bd_can_safety_tx b" .
  have emergency: "bd_can_safety_tx (queue_emergency_result ops result b) = bd_can_safety_tx b"
    for result and b :: "('l, 'c, 'r, 'g) board"
    by (simp add: queue_emergency_result_def Let_def split_beta split: sum.split)
  then show "bd_can_safety_tx (queue_emergency_result ops result b) = bd_can_safety_tx b" .
  show "bd_can_safety_tx (snd (queue_recovery_chunk ops chunk b)) = bd_can_safety_tx b"
    by (simp add: queue_recovery_chunk_def Let_def split_beta split: sum.split)
  show "bd_can_safety_tx (snd (queue_ground_time_request ops request_id previous b)) = bd_can_safety_tx b"
    by (simp add: queue_ground_time_request_def Let_def split_beta split: sum.split)
  show "bd_can_safety_tx (apply_session_status ops status b) = bd_can_safety_tx b"
    by (simp add: apply_session_status_def results Let_def split_beta split: option.split)
  show "bd_can_safety_tx (receive_command_result ops result b) = bd_can_safety_tx b"
    by (simp add: receive_command_result_def results emergency Let_def split_beta)
  show "bd_can_safety_tx (log_raw_frame ops identifier data received_ms b) = bd_can_safety_tx b"
    by (simp add: log_raw_frame_def Let_def split_beta)
  show "bd_can_safety_tx (snd (handle_recovery_mode_command data b)) = bd_can_safety_tx b"
    by (simp add: handle_recovery_mode_command_def Let_def)
  show "bd_can_safety_tx (cache_device_health health b) = bd_can_safety_tx b"
    by (simp add: cache_device_health_def Let_def)
qed

text \<open>What the CAN task puts there itself is no emergency stop.\<close>

definition stops_kept ::
  "('c \<Rightarrow> can_tx_request list) \<Rightarrow> ('l, 'c, 'r, 'g) board \<Rightarrow> ('l, 'c, 'r, 'g) board \<Rightarrow> bool" where
  "stops_kept contents b b' \<longleftrightarrow> stops_waiting contents b' = stops_waiting contents b"

lemma same_queue_kept: "bd_can_safety_tx b' = bd_can_safety_tx b \<Longrightarrow> stops_kept contents b b'"
  by (simp add: stops_kept_def)

lemma fail_recovery_transfer_kept:
  assumes "fifo_channel (can_tx_ops ops) contents capacity"
  shows "stops_kept contents b (fail_recovery_transfer ops reason stop b)"
proof -
  have "\<not> is_stop \<lparr>ctr_message = TxRecoveryControl control\<rparr>" for control by (simp add: is_stop_def)
  then show ?thesis
    by (auto simp: stops_kept_def fail_recovery_transfer_def Let_def split_beta safety_queue
        fifo_channel.send_contents [OF assms] split: option.split)
qed

lemma receive_recovery_kept:
  fixes b :: "('l, 'c, 'r, 'g) board"
  assumes "fifo_channel (can_tx_ops ops) contents capacity"
  shows "stops_kept contents b (receive_recovery_status ops status b)"
    and "stops_kept contents b (receive_recovery_log_data ops fragment b)"
proof -
  have same: "stops_kept contents b b' \<Longrightarrow> bd_can_safety_tx b = bd_can_safety_tx b0 \<Longrightarrow> stops_kept contents b0 b'"
    for b b' b0 :: "('l, 'c, 'r, 'g) board" by (simp add: stops_kept_def)
  note failed = fail_recovery_transfer_kept [OF assms]
  show "stops_kept contents b (receive_recovery_status ops status b)"
    by (auto simp: receive_recovery_status_def Let_def split_beta safety_queue split: option.split
        intro!: same_queue_kept same [OF failed])
  show "stops_kept contents b (receive_recovery_log_data ops fragment b)"
    by (auto simp: receive_recovery_log_data_def Let_def split_beta safety_queue split: option.split sum.split
        intro!: same_queue_kept same [OF failed])
qed

lemma apply_received_message_kept:
  assumes "fifo_channel (can_tx_ops ops) contents capacity"
  shows "stops_kept contents b (snd (apply_received_message ops message received_ms previous b))"
proof -
  obtain update cache where updated: "update_cache message received_ms (bd_cache b) = (update, cache)" by fastforce
  let ?b = "b\<lparr>bd_cache := cache\<rparr>"
  let ?b = "if signals_control_roll message (bd_cache b) then signal_control_roll ?b else ?b"
  have "bd_can_safety_tx ?b = bd_can_safety_tx b" by simp
  moreover have "stops_kept contents ?b (snd (apply_received_message ops message received_ms previous b))"
    using receive_recovery_kept [OF assms]
    by (auto simp: apply_received_message_def updated Let_def safety_queue same_queue_kept split: cache_update.split
        simp del: signal_control_roll_def)
  ultimately show ?thesis by (simp add: stops_kept_def)
qed

lemma handle_received_frame_kept:
  assumes "fifo_channel (can_tx_ops ops) contents capacity"
  shows "stops_kept contents b (snd (handle_received_frame ops frame received_ms previous b))"
proof (cases "fr_id frame")
  case (ExtendedId ident)
  then show ?thesis by (simp add: handle_received_frame_def same_queue_kept)
next
  case (StandardId ident)
  let ?log = "log_raw_frame ops ident (fr_data frame) received_ms b"
  have mode: "bd_can_safety_tx b2 = bd_can_safety_tx b"
    if "handle_recovery_mode_command (fr_data frame) ?log = (entered, b2)" for entered b2
    using safety_queue(7,8) that by (metis snd_conv)
  have message: "stops_kept contents b (snd (apply_received_message ops m received_ms previous b1))"
    if "bd_can_safety_tx b1 = bd_can_safety_tx b" for m b1
    using apply_received_message_kept [OF assms, of b1 m received_ms previous] that by (simp add: stops_kept_def)
  show ?thesis
    using mode
    by (auto simp: handle_received_frame_def StandardId Let_def safety_queue intro!: same_queue_kept message
        split: prod.split option.split bool.split sum.split)
qed

lemma iteration_kept:
  assumes "fifo_channel (can_tx_ops ops) contents capacity" "takes_no_request wakeup"
    and "can_iteration drv ops wakeup reading now_ms (c, b) = Some (c', b')"
  shows "stops_kept contents b b'"
proof -
  obtain c1 b1 where b1: "handle_wakeup drv ops wakeup (c, b) = Some (c1, b1)"
    "bd_can_safety_tx b' = bd_can_safety_tx b1"
    using assms(3) finish_iteration_safety by (fastforce simp: can_iteration_def split: option.splits)
  have "stops_kept contents b b1"
  proof (cases wakeup)
    case (FrameReceived frame received_ms)
    with b1(1) have "b1 = snd (handle_received_frame ops frame received_ms (ct_previous_time_request_id c)
        (count can_rx_success_count_update b))"
      by (auto simp: Let_def split: can_identifier.splits prod.splits)
    then show ?thesis
      using handle_received_frame_kept [OF assms(1)] by (simp add: stops_kept_def)
  qed (use assms(2) b1(1) in \<open>auto simp: Let_def publish_health_def intro!: same_queue_kept split: prod.splits\<close>)
  with b1(2) show ?thesis by (simp add: stops_kept_def)
qed

text \<open>What the steps of the bus take from the safety queue.\<close>

lemma bus_takes:
  assumes "fifo_channel (can_tx_ops ops) contents capacity"
  shows "receive_request ops b = (Some request, b') \<Longrightarrow>
      stops_waiting contents b =
        List.map_filter started_stop [OnBus request (safety_waits ops b)] @ stops_waiting contents b' \<and>
      (\<not> safety_waits ops b \<longrightarrow> stops_waiting contents b = [])"
    and "TwoTasks.after_transmission ops reading now_ms (c, b) = (p', c', b') \<Longrightarrow>
      stops_waiting contents b = List.map_filter started_stop [started p'] @ stops_waiting contents b'"
proof -
  obtain safety q where q: "try_receive (can_tx_ops ops) (bd_can_safety_tx b) = (safety, q)" by (metis surj_pair)
  have items: "safety = (case contents (bd_can_safety_tx b) of [] \<Rightarrow> None | r # _ \<Rightarrow> Some r)"
    "contents q = tl (contents (bd_can_safety_tx b))"
    using fifo_channel.receive_item [OF assms] fifo_channel.receive_contents [OF assms] q
    by (metis fst_conv, metis snd_conv)
  show "receive_request ops b = (Some request, b') \<Longrightarrow>
      stops_waiting contents b =
        List.map_filter started_stop [OnBus request (safety_waits ops b)] @ stops_waiting contents b' \<and>
      (\<not> safety_waits ops b \<longrightarrow> stops_waiting contents b = [])"
    using q items
    by (auto simp: receive_request_def safety_waits_def List.map_filter_simps split: list.splits prod.splits)
  show "TwoTasks.after_transmission ops reading now_ms (c, b) = (p', c', b') \<Longrightarrow>
      stops_waiting contents b = List.map_filter started_stop [started p'] @ stops_waiting contents b'"
    using q items
    by (auto simp: TwoTasks.after_transmission_def Let_def List.map_filter_simps split: list.splits
      dest!: finish_iteration_safety)
qed

text \<open>A frame that is not an emergency stop starts only when every queued stop has started.\<close>

definition stops_first :: "path_event list \<Rightarrow> bool" where
  "stops_first events \<longleftrightarrow> (\<forall>earlier request later. events = earlier @ OnBus request False # later \<longrightarrow>
     List.map_filter queued_stop earlier = List.map_filter started_stop earlier)"

lemma stops_first_snoc:
  "stops_first events \<Longrightarrow> (\<And>request. event = OnBus request False \<Longrightarrow>
     List.map_filter queued_stop events = List.map_filter started_stop events) \<Longrightarrow>
   stops_first (events @ [event])"
  unfolding stops_first_def
proof (intro allI impI)
  fix earlier request later
  assume old: "\<forall>earlier request later. events = earlier @ OnBus request False # later \<longrightarrow>
      List.map_filter queued_stop earlier = List.map_filter started_stop earlier"
    and new: "\<And>request. event = OnBus request False \<Longrightarrow>
      List.map_filter queued_stop events = List.map_filter started_stop events"
    and split: "events @ [event] = earlier @ OnBus request False # later"
  show "List.map_filter queued_stop earlier = List.map_filter started_stop earlier"
    using old new split by (cases later rule: rev_cases) auto
qed

lemma path_run_queue:
  assumes "fifo_channel (can_tx_ops ops) contents capacity"
    and "path_run drv ops uplink contents (t0, u0, p0, c0, b0, r0) events (t, u, p, c, b, r)"
    and "contents (bd_can_safety_tx b0) = []" "\<forall>event \<in> set events. label_ok (radio_label event)"
  shows "List.map_filter queued_stop events = List.map_filter started_stop events @ stops_waiting contents b \<and>
    stops_first events"
  using assms(2,4)
proof (induction events "(t, u, p, c, b, r)" arbitrary: t u p c b r rule: path_run.induct)
  case path_start
  then show ?case using assms(3) by (simp add: List.map_filter_simps stops_first_def)
next
  case (path_next events s event)
  obtain t1 u1 p1 c1 b1 r1 where s: "s = (t1, u1, p1, c1, b1, r1)" by (cases s) auto
  have ih: "List.map_filter queued_stop events = List.map_filter started_stop events @ stops_waiting contents b1 \<and>
      stops_first events" and ok: "label_ok (radio_label event)"
    using path_next.hyps(2) [OF s] path_next.prems by simp_all
  have "stops_waiting contents b1 @ List.map_filter queued_stop [event] =
      List.map_filter started_stop [event] @ stops_waiting contents b \<and>
      (\<forall>request. event = OnBus request False \<longrightarrow> stops_waiting contents b1 = [])"
    using path_next.hyps(3) unfolding s
  proof (cases rule: path_step.cases)
    case (on_radio label)
    have "rx_step ops uplink (t1, u1, b1, r1) label (t, u, b, r)" using on_radio by blast
    then show ?thesis
    proof (cases rule: rx_step.cases)
      case (sends request safety rest f)
      have "contents safety = contents (bd_can_safety_tx b1) @ [request]"
        using fifo_channel.send_contents [OF assms(1), of request "bd_can_safety_tx b1"]
          fifo_channel.send_taken [OF assms(1), of request "bd_can_safety_tx b1"] sends by (simp split: if_splits)
      moreover have "is_stop request" using ok on_radio sends by (auto intro: safety_request_stop)
      ultimately show ?thesis using on_radio sends by (simp add: List.map_filter_simps)
    qed (use on_radio in \<open>simp_all add: List.map_filter_simps\<close>)
  next
    case (bus_starts request)
    then have "receive_request ops b1 = (Some request, b)" by blast
    from bus_takes(1) [OF assms(1) this] bus_starts show ?thesis
      by (cases "safety_waits ops b1") (auto simp: List.map_filter_simps)
  next
    case (bus_ends reading now_ms request outcome)
    obtain c2 b2 where over: "transmission_over drv ops request outcome (c1, b1) = (c2, b2)" by (metis surj_pair)
    then show ?thesis
      using bus_takes(2) [OF assms(1), of reading now_ms c2 b2 p c b] bus_ends transmission_over_safety [OF over]
      by (cases p) (auto simp: List.map_filter_simps)
  next
    case (bus_wakes wakeup reading now_ms)
    then have "stops_kept contents b1 b" using iteration_kept [OF assms(1)] by blast
    then show ?thesis using bus_wakes by (simp add: List.map_filter_simps stops_kept_def)
  next
    case others
    then show ?thesis by (simp add: List.map_filter_simps)
  qed
  with ih show ?case
    by (auto simp: map_filter_snoc intro!: stops_first_snoc)
qed


subsection \<open>An emergency stop on its way\<close>

lemma radio_run_path:
  "rx_run ops uplink (t0, u0, b0, r0) labels (t, u, b, r) \<Longrightarrow> Elsewhere \<notin> set labels \<Longrightarrow>
   path_run drv ops uplink contents (t0, u0, p, c, b0, r0) (map OnRadio labels) (t, u, p, c, b, r)"
proof (induction labels "(t, u, b, r)" arbitrary: t u b r rule: rx_run.induct)
  case (run_step labels s label)
  obtain t1 u1 b1 r1 where s: "s = (t1, u1, b1, r1)" by (cases s) auto
  have "path_run drv ops uplink contents (t0, u0, p, c, b0, r0) (map OnRadio labels) (t1, u1, p, c, b1, r1)"
    using run_step s by simp
  from path_next [OF this on_radio] show ?case using run_step s by auto
qed (auto intro: path_start)


end
