(* ===== verification/ResultPath.thy ===== *)
theory ResultPath
  imports RadioGap CanDump
begin

section \<open>Results from the bus to the radio\<close>

text \<open>
  The transmitting radio task sends the results of each of its two result queues in the order in
  which they were put there, each once. With the CAN task as the producer this gives the way of an
  emergency result from the frame of the Mission board to the frame on the air.
\<close>

subsection \<open>The two result queues\<close>

text \<open>The queue a source belongs to; a periodic packet has none.\<close>

definition result_queue :: "lora_tx_source \<Rightarrow> ('l, 'c, 'r, 'g) board \<Rightarrow> 'l" where
  "result_queue s b = (if s = SrcEmergencyResult then bd_emergency_results b else bd_command_results b)"

abbreviation result_source :: "lora_tx_source \<Rightarrow> bool" where
  "result_source s \<equiv> s = SrcEmergencyResult \<or> s = SrcCommandResult"

definition of_source :: "lora_tx_source \<Rightarrow> lora_tx_envelope list \<Rightarrow> lora_tx_envelope list" where
  "of_source s es = filter (\<lambda>e. env_source e = s) es"

fun attempted_frame :: "tx_event \<Rightarrow> lora_tx_envelope option" where
  "attempted_frame (Attempted e _ _) = Some e"
| "attempted_frame _ = None"

definition attempted :: "lora_tx_source \<Rightarrow> tx_event list \<Rightarrow> lora_tx_envelope list" where
  "attempted s events = of_source s (List.map_filter attempted_frame events)"

text \<open>What the task holds of a source: the frame in hand, or the one deferred for a more urgent one.\<close>

definition in_flight :: "lora_tx_source \<Rightarrow> tx_place \<Rightarrow> tx_task \<Rightarrow> lora_tx_envelope list" where
  "in_flight s p t = of_source s (flatten [in_hand p, tt_deferred_envelope t])"

definition different_sources :: "tx_place \<Rightarrow> tx_task \<Rightarrow> bool" where
  "different_sources p t \<longleftrightarrow>
     (\<forall>e d. in_hand p = Some e \<longrightarrow> tt_deferred_envelope t = Some d \<longrightarrow> result_source (env_source e) \<longrightarrow>
        env_source e \<noteq> env_source d)"

lemma of_source_simps [simp]:
  "of_source s [] = []" "of_source s (e # es) = (if env_source e = s then e # of_source s es else of_source s es)"
  "of_source s (xs @ ys) = of_source s xs @ of_source s ys"
  by (simp_all add: of_source_def)

lemma attempted_simps [simp]:
  "attempted s [] = []" "attempted s (Attempted e ok at # events) = of_source s [e] @ attempted s events"
  "attempted s (Took e # events) = attempted s events" "attempted s (Made e # events) = attempted s events"
  "attempted s (LetGo e # events) = attempted s events" "attempted s (xs @ ys) = attempted s xs @ attempted s ys"
  by (simp_all add: attempted_def List.map_filter_simps map_filter_append)

text \<open>Taking the next frame from the queues.\<close>

lemma poll_round_takes:
  assumes chan: "fifo_channel (lora_ops ops) contents capacity" and held: "queues_hold contents b"
    and poll: "poll_round ops now se t b = Some (ready, t', b')" and s: "result_source s"
  shows "contents (result_queue s b) =
    (case ready of ReadyEnvelope e \<Rightarrow> of_source s [e] | _ \<Rightarrow> []) @ contents (result_queue s b')"
proof -
  obtain x1 q1 where 1: "try_receive (lora_ops ops) (bd_emergency_results b) = (x1, q1)" by fastforce
  obtain x2 q2 where 2: "try_receive (lora_ops ops) (bd_command_results b) = (x2, q2)" by fastforce
  obtain x3 q3 where 3: "try_receive (lora_ops ops) (bd_ground_time_requests b) = (x3, q3)" by fastforce
  note results = receive_result [OF chan 1] receive_result [OF chan 2] receive_result [OF chan 3]
  have sources: "x1 = Some e \<Longrightarrow> env_source e = SrcEmergencyResult" "x2 = Some e \<Longrightarrow> env_source e = SrcCommandResult"
    "x3 = Some e \<Longrightarrow> env_source e = SrcGroundTimeRequest" for e
    using results [of e] held by (auto simp: queues_hold_def)
  show ?thesis
    using poll s results sources
    by (cases x1; cases x2; cases x3)
      (auto simp: poll_round_def poll_recovery_def 1 2 3 result_queue_def split: option.splits prod.splits if_splits)
qed

lemma reselect_takes:
  assumes chan: "fifo_channel (lora_ops ops) contents capacity" and held: "queues_hold contents b"
    and pending: "pending_typed t"
    and take: "take_higher_priority_envelope ops source (tt_recovery_sent_since_periodic t) (tt_next_recovery_at t)
      valid at now (tt_pending_recovery t, b) = (h, pend, b')" and s: "result_source s"
  shows "contents (result_queue s b) = of_source s (flatten [h]) @ contents (result_queue s b')"
  using higher_priority_cases [OF chan take] held pending s
  by cases (auto simp: result_queue_def queues_hold_def pending_typed_def)

subsection \<open>One step of the task\<close>

text \<open>What a step of the task does to the results of one source: none is lost, and none overtakes another.\<close>

definition results_move ::
  "('l \<Rightarrow> lora_tx_envelope list) \<Rightarrow> lora_tx_source \<Rightarrow> tx_event list \<Rightarrow>
   ('l, 'c, 'r, 'g) tx_state \<Rightarrow> ('l, 'c, 'r, 'g) tx_state \<Rightarrow> bool" where
  "results_move contents s events st st' =
     (case (st, st') of ((p, t, b, _), (p', t', b', _)) \<Rightarrow>
        in_flight s p t @ contents (result_queue s b) =
        attempted s events @ in_flight s p' t' @ contents (result_queue s b'))"

lemma attempt_moves:
  assumes ended: "attempt_done completed_at now transmitted e0 displaced t r = (p', t', r')"
    and hand: "in_hand p = Some e0" and different: "different_sources p t" and s: "result_source s"
  shows "in_flight s p t = attempted s [Attempted e0 transmitted completed_at] @ in_flight s p' t'"
  using attempt_done_frames [OF ended] hand different s
  by (cases "tt_deferred_envelope t") (auto simp: in_flight_def different_sources_def)

lemma results_step:
  assumes chan: "fifo_channel (lora_ops ops) contents capacity"
  shows "tx_step ops contents st events st' \<Longrightarrow> fst st' \<noteq> fst st \<Longrightarrow> tx_inv contents st \<Longrightarrow>
    different_sources (fst st) (fst (snd st)) \<Longrightarrow>
    different_sources (fst st') (fst (snd st')) \<and> (result_source s \<longrightarrow> results_move contents s events st st')"
proof (induction rule: tx_step.induct)
  case (begins clock now t deferred se t' b r)
  then show ?case
    by (auto simp: begin_round_def results_move_def in_flight_def different_sources_def Let_def
        split: if_splits option.splits)
next
  case (wakes clock now now' se t b ready polled p' t' b' r)
  have "clock \<le> now'" using wakes.hyps(1,2) by (rule order_trans)
  note ok = frames_of_inv [OF wakes.prems(2) this]
  then have pending: "queues_hold contents b" "pending_typed t" by (simp_all add: frames_ok_def)
  from wake_cases [OF wakes.hyps(4)] obtain ready' t1 where
    poll: "poll_round ops now se t b = Some (ready', t1, b')" and chosen: "(case ready' of
        ReadyEnvelope e0 \<Rightarrow> (Preparing e0 False se, t1)
      | ReadyRecovery e0 \<Rightarrow> recovery_chosen now' se e0 t1
      | ReadyPeriodic \<Rightarrow> (Making se False, periodic_chosen se b' t1)
      | ReadyRoll \<Rightarrow> (Making se True, t1)) = (p', t')" by metis
  have ready: "ready' = ready" using poll wakes.hyps(3) by simp
  note polled = poll_round_ready [OF chan pending poll]
  then obtain n where t1: "t1 = t\<lparr>tt_roll_signals_taken := n\<rparr>" by metis
  have deferred: "tt_deferred_envelope t' = tt_deferred_envelope t"
    using chosen periodic_chosen_frames [of t1 se b'] t1
    by (cases ready') (auto simp: recovery_chosen_def same_frames_def Let_def split: if_splits)
  have hand: "\<And>e. ready' = ReadyEnvelope e \<Longrightarrow> in_hand p' = Some e"
    using chosen by auto
  have hand': "ready' = ReadyEnvelope e \<or> env_source e = SrcRecovery" if "in_hand p' = Some e" for e
    using chosen polled that by (cases ready') (auto simp: recovery_chosen_def ready_ok_def Let_def split: if_splits)
  have held: "\<And>d. tt_deferred_envelope t = Some d \<Longrightarrow> env_source d = SrcRecovery"
    using ok by (auto simp: frames_ok_def held_back_def)
  have "different_sources p' t'"
    using hand' held deferred by (fastforce simp: different_sources_def)
  moreover have "results_move contents s (taken t ready) (Waiting se, t, b, r, clock) (p', t', b', r, now')"
    if s: "result_source s"
  proof -
    have "in_flight s (Waiting se) t = []"
      using held s by (cases "tt_deferred_envelope t") (auto simp: in_flight_def)
    moreover have "in_flight s p' t' = (case ready' of ReadyEnvelope e \<Rightarrow> of_source s [e] | _ \<Rightarrow> [])"
      using held hand hand' s deferred
      by (cases "tt_deferred_envelope t"; cases "in_hand p'"; cases ready') (auto simp: in_flight_def)
    moreover have "attempted s (taken t ready) = []" by (cases ready) simp_all
    ultimately show ?thesis
      using poll_round_takes [OF chan pending(1) poll s] by (simp add: results_move_def)
  qed
  ultimately show ?case by simp
next
  case (makes clock now now' se roll_event t b r p' t' r')
  have "frames_ok clock (Making se roll_event) t" using frames_of_inv [OF makes.prems(2), of clock] by simp
  then have held: "\<And>d. tt_deferred_envelope t = Some d \<Longrightarrow> env_source d = SrcRecovery"
    by (auto simp: frames_ok_def held_back_def)
  note made = make_packet_frames [OF makes.hyps(3)]
  have "different_sources p' t'" using made held by (auto simp: different_sources_def same_frames_def)
  moreover have "results_move contents s events (Making se roll_event, t, b, r, clock) (p', t', b, r', now')"
    if "result_source s" "attempted s events = []" for events
    using made held that
    by (cases "tt_deferred_envelope t") (auto simp: results_move_def in_flight_def same_frames_def)
  ultimately show ?case by (auto split: option.split)
next
  case (prepares clock now aux turns aux' r r' e0 regular se t b p' t' b' r'')
  note ok = frames_of_inv [OF prepares.prems(2) prepares.hyps(1)]
  then have pending: "queues_hold contents b" "pending_typed t" by (simp_all add: frames_ok_def)
  have held: "\<And>d. tt_deferred_envelope t = Some d \<Longrightarrow> env_source d = SrcRecovery"
    using ok by (auto simp: frames_ok_def held_back_def)
  from reselect_cases [OF prepares.hyps(3)] obtain h pend displaced missed where
    take: "take_higher_priority_envelope ops (env_source e0)
        (tt_recovery_sent_since_periodic t) (tt_next_recovery_at t) (se_valid se) (se_at se) now
        (tt_pending_recovery t, b) = (h, pend, b')"
    and chosen: "(p', t') = (case h of
        None \<Rightarrow> (Sending e0 False 0, t\<lparr>tt_pending_recovery := pend\<rparr>)
      | Some e \<Rightarrow> (Sending e displaced missed,
          if should_defer_preempted (env_source e0)
          then t\<lparr>tt_pending_recovery := pend, tt_deferred_envelope := Some e0\<rparr>
          else t\<lparr>tt_pending_recovery := pend\<rparr>))" by metis
  have higher: "\<And>e. h = Some e \<Longrightarrow> env_source e0 < env_source e"
    using higher_priority_taken [OF chan pending take] by blast
  have "different_sources p' t'"
    using chosen higher held by (fastforce simp: different_sources_def split: option.splits if_splits)
  moreover have "results_move contents s (reselection_events ops now e0 se t b)
      (Preparing e0 regular se, t, b, r, clock) (p', t', b', r'', now)" if s: "result_source s"
  proof -
    have "attempted s (reselection_events ops now e0 se t b) = []"
      by (cases "tt_deferred_envelope t") (auto simp: reselection_events_def List.map_filter_simps split: prod.split option.split)
    moreover have "in_flight s (Preparing e0 regular se) t = of_source s [e0]"
      using held s by (cases "tt_deferred_envelope t") (auto simp: in_flight_def)
    moreover have "of_source s [e0] @ of_source s (flatten [h]) = in_flight s p' t'"
      using chosen held higher s
      by (cases h; cases "tt_deferred_envelope t")
        (auto simp: in_flight_def should_defer_preempted_def split: if_splits)
    ultimately show ?thesis
      using reselect_takes [OF chan pending take s] by (simp add: results_move_def) 
  qed
  ultimately show ?case by simp
next
  case (gives_up clock completed_at now aux turns aux' r r' e0 t p' t' r'' regular se b)
  note hand = attempt_done_frames(1) [OF gives_up.hyps(4)]
  from attempt_moves [OF gives_up.hyps(4) _ gives_up.prems(3) [simplified], of s] hand show ?case
    by (simp add: results_move_def different_sources_def)
next
  case (transmits clock completed_at now answers e0 r transmitted out r' displaced t p' t' r'' missed b)
  note hand = attempt_done_frames(1) [OF transmits.hyps(4)]
  from attempt_moves [OF transmits.hyps(4) _ transmits.prems(3) [simplified], of s] hand show ?case
    by (simp add: results_move_def different_sources_def)
next
  case (clears clock now e0 t b r)
  then show ?case
    by (simp add: results_move_def in_flight_def different_sources_def clear_sent_events_def result_queue_def)
qed simp

subsection \<open>What the CAN task does to the queues\<close>

text \<open>
  The queue of emergency results with the count of those that found it full. An operation is
  harmless if it leaves both alone, puts only frames of its own kind in the other queues and keeps
  the transaction tracker well formed.
\<close>

definition alarms_of :: "('l, 'c, 'r, 'g) board \<Rightarrow> 'l \<times> u32" where
  "alarms_of b = (bd_emergency_results b, lora_emergency_result_drop_count (bd_counters b))"

definition harmless ::
  "('l \<Rightarrow> lora_tx_envelope list) \<Rightarrow> ('l, 'c, 'r, 'g) board \<Rightarrow> ('l, 'c, 'r, 'g) board \<Rightarrow> bool" where
  "harmless contents b b' \<longleftrightarrow> (queues_hold contents b \<longrightarrow> queues_hold contents b') \<and>
     (tracker_inv (bd_tracker b) \<longrightarrow> tracker_inv (bd_tracker b')) \<and> alarms_of b' = alarms_of b"

lemma harmless_refl [simp]: "harmless contents b b"
  by (simp add: harmless_def)

lemma harmless_trans: "harmless contents b b' \<Longrightarrow> harmless contents b' b'' \<Longrightarrow> harmless contents b b''"
  by (simp add: harmless_def)

lemma harmless_update [simp]:
  "harmless contents b (b'\<lparr>bd_cache := x1\<rparr>) \<longleftrightarrow> harmless contents b b'"
  "harmless contents b (b'\<lparr>bd_session := x3\<rparr>) \<longleftrightarrow> harmless contents b b'"
  "harmless contents b (b'\<lparr>bd_assembler := x4\<rparr>) \<longleftrightarrow> harmless contents b b'"
  "harmless contents b (b'\<lparr>bd_recovery_beacon_active := x5\<rparr>) \<longleftrightarrow> harmless contents b b'"
  "harmless contents b (b'\<lparr>bd_recovery_enter_sent := x6\<rparr>) \<longleftrightarrow> harmless contents b b'"
  "harmless contents b (b'\<lparr>bd_control_roll_signals := x7\<rparr>) \<longleftrightarrow> harmless contents b b'"
  "harmless contents b (b'\<lparr>bd_raw_can_log := x8\<rparr>) \<longleftrightarrow> harmless contents b b'"
  "harmless contents b (b'\<lparr>bd_can_safety_tx := x9\<rparr>) \<longleftrightarrow> harmless contents b b'"
  "harmless contents b (b'\<lparr>bd_device_health := x10\<rparr>) \<longleftrightarrow> harmless contents b b'"
  "harmless contents b (b'\<lparr>bd_mission_status_invalid_at_ms := x11\<rparr>) \<longleftrightarrow> harmless contents b b'"
  "lora_emergency_result_drop_count n = lora_emergency_result_drop_count (bd_counters b') \<Longrightarrow>
   harmless contents b (b'\<lparr>bd_counters := n\<rparr>) \<longleftrightarrow> harmless contents b b'"
  by (simp_all add: harmless_def queues_hold_def alarms_of_def)

lemma harmless_tracker:
  "harmless contents b b' \<Longrightarrow>
   harmless contents b (b'\<lparr>bd_tracker := snd (apply_result (bd_tracker b') result)\<rparr>)"
proof -
  have "queues_hold contents (b'\<lparr>bd_tracker := t\<rparr>) = queues_hold contents b'" for t
    by (simp add: queues_hold_def)
  then show "harmless contents b b' \<Longrightarrow> ?thesis"
    by (simp add: harmless_def alarms_of_def apply_result_inv)
qed

text \<open>A queue that only gained frames of its kind.\<close>

definition gains :: "('q \<Rightarrow> lora_tx_envelope list) \<Rightarrow> lora_tx_source \<Rightarrow> 'q \<Rightarrow> 'q \<Rightarrow> bool" where
  "gains contents s q q' \<longleftrightarrow> (\<forall>x \<in> set (contents q'). x \<in> set (contents q) \<or> env_source x = s)"

lemma gains_refl [simp]: "gains contents s q q"
  by (simp add: gains_def)

lemma gains_ops:
  assumes "fifo_channel ops contents capacity" "gains contents s q q'"
  shows "env_source e = s \<Longrightarrow> gains contents s q (snd (try_send ops e q'))"
    "gains contents s q (snd (try_receive ops q'))"
proof -
  show "env_source e = s \<Longrightarrow> gains contents s q (snd (try_send ops e q'))"
    using assms(2) by (auto simp: gains_def fifo_channel.laws [OF assms(1)])
  show "gains contents s q (snd (try_receive ops q'))"
    using assms(2) by (cases "contents q'") (auto simp: gains_def fifo_channel.laws [OF assms(1)])
qed

lemma typed_queues:
  assumes "queues_hold contents b"
  shows "gains contents SrcEmergencyResult (bd_emergency_results b) q \<Longrightarrow> queues_hold contents (b\<lparr>bd_emergency_results := q\<rparr>)"
    "gains contents SrcCommandResult (bd_command_results b) q \<Longrightarrow> queues_hold contents (b\<lparr>bd_command_results := q\<rparr>)"
    "gains contents SrcGroundTimeRequest (bd_ground_time_requests b) q \<Longrightarrow>
       queues_hold contents (b\<lparr>bd_ground_time_requests := q\<rparr>)"
    "gains contents SrcRecovery (bd_recovery_chunks b) q \<Longrightarrow> queues_hold contents (b\<lparr>bd_recovery_chunks := q\<rparr>)"
  using assms by (auto simp: queues_hold_def gains_def)

lemma harmless_queues:
  assumes "harmless contents b b'"
  shows "gains contents SrcCommandResult (bd_command_results b') q \<Longrightarrow> harmless contents b (b'\<lparr>bd_command_results := q\<rparr>)"
    "gains contents SrcGroundTimeRequest (bd_ground_time_requests b') q \<Longrightarrow>
       harmless contents b (b'\<lparr>bd_ground_time_requests := q\<rparr>)"
    "gains contents SrcRecovery (bd_recovery_chunks b') q \<Longrightarrow> harmless contents b (b'\<lparr>bd_recovery_chunks := q\<rparr>)"
  using assms typed_queues [of contents b' q] by (simp_all add: harmless_def alarms_of_def)

lemma queued_source [simp]: "env_source (queued_envelope frame source) = source"
  by (simp add: queued_envelope_def)

lemma queue_command_result_harmless:
  "fifo_channel (lora_ops ops) contents capacity \<Longrightarrow> harmless contents b b' \<Longrightarrow>
   harmless contents b (queue_command_result ops packet b')"
  by (simp add: queue_command_result_def Let_def split_beta harmless_queues gains_ops split: sum.split)

lemma queue_recovery_chunk_harmless:
  "fifo_channel (lora_ops ops) contents capacity \<Longrightarrow> harmless contents b b' \<Longrightarrow>
   harmless contents b (snd (queue_recovery_chunk ops chunk b'))"
  by (simp add: queue_recovery_chunk_def Let_def split_beta harmless_queues gains_ops split: sum.split)

lemma queue_ground_time_request_harmless:
  "fifo_channel (lora_ops ops) contents capacity \<Longrightarrow> harmless contents b b' \<Longrightarrow>
   harmless contents b (snd (queue_ground_time_request ops request_id previous b'))"
  by (simp add: queue_ground_time_request_def Let_def split_beta harmless_queues gains_ops split: sum.split)

lemmas queued_harmless = queue_command_result_harmless queue_recovery_chunk_harmless queue_ground_time_request_harmless

lemma fail_recovery_transfer_harmless:
  "fifo_channel (lora_ops ops) contents capacity \<Longrightarrow> harmless contents b b' \<Longrightarrow>
   harmless contents b (fail_recovery_transfer ops reason stop b')"
  by (simp add: fail_recovery_transfer_def Let_def split_beta queued_harmless split: option.split)

lemma apply_session_status_harmless:
  "fifo_channel (lora_ops ops) contents capacity \<Longrightarrow> harmless contents b b' \<Longrightarrow>
   harmless contents b (apply_session_status ops status b')"
  by (simp add: apply_session_status_def Let_def split_beta queued_harmless split: option.split)

lemma receive_recovery_status_harmless:
  "fifo_channel (lora_ops ops) contents capacity \<Longrightarrow> harmless contents b b' \<Longrightarrow>
   harmless contents b (receive_recovery_status ops status b')"
  by (simp add: receive_recovery_status_def Let_def split_beta queued_harmless apply_session_status_harmless
      fail_recovery_transfer_harmless split: option.split)

lemma receive_recovery_log_data_harmless:
  "fifo_channel (lora_ops ops) contents capacity \<Longrightarrow> harmless contents b b' \<Longrightarrow>
   harmless contents b (receive_recovery_log_data ops fragment b')"
  by (simp add: receive_recovery_log_data_def Let_def split_beta queued_harmless fail_recovery_transfer_harmless
      split: option.split sum.split)

lemma log_raw_frame_harmless: "harmless contents b b' \<Longrightarrow> harmless contents b (log_raw_frame ops i d now b')"
  by (simp add: log_raw_frame_def Let_def split_beta)

lemma handle_recovery_mode_command_harmless:
  "harmless contents b b' \<Longrightarrow> harmless contents b (snd (handle_recovery_mode_command d b'))"
  by (simp add: handle_recovery_mode_command_def Let_def)

subsection \<open>Emergency results of the CAN task\<close>

text \<open>
  The result a received frame reports as an emergency, read off the wire and the map of pending
  requests: a command result of command 0xf0 or 0xf1, the two stops, while no request with its
  transaction identifier and its command is pending.
\<close>

definition unrequested :: "transaction_tracker \<Rightarrow> command_result \<Rightarrow> bool" where
  "unrequested tracker r \<longleftrightarrow>
     (case pending_of tracker (cr_transaction_id r) of None \<Rightarrow> True | Some request \<Rightarrow> req_command request \<noteq> cr_command r)"

definition frame_alarm :: "transaction_tracker \<Rightarrow> twai_frame \<Rightarrow> command_result option" where
  "frame_alarm tracker frame =
     (case fr_id frame of
        ExtendedId _ \<Rightarrow> None
      | StandardId ident \<Rightarrow>
          (case decode_standard ident (fr_data frame) of
             Inr (RxCommandResult r) \<Rightarrow>
               if cr_command r \<in> {0xf0, 0xf1} \<and> unrequested tracker r then Some r else None
           | _ \<Rightarrow> None))"

lemma unrequested_alarm:
  assumes "tracker_inv tracker"
  shows "prioritize_untracked_emergency_result (fst (apply_result tracker r)) (cr_command r) \<longleftrightarrow>
    cr_command r \<in> {0xf0, 0xf1} \<and> unrequested tracker r"
proof -
  have "fst (apply_result tracker r) \<longleftrightarrow> (\<exists>request. matches tracker r request)"
    using apply_result_effect(1) [OF assms] apply_result_unmatched [OF assms] by (metis fst_conv)
  then show ?thesis
    by (auto simp: prioritize_untracked_emergency_result_def is_emergency_result_command_def
        ACTUATOR_EMERGENCY_RESULT_def LIFTOFF_EMERGENCY_RESULT_def unrequested_def matches_def split: option.split)
qed

text \<open>The alarm is appended to its queue, or counted as dropped when the queue is full.\<close>

definition alarm_raised ::
  "('l \<Rightarrow> lora_tx_envelope list) \<Rightarrow> ('l \<Rightarrow> nat) \<Rightarrow> command_result option \<Rightarrow>
   ('l, 'c, 'r, 'g) board \<Rightarrow> ('l, 'c, 'r, 'g) board \<Rightarrow> bool" where
  "alarm_raised contents capacity alarm b b' \<longleftrightarrow> (queues_hold contents b \<longrightarrow> queues_hold contents b') \<and>
     (tracker_inv (bd_tracker b) \<longrightarrow> tracker_inv (bd_tracker b')) \<and>
     (case alarm of
        None \<Rightarrow> alarms_of b' = alarms_of b
      | Some r \<Rightarrow> queued_or_counted contents capacity (result_envelope r SrcEmergencyResult) (alarms_of b) (alarms_of b'))"

lemma harmless_raises: "harmless contents b b' \<Longrightarrow> alarm_raised contents capacity alarm b' b'' \<Longrightarrow>
    alarm_raised contents capacity alarm b b''"
  by (auto simp: harmless_def alarm_raised_def split: option.split)

lemma harmless_no_alarm: "alarm_raised contents capacity None b b' \<longleftrightarrow> harmless contents b b'"
  by (simp add: harmless_def alarm_raised_def)

lemma queue_emergency_result_raises:
  assumes chan: "fifo_channel (lora_ops ops) contents capacity" and r: "cr_transaction_id r \<noteq> 0"
  shows "alarm_raised contents capacity (Some r) b (queue_emergency_result ops r b)"
proof -
  obtain f where f: "encode (PCommandResult (packet_of_result r)) = Inr f"
    "queued_envelope f SrcEmergencyResult = result_envelope r SrcEmergencyResult"
    using result_encodes [OF r] by blast
  let ?q = "snd (try_send (lora_ops ops) (result_envelope r SrcEmergencyResult) (bd_emergency_results b))"
  have source: "env_source (result_envelope r SrcEmergencyResult) = SrcEmergencyResult"
    by (metis f(2) queued_source)
  have "queues_hold contents b \<Longrightarrow> queues_hold contents (b\<lparr>bd_emergency_results := ?q\<rparr>)"
    by (rule typed_queues(1)) (simp_all add: gains_ops [OF chan] source)
  moreover have "queues_hold contents (b'\<lparr>bd_counters := n\<rparr>) = queues_hold contents b'" for b' :: "('a, 'b, 'c, 'd) board" and n
    by (simp add: queues_hold_def)
  ultimately show ?thesis
    by (simp add: alarm_raised_def queue_emergency_result_def f Let_def split_beta alarms_of_def queued_or_counted_def
        fifo_channel.laws [OF chan])
qed

lemma receive_command_result_raises:
  assumes chan: "fifo_channel (lora_ops ops) contents capacity" and r: "cr_transaction_id r \<noteq> 0"
    and inv: "tracker_inv (bd_tracker b)"
  shows "alarm_raised contents capacity
    (if cr_command r \<in> {0xf0, 0xf1} \<and> unrequested (bd_tracker b) r then Some r else None)
    b (receive_command_result ops r b)"
proof -
  obtain matched tracker where applied: "apply_result (bd_tracker b) r = (matched, tracker)" by fastforce
  have "harmless contents b (b\<lparr>bd_tracker := tracker\<rparr>)"
    using harmless_tracker [OF harmless_refl, of contents b r] by (simp add: applied)
  from harmless_raises [OF this queue_emergency_result_raises [OF chan r]] this show ?thesis
    unfolding unrequested_alarm [OF inv, symmetric]
    by (simp add: receive_command_result_def applied Let_def harmless_no_alarm queue_command_result_harmless [OF chan])
qed

lemma received_message_raises:
  assumes chan: "fifo_channel (lora_ops ops) contents capacity" and m: "valid_rx m"
    and inv: "tracker_inv (bd_tracker b)"
  shows "alarm_raised contents capacity
    (case m of RxCommandResult r \<Rightarrow>
       if cr_command r \<in> {0xf0, 0xf1} \<and> unrequested (bd_tracker b) r then Some r else None
     | _ \<Rightarrow> None) b (snd (apply_received_message ops m received_ms previous b))"
proof -
  obtain update cache where updated: "update_cache m received_ms (bd_cache b) = (update, cache)" by fastforce
  let ?b = "b\<lparr>bd_cache := cache\<rparr>"
  let ?b = "if signals_control_roll m (bd_cache b) then signal_control_roll ?b else ?b"
  have pre: "harmless contents b ?b" "bd_tracker ?b = bd_tracker b" by simp_all
  note rest = queued_harmless [OF chan pre(1)] receive_recovery_status_harmless [OF chan pre(1)]
    receive_recovery_log_data_harmless [OF chan pre(1)]
  show ?thesis
  proof (cases m)
    case (RxCommandResult r)
    then have "update = UpCommandResult r" using updated by auto
    with RxCommandResult m inv updated harmless_raises [OF pre(1) receive_command_result_raises [OF chan, of r ?b]]
    show ?thesis unfolding pre(2) by (simp add: apply_received_message_def Let_def del: signal_control_roll_def)
  qed (use updated rest pre(1) in \<open>auto simp: apply_received_message_def harmless_no_alarm Let_def
      simp del: signal_control_roll_def split: cache_update.split if_splits\<close>)
qed

lemma received_frame_raises:
  assumes chan: "fifo_channel (lora_ops ops) contents capacity"
    and run: "handle_received_frame ops frame received_ms previous b = (previous', b')"
    and inv: "tracker_inv (bd_tracker b)"
  shows "alarm_raised contents capacity (frame_alarm (bd_tracker b) frame) b b'"
proof (cases "fr_id frame")
  case (ExtendedId ident)
  then show ?thesis using run by (auto simp: handle_received_frame_def frame_alarm_def harmless_no_alarm)
next
  case (StandardId ident)
  let ?b = "log_raw_frame ops ident (fr_data frame) received_ms b"
  have log: "harmless contents b ?b" "bd_tracker ?b = bd_tracker b"
    by (simp add: log_raw_frame_harmless) (simp add: log_raw_frame_def Let_def split_beta)
  obtain entered b2 where mode: "handle_recovery_mode_command (fr_data frame) ?b = (entered, b2)" by fastforce
  then have "harmless contents b b2" using handle_recovery_mode_command_harmless [OF log(1), of "fr_data frame"] by simp
  show ?thesis
  proof (cases "decode_standard ident (fr_data frame)")
    case (Inl error)
    with run StandardId log(1) \<open>harmless contents b b2\<close> mode show ?thesis
      by (auto simp: handle_received_frame_def frame_alarm_def harmless_no_alarm cache_device_health_def Let_def
        split: if_splits option.splits bool.splits prod.splits)
  next
    case (Inr m)
    then have ids: "ident \<noteq> 0x014" "ident \<noteq> FRAME_DEVICE_HEALTH" and m: "valid_rx m"
      using decode_standard_sound [OF Inr] by (auto simp: decode_standard_def FRAME_DEVICE_HEALTH_def)
    let ?b' = "if ident = 0x102 then ?b\<lparr>bd_mission_status_invalid_at_ms := 0\<rparr> else ?b"
    have pre: "harmless contents b ?b'" "bd_tracker ?b' = bd_tracker b"
      using log by (cases "ident = 0x102"; simp)+
    have "snd (apply_received_message ops m received_ms previous ?b') = b'"
      using run ids by (simp add: handle_received_frame_def StandardId Inr Let_def)
    with harmless_raises [OF pre(1) received_message_raises [OF chan m, of ?b' received_ms previous]] inv
    have "alarm_raised contents capacity (case m of RxCommandResult r \<Rightarrow>
       if cr_command r \<in> {0xf0, 0xf1} \<and> unrequested (bd_tracker b) r then Some r else None
     | _ \<Rightarrow> None) b b'" unfolding pre(2) by simp
    then show ?thesis by (simp add: frame_alarm_def StandardId Inr)
  qed
qed

text \<open>The stops that the bus did not take are reported as failed.\<close>

definition stop_id :: "can_tx_message \<Rightarrow> u8 option" where
  "stop_id message = (case message of ActuatorEmergencyStop k \<Rightarrow> Some k | LiftoffEmergencyStop k \<Rightarrow> Some k | _ \<Rightarrow> None)"

definition failed_stop :: "can_tx_message \<Rightarrow> command_result option" where
  "failed_stop message =
     (case message of
        ActuatorEmergencyStop k \<Rightarrow> Some \<lparr>cr_transaction_id = k, cr_command = 0xf0, cr_phase = Failed,
          cr_reason = Timeout, cr_detail = 0\<rparr>
      | LiftoffEmergencyStop k \<Rightarrow> Some \<lparr>cr_transaction_id = k, cr_command = 0xf1, cr_phase = Failed,
          cr_reason = Timeout, cr_detail = 0\<rparr>
      | _ \<Rightarrow> None)"

lemma failed_stop_reported: "emergency_failure_result message = failed_stop message"
  by (simp add: emergency_failure_result_def failed_stop_def ACTUATOR_EMERGENCY_RESULT_def
      LIFTOFF_EMERGENCY_RESULT_def split: can_tx_message.split)

lemma failed_request_raises:
  assumes chan: "fifo_channel (lora_ops ops) contents capacity" and k: "stop_id message \<noteq> Some 0"
  shows "alarm_raised contents capacity (failed_stop message) b (report_transmit_failure ops message b)"
proof (cases "failed_stop message")
  case None
  then show ?thesis
    by (auto simp: report_transmit_failure_def failed_stop_reported harmless_no_alarm queued_harmless [OF chan]
        harmless_tracker Let_def split_beta split: can_tx_message.split option.split)
next
  case (Some r)
  then have "cr_transaction_id r \<noteq> 0" using k
    by (auto simp: failed_stop_def stop_id_def split: can_tx_message.splits)
  from queue_emergency_result_raises [OF chan this] Some show ?thesis
    by (simp add: report_transmit_failure_def failed_stop_reported)
qed

subsection \<open>From the bus to the air\<close>

text \<open>
  The transmitting task among the CAN task and the rest. Each step of the CAN task here handles one
  received frame, or reports one request that could not be sent; stops are only made with a
  transaction identifier other than 0. The rest leaves the emergency results alone, puts only frames of its own
  kind in the queues and keeps the transaction tracker well formed, as every call of it does.
\<close>

datatype alarm_event = OnAir "tx_event list" | OnBus "command_result option" bool | Elsewhere

definition alarm_room :: "('l, 'c, 'r, 'g) board_ops \<Rightarrow> ('l, 'c, 'r, 'g) board \<Rightarrow> bool" where
  "alarm_room ops b = (\<not> is_full (lora_ops ops) (bd_emergency_results b))"

type_synonym ('l, 'c, 'r, 'g) alarm_state = "u8 option \<times> ('l, 'c, 'r, 'g) tx_state"

inductive alarm_step ::
  "('l, 'c, 'r, 'g) board_ops \<Rightarrow> ('l \<Rightarrow> lora_tx_envelope list) \<Rightarrow>
   ('l, 'c, 'r, 'g) alarm_state \<Rightarrow> alarm_event \<Rightarrow> ('l, 'c, 'r, 'g) alarm_state \<Rightarrow> bool"
  for ops contents where
  on_air: "tx_step ops contents (p, st) events (p', st') \<Longrightarrow> p' \<noteq> p \<Longrightarrow>
    alarm_step ops contents (previous, p, st) (OnAir events) (previous, p', st')"
| frame_arrives: "clock \<le> now \<Longrightarrow> handle_received_frame ops frame received_ms previous b = (previous', b') \<Longrightarrow>
    alarm_step ops contents (previous, p, t, b, r, clock) (OnBus (frame_alarm (bd_tracker b) frame) (alarm_room ops b))
      (previous', p, t, b', r, now)"
| request_fails: "clock \<le> now \<Longrightarrow> stop_id message \<noteq> Some 0 \<Longrightarrow>
    alarm_step ops contents (previous, p, t, b, r, clock) (OnBus (failed_stop message) (alarm_room ops b))
      (previous, p, t, report_transmit_failure ops message b, r, now)"
| others: "clock \<le> now \<Longrightarrow> harmless contents b b' \<Longrightarrow>
    alarm_step ops contents (previous, p, t, b, r, clock) Elsewhere (previous', p, t, b', r', now)"

inductive alarm_run ::
  "('l, 'c, 'r, 'g) board_ops \<Rightarrow> ('l \<Rightarrow> lora_tx_envelope list) \<Rightarrow>
   ('l, 'c, 'r, 'g) alarm_state \<Rightarrow> alarm_event list \<Rightarrow> ('l, 'c, 'r, 'g) alarm_state \<Rightarrow> bool"
  for ops contents start where
  alarm_start: "alarm_run ops contents start [] start"
| alarm_next: "alarm_run ops contents start events s \<Longrightarrow> alarm_step ops contents s event s' \<Longrightarrow>
    alarm_run ops contents start (events @ [event]) s'"

text \<open>The alarms for which there was room, those for which there was none, and the frames tried.\<close>

fun alarm_taken :: "alarm_event \<Rightarrow> command_result option" where
  "alarm_taken (OnBus alarm True) = alarm"
| "alarm_taken _ = None"

fun alarm_refused :: "alarm_event \<Rightarrow> command_result option" where
  "alarm_refused (OnBus alarm False) = alarm"
| "alarm_refused _ = None"

fun on_air_events :: "alarm_event \<Rightarrow> tx_event list" where
  "on_air_events (OnAir events) = events"
| "on_air_events _ = []"

definition tried_alarms :: "alarm_event list \<Rightarrow> lora_tx_envelope list" where
  "tried_alarms events = attempted SrcEmergencyResult (concat (map on_air_events events))"

definition taken_alarms :: "alarm_event list \<Rightarrow> lora_tx_envelope list" where
  "taken_alarms events = map (\<lambda>r. result_envelope r SrcEmergencyResult) (List.map_filter alarm_taken events)"

text \<open>A step of the radio task is a step of \<open>tx_step\<close>, a step of the others is its step \<open>others\<close>.\<close>

lemma drops_unchanged:
  assumes "fifo_channel (lora_ops ops) contents capacity"
  shows "tx_step ops contents (p, t, b, r, clock) events (p', t', b', r', clock') \<Longrightarrow> p' \<noteq> p \<Longrightarrow>
    bd_counters b' = bd_counters b \<and> bd_tracker b' = bd_tracker b"
proof (induction "(p, t, b, r, clock)" events "(p', t', b', r', clock')" rule: tx_step.induct)
  case wakes
  then show ?case
    by (auto simp: wake_def poll_round_def poll_recovery_def split: option.splits prod.splits tx_ready.splits if_splits)
next
  case (prepares aux turns aux' r1 e0 regular se)
  from reselect_cases [OF prepares.hyps(3)] obtain h pend where
    take: "take_higher_priority_envelope ops (env_source e0)
        (tt_recovery_sent_since_periodic t) (tt_next_recovery_at t) (se_valid se) (se_at se) clock'
        (tt_pending_recovery t, b) = (h, pend, b')" by metis
  from higher_priority_cases [OF assms take] show ?case by cases simp_all
qed (auto simp: clear_sent_events_def)

lemma step_events [simp]:
  "tried_alarms (events @ [event]) = tried_alarms events @ attempted SrcEmergencyResult (on_air_events event)"
  "taken_alarms (events @ [event]) = taken_alarms events @
     (case alarm_taken event of None \<Rightarrow> [] | Some r \<Rightarrow> [result_envelope r SrcEmergencyResult])"
  "tried_alarms [] = []" "taken_alarms [] = []"
  by (simp_all add: tried_alarms_def taken_alarms_def map_filter_append List.map_filter_simps split: option.split)

definition alarms_kept ::
  "('l \<Rightarrow> lora_tx_envelope list) \<Rightarrow> ('l, 'c, 'r, 'g) alarm_state \<Rightarrow> alarm_event \<Rightarrow> ('l, 'c, 'r, 'g) alarm_state \<Rightarrow> bool" where
  "alarms_kept contents s event s' =
     (case (s, s') of ((_, p, t, b, _), (_, p', t', b', _)) \<Rightarrow>
        in_flight SrcEmergencyResult p t @ contents (bd_emergency_results b) @
          (case alarm_taken event of None \<Rightarrow> [] | Some r \<Rightarrow> [result_envelope r SrcEmergencyResult]) =
        attempted SrcEmergencyResult (on_air_events event) @ in_flight SrcEmergencyResult p' t' @
          contents (bd_emergency_results b') \<and>
        lora_emergency_result_drop_count (bd_counters b') =
          lora_emergency_result_drop_count (bd_counters b) + (case alarm_refused event of None \<Rightarrow> 0 | Some _ \<Rightarrow> 1))"

definition alarm_inv :: "('l \<Rightarrow> lora_tx_envelope list) \<Rightarrow> ('l, 'c, 'r, 'g) alarm_state \<Rightarrow> bool" where
  "alarm_inv contents s \<longleftrightarrow> tx_inv contents (snd s) \<and> different_sources (fst (snd s)) (fst (snd (snd s))) \<and>
     (case s of (_, _, _, b, _) \<Rightarrow> tracker_inv (bd_tracker b))"

lemma raised_kept:
  assumes chan: "fifo_channel (lora_ops ops) contents capacity" and raised: "alarm_raised contents capacity alarm b b'"
    and inv: "alarm_inv contents (previous, p, t, b, r, clock)" and time: "clock \<le> now"
  shows "alarm_inv contents (previous', p, t, b', r', now) \<and>
    alarms_kept contents (previous, p, t, b, r, clock) (OnBus alarm (alarm_room ops b)) (previous', p, t, b', r', now)"
proof -
  have "tx_inv contents (p, t, b', r', now)"
    using inv raised frames_later [OF time] by (simp add: alarm_inv_def tx_inv_def alarm_raised_def)
  then show ?thesis
    using raised inv
    by (cases alarm; cases "alarm_room ops b")
      (auto simp: alarm_inv_def alarms_kept_def alarm_raised_def alarms_of_def queued_or_counted_def alarm_room_def
        fifo_channel.full_iff [OF chan])
qed

lemma alarm_step_kept:
  assumes chan: "fifo_channel (lora_ops ops) contents capacity"
  shows "alarm_step ops contents s event s' \<Longrightarrow> alarm_inv contents s \<Longrightarrow>
    alarm_inv contents s' \<and> alarms_kept contents s event s'"
proof (induction rule: alarm_step.induct)
  case (on_air p st events p' st' previous)
  obtain t b r clock t' b' r' clock' where st: "st = (t, b, r, clock)" "st' = (t', b', r', clock')"
    by (metis prod_cases4)
  have inv: "tx_inv contents (p, st)" "different_sources p t"
    using on_air.prems by (simp_all add: alarm_inv_def st)
  from results_step [OF chan on_air.hyps(1), of SrcEmergencyResult] on_air.hyps(2) inv
  have "different_sources p' t'" "results_move contents SrcEmergencyResult events (p, st) (p', st')"
    by (simp_all add: st)
  moreover have "tx_inv contents (p', st')" by (rule tx_inv_step [OF chan on_air.hyps(1) inv(1)])
  moreover have "bd_counters b' = bd_counters b" "bd_tracker b' = bd_tracker b"
    using drops_unchanged [OF chan on_air.hyps(1) [unfolded st]] on_air.hyps(2) by simp_all
  moreover have "tracker_inv (bd_tracker b)" using on_air.prems by (simp add: alarm_inv_def st)
  ultimately show ?case
    by (simp add: alarm_inv_def alarms_kept_def results_move_def result_queue_def st)
next
  case (frame_arrives clock now frame received_ms previous b previous' b' p t r)
  have "tracker_inv (bd_tracker b)" using frame_arrives.prems by (simp add: alarm_inv_def)
  from received_frame_raises [OF chan frame_arrives.hyps(2) this] show ?case
    by (rule raised_kept [OF chan _ frame_arrives.prems frame_arrives.hyps(1)])
next
  case (request_fails clock now message previous p t b r)
  show ?case
    by (rule raised_kept [OF chan failed_request_raises [OF chan request_fails.hyps(2)] request_fails.prems request_fails.hyps(1)])
next
  case (others clock now b b' previous p t r previous' r')
  from others.hyps(2) have "alarm_raised contents capacity None b b'" for capacity :: "'a \<Rightarrow> nat"
    by (simp add: harmless_no_alarm)
  from raised_kept [OF chan this others.prems others.hyps(1), of previous' r'] show ?case
    by (cases "alarm_room ops b") (simp_all add: alarms_kept_def)
qed

lemma alarm_run_kept:
  assumes chan: "fifo_channel (lora_ops ops) contents capacity" and inv: "alarm_inv contents (previous0, p0, t0, b0, r0, clock0)"
  shows "alarm_run ops contents (previous0, p0, t0, b0, r0, clock0) events s \<Longrightarrow> alarm_inv contents s \<and>
    (case s of (_, p, t, b, _) \<Rightarrow>
       in_flight SrcEmergencyResult p0 t0 @ contents (bd_emergency_results b0) @ taken_alarms events =
         tried_alarms events @ in_flight SrcEmergencyResult p t @ contents (bd_emergency_results b) \<and>
       lora_emergency_result_drop_count (bd_counters b) =
         lora_emergency_result_drop_count (bd_counters b0) + of_nat (length (List.map_filter alarm_refused events)))"
proof (induction rule: alarm_run.induct)
  case alarm_start
  show ?case using inv by (simp add: List.map_filter_simps)
next
  case (alarm_next events s event s')
  obtain previous p t b r clock where s: "s = (previous, p, t, b, r, clock)" by (metis prod_cases6)
  obtain previous' p' t' b' r' clock' where s': "s' = (previous', p', t', b', r', clock')" by (metis prod_cases6)
  from alarm_step_kept [OF chan alarm_next.hyps(2)] alarm_next.IH
  have kept: "alarm_inv contents s'" "alarms_kept contents s event s'" by simp_all
  have moved: "in_flight SrcEmergencyResult p t @ contents (bd_emergency_results b) @
          (case alarm_taken event of None \<Rightarrow> [] | Some r \<Rightarrow> [result_envelope r SrcEmergencyResult]) =
        attempted SrcEmergencyResult (on_air_events event) @ in_flight SrcEmergencyResult p' t' @
          contents (bd_emergency_results b')"
    "lora_emergency_result_drop_count (bd_counters b') =
          lora_emergency_result_drop_count (bd_counters b) + (case alarm_refused event of None \<Rightarrow> 0 | Some _ \<Rightarrow> 1)"
    using kept(2) by (simp_all add: alarms_kept_def s s')
  have "in_flight SrcEmergencyResult p0 t0 @ contents (bd_emergency_results b0) @ taken_alarms events =
         tried_alarms events @ in_flight SrcEmergencyResult p t @ contents (bd_emergency_results b)"
    "lora_emergency_result_drop_count (bd_counters b) =
         lora_emergency_result_drop_count (bd_counters b0) + of_nat (length (List.map_filter alarm_refused events))"
    using alarm_next.IH by (simp_all add: s)
  then have "in_flight SrcEmergencyResult p0 t0 @ contents (bd_emergency_results b0) @ taken_alarms (events @ [event]) =
      tried_alarms (events @ [event]) @ in_flight SrcEmergencyResult p' t' @ contents (bd_emergency_results b')"
    "lora_emergency_result_drop_count (bd_counters b') = lora_emergency_result_drop_count (bd_counters b0) +
      of_nat (length (List.map_filter alarm_refused (events @ [event])))"
    using moved by (metis (no_types, lifting) append_assoc step_events(1,2),
      simp add: map_filter_append List.map_filter_simps split: option.split)
  with kept(1) show ?case by (simp add: s' del: step_events)
qed

lemma alarm_step_valid:
  "alarm_step ops contents s (OnBus alarm room) s' \<Longrightarrow> alarm = Some r \<Longrightarrow> cr_transaction_id r \<noteq> 0"
proof (induction s "OnBus alarm room" s' rule: alarm_step.induct)
  case (frame_arrives clock now frame received_ms previous b previous' b' p t ra)
  then obtain ident where "decode_standard ident (fr_data frame) = Inr (RxCommandResult r)"
    by (auto simp: frame_alarm_def split: can_identifier.splits sum.splits can_rx_message.splits if_splits)
  from decode_standard_sound(1) [OF this] show ?case by simp
next
  case (request_fails clock now message previous p t b ra)
  then show ?case
    by (auto simp: failed_stop_def stop_id_def split: can_tx_message.splits)
qed

lemma alarm_run_valid:
  "alarm_run ops contents start events s \<Longrightarrow> r \<in> set (List.map_filter alarm_taken events) \<Longrightarrow> cr_transaction_id r \<noteq> 0"
proof (induction rule: alarm_run.induct)
  case (alarm_next events s event s')
  show ?case
  proof (cases "r \<in> set (List.map_filter alarm_taken events)")
    case False
    then have "alarm_taken event = Some r"
      using alarm_next.prems by (auto simp: map_filter_append List.map_filter_simps split: option.splits)
    then obtain alarm where "event = OnBus alarm True" "alarm = Some r" by (cases event rule: alarm_taken.cases) auto
    with alarm_next.hyps(2) alarm_step_valid show ?thesis by metis
  qed (use alarm_next.IH in simp)
qed (simp add: List.map_filter_simps)

text \<open>
  C4. Emergency results reach the ground. In any interleaving of the CAN task, the transmitting
  radio task and the rest, the emergency results that the Mission board sends without being asked
  (command results of 0xf0 or 0xf1 that no pending request asked for), and the failures of the stops
  that the bus did not take, and no others, are handed to the radio module as emergency results in
  the order in which they arose, each exactly once, but for those still in the queue and at most one
  the task holds; a result that finds the queue full is counted as dropped, and no other is. Each
  frame reads on the ground as the result.
\<close>

theorem emergency_results_reach_ground:
  assumes "fifo_channel (lora_ops ops) contents capacity" "queues_hold contents b0"
    and "contents (bd_emergency_results b0) = []" "tracker_inv (bd_tracker b0)"
    and "alarm_run ops contents (previous0, AtTop, new_tx_task now now', b0, r0, clock0) events
      (previous, p, t, b, r, clock)"
  shows "taken_alarms events =
      tried_alarms events @ in_flight SrcEmergencyResult p t @ contents (bd_emergency_results b) \<and>
    length (in_flight SrcEmergencyResult p t) \<le> 1 \<and>
    lora_emergency_result_drop_count (bd_counters b) =
      lora_emergency_result_drop_count (bd_counters b0) + of_nat (length (List.map_filter alarm_refused events)) \<and>
    (\<forall>result \<in> set (List.map_filter alarm_taken events).
       ground_reads (result_envelope result SrcEmergencyResult) = Some (PCommandResult (packet_of_result result)))"
proof -
  let ?t0 = "new_tx_task now now'"
  have t0: "tt_deferred_envelope ?t0 = None" by (simp add: new_tx_task_def Let_def split: option.split prod.split)
  then have "alarm_inv contents (previous0, AtTop, ?t0, b0, r0, clock0)" "in_flight SrcEmergencyResult AtTop ?t0 = []"
    using tx_inv_new [OF assms(2)] assms(4) by (simp_all add: alarm_inv_def different_sources_def in_flight_def)
  with alarm_run_kept [OF assms(1) _ assms(5)] assms(3)
  have kept: "taken_alarms events =
      tried_alarms events @ in_flight SrcEmergencyResult p t @ contents (bd_emergency_results b)"
    "lora_emergency_result_drop_count (bd_counters b) =
      lora_emergency_result_drop_count (bd_counters b0) + of_nat (length (List.map_filter alarm_refused events))"
    and different: "different_sources p t" by (auto simp: alarm_inv_def)
  have "length (in_flight SrcEmergencyResult p t) \<le> 1"
    using different by (cases "in_hand p"; cases "tt_deferred_envelope t") (auto simp: in_flight_def different_sources_def)
  moreover have "ground_reads (result_envelope result SrcEmergencyResult) = Some (PCommandResult (packet_of_result result))"
    if "result \<in> set (List.map_filter alarm_taken events)" for result
    using alarm_run_valid [OF assms(5) that] by (rule ground_reads_result)
  ultimately show ?thesis using kept by blast
qed

subsection \<open>An alarm on its way\<close>

datatype alarm_move = Air tx_move | Arrival twai_frame

fun alarm_do ::
  "alarm_move \<Rightarrow> u8 option \<times> list_tx_state \<Rightarrow> (alarm_event \<times> u8 option \<times> list_tx_state) option" where
  "alarm_do (Air move) (previous, p, st) =
     (case tx_do move (p, st) of
        Some (events, p', st') \<Rightarrow> if p' \<noteq> p then Some (OnAir events, previous, p', st') else None
      | None \<Rightarrow> None)"
| "alarm_do (Arrival frame) (previous, p, t, b, r, clock) =
     (case handle_received_frame list_ops frame (clock div 1000) previous b of
        (previous', b') \<Rightarrow>
          Some (OnBus (frame_alarm (bd_tracker b) frame) (alarm_room list_ops b), previous', p, t, b', r, clock))"

lemma alarm_do_step: "alarm_do move s = Some (event, s') \<Longrightarrow> alarm_step list_ops snd s event s'"
proof (induction move s rule: alarm_do.induct)
  case (1 move previous p st)
  then show ?case
    by (auto intro: alarm_step.on_air [OF tx_do_step] split: option.splits prod.splits if_splits)
next
  case (2 frame previous p t b r clock)
  then show ?case by (auto intro: alarm_step.frame_arrives split: prod.splits)
qed

fun alarm_play ::
  "alarm_move list \<Rightarrow> alarm_event list \<times> u8 option \<times> list_tx_state \<Rightarrow>
   (alarm_event list \<times> u8 option \<times> list_tx_state) option" where
  "alarm_play [] s = Some s"
| "alarm_play (move # moves) (events, s) =
     (case alarm_do move s of None \<Rightarrow> None | Some (event, s') \<Rightarrow> alarm_play moves (events @ [event], s'))"

lemma alarm_play_run:
  "alarm_play moves (events, s) = Some (events', s') \<Longrightarrow> alarm_run list_ops snd start events s \<Longrightarrow>
   alarm_run list_ops snd start events' s'"
proof (induction moves arbitrary: events s)
  case (Cons move moves)
  then obtain event s1 where "alarm_do move s = Some (event, s1)" "alarm_play moves (events @ [event], s1) = Some (events', s')"
    by (auto split: option.splits prod.splits)
  with Cons.IH alarm_run.alarm_next [OF Cons.prems(2) alarm_do_step] show ?case by blast
qed simp

definition stop_done :: twai_frame where
  "stop_done = \<lparr>fr_id = StandardId 0x011, fr_data = [9, 0xf0, 1, 0, 0, 0, 0, 0]\<rparr>"

definition alarm_moves :: "alarm_move list" where
  "alarm_moves = [Arrival stop_done, Air (Begin 0), Air (Wake 0 0), Arrival stop_done, Air (Prepare 0),
     Air (Transmit 50000 50000)]"

definition stop_result :: command_result where
  "stop_result = \<lparr>cr_transaction_id = 9, cr_command = 0xf0, cr_phase = Completed, cr_reason = NoReason, cr_detail = 0\<rparr>"

lemma alarm_moves_run:
  "case alarm_play alarm_moves ([], None, demo_start) of
     None \<Rightarrow> False
   | Some (events, s) \<Rightarrow> List.map_filter alarm_taken events = [stop_result, stop_result] \<and>
       length (tried_alarms events) = 1"
  by code_simp

lemma emergency_results_reach_ground_witness:
  "\<exists>events previous p t b r clock.
     alarm_run list_ops snd (None, demo_start) events (previous, p, t, b, r, clock) \<and>
     tried_alarms events = [result_envelope stop_result SrcEmergencyResult] \<and>
     in_flight SrcEmergencyResult p t @ snd (bd_emergency_results b) = [result_envelope stop_result SrcEmergencyResult] \<and>
     ground_reads (result_envelope stop_result SrcEmergencyResult) = Some (PCommandResult (packet_of_result stop_result))"
proof -
  obtain events previous p t b r clock where
    play: "alarm_play alarm_moves ([], None, demo_start) = Some (events, previous, p, t, b, r, clock)"
    and alarms: "List.map_filter alarm_taken events = [stop_result, stop_result]" "length (tried_alarms events) = 1"
    using alarm_moves_run by (auto split: option.splits)
  note run = alarm_play_run [OF play alarm_run.alarm_start]
  have chan: "fifo_channel (lora_ops list_ops) snd fst" by (simp add: list_channel_fifo)
  have empty: "snd (bd_emergency_results list_start) = []" by (simp add: list_start_def initial_board_def)
  have "tracker_inv (bd_tracker list_start)" by (simp add: list_start_def initial_board_def tracker_inv_new)
  note facts = emergency_results_reach_ground [OF chan list_start_queues empty this run]
  have "tried_alarms events @ in_flight SrcEmergencyResult p t @ snd (bd_emergency_results b) =
      [result_envelope stop_result SrcEmergencyResult, result_envelope stop_result SrcEmergencyResult]"
    using facts by (simp add: taken_alarms_def alarms)
  with alarms(2) have "tried_alarms events = [result_envelope stop_result SrcEmergencyResult] \<and>
     in_flight SrcEmergencyResult p t @ snd (bd_emergency_results b) = [result_envelope stop_result SrcEmergencyResult]"
    by (cases "tried_alarms events") auto
  moreover have "ground_reads (result_envelope stop_result SrcEmergencyResult) =
      Some (PCommandResult (packet_of_result stop_result))"
    using facts alarms(1) by simp
  ultimately show ?thesis using run by blast
qed

end
