(* ===== verification/CommandCopy.thy ===== *)
theory CommandCopy
  imports CommandTask
begin

section \<open>The first version of the command task (src/tasks/lora\_task\_base.rs)\<close>

text \<open>
  The file of the radio tasks still holds a command task of its own, which lora\_task.rs has
  replaced: it is compiled, but nothing starts it. It is the task of CommandTask without the
  command that ends the recovery. The names have the suffix \<open>base\<close>.
\<close>

datatype base_local_command =
  BcStartLogging | BcStopLogging | BcGnssOn | BcGnssOff | BcWake | BcDumpInternalFlash
| BcDumpMissionSd | BcStopDump

fun base_command_code :: "base_local_command \<Rightarrow> u8" where
  "base_command_code BcStartLogging = 0x6c"
| "base_command_code BcStopLogging = 0x6d"
| "base_command_code BcGnssOn = 0x67"
| "base_command_code BcGnssOff = 0x68"
| "base_command_code BcWake = 0x77"
| "base_command_code BcDumpInternalFlash = 0x66"
| "base_command_code BcDumpMissionSd = 0x73"
| "base_command_code BcStopDump = 0x78"

definition base_command_decode :: "u8 \<Rightarrow> base_local_command option" where
  "base_command_decode raw =
     (if raw = 0x6c then Some BcStartLogging
      else if raw = 0x6d then Some BcStopLogging
      else if raw = 0x67 then Some BcGnssOn
      else if raw = 0x68 then Some BcGnssOff
      else if raw = 0x77 then Some BcWake
      else if raw = 0x66 then Some BcDumpInternalFlash
      else if raw = 0x73 then Some BcDumpMissionSd
      else if raw = 0x78 then Some BcStopDump
      else None)"

interpretation base_command: wire_enum base_command_code base_command_decode
proof
  show "base_command_decode (base_command_code x) = Some x" for x
    by (cases x) (simp_all add: base_command_decode_def)
  show "base_command_decode raw = Some x \<Longrightarrow> base_command_code x = raw" for raw x
    by (auto simp: base_command_decode_def split: if_splits)
qed

definition queue_command_packet_base ::
  "('l, 'c, 'r, 'g) board_ops \<Rightarrow> command_result_packet \<Rightarrow> ('l, 'c, 'r, 'g) board \<Rightarrow> ('l, 'c, 'r, 'g) board" where
  "queue_command_packet_base ops packet b =
     (case encode (PCommandResult packet) of
        Inl _ \<Rightarrow> b
      | Inr frame \<Rightarrow>
          (case try_send (lora_ops ops) (queued_envelope frame SrcCommandResult) (bd_command_results b) of
             (sent, q) \<Rightarrow>
               let b = b\<lparr>bd_command_results := q\<rparr>
               in if sent then b else count lora_tx_queue_drop_count_update b))"

definition queue_result_base ::
  "('l, 'c, 'r, 'g) board_ops \<Rightarrow> u8 \<Rightarrow> u8 \<Rightarrow> command_phase \<Rightarrow> command_reason \<Rightarrow>
   ('l, 'c, 'r, 'g) board \<Rightarrow> ('l, 'c, 'r, 'g) board" where
  "queue_result_base ops transaction_id command phase reason b =
     queue_command_packet_base ops
       \<lparr>crp_transaction_id = transaction_id, crp_command = command, crp_phase = phase,
        crp_reason = reason, crp_detail = 0\<rparr> b"

definition process_generic_base ::
  "('l, 'c, 'r, 'g) board_ops \<Rightarrow> generic_command_request \<Rightarrow> ('l, 'c, 'r, 'g) board \<Rightarrow>
   command_wait \<times> ('l, 'c, 'r, 'g) board" where
  "process_generic_base ops request b =
     (case register (bd_tracker b) request of (answer, tracker) \<Rightarrow>
        let b = b\<lparr>bd_tracker := tracker\<rparr>
        in (case answer of
              Forward \<Rightarrow> (SendingCan (TxGenericCommandRequest request) None True, b)
            | DuplicatePending \<Rightarrow> (Finished, b)
            | Replay result \<Rightarrow>
                (Finished, queue_command_packet_base ops
                   \<lparr>crp_transaction_id = cr_transaction_id result, crp_command = cr_command result,
                    crp_phase = cr_phase result, crp_reason = cr_reason result, crp_detail = cr_detail result\<rparr> b)
            | ProtocolError \<Rightarrow>
                (Finished, queue_result_base ops (req_transaction_id request) (req_command request)
                             Rejected ProtocolErrorReason b)
            | Busy \<Rightarrow>
                (Finished, queue_result_base ops (req_transaction_id request) (req_command request)
                             Rejected ReasonBusy b)))"

definition process_recovery_base ::
  "('l, 'c, 'r, 'g) board_ops \<Rightarrow> u8 \<Rightarrow> u8 \<Rightarrow> bytes \<Rightarrow> base_local_command \<Rightarrow> ('l, 'c, 'r, 'g) board \<Rightarrow>
   command_wait \<times> ('l, 'c, 'r, 'g) board" where
  "process_recovery_base ops transaction_id command args command_value b =
     (let opcode = (case command_value of
                      BcWake \<Rightarrow> OpWake
                    | BcStopDump \<Rightarrow> OpStopLogDump
                    | _ \<Rightarrow> OpStartLogDump);
          source = (if command_value = BcDumpMissionSd then MissionSdLatestFlight
                    else if command_value = BcStopDump
                    then (case active_source (bd_session b) of None \<Rightarrow> InternalFlash | Some s \<Rightarrow> s)
                    else InternalFlash);
          offset = u32_from_le (args ! 0) (args ! 1) (args ! 2) 0;
          len = u32_from_le (args ! 3) (args ! 4) (args ! 5) 0;
          pending = \<lparr>prec_transaction_id = transaction_id, prec_command = command,
                     prec_opcode = opcode, prec_source = source\<rparr>;
          (started, interrupted, session) =
            (if command_value = BcStopDump
             then (case interrupt_with_stop (bd_session b) pending of
                     (interrupted, session) \<Rightarrow> (True, interrupted, session))
             else (case session_start (bd_session b) pending of
                     (started, session) \<Rightarrow> (started, None, session)));
          b = b\<lparr>bd_session := session\<rparr>
      in if \<not> started
         then (Finished, queue_result_base ops transaction_id command Rejected ReasonBusy b)
         else
           let b = (case interrupted of
                      Some result \<Rightarrow>
                        queue_result_base ops (cr_transaction_id result) (cr_command result)
                          (cr_phase result) (cr_reason result) b
                    | None \<Rightarrow> b);
               b = (if command_value = BcStopDump
                    then b\<lparr>bd_assembler := snd (asm_abort (bd_assembler b))\<rparr> else b);
               b = (if opcode = OpStartLogDump
                    then b\<lparr>bd_assembler := asm_start (bd_assembler b) transaction_id source offset len\<rparr>
                    else b)
           in (SendingCan
                 (TxRecoveryControl \<lparr>rctl_opcode = opcode, rctl_source = source,
                    rctl_transfer_id = transaction_id, rctl_offset = offset, rctl_length = len\<rparr>)
                 (Some (plain_result transaction_id command Accepted NoReason)) False, b))"

definition process_local_base ::
  "('l, 'c, 'r, 'g) board_ops \<Rightarrow> u8 \<Rightarrow> u8 \<Rightarrow> bytes \<Rightarrow> ('l, 'c, 'r, 'g) board \<Rightarrow>
   command_wait \<times> ('l, 'c, 'r, 'g) board" where
  "process_local_base ops transaction_id command args b =
     (case base_command_decode command of
        None \<Rightarrow> (Finished, queue_result_base ops transaction_id command Rejected NotSupported b)
      | Some command_value \<Rightarrow>
          let recovery_dump = command_value = BcDumpInternalFlash \<or> command_value = BcDumpMissionSd;
              completed = plain_result transaction_id command Completed NoReason
          in if \<not> recovery_dump \<and> list_ex (\<lambda>value. value \<noteq> 0) args
             then (Finished, queue_result_base ops transaction_id command Rejected InvalidArgument b)
             else (case command_value of
                 BcStartLogging \<Rightarrow>
                   (Finished, queue_command_packet_base ops completed (b\<lparr>bd_logging_requested := True\<rparr>))
               | BcStopLogging \<Rightarrow>
                   (Finished, queue_command_packet_base ops completed
                      (b\<lparr>bd_logging_requested := False, bd_sd_flush_signals := bd_sd_flush_signals b + 1\<rparr>))
               | BcGnssOn \<Rightarrow> (SendingGnss GnssTurnOn (Some completed), b)
               | BcGnssOff \<Rightarrow> (SendingGnss GnssTurnOff (Some completed), b)
               | _ \<Rightarrow> process_recovery_base ops transaction_id command args command_value b))"

definition process_command_base ::
  "('l, 'c, 'r, 'g) board_ops \<Rightarrow> uplink_command \<Rightarrow> ('l, 'c, 'r, 'g) board \<Rightarrow>
   command_wait \<times> ('l, 'c, 'r, 'g) board" where
  "process_command_base ops command b =
     (case command of
        UpMissionGeneric request \<Rightarrow> process_generic_base ops request b
      | UpActuatorEmergency _ \<Rightarrow> (Finished, b)
      | UpLiftoffDetectionEmergency _ \<Rightarrow> (Finished, b)
      | UpComBoardLocal transaction_id command args \<Rightarrow> process_local_base ops transaction_id command args b
      | UpGroundTimeResponse request_id source unix_seconds milliseconds \<Rightarrow>
          (SendingCan (TxTimeResponse request_id source unix_seconds milliseconds) None False, b))"

subsection \<open>Equivalence with the task that runs\<close>

fun later_command :: "base_local_command \<Rightarrow> local_command" where
  "later_command BcStartLogging = LcStartLogging"
| "later_command BcStopLogging = LcStopLogging"
| "later_command BcGnssOn = LcGnssOn"
| "later_command BcGnssOff = LcGnssOff"
| "later_command BcWake = LcWake"
| "later_command BcDumpInternalFlash = LcDumpInternalFlash"
| "later_command BcDumpMissionSd = LcDumpMissionSd"
| "later_command BcStopDump = LcStopDump"

lemma base_decode:
  "base_command_decode command = None \<Longrightarrow> command \<noteq> LOCAL_EXIT_RECOVERY_COMMAND \<Longrightarrow> local_command_decode command = None"
  "base_command_decode command = Some c \<Longrightarrow> local_command_decode command = Some (later_command c)"
  by (auto simp: base_command_decode_def local_command_decode_def split: if_splits)

lemma base_queues:
  "queue_command_packet_base = queue_command_packet" "queue_result_base = queue_result"
  by (intro ext; simp add: queue_command_packet_base_def queue_command_packet_def queue_result_base_def
      queue_result_def plain_result_def)+

lemma process_generic_same: "process_generic_base = process_generic"
  unfolding process_generic_base_def process_generic_def base_queues packet_of_result_def ..

lemma process_recovery_same:
  "c \<in> {BcWake, BcDumpInternalFlash, BcDumpMissionSd, BcStopDump} \<Longrightarrow>
   process_recovery_base ops k command args c b = process_recovery ops k command args (later_command c) b"
  unfolding process_recovery_base_def process_recovery_def base_queues Let_def by (auto split: prod.split)

lemma process_local_same:
  assumes "command \<noteq> LOCAL_EXIT_RECOVERY_COMMAND"
  shows "process_local_base ops k command args b = process_local ops k command args b"
proof (cases "base_command_decode command")
  case None
  with base_decode(1) [OF None assms] show ?thesis
    by (simp add: process_local_base_def process_local_def base_queues)
next
  case (Some c)
  with base_decode(2) [OF Some] show ?thesis
    by (cases c) (simp_all add: process_local_base_def process_local_def base_queues process_recovery_same Let_def)
qed

text \<open>
  The command task that runs is the first version with one command added: on every other
  command of the ground, in every state of the board, both do the same step by step; the first
  version answers the command that ends the recovery with NotSupported.
\<close>

theorem command_task_extends_base:
  "process_command_base ops command b =
     (case command of
        UpComBoardLocal k code args \<Rightarrow>
          if code = LOCAL_EXIT_RECOVERY_COMMAND
          then (Finished, queue_command_packet ops (packet_of_result (local_result k code (Rejected, NotSupported))) b)
          else process_command ops command b
      | _ \<Rightarrow> process_command ops command b)"
proof -
  have "base_command_decode LOCAL_EXIT_RECOVERY_COMMAND = None" by (simp add: base_command_decode_def)
  then have "process_local_base ops k LOCAL_EXIT_RECOVERY_COMMAND args b =
      (Finished, queue_result ops k LOCAL_EXIT_RECOVERY_COMMAND Rejected NotSupported b)" for k args
    by (simp add: process_local_base_def base_queues)
  then show ?thesis
    by (simp add: process_command_base_def process_command_def process_generic_same process_local_same
      queue_result_def plain_result_eq split: uplink_command.split)
qed

end
