(* ===== verification/Entry.thy ===== *)
theory Entry
  imports CanTask GnssTask SdLog
begin

section \<open>The entry point (src/bin/main.rs)\<close>

text \<open>
  \<open>main\<close> configures the hardware, turns the GNSS receiver on, starts the tasks on both cores and then
  shows the state of the board: an LED that blinks while the CAN link is in error, and every ten
  seconds a line with all counters. What is modelled here is the acceptance filter of the CAN
  controller, the start of the tasks, and the final loop.
\<close>

subsection \<open>The acceptance filter\<close>

text \<open>
  \<open>SingleStandardFilter\<close> belongs to the driver: whether it lets an identifier pass is a parameter. Its
  documentation says that a pattern has one letter for each of the eleven bits, most significant
  first, and that x stands for any value. The patterns of the RTR bit and of the data bytes are all x.
\<close>

definition CAN_FILTER_ID :: string where "CAN_FILTER_ID = ''0xxxxxxxxxx''"

fun letter_matches :: "char \<Rightarrow> bool \<Rightarrow> bool" where
  "letter_matches c v \<longleftrightarrow> c = CHR ''x'' \<or> c = (if v then CHR ''1'' else CHR ''0'')"

definition filter_contract :: "(string \<Rightarrow> u16 \<Rightarrow> bool) \<Rightarrow> bool" where
  "filter_contract accepts \<longleftrightarrow>
     (\<forall>pattern ident. length pattern = 11 \<longrightarrow> ident < 0x800 \<longrightarrow>
        accepts pattern ident = list_all2 letter_matches pattern (map (bit ident) [10, 9, 8, 7, 6, 5, 4, 3, 2, 1, 0]))"

subsection \<open>Starting the tasks\<close>

datatype firmware_task =
  GnssManagerTask | SdWriteTask | LoraTimingReportTask | CanCommunicationTask | CommandProcessTask
| RecoveryPowerCacheTask | ParseGnssTask | GnssTimeResponseTask | LoraRxTask | LoraTxTask

definition core0_tasks :: "bool \<Rightarrow> firmware_task list" where
  "core0_tasks timing_debug = [GnssManagerTask, SdWriteTask] @ (if timing_debug then [LoraTimingReportTask] else [])"

definition core1_tasks :: "firmware_task list" where
  "core1_tasks = [CanCommunicationTask, CommandProcessTask, RecoveryPowerCacheTask, ParseGnssTask,
     GnssTimeResponseTask, LoraRxTask, LoraTxTask]"

text \<open>\<open>GNSS_CMD_CHANNEL.send(TurnOn)\<close>; \<open>None\<close>: the channel is full and \<open>main\<close> waits.\<close>

definition turn_gnss_on :: "('l, 'c, 'r, 'g) board_ops \<Rightarrow> ('l, 'c, 'r, 'g) board \<Rightarrow> ('l, 'c, 'r, 'g) board option" where
  "turn_gnss_on ops b =
     (case try_send (gnss_ops ops) GnssTurnOn (bd_gnss_commands b) of
        (sent, q) \<Rightarrow> if sent then Some (b\<lparr>bd_gnss_commands := q\<rparr>) else None)"

subsection \<open>The status line\<close>

datatype stat_value = Flag bool | Number nat | Receiver gnss_receiver_state

definition hwstat_line ::
  "('l, 'c, 'r, 'g) board \<Rightarrow> 's gnss_statics \<Rightarrow> sd_task \<Rightarrow> (string \<times> stat_value) list" where
  "hwstat_line b g t =
     (let gnss = gs_telemetry g; n = bd_counters b
      in [(''can_err'', Flag (bd_is_can_error b)),
          (''can_health'', Number (unat (bd_can_health b))),
          (''tec'', Number (unat (bd_can_tec b))),
          (''rec'', Number (unat (bd_can_rec b))),
          (''can_tx_ok'', Number (unat (can_tx_success_count n))),
          (''can_rx_ok'', Number (unat (can_rx_success_count n))),
          (''can_tx_err'', Number (unat (can_tx_error_count n))),
          (''can_rx_err'', Number (unat (can_rx_error_count n))),
          (''lora_tx_ok'', Number (unat (rst_tx_success_count t))),
          (''lora_rx_ok'', Number (unat (rst_rx_success_count t))),
          (''lora_rx_bytes'', Number (unat (rst_rx_byte_count t))),
          (''lora_tx_err'', Number (unat (rst_tx_error_count t))),
          (''lora_rx_err'', Number (unat (rst_rx_error_count t))),
          (''lora_aux_timeout'', Number (unat (rst_aux_timeout_count t))),
          (''lora_tx_qdrop'', Number (unat (lora_tx_queue_drop_count n))),
          (''lora_emergency_drop'', Number (unat (lora_emergency_result_drop_count n))),
          (''lora_b1_drop'', Number (unat (lora_ground_time_request_drop_count n))),
          (''lora_b1_dup'', Number (unat (lora_ground_time_request_duplicate_count n))),
          (''lora_periodic_missed'', Number (unat (rst_periodic_missed_slot_count t))),
          (''lora_cmd_drop'', Number (unat (rst_command_drop_count t))),
          (''sd_req'', Flag (bd_logging_requested b)),
          (''sd_active'', Flag (rst_logging_active t)),
          (''sd_error'', Flag (rst_sd_has_error t)),
          (''sd_dirty'', Flag (rst_has_unflushed_data t)),
          (''sd_write_err'', Number (unat (sd_write_error_count t))),
          (''sd_row_drop'', Number (unat (sd_dropped_row_count t))),
          (''can_log_drop'', Number (unat (raw_can_log_dropped_count n))),
          (''gnss'', Receiver (gt_state gnss)),
          (''east'', Number (unat (gt_east gnss))),
          (''north'', Number (unat (gt_north gnss))),
          (''height'', Number (unat (gt_height gnss))),
          (''gnss_setting_err'', Number (unat (gs_setting_error_count g))),
          (''gnss_rx_err'', Number (unat (gs_rx_error_count g))),
          (''gnss_drop'', Number (unat (gs_channel_drop_count g)))])"

text \<open>
  One turn of the loop, every 100 ms. The LED and the line look at the statics at the same moment;
  the code reads them one after the other.
\<close>

record main_loop =
  ml_led1 :: bool
  ml_hwstat_ticks :: u8

definition new_main_loop :: main_loop where
  "new_main_loop = \<lparr>ml_led1 = False, ml_hwstat_ticks = 0\<rparr>"

definition main_turn ::
  "('l, 'c, 'r, 'g) board \<times> 's gnss_statics \<times> sd_task \<Rightarrow> main_loop \<Rightarrow>
   (string \<times> stat_value) list option \<times> main_loop" where
  "main_turn statics m =
     (case statics of (b, g, t) \<Rightarrow>
        let m = m\<lparr>ml_led1 := bd_is_can_error b \<and> \<not> ml_led1 m\<rparr>;
            m = m\<lparr>ml_hwstat_ticks := ml_hwstat_ticks m + 1\<rparr>
        in if ml_hwstat_ticks m = 100
           then (Some (hwstat_line b g t), m\<lparr>ml_hwstat_ticks := 0\<rparr>)
           else (None, m))"

fun main_turns ::
  "(('l, 'c, 'r, 'g) board \<times> 's gnss_statics \<times> sd_task) list \<Rightarrow> main_loop \<Rightarrow>
   (string \<times> stat_value) list option list \<times> main_loop" where
  "main_turns [] m = ([], m)"
| "main_turns (s # ss) m =
     (case main_turn s m of (line, m) \<Rightarrow> case main_turns ss m of (lines, m) \<Rightarrow> (line # lines, m))"

subsection \<open>What the filter keeps out\<close>

lemma filtered_identifiers:
  assumes "filter_contract accepts" "ident < 0x800"
  shows "accepts CAN_FILTER_ID ident \<longleftrightarrow> ident < 0x400"
proof -
  have "accepts CAN_FILTER_ID ident \<longleftrightarrow> \<not> bit ident 10"
    using assms by (auto simp: filter_contract_def CAN_FILTER_ID_def)
  also have "bit ident 10 \<longleftrightarrow> 1024 \<le> unat ident"
  proof -
    have "unat ident div 1024 < 2" using assms(2) by (simp add: word_less_nat_alt)
    then have "odd (unat ident div 1024) \<longleftrightarrow> 1024 \<le> unat ident" by (auto simp: less_2_cases_iff)
    moreover have "bit ident 10 \<longleftrightarrow> bit (unat ident) 10" by (simp add: bit_unsigned_iff)
    ultimately show ?thesis by (simp add: bit_iff_odd [of "unat ident"])
  qed
  finally show ?thesis by (simp add: word_less_nat_alt not_le)
qed

text \<open>
  C35. The acceptance filter of the CAN controller keeps out nothing the board could use. If a
  standard frame it holds back came through, the CAN task would do with it just this: log it,
  count it as received and as an error, and take it as a sign of life of the bus (the errors of the
  receiver start again at zero, and the link is normal unless the fate of a transmission is
  unknown). No message, statistic of an identifier, command, telemetry value or time request comes of
  it. Every message of the Mission board, mode commands and health reports included, gets through.
\<close>

theorem filter_loses_nothing:
  assumes "filter_contract accepts" "ident < 0x800" "\<not> accepts CAN_FILTER_ID ident"
  shows "handle_wakeup drv ops (FrameReceived \<lparr>fr_id = StandardId ident, fr_data = data\<rparr> received_ms) (t, b) =
    Some (t\<lparr>ct_consecutive_rx_errors := 0,
            ct_runtime_state := if ct_runtime_state t = TxStateUnknown then TxStateUnknown else RuntimeNormal\<rparr>,
          count can_rx_error_count_update
            (log_raw_frame ops ident data received_ms (count can_rx_success_count_update b)))"
proof -
  have "0x400 \<le> ident" using filtered_identifiers [OF assms(1,2)] assms(3) by simp
  then have other: "ident \<noteq> k" if "k < 0x400" for k using that by auto
  then have frame: "handle_received_frame ops \<lparr>fr_id = StandardId ident, fr_data = data\<rparr> received_ms previous b =
      (previous, count can_rx_error_count_update (log_raw_frame ops ident data received_ms b))" for previous b
    by (simp add: handle_received_frame_def decode_standard_def FRAME_DEVICE_HEALTH_def Let_def)
  have "\<forall>w \<in> set OBSERVED_CAN_IDS. w \<noteq> ident" using other by (auto simp: OBSERVED_CAN_IDS_def)
  then have "observe ident data stats = stats" for stats
    by (simp add: observe_def position_None [THEN iffD2])
  moreover have "fst (transition_runtime state ReceiveSucceeded) =
      (if state = TxStateUnknown then TxStateUnknown else RuntimeNormal)" for state
    by (cases state) simp_all
  ultimately show ?thesis by (simp add: frame Let_def)
qed

definition demo_filter :: "string \<Rightarrow> u16 \<Rightarrow> bool" where
  "demo_filter pattern ident =
     list_all2 letter_matches pattern (map (bit ident) [10, 9, 8, 7, 6, 5, 4, 3, 2, 1, 0])"

lemma filter_loses_nothing_witness:
  "\<not> demo_filter CAN_FILTER_ID 0x5a5 \<and>
   (case handle_wakeup reference_driver list_ops (FrameReceived \<lparr>fr_id = StandardId 0x5a5, fr_data = [1]\<rparr> 7)
       (initial_can_task, list_start) of
      None \<Rightarrow> False
    | Some (t, b) \<Rightarrow> ct_runtime_state t = RuntimeNormal \<and> ct_observed t = new_observed_stats \<and>
        b = count can_rx_error_count_update
          (log_raw_frame list_ops 0x5a5 [1] 7 (count can_rx_success_count_update list_start)))"
proof -
  have contract: "filter_contract demo_filter" by (simp add: filter_contract_def demo_filter_def)
  have out: "\<not> demo_filter CAN_FILTER_ID 0x5a5" by code_simp
  have small: "0x5a5 < (0x800 :: u16)" by simp
  from out show ?thesis
    unfolding filter_loses_nothing [OF contract small out] by (simp add: initial_can_task_def)
qed

subsection \<open>What the LED and the status line show\<close>

lemma main_turns_snoc:
  "main_turns (ss @ [s]) m =
     (case main_turns ss m of (lines, m) \<Rightarrow> case main_turn s m of (line, m) \<Rightarrow> (lines @ [line], m))"
  by (induction ss arbitrary: m) (simp_all split: prod.split)

abbreviation can_error :: "('l, 'c, 'r, 'g) board \<times> 's gnss_statics \<times> sd_task \<Rightarrow> bool" where
  "can_error s \<equiv> bd_is_can_error (fst s)"

text \<open>
  The LED blinks with a period of two turns exactly while the CAN link is in error: after any
  turns it is on exactly when the error has lasted for an odd number of turns. The status line is
  printed in every hundredth turn, ten seconds apart, with the counters of that turn, and in no
  other; the 8-bit counter of the turns never overflows.
\<close>

theorem status_shown:
  assumes "main_turns ss new_main_loop = (lines, m)"
  shows "lines = map (\<lambda>i. if Suc i mod 100 = 0
           then Some (case ss ! i of (b, g, t) \<Rightarrow> hwstat_line b g t) else None) [0..<length ss] \<and>
    (ml_led1 m \<longleftrightarrow> odd (length (takeWhile can_error (rev ss)))) \<and>
    unat (ml_hwstat_ticks m) = length ss mod 100"
  using assms
proof (induction ss arbitrary: lines m rule: rev_induct)
  case Nil
  then show ?case by (auto simp: new_main_loop_def)
next
  case (snoc s ss)
  obtain lines' m' where run: "main_turns ss new_main_loop = (lines', m')" by fastforce
  note ih = snoc.IH [OF run]
  obtain line where turn: "main_turn s m' = (line, m)" and lines: "lines = lines' @ [line]"
    using snoc.prems by (auto simp: main_turns_snoc run split: prod.splits)
  have "unat (ml_hwstat_ticks m' + 1) = length ss mod 100 + 1"
    using ih mod_less_divisor [of 100 "length ss"] by (simp add: unat_word_ariths)
  then have ticks: "ml_hwstat_ticks m' + 1 = 100 \<longleftrightarrow> Suc (length ss) mod 100 = 0"
    "unat (ml_hwstat_ticks m' + 1) = length ss mod 100 + 1"
    by (auto simp: word_unat_eq_iff mod_Suc)
  have "map (\<lambda>i. if Suc i mod 100 = 0 then Some (case (ss @ [s]) ! i of (b, g, t) \<Rightarrow> hwstat_line b g t) else None)
      [0..<length ss] = lines'"
    using ih by (auto simp: nth_append)
  then show ?case
    using ih turn ticks
    by (cases s) (auto simp: main_turn_def lines Let_def nth_append mod_Suc split: if_splits)
qed


subsection \<open>The start\<close>

lemma tasks_started_once:
  "distinct (core0_tasks timing_debug @ core1_tasks)"
  "timing_debug \<Longrightarrow> set (core0_tasks timing_debug @ core1_tasks) = UNIV"
proof -
  show "distinct (core0_tasks timing_debug @ core1_tasks)" by (simp add: core0_tasks_def core1_tasks_def)
  have "task \<in> set (core0_tasks True @ core1_tasks)" for task
    by (cases task) (simp_all add: core0_tasks_def core1_tasks_def)
  then show "timing_debug \<Longrightarrow> set (core0_tasks timing_debug @ core1_tasks) = UNIV" by auto
qed

text \<open>The start does not wait: the queue of the receiver is empty, and its first command turns it on.\<close>

lemma receiver_turned_on:
  assumes "fifo_channel (gnss_ops ops) contents capacity" "contents (bd_gnss_commands b) = []"
    "0 < capacity (bd_gnss_commands b)"
  shows "\<exists>q. turn_gnss_on ops b = Some (b\<lparr>bd_gnss_commands := q\<rparr>) \<and> contents q = [GnssTurnOn]"
  using assms by (auto simp: turn_gnss_on_def split_beta fifo_channel.laws [OF assms(1)])

end
