(* ===== verification/Spec2Isabelle.thy ===== *)
theory Spec2Isabelle
  imports Prelude Protocol Command Recovery Cache Payload Scheduler Uplink GnssTime Channels Board CanDriver CanTask CanQueues CanOutage CanDump CanStatus CommandTask TwoTasks
    RecoveryPower GnssSettings Nmea GnssTask GnssLines GnssState GnssClock
    RadioPackets RadioContents RadioReceive RadioHardware RadioSend RadioOrder RadioGap
    SdRows SdLog SdLoss SdVerify LoraTiming RadioTiming EmergencyPath ResultPath CommandCopy Entry
begin

text \<open>
  Verification of the communication board firmware (Rust, src/): the board forwards commands of
  the ground, received over LoRa, to the Mission board over CAN, and sends telemetry, command
  results and recovered flight logs to the ground.

  \<^bold>\<open>Parts of the program and theories\<close>

  The pure modules, one theory each:
  \<^item> Protocol: src/can/protocol.rs, every CAN message, its encoder and the standard frame decoder;
  \<^item> Command: src/can/command.rs, the tracker of pending transactions and cached results;
  \<^item> Recovery: src/can/recovery.rs, the recovery session and the assembler of log chunks;
  \<^item> Cache: src/can/cache.rs, the newest telemetry, its freshness and the latched event flags;
  \<^item> Payload: src/payload.rs, the bit writer, the nine LoRa packets and the frame;
  \<^item> Scheduler: src/lora\_scheduler.rs, priorities, deadlines and fairness of transmissions;
  \<^item> Uplink: src/lora\_uplink.rs, the command frames of the ground and their frame buffer;
  \<^item> GnssTime: src/gnss/time.rs, the RMC sentence and Unix time;
  \<^item> CanDriver: src/can/health.rs and src/can/tx.rs;
  \<^item> GnssSettings: src/gnss/settings.rs, the configuration of the receiver over a script of UART
    events;
  \<^item> Nmea: src/gnss/nmea.rs and src/gnss/telemetry.rs over abstract floating point operations.

  The tasks and what they share:
  \<^item> Channels: the interface of the embassy channels as a locale of their laws, with bounded
    lists as the instance;
  \<^item> Board: src/state.rs, the statics as one record over arbitrary channels;
  \<^item> CanTask: src/tasks/can\_communication.rs, with its theorems in CanQueues (what enters and
    leaves the queues), CanOutage (restarts of the controller), CanDump (the way of a dump to the
    radio) and CanStatus (the beacon and the error flag);
  \<^item> CommandTask: src/tasks/lora\_task.rs, the commands of the ground;
  \<^item> TwoTasks: the CAN task and the command task as interleaved steps;
  \<^item> RecoveryPower: src/tasks/recovery\_power\_task.rs, the power values of the recovery beacon;
  \<^item> GnssTask: src/tasks/gnss\_task.rs, with its theorems in GnssLines (the line assembler),
    GnssState (what the telemetry shows) and GnssClock (time responses);
  \<^item> the radio tasks, src/tasks/lora\_task\_base.rs: RadioPackets (the periodic packets), with
    RadioContents (what they show), RadioReceive (the receiving task), RadioHardware (one
    transmission at the radio module), RadioSend (the transmitting task as a step relation), with
    RadioOrder (every frame is accounted for) and RadioGap (distance of the recovery chunks,
    urgency, and a chunk that is lost);
  \<^item> SdRows (the rows of the log files as text) and SdLog: src/tasks/sd\_task.rs, with SdLoss (rows
    that are lost without being counted);
  \<^item> SdVerify: test/sd\_log\_verify.rs, the program that checks a log on the board;
  \<^item> EmergencyPath: the receiving radio task and the CAN task interleaved on the safety queue, into
    which the CAN task itself puts a request to stop a dump that failed;
  \<^item> ResultPath: the CAN task and the transmitting radio task interleaved on the queue of
    emergency results;
  \<^item> LoraTiming: src/lora\_timing.rs, the statistics of the debug build, and RadioTiming: how the
    transmitting task takes the times and prints the reports;
  \<^item> CommandCopy: the first version of the command task, which src/tasks/lora\_task\_base.rs still
    holds though nothing starts it;
  \<^item> Entry: src/bin/main.rs, the acceptance filter, the start of the tasks, the LED and the status
    line.

  Prelude holds the word types of the source, the wrapping, checked and saturating arithmetic of
  Rust, the error type and lemmas on lists and words that the theories share.

  \<^bold>\<open>Correspondence\<close>

  A struct is a record, an enum a datatype; machine integers are words of their width, a length
  or an index (usize) is a natural number. A fallible function returns a sum or an option; an
  operation that changes its object returns the new one. Functions have the name of the source;
  a prefix or suffix is added where two modules share a name. A Mutex or an atomic is a field of
  the board, a channel a value of a type parameter with the laws of \<open>fifo_channel\<close>. Time and the
  readings and outcomes of the CAN controller are arguments. While a task waits, others run:
  the script of the transmission loop gives their effect as arbitrary functions on the board,
  and TwoTasks interleaves single steps. In the radio tasks a step of the others may change all
  that is shared, in any way, except that each queue holds frames of its own kind. An instant
  counts microseconds, the tick of this board. The steps of the tasks are those of the build without
  lora-timing-debug, so the enqueue times of LoRa envelopes are left out; RadioTiming has the stages
  of the debug build and shows that they send the same. Of what is printed only the timing report
  and the status line are kept. The SD task and the receiver's
  manager run on a core of their own: what the SD task reads of the other core may change between
  two looks. A periodic packet takes the flags of that core as they are at one moment, although
  the code reads them one after the other. The card is a list of answers to the calls of the task,
  and what the task asked of it is the list of its events.

  \<^bold>\<open>What the theorems show\<close>

  For the codecs: round trips and exact sets of accepted inputs. For the uplink buffer and the
  GNSS lines: equality with a reference that reads the whole byte string, whatever noise it
  holds. For the tracker, the session and the assembler: contracts on an abstract state (for the
  tracker a list of answers in their order),
  invariants of all runs, exactly-once and replay guarantees, and where they end (two theorems
  show a defect: the resume offset past discarded bytes, and results that age too early). For the
  tasks: that a dump arrives complete, that every failed request is answered, that safety requests
  go first and the transmission loop ends, that a dead bus gives one restart, that the beacon is
  switched only by the right frames, that a repeated command is sent once, that the lock held over
  a wait can block both tasks for ever, that the beacon shows the power values as received, that a
  configuration reports what the receiver acknowledged, that no code is passed off as a position,
  and that time requests are answered to the millisecond, until the 32-bit time of the last
  sentence has overflowed. For the radio: that every periodic packet encodes and reads back as
  the one the state asks for, without stale values, that only events the ground has seen are
  cleared, that every uplink frame has its outcome and every emergency stop gets to the bus, that transmissions keep their distance to
  reception and write whole frames, that the transmitting task loses no answer, sends the most
  urgent frame and keeps recovery chunks 200 ms apart, and that it can lose a deferred chunk. For
  the log files: that every row is accounted for, that a file read as text gives back the frames,
  that the verifier of the repository accepts it and when it passes,
  and that the status flags tell the truth, though lost rows are not counted; for the timing
  reports: that they are the statistics of their ten transmissions, and that none of these is left
  out of an average while the clock goes forward. From the bus to the ground: that the acceptance
  filter holds back no frame of use, and that every emergency result is tried on the air once and in
  order, or counted as dropped. The first version of the command task equals the one that runs, but
  for the command added since.

  The transmission loop takes one script entry for each transmission, with no bound of its own;
  \<open>safety_requests_first\<close> gives the number of entries after which it ends. The loop that empties
  the sentence channel is a partial function; \<open>turn_off_ends\<close> shows that it terminates. The guard
  wait of the radio and the writing of a frame read a script of what they meet, and still wait when
  it is used up; a step of the transmitting task takes a script that is long enough. No other
  definition needs fuel.

  What a theorem compares the code with is stated apart from it: the calendar by a table of the
  months (\<open>month_length\<close>), the age of a value by \<open>recent\<close>, the memory of the tracker by
  \<open>memory_step\<close>, the unrequested emergency results by \<open>frame_alarm\<close>, the answers of local commands
  by \<open>local_answer\<close> and \<open>local_done\<close>, with the codes and times of the documents as numbers.
  Where a claim needs room in a queue, queues the others leave alone, or a clock that does not run
  backwards, its text says so; the power values of the beacon leave out frames received in the
  same millisecond as the tick before them, which the task loses.

  \<^bold>\<open>Not modelled\<close>

  Of src/bin/main.rs the configuration of pins, buses, the card and the stack of the second core,
  which only calls the hardware library; the mod.rs files and lib.rs, which declare modules; of
  src/tasks/sd\_task.rs the clock of the file system, which a library converts; log messages. Of
  the tests only the log verifier is part of the model, without its hardware setup and its printing.
\<close>

end
